(* ===== verification/Qrysm_Prelude.thy ===== *)
theory Qrysm_Prelude
  imports Main "HOL-Library.Word"
begin

text \<open>
  Shared vocabulary of the development: machine integers and byte strings, Go's two ways to fail
  (a returned \<open>error\<close> and a \<open>panic\<close>) as the values of one sum type, the fold that stops at the
  first failure, and the generic facts on words, lists and results that the component theories use.
  \<^item> \<open>res_simps\<close> collects the rewriting rules for results and failing folds;
  \<^item> \<open>word_facts\<close> collects the rules that move unsigned words to natural numbers.
\<close>

unbundle bit_operations_syntax

named_theorems res_simps \<open>rewriting of results\<close>
named_theorems word_facts \<open>unsigned words read as natural numbers\<close>

section \<open>Machine integers and bytes\<close>

type_synonym u64 = "64 word"
type_synonym u32 = "32 word"
type_synonym u16 = "16 word"
type_synonym u8 = "8 word"
type_synonym i64 = "64 word" \<comment> \<open>Go's \<open>int\<close>: read with \<open>sint\<close>, compared with \<open>\<le>s\<close>\<close>
type_synonym bytes = "u8 list"

abbreviation max_u64 :: u64 where
  "max_u64 \<equiv> 18446744073709551615"

section \<open>Failures and results\<close>

datatype fail =
    Err string    \<comment> \<open>a non-nil \<open>error\<close> is returned, with the constant part of its message\<close>
  | Panic string  \<comment> \<open>the goroutine panics\<close>

type_synonym 'a res = "fail + 'a"

definition bindR :: "'a res \<Rightarrow> ('a \<Rightarrow> 'b res) \<Rightarrow> 'b res" where
  "bindR m f = (case m of Inl e \<Rightarrow> Inl e | Inr x \<Rightarrow> f x)"

lemma bindR_simps [simp, res_simps]:
  "bindR (Inl e) f = Inl e"
  "bindR (Inr x) f = f x"
  by (simp_all add: bindR_def)

lemma bindR_eq_Inr [res_simps]:
  "bindR m f = Inr y \<longleftrightarrow> (\<exists>x. m = Inr x \<and> f x = Inr y)"
  by (cases m) simp_all

lemma bindR_eq_Inl [res_simps]:
  "bindR m f = Inl e \<longleftrightarrow> m = Inl e \<or> (\<exists>x. m = Inr x \<and> f x = Inl e)"
  by (cases m) auto

lemma bindR_assoc: "bindR (bindR m f) g = bindR m (\<lambda>x. bindR (f x) g)"
  by (cases m) simp_all

lemma bindR_Inr_right [simp]: "bindR m Inr = m"
  by (cases m) simp_all

lemma bindR_cong [fundef_cong]:
  "m = m' \<Longrightarrow> (\<And>x. m' = Inr x \<Longrightarrow> f x = f' x) \<Longrightarrow> bindR m f = bindR m' f'"
  by (cases m') (auto simp: bindR_def)

text \<open>\<open>errors.Wrap\<close> puts a message in front of an error and leaves panics alone.\<close>

fun wrapR :: "string \<Rightarrow> 'a res \<Rightarrow> 'a res" where
  "wrapR msg (Inl (Err e)) = Inl (Err (msg @ '': '' @ e))"
| "wrapR msg (Inl (Panic p)) = Inl (Panic p)"
| "wrapR msg (Inr x) = Inr x"

lemma wrapR_eq_Inr [simp]: "wrapR msg m = Inr x \<longleftrightarrow> m = Inr x"
  by (cases "(msg, m)" rule: wrapR.cases) auto

lemma wrapR_eq_Inl: "wrapR msg m = Inl e \<Longrightarrow> \<exists>e'. m = Inl e'"
  by (cases "(msg, m)" rule: wrapR.cases) auto

text \<open>A Go \<open>for ... range\<close> loop whose body may return early with an error.\<close>

fun foldR :: "('a \<Rightarrow> 'b \<Rightarrow> 'b res) \<Rightarrow> 'a list \<Rightarrow> 'b \<Rightarrow> 'b res" where
  "foldR f [] s = Inr s"
| "foldR f (x # xs) s = bindR (f x s) (foldR f xs)"

lemma foldR_append: "foldR f (xs @ ys) s = bindR (foldR f xs s) (foldR f ys)"
proof (induction xs arbitrary: s)
  case (Cons x xs)
  then show ?case by (cases "f x s") simp_all
qed simp

text \<open>An invariant of the loop body is an invariant of the loop.\<close>

lemma foldR_invariant:
  assumes "foldR f xs s = Inr t" and "P s"
    and "\<And>x s s'. x \<in> set xs \<Longrightarrow> P s \<Longrightarrow> f x s = Inr s' \<Longrightarrow> P s'"
  shows "P t"
  using assms
proof (induction xs arbitrary: s)
  case Nil
  then show ?case by simp
next
  case (Cons x xs)
  from Cons.prems(1) obtain u where u: "f x s = Inr u" "foldR f xs u = Inr t"
    by (auto simp: bindR_eq_Inr)
  have "P u"
    using Cons.prems(2,3) u(1) by (meson list.set_intros(1))
  then show ?case
    using Cons.IH [OF u(2)] Cons.prems(3) by (meson list.set_intros(2))
qed

text \<open>Mapping a fallible function over a list, left to right.\<close>

fun mapR :: "('a \<Rightarrow> 'b res) \<Rightarrow> 'a list \<Rightarrow> 'b list res" where
  "mapR f [] = Inr []"
| "mapR f (x # xs) = bindR (f x) (\<lambda>y. bindR (mapR f xs) (\<lambda>ys. Inr (y # ys)))"

lemma mapR_length: "mapR f xs = Inr ys \<Longrightarrow> length ys = length xs"
  by (induction xs arbitrary: ys) (auto simp: bindR_eq_Inr)

lemma mapR_nth: "mapR f xs = Inr ys \<Longrightarrow> i < length xs \<Longrightarrow> f (xs ! i) = Inr (ys ! i)"
proof (induction xs arbitrary: ys i)
  case Nil
  then show ?case by simp
next
  case (Cons x xs)
  then show ?case by (cases i) (auto simp: bindR_eq_Inr)
qed

lemma mapR_total: "(\<And>x. x \<in> set xs \<Longrightarrow> f x = Inr (g x)) \<Longrightarrow> mapR f xs = Inr (map g xs)"
  by (induction xs) simp_all

text \<open>The slice expression \<open>xs[a:b]\<close>.\<close>

definition go_slice :: "'a list \<Rightarrow> nat \<Rightarrow> nat \<Rightarrow> 'a list res" where
  "go_slice xs a b =
     (if a \<le> b \<and> b \<le> length xs then Inr (take (b - a) (drop a xs)) else Inl (Panic ''slice bounds out of range''))"

text \<open>Consecutive slices cut a list into pieces that give it back.\<close>

lemma concat_slices:
  assumes "\<And>i. i < n \<Longrightarrow> f i \<le> f (Suc i)"
  shows "concat (map (\<lambda>i. take (f (Suc i) - f i) (drop (f i) xs)) [0..<n]) = take (f n - f 0) (drop (f 0) xs)"
  using assms
proof (induction n)
  case 0
  then show ?case by simp
next
  case (Suc n)
  have le: "f 0 \<le> f n"
    using Suc.prems by (intro lift_Suc_mono_le [of "\<lambda>i. f (min i n)" 0 n, simplified]) (auto simp: min_def le_Suc_eq not_less_eq_eq)
  have "take (f n - f 0) (drop (f 0) xs) @ take (f (Suc n) - f n) (drop (f n) xs) =
      take (f (Suc n) - f 0) (drop (f 0) xs)"
    using le Suc.prems [of n] take_add [of "f n - f 0" "f (Suc n) - f n" "drop (f 0) xs"] by simp
  then show ?case
    using Suc by simp
qed

section \<open>Words as natural numbers\<close>

lemma unat_lt_2_64: "unat (x :: u64) < 18446744073709551616"
  using unsigned_less [of x] by simp

lemma unat_add_u64 [word_facts]:
  "unat a + unat b < 18446744073709551616 \<Longrightarrow> unat (a + b :: u64) = unat a + unat b"
  by (simp add: unat_word_ariths)

lemma unat_mult_u64 [word_facts]:
  "unat a * unat b < 18446744073709551616 \<Longrightarrow> unat (a * b :: u64) = unat a * unat b"
  by (simp add: unat_word_ariths)

lemma unat_sub_u64 [word_facts]: "b \<le> a \<Longrightarrow> unat (a - b :: u64) = unat a - unat b"
  by (rule unat_sub)

lemma unat_div_u64 [word_facts]: "unat (a div b :: u64) = unat a div unat b"
  by (rule unat_div)

lemma unat_mod_u64 [word_facts]: "unat (a mod b :: u64) = unat a mod unat b"
  by (rule unat_mod)

lemma unat_less_u64 [word_facts]: "a < b \<longleftrightarrow> unat (a :: u64) < unat b"
  by (rule word_less_nat_alt)

lemma unat_le_u64 [word_facts]: "a \<le> b \<longleftrightarrow> unat (a :: u64) \<le> unat b"
  by (rule word_le_nat_alt)

lemma unat_eq_u64: "a = b \<longleftrightarrow> unat (a :: u64) = unat b"
  by (rule word_unat_eq_iff)

lemma unat_pos_u64: "0 < unat (a :: u64) \<longleftrightarrow> a \<noteq> 0"
  by (simp add: unat_gt_0)

lemma unat_of_nat_u64:
  "n < 18446744073709551616 \<Longrightarrow> unat (of_nat n :: u64) = n"
  by (simp add: unat_of_nat)

lemma unat_max_u64: "unat (max a b :: u64) = max (unat a) (unat b)"
  by (simp add: max_def unat_le_u64)

lemma unat_min_u64: "unat (min a b :: u64) = min (unat a) (unat b)"
  by (simp add: min_def unat_le_u64)

lemma of_nat_unat_word: "of_nat (unat x) = (x :: 'a::len word)"
  by simp

section \<open>Safe results\<close>

text \<open>
  \<open>safeR P m\<close>: \<open>m\<close> does not panic, and its value, if there is one, satisfies \<open>P\<close>. The rules follow the
  structure of a program, so that one lemma per operation carries the safety of their composition.
\<close>

definition safeR :: "('a \<Rightarrow> bool) \<Rightarrow> 'a res \<Rightarrow> bool" where
  "safeR P m \<longleftrightarrow> (case m of Inr x \<Rightarrow> P x | Inl (Err _) \<Rightarrow> True | Inl (Panic _) \<Rightarrow> False)"

lemma safeR_simps [simp]:
  "safeR P (Inr x) = P x"
  "safeR P (Inl (Err e))"
  "\<not> safeR P (Inl (Panic p))"
  by (simp_all add: safeR_def)

lemma safeR_bind:
  assumes "safeR P m" and "\<And>x. P x \<Longrightarrow> m = Inr x \<Longrightarrow> safeR Q (f x)"
  shows "safeR Q (bindR m f)"
  using assms by (cases m) (auto simp: safeR_def split: fail.splits)

lemma safeR_wrap [simp]: "safeR P (wrapR msg m) = safeR P m"
  by (cases "(msg, m)" rule: wrapR.cases) auto

lemma safeR_mono: "safeR P m \<Longrightarrow> (\<And>x. P x \<Longrightarrow> Q x) \<Longrightarrow> safeR Q m"
  by (auto simp: safeR_def split: sum.splits fail.splits)

lemma safeR_conj: "safeR P m \<Longrightarrow> safeR Q m \<Longrightarrow> safeR (\<lambda>x. P x \<and> Q x) m"
  by (auto simp: safeR_def split: sum.splits fail.splits)

lemma safeR_fold:
  assumes "P s" and "\<And>x s. x \<in> set xs \<Longrightarrow> P s \<Longrightarrow> safeR P (f x s)"
  shows "safeR P (foldR f xs s)"
  using assms
proof (induction xs arbitrary: s)
  case (Cons x xs)
  show ?case
    unfolding foldR.simps using Cons.prems by (intro safeR_bind [of P]) (auto intro: Cons.IH)
qed simp

lemma safeR_map:
  assumes "\<And>x. x \<in> set xs \<Longrightarrow> safeR P (f x)"
  shows "safeR (\<lambda>ys. length ys = length xs \<and> (\<forall>y \<in> set ys. P y)) (mapR f xs)"
  using assms
proof (induction xs)
  case (Cons x xs)
  have "safeR (\<lambda>ys. length ys = length xs \<and> (\<forall>y \<in> set ys. P y)) (mapR f xs)"
    using Cons by simp
  then show ?case
    using Cons.prems [of x] by (auto intro!: safeR_bind [of P] elim!: safeR_bind)
qed simp

end
