(* ===== verification/Math_Helper.thy ===== *)
theory Math_Helper
  imports Qrysm_Prelude
begin

text \<open>
  \<open>math/math_helper.go\<close>: checked arithmetic on \<open>uint64\<close> over the primitives of Go's
  \<open>math/bits\<close>, the Newton square root with its one-entry cache, and the small integer helpers.
  The lemmas give the exact value or error of every operation on natural numbers, and show that
  the cached square root is the integer square root and keeps its cache consistent.
\<close>

section \<open>Go's \<open>math/bits\<close>\<close>

text \<open>The high and low halves of the 128-bit product, the sum with its carry, the difference with
  its borrow, and the quotient and remainder of a 128-bit dividend.\<close>

definition bits_Mul64 :: "u64 \<Rightarrow> u64 \<Rightarrow> u64 \<times> u64" where
  "bits_Mul64 a b = (of_nat ((unat a * unat b) div 2 ^ 64), a * b)"

definition bits_Add64 :: "u64 \<Rightarrow> u64 \<Rightarrow> u64 \<times> u64" where
  "bits_Add64 a b = (a + b, of_nat ((unat a + unat b) div 2 ^ 64))"

definition bits_Sub64 :: "u64 \<Rightarrow> u64 \<Rightarrow> u64 \<times> u64" where
  "bits_Sub64 a b = (a - b, if a < b then 1 else 0)"

definition bits_Div64 :: "u64 \<Rightarrow> u64 \<Rightarrow> u64 \<Rightarrow> (u64 \<times> u64) res" where
  "bits_Div64 hi lo y =
     (if y = 0 then Inl (Panic ''integer divide by zero'')
      else if y \<le> hi then Inl (Panic ''integer overflow'')
      else let n = unat hi * 2 ^ 64 + unat lo
           in Inr (of_nat (n div unat y), of_nat (n mod unat y)))"

lemma div_2_64_lt: "unat (a :: u64) * unat (b :: u64) div 2 ^ 64 < 2 ^ 64"
proof -
  have "unat a * unat b < 2 ^ 64 * 2 ^ 64"
    using unat_lt_2_64 [of a] unat_lt_2_64 [of b] by (intro mult_strict_mono) simp_all
  then show ?thesis
    by (simp add: less_mult_imp_div_less)
qed

lemma fst_bits_Mul64: "unat (fst (bits_Mul64 a b)) = unat a * unat b div 2 ^ 64"
  using div_2_64_lt [of a b] by (simp add: bits_Mul64_def unat_of_nat_u64)

lemma bits_Mul64_hi_zero [word_facts]:
  "fst (bits_Mul64 a b) = 0 \<longleftrightarrow> unat a * unat b < 18446744073709551616"
proof -
  have "fst (bits_Mul64 a b) = 0 \<longleftrightarrow> unat a * unat b div 2 ^ 64 = 0"
    using fst_bits_Mul64 [of a b] by (metis unat_eq_0)
  then show ?thesis
    by (simp add: div_eq_0_iff)
qed

lemma snd_bits_Mul64 [simp]: "snd (bits_Mul64 a b) = a * b"
  by (simp add: bits_Mul64_def)

lemma bits_Add64_carry [word_facts]:
  "snd (bits_Add64 a b) > 0 \<longleftrightarrow> 18446744073709551616 \<le> unat a + unat b"
proof -
  have b: "(unat a + unat b) div 2 ^ 64 < 18446744073709551616"
    using unat_lt_2_64 [of a] unat_lt_2_64 [of b] by simp
  show ?thesis
    using unat_of_nat_u64 [OF b] by (simp add: bits_Add64_def unat_less_u64 div_greater_zero_iff)
qed

lemma bits_Div64_Inr:
  assumes "y \<noteq> 0" and "hi < y"
  shows "\<exists>q r. bits_Div64 hi lo y = Inr (q, r)
     \<and> unat q = (unat hi * 2 ^ 64 + unat lo) div unat y
     \<and> unat r = (unat hi * 2 ^ 64 + unat lo) mod unat y"
proof -
  let ?n = "unat hi * 2 ^ 64 + unat lo"
  have y: "0 < unat y"
    using assms(1) by (simp add: unat_gt_0)
  have "?n < (unat hi + 1) * 2 ^ 64"
    using unat_lt_2_64 [of lo] by simp
  also have "\<dots> \<le> unat y * 2 ^ 64"
    using assms(2) by (intro mult_right_mono) (simp_all add: unat_less_u64)
  finally have q: "?n div unat y < 18446744073709551616"
    using y by (simp add: div_less_iff_less_mult mult.commute)
  have r: "?n mod unat y < 18446744073709551616"
    using y unat_lt_2_64 [of y] by (meson mod_less_divisor order_less_trans)
  show ?thesis
    using assms by (simp add: bits_Div64_def Let_def unat_of_nat_u64 [OF q, simplified]
        unat_of_nat_u64 [OF r, simplified])
qed

section \<open>Checked arithmetic\<close>

definition Mul64 :: "u64 \<Rightarrow> u64 \<Rightarrow> u64 res" where
  "Mul64 a b =
     (let (overflows, val) = bits_Mul64 a b
      in if overflows > 0 then Inl (Err ''multiplication overflows'') else Inr val)"

definition Div64 :: "u64 \<Rightarrow> u64 \<Rightarrow> u64 res" where
  "Div64 a b =
     (if b = 0 then Inl (Err ''integer divide by zero'')
      else bindR (bits_Div64 0 a b) (\<lambda>(val, _). Inr val))"

definition Add64 :: "u64 \<Rightarrow> u64 \<Rightarrow> u64 res" where
  "Add64 a b =
     (let (r, carry) = bits_Add64 a b
      in if carry > 0 then Inl (Err ''addition overflows'') else Inr r)"

definition Sub64 :: "u64 \<Rightarrow> u64 \<Rightarrow> u64 res" where
  "Sub64 a b =
     (let (r, borrow) = bits_Sub64 a b
      in if borrow > 0 then Inl (Err ''subtraction underflow'') else Inr r)"

definition Mod64 :: "u64 \<Rightarrow> u64 \<Rightarrow> u64 res" where
  "Mod64 a b =
     (if b = 0 then Inl (Err ''integer divide by zero'')
      else bindR (bits_Div64 0 a b) (\<lambda>(_, val). Inr val))"

lemma Mul64_cases:
  "Mul64 a b = (if unat a * unat b < 18446744073709551616 then Inr (a * b)
                else Inl (Err ''multiplication overflows''))"
proof -
  have "Mul64 a b = (if fst (bits_Mul64 a b) > 0 then Inl (Err ''multiplication overflows'')
                     else Inr (a * b))"
    by (simp add: Mul64_def bits_Mul64_def)
  then show ?thesis
    using bits_Mul64_hi_zero [of a b] by (auto simp: word_neq_0_conv [symmetric])
qed

lemma Add64_cases:
  "Add64 a b = (if unat a + unat b < 18446744073709551616 then Inr (a + b)
                else Inl (Err ''addition overflows''))"
  using bits_Add64_carry [of a b] by (simp add: Add64_def bits_Add64_def split: prod.splits)

lemma Sub64_cases:
  "Sub64 a b = (if b \<le> a then Inr (a - b) else Inl (Err ''subtraction underflow''))"
  by (auto simp: Sub64_def bits_Sub64_def)

lemma Div64_cases:
  "Div64 a b = (if b = 0 then Inl (Err ''integer divide by zero'') else Inr (a div b))"
proof (cases "b = 0")
  case False
  then obtain q r where "bits_Div64 0 a b = Inr (q, r)" "unat q = unat a div unat b"
    using bits_Div64_Inr [of b 0 a] by (auto simp: word_neq_0_conv)
  then show ?thesis
    using False by (simp add: Div64_def unat_eq_u64 unat_div_u64)
qed (simp add: Div64_def)

lemma Mod64_cases:
  "Mod64 a b = (if b = 0 then Inl (Err ''integer divide by zero'') else Inr (a mod b))"
proof (cases "b = 0")
  case False
  then obtain q r where "bits_Div64 0 a b = Inr (q, r)" "unat r = unat a mod unat b"
    using bits_Div64_Inr [of b 0 a] by (auto simp: word_neq_0_conv)
  then show ?thesis
    using False by (simp add: Mod64_def unat_eq_u64 unat_mod_u64)
qed (simp add: Mod64_def)

lemma Add64_eq_Inr:
  "Add64 a b = Inr c \<longleftrightarrow> unat a + unat b < 18446744073709551616 \<and> c = a + b"
  by (auto simp: Add64_cases)

lemma unat_Add64: "Add64 a b = Inr c \<Longrightarrow> unat c = unat a + unat b"
  by (auto simp: Add64_eq_Inr unat_add_u64)

lemma unat_Mul64: "Mul64 a b = Inr c \<Longrightarrow> unat c = unat a * unat b"
  by (auto simp: Mul64_cases unat_mult_u64 split: if_splits)

lemma unat_Sub64: "Sub64 a b = Inr c \<Longrightarrow> unat a = unat c + unat b"
  by (auto simp: Sub64_cases unat_sub_u64 unat_le_u64 split: if_splits)

section \<open>The cached Newton square root\<close>

text \<open>The package variable \<open>cachedSquareRoot\<close>; its mutex serialises the calls, so that one call is
  one step of the model.\<close>

record sqrt_cache =
  squareRoot :: u64
  cached_balance :: u64

definition cachedSquareRoot_init :: sqrt_cache where
  "cachedSquareRoot_init = \<lparr>squareRoot = 126491106, cached_balance = 15999999897103236\<rparr>"

lemma half_sum_less:
  assumes "v < (s :: u64)"
  shows "unat ((s + v) div 2) < unat s"
proof -
  have "unat (s + v) \<le> unat s + unat v"
    by (simp add: unat_word_ariths)
  moreover have "unat v < unat s"
    using assms by (simp add: unat_less_u64)
  ultimately show ?thesis
    by (simp add: unat_div_u64)
qed

text \<open>The \<open>for\<close> loop, on the current root and the current quotient.\<close>

function newton_loop :: "u64 \<Rightarrow> u64 \<Rightarrow> u64 \<Rightarrow> u64 res" where
  "newton_loop bal sq val =
     (let sq' = (sq + val) div 2
      in if sq' = 0 then Inl (Panic ''integer divide by zero'')
         else let val' = bal div sq'
              in if sq' \<le> val' then Inr sq' else newton_loop bal sq' val')"
  by pat_completeness auto

termination
proof (relation "measure (\<lambda>(bal, sq, val). if val < sq then unat sq else 2 ^ 64)", goal_cases)
  case (2 bal sq val sq' val')
  then show ?case
    using half_sum_less [of val sq] unat_lt_2_64 [of sq'] by (auto simp: not_le)
qed simp

declare newton_loop.simps [simp del]

definition CachedSquareRoot :: "u64 \<Rightarrow> sqrt_cache \<Rightarrow> (u64 \<times> sqrt_cache) res" where
  "CachedSquareRoot balance c =
     (if balance = 0 then Inr (0, c)
      else if balance = cached_balance c then Inr (squareRoot c, c)
      else if squareRoot c = 0 then Inl (Panic ''integer divide by zero'')
      else bindR (newton_loop balance (squareRoot c) (balance div squareRoot c))
             (\<lambda>sq. Inr (sq, c\<lparr>squareRoot := sq, cached_balance := balance\<rparr>)))"

text \<open>What the cache promises between calls: its root is the integer square root of its balance.\<close>

definition is_isqrt :: "nat \<Rightarrow> nat \<Rightarrow> bool" where
  "is_isqrt r n \<longleftrightarrow> r * r \<le> n \<and> n < (r + 1) * (r + 1)"

definition sqrt_cache_ok :: "sqrt_cache \<Rightarrow> bool" where
  "sqrt_cache_ok c \<longleftrightarrow> squareRoot c \<noteq> 0 \<and> is_isqrt (unat (squareRoot c)) (unat (cached_balance c))"

lemma is_isqrt_unique:
  assumes "is_isqrt r n" and "is_isqrt s n"
  shows "r = s"
proof -
  have "\<not> x < y" if "is_isqrt x n" "is_isqrt y n" for x y
  proof
    assume "x < y"
    then have "(x + 1) * (x + 1) \<le> y * y"
      by (intro mult_le_mono) simp_all
    then show False
      using that by (simp add: is_isqrt_def)
  qed
  then show ?thesis
    using assms by (meson linorder_neqE_nat)
qed

text \<open>One averaging step never goes below the square root.\<close>

lemma newton_step_above:
  fixes n s :: nat
  assumes "0 < s"
  shows "n < ((s + n div s) div 2 + 1) * ((s + n div s) div 2 + 1)"
proof -
  define q t where "q = n div s" and "t = (s + q) div 2"
  have "n < s * (q + 1)"
    using assms dividend_less_times_div [of s n] by (simp add: q_def algebra_simps)
  moreover have "4 * (s * (q + 1)) \<le> (s + (q + 1)) * (s + (q + 1))"
  proof -
    have "0 \<le> (int s - int (q + 1)) * (int s - int (q + 1))"
      by simp
    then have "4 * (int s * int (q + 1)) \<le> (int s + int (q + 1)) * (int s + int (q + 1))"
      by (simp add: algebra_simps)
    then show ?thesis
      by (metis of_nat_add of_nat_le_iff of_nat_mult of_nat_numeral)
  qed
  moreover have "(s + (q + 1)) * (s + (q + 1)) \<le> (2 * (t + 1)) * (2 * (t + 1))"
    by (intro mult_le_mono) (simp_all add: t_def)
  ultimately have "4 * n < 4 * ((t + 1) * (t + 1))"
    by (simp add: algebra_simps)
  then show ?thesis
    by (simp add: t_def q_def)
qed

lemma newton_loop_isqrt:
  assumes "bal \<noteq> 0" and "sq \<noteq> 0" and "val = bal div sq"
    and "unat sq + unat val < 18446744073709551616"
  shows "\<exists>r. newton_loop bal sq val = Inr r \<and> r \<noteq> 0 \<and> is_isqrt (unat r) (unat bal)"
  using assms
proof (induction bal sq val rule: newton_loop.induct)
  case (1 bal sq val)
  define t where "t = (sq + val) div 2"
  have sq: "0 < unat sq" and bal: "0 < unat bal"
    using "1.prems" by (simp_all add: unat_gt_0)
  have t: "unat t = (unat sq + unat bal div unat sq) div 2"
    using "1.prems" by (simp add: t_def word_facts)
  have above: "unat bal < (unat t + 1) * (unat t + 1)"
    using newton_step_above [OF sq, of "unat bal"] t by simp
  have "unat t \<noteq> 0"
    using above bal by (intro notI) simp
  then have t0: "t \<noteq> 0"
    by auto
  show ?case
  proof (cases "t \<le> bal div t")
    case True
    then have "unat t * unat t \<le> unat bal"
      using \<open>unat t \<noteq> 0\<close> by (simp add: word_facts less_eq_div_iff_mult_less_eq)
    then show ?thesis
      using True t0 above
      by (subst newton_loop.simps) (simp add: Let_def t_def [symmetric] is_isqrt_def)
  next
    case False
    have "unat t \<le> 9223372036854775807"
      using t "1.prems"(3,4) by (simp add: word_facts)
    then have "unat t + unat (bal div t) < 18446744073709551616"
      using False by (simp add: word_facts)
    then have "\<exists>r. newton_loop bal t (bal div t) = Inr r \<and> r \<noteq> 0 \<and> is_isqrt (unat r) (unat bal)"
      using "1.IH" [OF t_def t0 refl False "1.prems"(1) t0] by simp
    then show ?thesis
      using False t0 by (subst newton_loop.simps) (simp add: Let_def t_def [symmetric])
  qed
qed

text \<open>The sum in the first step fits the word except in one case: the cached root is 1 and the
  balance is the largest word.\<close>

lemma newton_start_fits:
  assumes "sqrt_cache_ok c" and "squareRoot c \<noteq> 1 \<or> balance \<noteq> max_u64"
  shows "unat (squareRoot c) + unat (balance div squareRoot c) < 18446744073709551616"
proof -
  define s b where "s = unat (squareRoot c)" and "b = unat balance"
  have s0: "0 < s"
    using assms(1) by (simp add: s_def sqrt_cache_ok_def unat_gt_0)
  have b: "b < 18446744073709551616"
    unfolding b_def by (rule unat_lt_2_64)
  have "s * s < 18446744073709551616"
    using assms(1) unat_lt_2_64 [of "cached_balance c"]
    by (simp add: sqrt_cache_ok_def is_isqrt_def s_def)
  then have s32: "s < 4294967296"
    using mult_le_mono [of 4294967296 s 4294967296 s] by (cases "s < 4294967296") simp_all
  have "s + b div s < 18446744073709551616"
  proof (cases "s = 1")
    case True
    then have "squareRoot c = 1"
      by (simp add: s_def unat_eq_u64)
    then have "b \<noteq> 18446744073709551615"
      using assms(2) by (auto simp: b_def unat_eq_u64)
    then show ?thesis
      using True b by simp
  next
    case False
    then have "b div s \<le> b div 2"
      using s0 by (intro div_le_mono2) simp_all
    then show ?thesis
      using b s32 by linarith
  qed
  then show ?thesis
    by (simp add: s_def b_def word_facts)
qed

lemma cachedSquareRoot_init_ok: "sqrt_cache_ok cachedSquareRoot_init"
  by (simp add: sqrt_cache_ok_def cachedSquareRoot_init_def is_isqrt_def)

lemma CachedSquareRoot_isqrt:
  assumes "sqrt_cache_ok c" and "squareRoot c \<noteq> 1 \<or> balance \<noteq> max_u64"
  shows "\<exists>r c'. CachedSquareRoot balance c = Inr (r, c') \<and> is_isqrt (unat r) (unat balance)
           \<and> (balance \<noteq> 0 \<longrightarrow> r \<noteq> 0) \<and> sqrt_cache_ok c'"
proof -
  have s0: "squareRoot c \<noteq> 0"
    using assms(1) by (simp add: sqrt_cache_ok_def)
  consider "balance = 0" | "balance \<noteq> 0" "balance = cached_balance c"
    | "balance \<noteq> 0" "balance \<noteq> cached_balance c"
    by blast
  then show ?thesis
  proof cases
    case 1
    then show ?thesis
      using assms(1) by (simp add: CachedSquareRoot_def is_isqrt_def)
  next
    case 2
    then show ?thesis
      using assms(1) by (simp add: CachedSquareRoot_def sqrt_cache_ok_def)
  next
    case 3
    obtain r where "newton_loop balance (squareRoot c) (balance div squareRoot c) = Inr r"
      "r \<noteq> 0" "is_isqrt (unat r) (unat balance)"
      using newton_loop_isqrt [OF 3(1) s0 refl newton_start_fits [OF assms]] by blast
    then show ?thesis
      using 3 s0 by (simp add: CachedSquareRoot_def sqrt_cache_ok_def)
  qed
qed

lemma CachedSquareRoot_wraps:
  assumes "squareRoot c = 1" and "cached_balance c \<noteq> max_u64"
  shows "CachedSquareRoot max_u64 c = Inl (Panic ''integer divide by zero'')"
  using assms by (simp add: CachedSquareRoot_def newton_loop.simps)

section \<open>Small integer helpers\<close>

text \<open>Go's \<open>/\<close> and \<open>%\<close> on \<open>int\<close> truncate towards zero, as \<open>sdiv\<close> would; on a length, which is
  never negative, they are \<open>div\<close> and \<open>mod\<close>.\<close>

definition go_quot :: "int \<Rightarrow> int \<Rightarrow> int" where
  "go_quot a b = sgn a * sgn b * (\<bar>a\<bar> div \<bar>b\<bar>)"

definition go_rem :: "int \<Rightarrow> int \<Rightarrow> int" where
  "go_rem a b = a - b * go_quot a b"

definition CeilDiv8 :: "int \<Rightarrow> int" where
  "CeilDiv8 n = (let ret = go_quot n 8 in if go_rem n 8 > 0 then ret + 1 else ret)"

definition IsPowerOf2 :: "u64 \<Rightarrow> bool" where
  "IsPowerOf2 n \<longleftrightarrow> n \<noteq> 0 \<and> (n AND (n - 1)) = 0"

text \<open>\<open>Int\<close> (here \<open>Int_of\<close>) converts to a 64-bit \<open>int\<close>; \<open>AddInt\<close> adds a list of them.\<close>

definition MaxInt :: int where "MaxInt = 9223372036854775807"
definition MinInt :: int where "MinInt = - 9223372036854775808"

definition Int_of :: "u64 \<Rightarrow> int res" where
  "Int_of u = (if uint u > MaxInt then Inl (Err ''integer overflow'') else Inr (uint u))"

fun AddInt_loop :: "int \<Rightarrow> int list \<Rightarrow> int res" where
  "AddInt_loop acc [] = Inr acc"
| "AddInt_loop acc (ii # rest) =
     (if ii > 0 \<and> acc > MaxInt - ii then Inl (Err ''integer overflow'')
      else if ii < 0 \<and> acc < MinInt - ii then Inl (Err ''integer overflow'')
      else AddInt_loop (acc + ii) rest)"

definition AddInt :: "int list \<Rightarrow> int res" where
  "AddInt xs = AddInt_loop 0 xs"

definition in_int64 :: "int \<Rightarrow> bool" where
  "in_int64 n \<longleftrightarrow> MinInt \<le> n \<and> n \<le> MaxInt"

text \<open>\<open>AddInt\<close> succeeds exactly when no partial sum leaves the 64-bit range, and then with the exact
  sum, so that none of the additions of the loop wraps.\<close>

lemma AddInt_loop_exact:
  assumes "in_int64 s"
  shows "AddInt_loop s xs =
    (if \<forall>k \<le> length xs. in_int64 (s + sum_list (take k xs)) then Inr (s + sum_list xs)
     else Inl (Err ''integer overflow''))"
  using assms
proof (induction xs arbitrary: s)
  case Nil
  then show ?case by simp
next
  case (Cons x xs)
  have step: "(\<forall>k \<le> length (x # xs). in_int64 (s + sum_list (take k (x # xs)))) \<longleftrightarrow>
      (\<forall>k \<le> length xs. in_int64 (s + x + sum_list (take k xs)))" (is "?L \<longleftrightarrow> ?R")
  proof
    assume L: ?L
    show ?R
    proof (intro allI impI)
      fix k assume "k \<le> length xs"
      then show "in_int64 (s + x + sum_list (take k xs))"
        using L [rule_format, of "Suc k"] by (simp add: add.assoc)
    qed
  next
    assume R: ?R
    show ?L
    proof (intro allI impI)
      fix k assume "k \<le> length (x # xs)"
      then show "in_int64 (s + sum_list (take k (x # xs)))"
        using Cons.prems R [rule_format, of "k - 1"] by (cases k) (simp_all add: add.assoc)
    qed
  qed
  show ?case
  proof (cases "in_int64 (s + x)")
    case True
    have "AddInt_loop s (x # xs) = AddInt_loop (s + x) xs"
      using True by (auto simp: in_int64_def)
    then show ?thesis
      using Cons.IH [OF True] step by (simp add: add.assoc)
  next
    case False
    have "AddInt_loop s (x # xs) = Inl (Err ''integer overflow'')"
      using False Cons.prems by (auto simp: in_int64_def)
    moreover have "\<not> ?R"
      using False by (metis add_0_right le0 sum_list.Nil take0)
    ultimately show ?thesis
      using step by simp
  qed
qed

lemma CeilDiv8_eq: "0 \<le> n \<Longrightarrow> CeilDiv8 n = (n + 7) div 8"
  by (cases "n = 0") (auto simp: CeilDiv8_def go_quot_def go_rem_def Let_def sgn_if)

end
