(* ===== verification/Primitives_Types.thy ===== *)
theory Primitives_Types
  imports Math_Helper
begin

text \<open>
  \<open>consensus-types/primitives\<close>: the arithmetic of \<open>Slot\<close>, \<open>Epoch\<close> and \<open>ValidatorIndex\<close>. The
  \<open>Safe\<close> methods return the error of the checked helper, the plain ones panic with its message. The
  lemmas of the collection \<open>prim_cases\<close> give the value and the failure of each method on one line.
\<close>

named_theorems prim_cases \<open>value and failure of the methods of the primitive types\<close>

type_synonym Slot = u64
type_synonym Epoch = u64
type_synonym ValidatorIndex = u64
type_synonym CommitteeIndex = u64

text \<open>\<open>if err != nil \{ panic(err.Error()) \}\<close>\<close>

fun panic_on_error :: "'a res \<Rightarrow> 'a res" where
  "panic_on_error (Inl (Err e)) = Inl (Panic e)"
| "panic_on_error m = m"

section \<open>Slot\<close>

definition Slot_SafeMul :: "Slot \<Rightarrow> u64 \<Rightarrow> Slot res" where
  "Slot_SafeMul s x = Mul64 s x"

definition Slot_Mul :: "Slot \<Rightarrow> u64 \<Rightarrow> Slot res" where
  "Slot_Mul s x = panic_on_error (Slot_SafeMul s x)"

definition Slot_SafeDiv :: "Slot \<Rightarrow> u64 \<Rightarrow> Slot res" where
  "Slot_SafeDiv s x = Div64 s x"

definition Slot_Div :: "Slot \<Rightarrow> u64 \<Rightarrow> Slot res" where
  "Slot_Div s x = panic_on_error (Slot_SafeDiv s x)"

definition Slot_DivSlot :: "Slot \<Rightarrow> Slot \<Rightarrow> Slot res" where
  "Slot_DivSlot s x = Slot_Div s x"

definition Slot_SafeAdd :: "Slot \<Rightarrow> u64 \<Rightarrow> Slot res" where
  "Slot_SafeAdd s x = Add64 s x"

definition Slot_Add :: "Slot \<Rightarrow> u64 \<Rightarrow> Slot res" where
  "Slot_Add s x = panic_on_error (Slot_SafeAdd s x)"

definition Slot_SafeSub :: "Slot \<Rightarrow> u64 \<Rightarrow> Slot res" where
  "Slot_SafeSub s x = Sub64 s x"

definition Slot_Sub :: "Slot \<Rightarrow> u64 \<Rightarrow> Slot res" where
  "Slot_Sub s x = panic_on_error (Slot_SafeSub s x)"

definition Slot_SubSlot :: "Slot \<Rightarrow> Slot \<Rightarrow> Slot res" where
  "Slot_SubSlot s x = Slot_Sub s x"

definition Slot_SafeMod :: "Slot \<Rightarrow> u64 \<Rightarrow> Slot res" where
  "Slot_SafeMod s x = Mod64 s x"

definition Slot_Mod :: "Slot \<Rightarrow> u64 \<Rightarrow> Slot res" where
  "Slot_Mod s x = panic_on_error (Slot_SafeMod s x)"

definition Slot_ModSlot :: "Slot \<Rightarrow> Slot \<Rightarrow> Slot res" where
  "Slot_ModSlot s x = Slot_Mod s x"

section \<open>Epoch\<close>

definition MaxEpoch :: "Epoch \<Rightarrow> Epoch \<Rightarrow> Epoch" where
  "MaxEpoch a b = (if a > b then a else b)"

definition Epoch_SafeMul :: "Epoch \<Rightarrow> u64 \<Rightarrow> Epoch res" where
  "Epoch_SafeMul e x = Mul64 e x"

definition Epoch_Mul :: "Epoch \<Rightarrow> u64 \<Rightarrow> Epoch res" where
  "Epoch_Mul e x = panic_on_error (Epoch_SafeMul e x)"

definition Epoch_SafeDiv :: "Epoch \<Rightarrow> u64 \<Rightarrow> Epoch res" where
  "Epoch_SafeDiv e x = Div64 e x"

definition Epoch_Div :: "Epoch \<Rightarrow> u64 \<Rightarrow> Epoch res" where
  "Epoch_Div e x = panic_on_error (Epoch_SafeDiv e x)"

definition Epoch_SafeAdd :: "Epoch \<Rightarrow> u64 \<Rightarrow> Epoch res" where
  "Epoch_SafeAdd e x = Add64 e x"

definition Epoch_Add :: "Epoch \<Rightarrow> u64 \<Rightarrow> Epoch res" where
  "Epoch_Add e x = panic_on_error (Epoch_SafeAdd e x)"

definition Epoch_SafeAddEpoch :: "Epoch \<Rightarrow> Epoch \<Rightarrow> Epoch res" where
  "Epoch_SafeAddEpoch e x = Epoch_SafeAdd e x"

definition Epoch_SafeSub :: "Epoch \<Rightarrow> u64 \<Rightarrow> Epoch res" where
  "Epoch_SafeSub e x = Sub64 e x"

definition Epoch_Sub :: "Epoch \<Rightarrow> u64 \<Rightarrow> Epoch res" where
  "Epoch_Sub e x = panic_on_error (Epoch_SafeSub e x)"

definition Epoch_SafeMod :: "Epoch \<Rightarrow> u64 \<Rightarrow> Epoch res" where
  "Epoch_SafeMod e x = Mod64 e x"

definition Epoch_Mod :: "Epoch \<Rightarrow> u64 \<Rightarrow> Epoch res" where
  "Epoch_Mod e x = panic_on_error (Epoch_SafeMod e x)"

section \<open>ValidatorIndex\<close>

text \<open>\<open>Div\<close> and \<open>Sub\<close> check their argument, \<open>Add\<close> wraps, \<open>Mod\<close> panics at run time on zero.\<close>

definition ValidatorIndex_Div :: "ValidatorIndex \<Rightarrow> u64 \<Rightarrow> ValidatorIndex res" where
  "ValidatorIndex_Div v x = (if x = 0 then Inl (Panic ''divbyzero'') else Inr (v div x))"

definition ValidatorIndex_Mod :: "ValidatorIndex \<Rightarrow> u64 \<Rightarrow> ValidatorIndex res" where
  "ValidatorIndex_Mod v x =
     (if x = 0 then Inl (Panic ''runtime error: integer divide by zero'') else Inr (v mod x))"

section \<open>Values and failures\<close>

lemmas slot_defs =
  Slot_SafeMul_def Slot_Mul_def
  Slot_SafeDiv_def Slot_Div_def Slot_DivSlot_def
  Slot_SafeAdd_def Slot_Add_def
  Slot_SafeSub_def Slot_Sub_def Slot_SubSlot_def
  Slot_SafeMod_def Slot_Mod_def Slot_ModSlot_def

lemmas epoch_defs =
  Epoch_SafeMul_def Epoch_Mul_def Epoch_SafeDiv_def Epoch_Div_def Epoch_SafeAdd_def Epoch_Add_def
  Epoch_SafeAddEpoch_def Epoch_SafeSub_def Epoch_Sub_def
  Epoch_SafeMod_def Epoch_Mod_def

lemmas checked_cases = Mul64_cases Div64_cases Add64_cases Sub64_cases Mod64_cases

lemma Slot_panicking [prim_cases]:
  "Slot_Mul s x = (if unat s * unat x < 18446744073709551616 then Inr (s * x)
                   else Inl (Panic ''multiplication overflows''))"
  "Slot_DivSlot s x = (if x = 0 then Inl (Panic ''integer divide by zero'') else Inr (s div x))"
  "Slot_Add s x = (if unat s + unat x < 18446744073709551616 then Inr (s + x)
                   else Inl (Panic ''addition overflows''))"
  "Slot_SubSlot s x = (if x \<le> s then Inr (s - x) else Inl (Panic ''subtraction underflow''))"
  "Slot_Sub s x = (if x \<le> s then Inr (s - x) else Inl (Panic ''subtraction underflow''))"
  "Slot_ModSlot s x = (if x = 0 then Inl (Panic ''integer divide by zero'') else Inr (s mod x))"
  by (simp_all add: slot_defs checked_cases)

lemma Slot_safe [prim_cases]:
  "Slot_SafeMul s x = (if unat s * unat x < 18446744073709551616 then Inr (s * x)
                   else Inl (Err ''multiplication overflows''))"
  "Slot_SafeAdd s x = (if unat s + unat x < 18446744073709551616 then Inr (s + x)
                   else Inl (Err ''addition overflows''))"
  by (simp_all add: slot_defs checked_cases)

lemma Epoch_safe [prim_cases]:
  "Epoch_SafeAdd e x = (if unat e + unat x < 18446744073709551616 then Inr (e + x)
                   else Inl (Err ''addition overflows''))"
  "Epoch_SafeAddEpoch e x = (if unat e + unat x < 18446744073709551616 then Inr (e + x)
                   else Inl (Err ''addition overflows''))"
  "Epoch_Mod e x = (if x = 0 then Inl (Panic ''integer divide by zero'') else Inr (e mod x))"
  "Epoch_Mul e x = (if unat e * unat x < 18446744073709551616 then Inr (e * x)
                   else Inl (Panic ''multiplication overflows''))"
  by (simp_all add: epoch_defs checked_cases)

lemma MaxEpoch_max: "MaxEpoch a b = max a b"
  by (auto simp: MaxEpoch_def max_def)

end
