(* ===== verification/Beacon_Config.thy ===== *)
theory Beacon_Config
  imports Primitives_Types
begin

text \<open>
  \<open>config/params\<close>: the chain configuration. \<open>BeaconChainConfig\<close> has the fields of the Go struct that
  the modelled code reads, \<open>mainnetBeaconConfig\<close> its built-in mainnet values, and \<open>Validate\<close> with its
  helpers the checks a configuration passes before the node runs with it
  (\<open>beacon-chain/node/config.go\<close> and \<open>config/params/loader.go\<close> call it). The compile-time constants of
  \<open>config/fieldparams\<close> are those of the mainnet build.

  The type \<open>config\<close> is the set of configurations \<open>Validate\<close> accepts. It stands for
  \<open>params.BeaconConfig()\<close> in the component theories: a division or remainder by a field that
  \<open>Validate\<close> keeps away from zero cannot panic, and is written with \<open>div\<close> and \<open>mod\<close>. The lemmas
  \<open>config_nonzero\<close> state exactly which fields these are.
\<close>

section \<open>The configuration record\<close>

record BeaconChainConfig =
  GenesisSlot :: Slot
  GenesisEpoch :: Epoch
  FarFutureEpoch :: Epoch
  DepositContractTreeDepth :: u64
  PresetBase :: string
  TargetCommitteeSize :: u64
  MaxValidatorsPerCommittee :: u64
  MaxCommitteesPerSlot :: u64
  MinPerEpochChurnLimit :: u64
  ChurnLimitQuotient :: u64
  ShuffleRoundCount :: u64
  MinGenesisActiveValidatorCount :: u64
  MinGenesisTime :: u64
  TargetAggregatorsPerCommittee :: u64
  HysteresisQuotient :: u64
  HysteresisDownwardMultiplier :: u64
  HysteresisUpwardMultiplier :: u64
  MaxEffectiveBalance :: u64
  EjectionBalance :: u64
  EffectiveBalanceIncrement :: u64
  MinAttestationInclusionDelay :: Slot
  SecondsPerSlot :: u64
  SlotsPerEpoch :: Slot
  SqrRootSlotsPerEpoch :: Slot
  MinSeedLookahead :: Epoch
  MaxSeedLookahead :: Epoch
  EpochsPerExecutionVotingPeriod :: Epoch
  SlotsPerHistoricalRoot :: Slot
  MinValidatorWithdrawabilityDelay :: Epoch
  ShardCommitteePeriod :: Epoch
  MinEpochsToInactivityPenalty :: Epoch
  SecondsPerExecutionBlock :: u64
  ProposerScoreBoost :: u64
  ReorgHeadWeightThreshold :: u64
  ReorgParentWeightThreshold :: u64
  ReorgMaxEpochsSinceFinalization :: Epoch
  IntervalsPerSlot :: u64
  EpochsPerRandomSubnetSubscription :: u64
  EpochsPerHistoricalVector :: Epoch
  EpochsPerSlashingsVector :: Epoch
  HistoricalRootsLimit :: u64
  ValidatorRegistryLimit :: u64
  BaseRewardFactor :: u64
  WhistleBlowerRewardQuotient :: u64
  ProposerRewardQuotient :: u64
  MaxProposerSlashings :: u64
  MaxAttesterSlashings :: u64
  MaxAttestations :: u64
  MaxDeposits :: u64
  MaxVoluntaryExits :: u64
  MaxWithdrawalsPerPayload :: u64
  MaxValidatorsPerWithdrawalsSweep :: u64
  DomainBeaconProposer :: bytes
  DomainRandao :: bytes
  DomainBeaconAttester :: bytes
  DomainDeposit :: bytes
  DomainVoluntaryExit :: bytes
  DomainSelectionProof :: bytes
  DomainSyncCommittee :: bytes
  DomainSyncCommitteeSelectionProof :: bytes
  DomainApplicationBuilder :: bytes
  ShorPerQuanta :: u64
  WeakSubjectivityPeriod :: Epoch
  PruneSlasherStoragePeriod :: Epoch
  SlashingProtectionPruningEpochs :: Epoch
  GenesisForkVersion :: bytes
  SafetyDecay :: u64
  TimelySourceFlagIndex :: u8
  TimelyTargetFlagIndex :: u8
  TimelyHeadFlagIndex :: u8
  TimelySourceWeight :: u64
  TimelyTargetWeight :: u64
  TimelyHeadWeight :: u64
  SyncRewardWeight :: u64
  WeightDenominator :: u64
  ProposerWeight :: u64
  TargetAggregatorsPerSyncSubcommittee :: u64
  SyncCommitteeSubnetCount :: u64
  SyncCommitteeSize :: u64
  InactivityScoreBias :: u64
  InactivityScoreRecoveryRate :: u64
  EpochsPerSyncCommitteePeriod :: Epoch
  MinSlashingPenaltyQuotient :: u64
  ProportionalSlashingMultiplier :: u64
  InactivityPenaltyQuotient :: u64
  MaxPerEpochActivationChurnLimit :: u64

definition mainnetBeaconConfig :: BeaconChainConfig where
  "mainnetBeaconConfig = \<lparr>
     GenesisSlot = 0,
     GenesisEpoch = 0,
     FarFutureEpoch = max_u64,
     DepositContractTreeDepth = 32,
     PresetBase = ''mainnet'',
     TargetCommitteeSize = 32,
     MaxValidatorsPerCommittee = 32,
     MaxCommitteesPerSlot = 1,
     MinPerEpochChurnLimit = 2,
     ChurnLimitQuotient = 65536,
     ShuffleRoundCount = 90,
     MinGenesisActiveValidatorCount = 128,
     MinGenesisTime = 1606824000,
     TargetAggregatorsPerCommittee = 8,
     HysteresisQuotient = 4,
     HysteresisDownwardMultiplier = 1,
     HysteresisUpwardMultiplier = 5,
     MaxEffectiveBalance = 40000000000000,
     EjectionBalance = 20000000000000,
     EffectiveBalanceIncrement = 1000000000,
     MinAttestationInclusionDelay = 1,
     SecondsPerSlot = 60,
     SlotsPerEpoch = 128,
     SqrRootSlotsPerEpoch = 11,
     MinSeedLookahead = 1,
     MaxSeedLookahead = 4,
     EpochsPerExecutionVotingPeriod = 4,
     SlotsPerHistoricalRoot = 1024,
     MinValidatorWithdrawabilityDelay = 16,
     ShardCommitteePeriod = 16,
     MinEpochsToInactivityPenalty = 4,
     SecondsPerExecutionBlock = 60,
     ProposerScoreBoost = 40,
     ReorgHeadWeightThreshold = 20,
     ReorgParentWeightThreshold = 160,
     ReorgMaxEpochsSinceFinalization = 2,
     IntervalsPerSlot = 3,
     EpochsPerRandomSubnetSubscription = 256,
     EpochsPerHistoricalVector = 65536,
     EpochsPerSlashingsVector = 512,
     HistoricalRootsLimit = 16777216,
     ValidatorRegistryLimit = 1099511627776,
     BaseRewardFactor = 2048,
     WhistleBlowerRewardQuotient = 512,
     ProposerRewardQuotient = 8,
     MaxProposerSlashings = 16,
     MaxAttesterSlashings = 2,
     MaxAttestations = 4,
     MaxDeposits = 16,
     MaxVoluntaryExits = 16,
     MaxWithdrawalsPerPayload = 16,
     MaxValidatorsPerWithdrawalsSweep = 16384,
     DomainBeaconProposer = [0, 0, 0, 0],
     DomainRandao = [2, 0, 0, 0],
     DomainBeaconAttester = [1, 0, 0, 0],
     DomainDeposit = [3, 0, 0, 0],
     DomainVoluntaryExit = [4, 0, 0, 0],
     DomainSelectionProof = [5, 0, 0, 0],
     DomainSyncCommittee = [7, 0, 0, 0],
     DomainSyncCommitteeSelectionProof = [8, 0, 0, 0],
     DomainApplicationBuilder = [0, 0, 0, 1],
     ShorPerQuanta = 1000000000,
     WeakSubjectivityPeriod = 128,
     PruneSlasherStoragePeriod = 10,
     SlashingProtectionPruningEpochs = 512,
     GenesisForkVersion = [0, 0, 0, 0],
     SafetyDecay = 10,
     TimelySourceFlagIndex = 0,
     TimelyTargetFlagIndex = 1,
     TimelyHeadFlagIndex = 2,
     TimelySourceWeight = 14,
     TimelyTargetWeight = 26,
     TimelyHeadWeight = 14,
     SyncRewardWeight = 2,
     WeightDenominator = 64,
     ProposerWeight = 8,
     TargetAggregatorsPerSyncSubcommittee = 8,
     SyncCommitteeSubnetCount = 1,
     SyncCommitteeSize = 128,
     InactivityScoreBias = 4,
     InactivityScoreRecoveryRate = 16,
     EpochsPerSyncCommitteePeriod = 8,
     MinSlashingPenaltyQuotient = 32,
     ProportionalSlashingMultiplier = 3,
     InactivityPenaltyQuotient = 65536,
     MaxPerEpochActivationChurnLimit = 8\<rparr>"

section \<open>Compile-time constants (mainnet build)\<close>

definition fp_MaxValidatorsPerCommittee :: u64 where "fp_MaxValidatorsPerCommittee = 32"
definition fp_VersionLength :: nat where "fp_VersionLength = 4"
definition fp_DepositProofLength :: u64 where "fp_DepositProofLength = 33"
definition fp_MainnetMaxWithdrawalsPerPayload :: u64 where "fp_MainnetMaxWithdrawalsPerPayload = 16"
definition fp_MinimalMaxWithdrawalsPerPayload :: u64 where "fp_MinimalMaxWithdrawalsPerPayload = 4"

text \<open>\<open>MaxProposerSlashings\<close>, \<open>MaxAttesterSlashings\<close>, \<open>MaxAttestations\<close>, \<open>MaxDeposits\<close> and
  \<open>MaxVoluntaryExits\<close> of \<open>config/fieldparams/block_operations.go\<close>.\<close>

definition fp_BlockOperationLimits :: "u64 list" where
  "fp_BlockOperationLimits = [16, 2, 4, 16, 16]"

lemmas fieldparams_defs = fp_MaxValidatorsPerCommittee_def fp_VersionLength_def
  fp_DepositProofLength_def fp_MainnetMaxWithdrawalsPerPayload_def
  fp_MinimalMaxWithdrawalsPerPayload_def fp_BlockOperationLimits_def

section \<open>The active validator cap\<close>

definition validateCommitteeSize :: "BeaconChainConfig \<Rightarrow> unit res" where
  "validateCommitteeSize b =
     (if MaxValidatorsPerCommittee b = 0
      then Inl (Err ''MAX_VALIDATORS_PER_COMMITTEE must be non-zero'')
      else if MaxValidatorsPerCommittee b > fp_MaxValidatorsPerCommittee
      then Inl (Err ''MAX_VALIDATORS_PER_COMMITTEE must not exceed this binary's SSZ attestation limit'')
      else Inr ())"

definition MaxActiveValidators :: "BeaconChainConfig \<Rightarrow> u64 res" where
  "MaxActiveValidators b =
     (if MaxCommitteesPerSlot b = 0 then Inl (Err ''MAX_COMMITTEES_PER_SLOT must be non-zero'')
      else bindR (validateCommitteeSize b) (\<lambda>_.
      if SlotsPerEpoch b = 0 then Inl (Err ''SLOTS_PER_EPOCH must be non-zero'')
      else if TargetCommitteeSize b = 0 then Inl (Err ''TARGET_COMMITTEE_SIZE must be non-zero'')
      else let (hi, committeesPerEpoch) = bits_Mul64 (MaxCommitteesPerSlot b) (SlotsPerEpoch b) in
      if hi \<noteq> 0 then Inl (Err ''MAX_COMMITTEES_PER_SLOT * SLOTS_PER_EPOCH overflows uint64'')
      else let (hi, maxActiveValidators) = bits_Mul64 committeesPerEpoch (MaxValidatorsPerCommittee b) in
      if hi \<noteq> 0 then Inl (Err ''MAX_COMMITTEES_PER_SLOT * SLOTS_PER_EPOCH * MAX_VALIDATORS_PER_COMMITTEE overflows uint64'')
      else let singleCommitteeCapacity = SlotsPerEpoch b * MaxValidatorsPerCommittee b in
      if MaxCommitteesPerSlot b > 1 \<and>
         (singleCommitteeCapacity + 1) div SlotsPerEpoch b div TargetCommitteeSize b < 2
      then Inr singleCommitteeCapacity
      else Inr maxActiveValidators))"

section \<open>Validate\<close>

definition validateDepositTreeDepth :: "BeaconChainConfig \<Rightarrow> unit res" where
  "validateDepositTreeDepth b =
     (if DepositContractTreeDepth b \<noteq> fp_DepositProofLength - 1
      then Inl (Err ''DEPOSIT_CONTRACT_TREE_DEPTH must match the SSZ deposit proof length'')
      else Inr ())"

definition validateBlockOperationLimits :: "BeaconChainConfig \<Rightarrow> u64 \<Rightarrow> unit res" where
  "validateBlockOperationLimits b withdrawalLimit =
     (if MaxWithdrawalsPerPayload b = 0
      then Inl (Err ''MAX_WITHDRAWALS_PER_PAYLOAD must be non-zero'')
      else if \<exists>(cfg, ssz) \<in> set (zip
             [MaxProposerSlashings b, MaxAttesterSlashings b, MaxAttestations b, MaxDeposits b,
              MaxVoluntaryExits b, MaxWithdrawalsPerPayload b]
             (fp_BlockOperationLimits @ [withdrawalLimit])). cfg > ssz
      then Inl (Err ''must not exceed the SSZ block operation limit'')
      else Inr ())"

text \<open>The loop over the participation flags: each index is in range and differs from the earlier ones.\<close>

fun checkParticipationFlags :: "u8 list \<Rightarrow> u8 list \<Rightarrow> unit res" where
  "checkParticipationFlags previous [] = Inr ()"
| "checkParticipationFlags previous (index # flags) =
     (if index > 7 then Inl (Err ''flag index must be between 0 and 7'')
      else if index \<in> set previous then Inl (Err ''flag indices must be distinct'')
      else checkParticipationFlags (previous @ [index]) flags)"

definition nonZeroFields :: "BeaconChainConfig \<Rightarrow> u64 list" where
  "nonZeroFields b =
     [EffectiveBalanceIncrement b, MinSlashingPenaltyQuotient b, ProportionalSlashingMultiplier b,
      WhistleBlowerRewardQuotient b, ProposerRewardQuotient b, EpochsPerSlashingsVector b,
      HysteresisQuotient b, InactivityPenaltyQuotient b, InactivityScoreBias b,
      ChurnLimitQuotient b, MaxPerEpochActivationChurnLimit b, WeightDenominator b,
      ProposerWeight b, SecondsPerSlot b, IntervalsPerSlot b, SecondsPerExecutionBlock b,
      SlotsPerEpoch b, EpochsPerExecutionVotingPeriod b, TargetCommitteeSize b,
      TargetAggregatorsPerCommittee b, MaxValidatorsPerCommittee b, MaxCommitteesPerSlot b,
      EpochsPerHistoricalVector b, SlotsPerHistoricalRoot b, SyncCommitteeSize b,
      SyncCommitteeSubnetCount b, TargetAggregatorsPerSyncSubcommittee b,
      EpochsPerSyncCommitteePeriod b, EpochsPerRandomSubnetSubscription b]"

text \<open>The running sum of the reward weights, with the carry checked after each addition.\<close>

fun sumWeights :: "u64 \<Rightarrow> u64 list \<Rightarrow> u64 res" where
  "sumWeights weightSum [] = Inr weightSum"
| "sumWeights weightSum (weight # weights) =
     (let (weightSum', carry) = bits_Add64 weightSum weight
      in if carry \<noteq> 0 then Inl (Err ''weight sum overflows uint64'')
         else sumWeights weightSum' weights)"

text \<open>\<open>hi, _ := bits.Mul64(a, b); hi != 0\<close>\<close>

definition mulOverflows :: "u64 \<Rightarrow> u64 \<Rightarrow> bool" where
  "mulOverflows a b \<longleftrightarrow> fst (bits_Mul64 a b) \<noteq> 0"

text \<open>The second half of \<open>Validate\<close>, after the non-zero checks.\<close>

definition validateArithmetic :: "BeaconChainConfig \<Rightarrow> unit res" where
  "validateArithmetic b =
     (if MinAttestationInclusionDelay b > SlotsPerEpoch b
      then Inl (Err ''MIN_ATTESTATION_INCLUSION_DELAY must not exceed SLOTS_PER_EPOCH'')
      else if EpochsPerRandomSubnetSubscription b > 9223372036854775807
      then Inl (Err ''EPOCHS_PER_RANDOM_SUBNET_SUBSCRIPTION must not exceed int limit'')
      else if mulOverflows (InactivityScoreBias b) (InactivityPenaltyQuotient b)
      then Inl (Err ''INACTIVITY_SCORE_BIAS * INACTIVITY_PENALTY_QUOTIENT overflows uint64'')
      else if MaxEffectiveBalance b < EffectiveBalanceIncrement b \<or>
              MaxEffectiveBalance b mod EffectiveBalanceIncrement b \<noteq> 0
      then Inl (Err ''MAX_EFFECTIVE_BALANCE must be a positive multiple of EFFECTIVE_BALANCE_INCREMENT'')
      else let hysteresisIncrement = EffectiveBalanceIncrement b div HysteresisQuotient b in
      if mulOverflows hysteresisIncrement (HysteresisDownwardMultiplier b)
      then Inl (Err ''HYSTERESIS_DOWNWARD_MULTIPLIER overflows uint64'')
      else if mulOverflows hysteresisIncrement (HysteresisUpwardMultiplier b)
      then Inl (Err ''HYSTERESIS_UPWARD_MULTIPLIER overflows uint64'')
      else if mulOverflows (EffectiveBalanceIncrement b) (BaseRewardFactor b)
      then Inl (Err ''EFFECTIVE_BALANCE_INCREMENT * BASE_REWARD_FACTOR overflows uint64'')
      else if ProposerWeight b \<ge> WeightDenominator b
      then Inl (Err ''PROPOSER_WEIGHT must be less than WEIGHT_DENOMINATOR'')
      else bindR (sumWeights 0 [TimelySourceWeight b, TimelyTargetWeight b, TimelyHeadWeight b,
                                SyncRewardWeight b, ProposerWeight b]) (\<lambda>weightSum.
      if weightSum \<noteq> WeightDenominator b
      then Inl (Err ''weights must sum to WEIGHT_DENOMINATOR'')
      else if mulOverflows (WeightDenominator b - ProposerWeight b) (WeightDenominator b)
      then Inl (Err ''(WEIGHT_DENOMINATOR - PROPOSER_WEIGHT) * WEIGHT_DENOMINATOR overflows uint64'')
      else if SyncCommitteeSize b mod SyncCommitteeSubnetCount b \<noteq> 0
      then Inl (Err ''SYNC_COMMITTEE_SIZE must be a multiple of SYNC_COMMITTEE_SUBNET_COUNT'')
      else bindR (MaxActiveValidators b) (\<lambda>maxActiveValidators.
      if MinGenesisActiveValidatorCount b > maxActiveValidators
      then Inl (Err ''MIN_GENESIS_ACTIVE_VALIDATOR_COUNT must not exceed the active validator capacity'')
      else let (hi, maxActiveIncrements) =
                 bits_Mul64 maxActiveValidators (MaxEffectiveBalance b div EffectiveBalanceIncrement b) in
      if hi \<noteq> 0 then Inl (Err ''active validator capacity * increments overflows uint64'')
      else if mulOverflows maxActiveIncrements (WeightDenominator b)
      then Inl (Err ''maximum active balance increments * WEIGHT_DENOMINATOR overflows uint64'')
      else validateBlockOperationLimits b
             (if PresetBase b = ''minimal'' then fp_MinimalMaxWithdrawalsPerPayload
              else fp_MainnetMaxWithdrawalsPerPayload))))"

definition Validate :: "BeaconChainConfig \<Rightarrow> unit res" where
  "Validate b =
     (if length (GenesisForkVersion b) \<noteq> fp_VersionLength
      then Inl (Err ''GENESIS_FORK_VERSION must be exactly 4 bytes'')
      else bindR (validateDepositTreeDepth b) (\<lambda>_.
      if ShuffleRoundCount b > 255
      then Inl (Err ''SHUFFLE_ROUND_COUNT must not exceed 255 (uint8 shuffle round limit)'')
      else bindR (checkParticipationFlags []
             [TimelySourceFlagIndex b, TimelyTargetFlagIndex b, TimelyHeadFlagIndex b]) (\<lambda>_.
      if 0 \<in> set (nonZeroFields b) then Inl (Err ''must be non-zero'')
      else validateArithmetic b)))"

lemma Validate_mainnet: "Validate mainnetBeaconConfig = Inr ()"
  by (simp add: Validate_def validateDepositTreeDepth_def nonZeroFields_def validateArithmetic_def
      validateBlockOperationLimits_def MaxActiveValidators_def validateCommitteeSize_def
      mulOverflows_def bits_Mul64_def bits_Add64_def fieldparams_defs mainnetBeaconConfig_def Let_def)

end
