(* ===== verification/Valid_Config.thy ===== *)
theory Valid_Config
  imports Beacon_Config
begin

text \<open>
  The configurations that \<open>Validate\<close> accepts, as a type, and what acceptance guarantees: the divisors
  of slot and epoch processing are non-zero, the products they form fit in 64 bits, and the flag
  indices are distinct bit positions of a byte.
\<close>

named_theorems config_facts \<open>consequences of \<open>Validate\<close>\<close>

typedef config = "{c :: BeaconChainConfig. Validate c = Inr ()}"
  morphisms raw Config
  using Validate_mainnet by blast

lemma Validate_raw: "Validate (raw cfg) = Inr ()"
  using raw [of cfg] by simp

lemma raw_Config: "Validate c = Inr () \<Longrightarrow> raw (Config c) = c"
  by (simp add: Config_inverse)

definition mainnet :: config where
  "mainnet = Config mainnetBeaconConfig"

lemma raw_mainnet [simp]: "raw mainnet = mainnetBeaconConfig"
  by (simp add: mainnet_def raw_Config Validate_mainnet)

lemma Validate_Inr:
  assumes "Validate b = Inr ()"
  shows "0 \<notin> set (nonZeroFields b)" and "validateArithmetic b = Inr ()"
    and "ShuffleRoundCount b \<le> 255"
    and "checkParticipationFlags []
           [TimelySourceFlagIndex b, TimelyTargetFlagIndex b, TimelyHeadFlagIndex b] = Inr ()"
  using assms by (auto simp: Validate_def bindR_eq_Inr not_less split: if_splits)

lemma validateArithmetic_Inr:
  assumes "validateArithmetic b = Inr ()"
  shows "MinAttestationInclusionDelay b \<le> SlotsPerEpoch b"
    and "\<not> mulOverflows (InactivityScoreBias b) (InactivityPenaltyQuotient b)"
    and "EffectiveBalanceIncrement b \<le> MaxEffectiveBalance b"
    and "MaxEffectiveBalance b mod EffectiveBalanceIncrement b = 0"
    and "\<not> mulOverflows (EffectiveBalanceIncrement b div HysteresisQuotient b)
             (HysteresisDownwardMultiplier b)"
    and "\<not> mulOverflows (EffectiveBalanceIncrement b div HysteresisQuotient b)
             (HysteresisUpwardMultiplier b)"
    and "\<not> mulOverflows (EffectiveBalanceIncrement b) (BaseRewardFactor b)"
    and "ProposerWeight b < WeightDenominator b"
    and "sumWeights 0 [TimelySourceWeight b, TimelyTargetWeight b, TimelyHeadWeight b,
           SyncRewardWeight b, ProposerWeight b] = Inr (WeightDenominator b)"
    and "\<not> mulOverflows (WeightDenominator b - ProposerWeight b) (WeightDenominator b)"
    and "\<exists>cap. MaxActiveValidators b = Inr cap \<and> MinGenesisActiveValidatorCount b \<le> cap
           \<and> \<not> mulOverflows cap (MaxEffectiveBalance b div EffectiveBalanceIncrement b)
           \<and> \<not> mulOverflows (cap * (MaxEffectiveBalance b div EffectiveBalanceIncrement b))
                 (WeightDenominator b)"
    and "MaxWithdrawalsPerPayload b \<noteq> 0"
  using assms
  by (auto simp: validateArithmetic_def bindR_eq_Inr not_less not_le Let_def mulOverflows_def
      bits_Mul64_def validateBlockOperationLimits_def split: if_splits prod.splits)

lemmas raw_nonzero = Validate_Inr(1) [OF Validate_raw, unfolded nonZeroFields_def, simplified]
lemmas raw_arith = validateArithmetic_Inr [OF Validate_Inr(2) [OF Validate_raw]]

lemma config_nonzero [simp, config_facts]:
  "EffectiveBalanceIncrement (raw cfg) \<noteq> 0" "MinSlashingPenaltyQuotient (raw cfg) \<noteq> 0"
  "ProportionalSlashingMultiplier (raw cfg) \<noteq> 0" "WhistleBlowerRewardQuotient (raw cfg) \<noteq> 0"
  "ProposerRewardQuotient (raw cfg) \<noteq> 0" "EpochsPerSlashingsVector (raw cfg) \<noteq> 0"
  "HysteresisQuotient (raw cfg) \<noteq> 0" "InactivityPenaltyQuotient (raw cfg) \<noteq> 0"
  "InactivityScoreBias (raw cfg) \<noteq> 0" "ChurnLimitQuotient (raw cfg) \<noteq> 0"
  "WeightDenominator (raw cfg) \<noteq> 0" "ProposerWeight (raw cfg) \<noteq> 0"
  "SecondsPerSlot (raw cfg) \<noteq> 0" "IntervalsPerSlot (raw cfg) \<noteq> 0"
  "SlotsPerEpoch (raw cfg) \<noteq> 0" "EpochsPerExecutionVotingPeriod (raw cfg) \<noteq> 0"
  "TargetCommitteeSize (raw cfg) \<noteq> 0" "TargetAggregatorsPerCommittee (raw cfg) \<noteq> 0"
  "MaxValidatorsPerCommittee (raw cfg) \<noteq> 0" "MaxCommitteesPerSlot (raw cfg) \<noteq> 0"
  "EpochsPerHistoricalVector (raw cfg) \<noteq> 0" "SlotsPerHistoricalRoot (raw cfg) \<noteq> 0"
  "SyncCommitteeSize (raw cfg) \<noteq> 0" "SyncCommitteeSubnetCount (raw cfg) \<noteq> 0"
  "EpochsPerSyncCommitteePeriod (raw cfg) \<noteq> 0" "MaxPerEpochActivationChurnLimit (raw cfg) \<noteq> 0"
  "MaxWithdrawalsPerPayload (raw cfg) \<noteq> 0"
  using raw_nonzero [of cfg] raw_arith(12) [of cfg] by auto

lemma config_unat_pos [simp, config_facts]:
  "0 < unat (SlotsPerEpoch (raw cfg))" "0 < unat (EffectiveBalanceIncrement (raw cfg))"
  "0 < unat (EpochsPerSlashingsVector (raw cfg))" "0 < unat (WeightDenominator (raw cfg))"
  "0 < unat (EpochsPerHistoricalVector (raw cfg))" "0 < unat (SlotsPerHistoricalRoot (raw cfg))"
  "0 < unat (SecondsPerSlot (raw cfg))"
  by (simp_all add: unat_gt_0)

text \<open>The checked products, as facts about natural numbers.\<close>

lemma mulOverflows_iff [word_facts]:
  "mulOverflows a b \<longleftrightarrow> 18446744073709551616 \<le> unat a * unat b"
  by (simp add: mulOverflows_def bits_Mul64_hi_zero not_less)

lemma inactivity_denominator [config_facts]:
  "unat (InactivityScoreBias (raw cfg) * InactivityPenaltyQuotient (raw cfg))
     = unat (InactivityScoreBias (raw cfg)) * unat (InactivityPenaltyQuotient (raw cfg))"
  using raw_arith(2) [of cfg] by (simp add: mulOverflows_iff unat_mult_u64)

lemma inactivity_denominator_nonzero [simp, config_facts]:
  "InactivityScoreBias (raw cfg) * InactivityPenaltyQuotient (raw cfg) \<noteq> 0"
proof -
  have "unat (InactivityScoreBias (raw cfg) * InactivityPenaltyQuotient (raw cfg)) \<noteq> 0"
    by (simp add: inactivity_denominator unat_eq_zero)
  then show ?thesis
    by auto
qed

lemma base_reward_product [config_facts]:
  "unat (EffectiveBalanceIncrement (raw cfg) * BaseRewardFactor (raw cfg))
     = unat (EffectiveBalanceIncrement (raw cfg)) * unat (BaseRewardFactor (raw cfg))"
  using raw_arith(7) [of cfg] by (simp add: mulOverflows_iff unat_mult_u64)

lemma sumWeights_Inr:
  "sumWeights s ws = Inr t \<Longrightarrow> unat t = unat s + sum_list (map unat ws)"
proof (induction ws arbitrary: s)
  case Nil
  then show ?case by simp
next
  case (Cons w ws)
  then have "snd (bits_Add64 s w) = 0" and r: "sumWeights (s + w) ws = Inr t"
    by (auto simp: bits_Add64_def Let_def split: if_splits)
  then have "unat s + unat w < 18446744073709551616"
    using bits_Add64_carry [of s w] by simp
  then show ?case
    using Cons.IH [OF r] by (simp add: unat_add_u64)
qed

lemma weights_sum [config_facts]:
  "unat (TimelySourceWeight (raw cfg)) + unat (TimelyTargetWeight (raw cfg))
     + unat (TimelyHeadWeight (raw cfg)) + unat (SyncRewardWeight (raw cfg))
     + unat (ProposerWeight (raw cfg)) = unat (WeightDenominator (raw cfg))"
  using sumWeights_Inr [OF raw_arith(9) [of cfg]] by simp

text \<open>The participation flags are distinct bits of a byte.\<close>

lemma checkParticipationFlags_Inr:
  "checkParticipationFlags previous flags = Inr () \<Longrightarrow>
     distinct flags \<and> set flags \<inter> set previous = {} \<and> (\<forall>i \<in> set flags. i \<le> 7)"
proof (induction previous flags rule: checkParticipationFlags.induct)
  case (2 previous index flags)
  then show ?case by (auto simp: not_less split: if_splits)
qed simp

lemma flag_indices [config_facts]:
  "distinct [TimelySourceFlagIndex (raw cfg), TimelyTargetFlagIndex (raw cfg),
             TimelyHeadFlagIndex (raw cfg)]"
  "TimelySourceFlagIndex (raw cfg) \<le> 7" "TimelyTargetFlagIndex (raw cfg) \<le> 7"
  "TimelyHeadFlagIndex (raw cfg) \<le> 7"
  using checkParticipationFlags_Inr [OF Validate_Inr(4) [OF Validate_raw]] by auto

text \<open>A small accepted configuration, with vectors short enough to write out.\<close>

definition tinyBeaconConfig :: BeaconChainConfig where
  "tinyBeaconConfig = mainnetBeaconConfig\<lparr>SlotsPerEpoch := 4, SlotsPerHistoricalRoot := 8,
     EpochsPerHistoricalVector := 4, EpochsPerSlashingsVector := 4, ShuffleRoundCount := 3,
     EpochsPerExecutionVotingPeriod := 2, EpochsPerSyncCommitteePeriod := 2,
     TargetCommitteeSize := 2, MaxCommitteesPerSlot := 2, MinGenesisActiveValidatorCount := 4\<rparr>"

lemma Validate_tiny: "Validate tinyBeaconConfig = Inr ()"
  by (simp add: Validate_def validateDepositTreeDepth_def nonZeroFields_def validateArithmetic_def
      validateBlockOperationLimits_def MaxActiveValidators_def validateCommitteeSize_def
      mulOverflows_def bits_Mul64_def bits_Add64_def fieldparams_defs mainnetBeaconConfig_def
      tinyBeaconConfig_def Let_def)

definition tiny :: config where
  "tiny = Config tinyBeaconConfig"

lemma raw_tiny [simp]: "raw tiny = tinyBeaconConfig"
  by (simp add: tiny_def raw_Config Validate_tiny)

end
