(* ===== verification/Slot_Time.thy ===== *)
theory Slot_Time
  imports Valid_Config
begin

text \<open>
  \<open>time/slots/slottime.go\<close>: slots, epochs and wall-clock time. The local clock is an argument
  (\<open>now\<close>: seconds since the Unix epoch, \<open>now_ns\<close>: nanoseconds), as \<open>qrysmTime.Now()\<close> returns it. A
  \<open>time.Time\<close> is its number of seconds, a \<open>time.Duration\<close> its number of nanoseconds.
\<close>

section \<open>Slots and epochs\<close>

definition ToEpoch :: "config \<Rightarrow> Slot \<Rightarrow> Epoch" where
  "ToEpoch cfg slot = slot div SlotsPerEpoch (raw cfg)"

definition EpochStart :: "config \<Rightarrow> Epoch \<Rightarrow> Slot res" where
  "EpochStart cfg epoch =
     wrapR ''start slot calculation overflows'' (Slot_SafeMul (SlotsPerEpoch (raw cfg)) epoch)"

definition EpochEnd :: "config \<Rightarrow> Epoch \<Rightarrow> Slot res" where
  "EpochEnd cfg epoch =
     (if epoch = max_u64 then Inl (Err ''start slot calculation overflows'')
      else bindR (EpochStart cfg (epoch + 1)) (\<lambda>slot. Inr (slot - 1)))"

definition SyncCommitteePeriod :: "config \<Rightarrow> Epoch \<Rightarrow> u64" where
  "SyncCommitteePeriod cfg e = e div EpochsPerSyncCommitteePeriod (raw cfg)"

definition SyncCommitteePeriodStartEpoch :: "config \<Rightarrow> Epoch \<Rightarrow> Epoch res" where
  "SyncCommitteePeriodStartEpoch cfg e =
     Mul64 (SyncCommitteePeriod cfg e) (EpochsPerSyncCommitteePeriod (raw cfg))"

section \<open>Slots and the clock\<close>

definition MaxSlotBuffer :: u64 where "MaxSlotBuffer = 128"

definition ToTime :: "config \<Rightarrow> u64 \<Rightarrow> Slot \<Rightarrow> int res" where
  "ToTime cfg genesisTimeSec slot =
     bindR (wrapR ''slot is in the far distant future'' (Slot_SafeMul slot (SecondsPerSlot (raw cfg))))
       (\<lambda>timeSinceGenesis.
     bindR (wrapR ''slot is in the far distant future'' (Slot_SafeAdd timeSinceGenesis genesisTimeSec))
       (\<lambda>sTime. Inr (sint sTime)))"

definition CurrentSlot :: "config \<Rightarrow> u64 \<Rightarrow> u64 \<Rightarrow> Slot" where
  "CurrentSlot cfg now genesisTimeSec =
     (if now < genesisTimeSec then 0 else (now - genesisTimeSec) div SecondsPerSlot (raw cfg))"

definition ValidateClock :: "config \<Rightarrow> u64 \<Rightarrow> Slot \<Rightarrow> u64 \<Rightarrow> unit res" where
  "ValidateClock cfg now slot genesisTimeSec =
     bindR (Slot_Add (CurrentSlot cfg now genesisTimeSec) MaxSlotBuffer) (\<lambda>maxPossibleSlot.
     if slot > maxPossibleSlot
     then Inl (Err ''slot exceeds max allowed value relative to the local clock'')
     else Inr ())"

text \<open>\<open>Time.Sub\<close> saturates at the largest and smallest duration.\<close>

definition time_Sub :: "int \<Rightarrow> int \<Rightarrow> int" where
  "time_Sub t u = max MinInt (min MaxInt (t - u))"

definition VerifyTime :: "config \<Rightarrow> int \<Rightarrow> u64 \<Rightarrow> Slot \<Rightarrow> int \<Rightarrow> unit res" where
  "VerifyTime cfg now_ns genesisTime slot timeTolerance =
     bindR (ToTime cfg genesisTime slot) (\<lambda>slotTime.
     bindR (ValidateClock cfg (word_of_int (now_ns div 1000000000)) slot genesisTime) (\<lambda>_.
     let diff = time_Sub (slotTime * 1000000000) now_ns in
     if diff > timeTolerance then Inl (Err ''could not process slot from the future'')
     else Inr ()))"

definition SecondsSinceSlotStart :: "config \<Rightarrow> Slot \<Rightarrow> u64 \<Rightarrow> u64 \<Rightarrow> u64 res" where
  "SecondsSinceSlotStart cfg s genesisTime timeStamp =
     (if timeStamp < genesisTime + s * SecondsPerSlot (raw cfg)
      then Inl (Err ''could not compute seconds since slot start: invalid timestamp'')
      else Inr (timeStamp - genesisTime - s * SecondsPerSlot (raw cfg)))"

section \<open>Epoch boundaries\<close>

lemma unat_ToEpoch: "unat (ToEpoch cfg s) = unat s div unat (SlotsPerEpoch (raw cfg))"
  by (simp add: ToEpoch_def unat_div_u64)

lemma ToEpoch_DivSlot: "Slot_DivSlot s (SlotsPerEpoch (raw cfg)) = Inr (ToEpoch cfg s)"
  by (simp add: prim_cases ToEpoch_def)

lemma EpochStart_Inr:
  "EpochStart cfg e = Inr s \<longleftrightarrow>
     unat e * unat (SlotsPerEpoch (raw cfg)) < 18446744073709551616 \<and> s = SlotsPerEpoch (raw cfg) * e"
  by (auto simp: EpochStart_def prim_cases mult.commute)

lemma unat_EpochStart:
  "EpochStart cfg e = Inr s \<Longrightarrow> unat s = unat e * unat (SlotsPerEpoch (raw cfg))"
  by (auto simp: EpochStart_Inr unat_mult_u64 mult.commute)

lemma unat_EpochEnd:
  assumes "EpochEnd cfg e = Inr t"
  shows "unat t + 1 = (unat e + 1) * unat (SlotsPerEpoch (raw cfg))"
proof -
  from assms obtain s where "e \<noteq> max_u64" and s: "EpochStart cfg (e + 1) = Inr s" and t: "t = s - 1"
    by (auto simp: EpochEnd_def bindR_eq_Inr split: if_splits)
  then have e: "unat (e + 1) = unat e + 1"
    using unat_lt_2_64 [of e] by (simp add: unat_add_u64 unat_eq_u64)
  have s': "unat s = (unat e + 1) * unat (SlotsPerEpoch (raw cfg))"
    using unat_EpochStart [OF s] e by simp
  then have "1 \<le> s"
    by (simp add: unat_le_u64 Suc_le_eq)
  then show ?thesis
    using s' by (simp add: t unat_sub_u64 unat_le_u64)
qed

lemma div_eq_iff_between:
  fixes n d q :: nat
  assumes "0 < d"
  shows "n div d = q \<longleftrightarrow> q * d \<le> n \<and> n < (q + 1) * d"
  using assms by (metis Suc_eq_plus1 div_nat_eqI dividend_less_times_div div_times_less_eq_dividend
      mult.commute mult_Suc)

lemma EpochStart_ToEpoch_exists: "\<exists>s. EpochStart cfg (ToEpoch cfg slot) = Inr s \<and> s \<le> slot"
proof -
  have le: "unat (ToEpoch cfg slot) * unat (SlotsPerEpoch (raw cfg)) \<le> unat slot"
    by (simp add: unat_ToEpoch)
  then have "EpochStart cfg (ToEpoch cfg slot) = Inr (SlotsPerEpoch (raw cfg) * ToEpoch cfg slot)"
    using unat_lt_2_64 [of slot] by (simp add: EpochStart_Inr)
  then show ?thesis
    using unat_EpochStart le by (auto simp: unat_le_u64)
qed

end
