(* ===== verification/Bytes_Util.thy ===== *)
theory Bytes_Util
  imports Math_Helper
begin

text \<open>
  \<open>encoding/bytesutil\<close>: integers to and from byte strings, fixed-size arrays from slices, byte order,
  and bit lists. Go's \<open>encoding/binary\<close> is modelled by \<open>put_le\<close> and \<open>get_le\<close> on natural numbers.
  The lemmas are the round trips of the encoders and the get/set laws of the bit lists.
\<close>

named_theorems bytes_defs \<open>definitions of the byte encoders\<close>

section \<open>Little-endian digits\<close>

fun put_le :: "nat \<Rightarrow> nat \<Rightarrow> bytes" where
  "put_le 0 x = []"
| "put_le (Suc n) x = of_nat (x mod 256) # put_le n (x div 256)"

fun get_le :: "bytes \<Rightarrow> nat" where
  "get_le [] = 0"
| "get_le (b # bs) = unat b + 256 * get_le bs"

lemma length_put_le [simp]: "length (put_le n x) = n"
  by (induction n arbitrary: x) simp_all

lemma unat_of_nat_u8: "unat (of_nat (x mod 256) :: u8) = x mod 256"
  by (simp add: unat_of_nat)

lemma get_put_le: "get_le (put_le n x) = x mod 256 ^ n"
proof (induction n arbitrary: x)
  case (Suc n)
  have "get_le (put_le (Suc n) x) = x mod 256 + 256 * (x div 256 mod 256 ^ n)"
    using Suc by (simp add: unat_of_nat_u8)
  also have "\<dots> = x mod (256 * 256 ^ n)"
    by (simp add: mod_mult2_eq)
  finally show ?case by simp
qed simp

lemma unat_lt_256: "unat (b :: u8) < 256"
  using unsigned_less [of b] by simp

lemma put_get_le: "put_le (length bs) (get_le bs) = bs"
proof (induction bs)
  case (Cons b bs)
  have "(unat b + 256 * get_le bs) mod 256 = unat b"
    and "(unat b + 256 * get_le bs) div 256 = get_le bs"
    using unat_lt_256 [of b] by simp_all
  then show ?case
    using Cons by simp
qed simp

lemma get_le_bound: "get_le bs < 256 ^ length bs"
proof (induction bs)
  case (Cons b bs)
  then have "get_le bs + 1 \<le> 256 ^ length bs"
    by simp
  then have "256 * (get_le bs + 1) \<le> 256 * 256 ^ length bs"
    by (rule mult_le_mono2)
  then show ?case
    using unat_lt_256 [of b] by simp
qed simp

lemma get_le_zeros [simp]: "get_le (bs @ replicate n 0) = get_le bs"
proof (induction bs)
  case Nil
  show ?case by (induction n) simp_all
qed simp

lemma take_put_le: "m \<le> n \<Longrightarrow> take m (put_le n x) = put_le m x"
proof (induction n arbitrary: m x)
  case (Suc n)
  then show ?case by (cases m) simp_all
qed simp

section \<open>Integers (\<open>integers.go\<close>)\<close>

definition Bytes8 :: "u64 \<Rightarrow> bytes" where
  [bytes_defs]: "Bytes8 x = put_le 8 (unat x)"

definition FromBytes8 :: "bytes \<Rightarrow> u64" where
  [bytes_defs]: "FromBytes8 x = (if length x < 8 then 0 else of_nat (get_le (take 8 x)))"

definition Uint64ToBytesLittleEndian :: "u64 \<Rightarrow> bytes" where
  [bytes_defs]: "Uint64ToBytesLittleEndian i = put_le 8 (unat i)"

section \<open>Byte order\<close>

text \<open>\<open>ReverseByteOrder\<close> swaps the ends of the copied slice inwards; \<open>i\<close> counts the swaps done.\<close>

definition swap_at :: "'a list \<Rightarrow> nat \<Rightarrow> nat \<Rightarrow> 'a list" where
  "swap_at xs i j = xs[i := xs ! j, j := xs ! i]"

function reverse_loop :: "'a list \<Rightarrow> nat \<Rightarrow> nat \<Rightarrow> 'a list" where
  "reverse_loop b i k = (if i < k then reverse_loop (swap_at b i (length b - i - 1)) (Suc i) k else b)"
  by pat_completeness auto
termination
  by (relation "measure (\<lambda>(b, i, k). k - i)") auto

declare reverse_loop.simps [simp del]

definition ReverseByteOrder :: "bytes \<Rightarrow> bytes" where
  "ReverseByteOrder input = reverse_loop input 0 (length input div 2)"

definition ReverseBytes32Slice :: "bytes list \<Rightarrow> bytes list" where
  "ReverseBytes32Slice arr = reverse_loop arr 0 (length arr div 2)"

lemma length_swap_at [simp]: "length (swap_at xs i j) = length xs"
  by (simp add: swap_at_def)

lemma nth_swap_at:
  "i < length xs \<Longrightarrow> j < length xs \<Longrightarrow> m < length xs \<Longrightarrow>
     swap_at xs i j ! m = (if m = i then xs ! j else if m = j then xs ! i else xs ! m)"
  by (auto simp: swap_at_def nth_list_update)

lemma reverse_loop_nth:
  assumes "k \<le> length b div 2" and "m < length b"
  shows "length (reverse_loop b i k) = length b \<and>
    reverse_loop b i k ! m =
      (if i \<le> m \<and> m < k \<or> i \<le> length b - m - 1 \<and> length b - m - 1 < k
       then b ! (length b - m - 1) else b ! m)"
  using assms
proof (induction b i k rule: reverse_loop.induct)
  case (1 b i k)
  show ?case
  proof (cases "i < k")
    case True
    let ?b = "swap_at b i (length b - i - 1)"
    have IH: "length (reverse_loop ?b (Suc i) k) = length b \<and>
      reverse_loop ?b (Suc i) k ! m =
        (if Suc i \<le> m \<and> m < k \<or> Suc i \<le> length b - m - 1 \<and> length b - m - 1 < k
         then ?b ! (length b - m - 1) else ?b ! m)"
      using "1.IH" [OF True] "1.prems" by simp
    have i: "i < length b - i - 1" "length b - i - 1 < length b"
      using True "1.prems" by auto
    have eq: "reverse_loop b i k = reverse_loop ?b (Suc i) k"
      using True by (subst reverse_loop.simps) simp
    have ij: "i < length b"
      using i by simp
    consider (lo) "m = i" | (hi) "m = length b - i - 1"
      | (other) "m \<noteq> i" "m \<noteq> length b - i - 1" "length b - m - 1 \<noteq> i"
        "length b - m - 1 \<noteq> length b - i - 1"
      using i "1.prems"(2) by linarith
    then show ?thesis
    proof cases
      case lo
      have "\<not> (Suc i \<le> m \<and> m < k)" "\<not> (Suc i \<le> length b - m - 1 \<and> length b - m - 1 < k)"
        using lo i "1.prems"(1) True by linarith+
      then show ?thesis
        using lo True IH eq nth_swap_at [OF ij i(2) "1.prems"(2)] by auto
    next
      case hi
      have "\<not> (Suc i \<le> m \<and> m < k)" "\<not> (Suc i \<le> length b - m - 1 \<and> length b - m - 1 < k)"
        "length b - m - 1 = i" "m \<noteq> i"
        using hi i "1.prems"(1) True by linarith+
      then show ?thesis
        using hi True IH eq nth_swap_at [OF ij i(2) "1.prems"(2)] by auto
    next
      case other
      have "(Suc i \<le> m \<and> m < k) = (i \<le> m \<and> m < k)"
        "(Suc i \<le> length b - m - 1 \<and> length b - m - 1 < k) =
           (i \<le> length b - m - 1 \<and> length b - m - 1 < k)"
        using other by linarith+
      moreover have "length b - m - 1 < length b"
        using "1.prems"(2) by simp
      ultimately show ?thesis
        using other IH eq nth_swap_at [OF ij i(2) "1.prems"(2)]
          nth_swap_at [OF ij i(2), of "length b - m - 1"] by simp
    qed
  next
    case False
    then have "reverse_loop b i k = b"
      by (subst reverse_loop.simps) simp
    then show ?thesis
      using False by auto
  qed
qed

lemma reverse_loop_rev: "reverse_loop b 0 (length b div 2) = rev b"
proof (rule nth_equalityI)
  show "length (reverse_loop b 0 (length b div 2)) = length (rev b)"
    using reverse_loop_nth [of "length b div 2" b 0 0]
    by (cases b) (simp_all add: reverse_loop.simps)
  fix m assume "m < length (reverse_loop b 0 (length b div 2))"
  then have m: "m < length b"
    using reverse_loop_nth [of "length b div 2" b 0 0]
    by (cases b) (simp_all add: reverse_loop.simps)
  have "m < length b div 2 \<or> length b - m - 1 < length b div 2 \<or> m = length b - m - 1"
    using m by linarith
  then show "reverse_loop b 0 (length b div 2) ! m = rev b ! m"
    using reverse_loop_nth [OF order_refl m, of 0] m by (auto simp: rev_nth)
qed

lemma ReverseByteOrder_rev: "ReverseByteOrder b = rev b"
  by (simp add: ReverseByteOrder_def reverse_loop_rev)

lemma ReverseBytes32Slice_rev: "ReverseBytes32Slice b = rev b"
  by (simp add: ReverseBytes32Slice_def reverse_loop_rev)

text \<open>\<open>big.Int\<close>: \<open>SetBytes\<close> reads a big-endian magnitude; \<open>Bytes\<close> writes the shortest one.\<close>

fun nat_bytes_le :: "nat \<Rightarrow> bytes" where
  "nat_bytes_le n = (if n = 0 then [] else of_nat (n mod 256) # nat_bytes_le (n div 256))"

declare nat_bytes_le.simps [simp del]

lemma get_le_nat_bytes_le: "get_le (nat_bytes_le n) = n"
proof (induction n rule: nat_bytes_le.induct)
  case (1 n)
  show ?case
  proof (cases "n = 0")
    case False
    then have "get_le (nat_bytes_le (n div 256)) = n div 256"
      by (rule "1.IH")
    then show ?thesis
      using False by (subst nat_bytes_le.simps) (simp add: unat_of_nat_u8)
  qed (simp add: nat_bytes_le.simps)
qed

section \<open>Fixed-size arrays (\<open>bytes.go\<close>, \<open>bytes_go120.go\<close>)\<close>

text \<open>\<open>copy(out[:], x)\<close> into a zeroed array of \<open>n\<close> bytes, or the array conversion, which cuts.\<close>

definition to_array :: "nat \<Rightarrow> bytes \<Rightarrow> bytes" where
  "to_array n x = (if length x < n then x @ replicate (n - length x) 0 else take n x)"

definition ToBytes4 :: "bytes \<Rightarrow> bytes" where [bytes_defs]: "ToBytes4 x = to_array 4 x"
definition ToBytes32 :: "bytes \<Rightarrow> bytes" where [bytes_defs]: "ToBytes32 x = to_array 32 x"
definition ToBytes64 :: "bytes \<Rightarrow> bytes" where [bytes_defs]: "ToBytes64 x = to_array 64 x"
definition ToBytes2592 :: "bytes \<Rightarrow> bytes" where [bytes_defs]: "ToBytes2592 x = to_array 2592 x"

lemma length_to_array [simp]: "length (to_array n x) = n"
  by (simp add: to_array_def)

lemma to_array_id: "length x = n \<Longrightarrow> to_array n x = x"
  by (simp add: to_array_def)

section \<open>Bit lists (\<open>bits.go\<close>)\<close>

text \<open>An index below zero makes the shift or the slice access of \<open>SetBit\<close> panic.\<close>

definition SetBit :: "bytes \<Rightarrow> int \<Rightarrow> bytes res" where
  "SetBit b i =
     (if i < 0 then Inl (Panic ''runtime error'')
      else let b' = (if i \<ge> int (length b) * 8
                     then b @ replicate (nat ((i + (8 - i mod 8)) div 8) - length b) 0 else b)
           in Inr (b'[nat i div 8 := (b' ! (nat i div 8)) OR push_bit (nat i mod 8) 1]))"

definition ClearBit :: "bytes \<Rightarrow> int \<Rightarrow> bytes" where
  "ClearBit b i =
     (if i \<ge> int (length b) * 8 \<or> i < 0 then b
      else b[nat i div 8 := (b ! (nat i div 8)) AND NOT (push_bit (nat i mod 8) 1)])"

text \<open>\<open>bits.Len8\<close>: the number of bits needed to write the byte.\<close>

fun nat_len :: "nat \<Rightarrow> nat" where
  "nat_len n = (if n = 0 then 0 else Suc (nat_len (n div 2)))"

declare nat_len.simps [simp del]

definition bits_Len8 :: "u8 \<Rightarrow> nat" where
  "bits_Len8 x = nat_len (unat x)"

fun highest_loop :: "bytes \<Rightarrow> nat \<Rightarrow> nat" where
  "highest_loop b 0 = 0"
| "highest_loop b (Suc i) = (if b ! i = 0 then highest_loop b i else bits_Len8 (b ! i) + i * 8)"

definition HighestBitIndex :: "bytes \<Rightarrow> nat res" where
  "HighestBitIndex b =
     (if length b = 0 then Inl (Err ''input list can't be empty or nil'')
      else Inr (highest_loop b (length b)))"

text \<open>Bit \<open>k\<close> of a bit list; positions past the end are zero.\<close>

definition bit_at :: "bytes \<Rightarrow> nat \<Rightarrow> bool" where
  "bit_at b k \<longleftrightarrow> k < length b * 8 \<and> bit (b ! (k div 8)) (k mod 8)"

lemma byte_index: "k < n * 8 \<longleftrightarrow> k div 8 < (n :: nat)"
  by (simp add: div_less_iff_less_mult mult.commute)

lemma bit_at_append_zeros: "bit_at (b @ replicate n 0) k = bit_at b k"
  by (auto simp: bit_at_def byte_index nth_append)

lemma div_mod_eq_8: "(k :: nat) = i \<longleftrightarrow> k div 8 = i div 8 \<and> k mod 8 = i mod 8"
  by (metis mod_div_mult_eq)

lemma bit_at_set:
  assumes "i div 8 < length b"
  shows "bit_at (b[i div 8 := (b ! (i div 8)) OR push_bit (i mod 8) 1]) k \<longleftrightarrow> k = i \<or> bit_at b k"
proof (cases "k div 8 = i div 8")
  case True
  then show ?thesis
    using assms by (auto simp: bit_at_def byte_index bit_simps div_mod_eq_8 [of k i])
next
  case False
  then show ?thesis
    using assms by (auto simp: bit_at_def byte_index)
qed

lemma bit_at_clear:
  assumes "i div 8 < length b"
  shows "bit_at (b[i div 8 := (b ! (i div 8)) AND NOT (push_bit (i mod 8) 1)]) k
           \<longleftrightarrow> k \<noteq> i \<and> bit_at b k"
proof (cases "k div 8 = i div 8")
  case True
  then show ?thesis
    using assms by (auto simp: bit_at_def byte_index bit_simps div_mod_eq_8 [of k i])
next
  case False
  then show ?thesis
    using assms by (auto simp: bit_at_def byte_index)
qed

lemma SetBit_grows: "nat ((int i + (8 - int i mod 8)) div 8) = i div 8 + 1"
proof -
  have "int i + (8 - int i mod 8) = (int i div 8 + 1) * 8"
    by (simp add: minus_mod_eq_mult_div [symmetric] algebra_simps)
  then have "(int i + (8 - int i mod 8)) div 8 = int i div 8 + 1"
    by (simp only: nonzero_mult_div_cancel_right)
  then show ?thesis
    by (simp add: nat_add_distrib nat_div_distrib)
qed

lemma SetBit_bit_at:
  "\<exists>b'. SetBit b (int i) = Inr b' \<and> length b' = max (length b) (i div 8 + 1)
     \<and> (\<forall>k. bit_at b' k \<longleftrightarrow> k = i \<or> bit_at b k)"
proof (cases "length b * 8 \<le> i")
  case True
  let ?c = "b @ replicate (i div 8 + 1 - length b) 0"
  have len: "length b \<le> i div 8"
    using True byte_index [of i "length b"] by linarith
  have "SetBit b (int i) = Inr (?c[i div 8 := (?c ! (i div 8)) OR push_bit (i mod 8) 1])"
    using True SetBit_grows [of i] by (simp add: SetBit_def Let_def)
  moreover have "length ?c = i div 8 + 1"
    using len by simp
  ultimately show ?thesis
    using bit_at_set [of i ?c] bit_at_append_zeros [of b] len by (simp add: max_def)
next
  case False
  then have "i div 8 < length b"
    using byte_index [of i "length b"] by linarith
  then show ?thesis
    using False bit_at_set [of i b] by (simp add: SetBit_def Let_def max_def)
qed

lemma ClearBit_bit_at:
  "length (ClearBit b (int i)) = length b \<and> (bit_at (ClearBit b (int i)) k \<longleftrightarrow> k \<noteq> i \<and> bit_at b k)"
proof (cases "i < length b * 8")
  case True
  then have "i div 8 < length b"
    by (simp add: byte_index)
  then show ?thesis
    using True bit_at_clear [of i b k] by (simp add: ClearBit_def)
next
  case False
  then show ?thesis
    by (auto simp: ClearBit_def bit_at_def)
qed

end
