(* ===== verification/Beacon_State.thy ===== *)
theory Beacon_State
  imports Slot_Time Bytes_Util
begin

text \<open>
  The beacon state (\<open>beacon-chain/state/state-native\<close>): its protobuf records, the fields of the
  \<open>BeaconState\<close> struct that the core library reads and writes, and the getters and setters as
  functions on values. Locks, reference counts, dirty-index bookkeeping and field tries do not change
  the values and are left out; slices are those of an initialised state, never \<open>nil\<close>, and the
  branch modelled is the one without the \<open>EnableExperimentalState\<close> feature.
  The locale \<open>indexed_field\<close> states what the reader and writer of an indexed field promise; it is
  interpreted on the validators, balances, slashings, RANDAO mixes, block roots and state roots.
\<close>

named_theorems state_defs \<open>getters and setters of the beacon state\<close>

section \<open>Records\<close>

record Validator =
  PublicKey :: bytes
  WithdrawalRecipient :: bytes
  EffectiveBalance :: u64
  Slashed :: bool
  ActivationEligibilityEpoch :: Epoch
  ActivationEpoch :: Epoch
  ExitEpoch :: Epoch
  WithdrawableEpoch :: Epoch
  RandaoCommitment :: bytes

record Checkpoint =
  cp_Epoch :: Epoch
  cp_Root :: bytes

record BeaconBlockHeader =
  hdr_Slot :: Slot
  hdr_ProposerIndex :: ValidatorIndex
  hdr_ParentRoot :: bytes
  hdr_StateRoot :: bytes
  hdr_BodyRoot :: bytes

record ExecutionData =
  DepositRoot :: bytes
  DepositCount :: u64
  BlockHash :: bytes

record HistoricalSummary =
  BlockSummaryRoot :: bytes
  StateSummaryRoot :: bytes

record SyncCommittee =
  Pubkeys :: "bytes list"

record BeaconState =
  b_genesisTime :: u64
  b_genesisValidatorsRoot :: bytes
  b_slot :: Slot
  b_latestBlockHeader :: BeaconBlockHeader
  b_blockRoots :: "bytes list"
  b_stateRoots :: "bytes list"
  b_historicalSummaries :: "HistoricalSummary list"
  b_executionData :: ExecutionData
  b_executionDataVotes :: "ExecutionData list"
  b_executionDepositIndex :: u64
  b_validators :: "Validator list"
  b_balances :: "u64 list"
  b_randaoMixes :: "bytes list"
  b_slashings :: "u64 list"
  b_previousEpochParticipation :: bytes
  b_currentEpochParticipation :: bytes
  b_justificationBits :: bytes
  b_previousJustifiedCheckpoint :: Checkpoint
  b_currentJustifiedCheckpoint :: Checkpoint
  b_finalizedCheckpoint :: Checkpoint
  b_inactivityScores :: "u64 list"
  b_currentSyncCommittee :: SyncCommittee
  b_nextSyncCommittee :: SyncCommittee
  b_nextWithdrawalIndex :: u64
  b_nextWithdrawalValidatorIndex :: ValidatorIndex
  b_valMap :: "bytes \<rightharpoonup> ValidatorIndex" \<comment> \<open>\<open>valMapHandler.valIdxMap\<close>\<close>

text \<open>The zero values of the structs.\<close>

definition zero_validator :: Validator where
  "zero_validator = \<lparr>PublicKey = [], WithdrawalRecipient = [], EffectiveBalance = 0, Slashed = False,
     ActivationEligibilityEpoch = 0, ActivationEpoch = 0, ExitEpoch = 0, WithdrawableEpoch = 0,
     RandaoCommitment = []\<rparr>"

definition zero_state :: BeaconState where
  "zero_state = \<lparr>b_genesisTime = 0, b_genesisValidatorsRoot = [], b_slot = 0,
     b_latestBlockHeader = \<lparr>hdr_Slot = 0, hdr_ProposerIndex = 0, hdr_ParentRoot = [], hdr_StateRoot = [], hdr_BodyRoot = []\<rparr>,
     b_blockRoots = [], b_stateRoots = [], b_historicalSummaries = [],
     b_executionData = \<lparr>DepositRoot = [], DepositCount = 0, BlockHash = []\<rparr>, b_executionDataVotes = [],
     b_executionDepositIndex = 0, b_validators = [], b_balances = [], b_randaoMixes = [], b_slashings = [],
     b_previousEpochParticipation = [], b_currentEpochParticipation = [], b_justificationBits = [0],
     b_previousJustifiedCheckpoint = \<lparr>cp_Epoch = 0, cp_Root = []\<rparr>,
     b_currentJustifiedCheckpoint = \<lparr>cp_Epoch = 0, cp_Root = []\<rparr>,
     b_finalizedCheckpoint = \<lparr>cp_Epoch = 0, cp_Root = []\<rparr>, b_inactivityScores = [],
     b_currentSyncCommittee = \<lparr>Pubkeys = []\<rparr>, b_nextSyncCommittee = \<lparr>Pubkeys = []\<rparr>,
     b_nextWithdrawalIndex = 0, b_nextWithdrawalValidatorIndex = 0, b_valMap = Map.empty\<rparr>"

section \<open>Validators\<close>

definition normalizeRandaoCommitment :: "Validator \<Rightarrow> Validator" where
  "normalizeRandaoCommitment v =
     (if length (RandaoCommitment v) = 0 then v\<lparr>RandaoCommitment := replicate 32 0\<rparr> else v)"

definition NumValidators :: "BeaconState \<Rightarrow> nat" where
  [state_defs]: "NumValidators b = length (b_validators b)"

definition ValidatorAtIndex :: "BeaconState \<Rightarrow> ValidatorIndex \<Rightarrow> Validator res" where
  [state_defs]: "ValidatorAtIndex b idx =
     (if length (b_validators b) \<le> unat idx then Inl (Err ''validator index does not exist: index out of bounds'')
      else Inr (b_validators b ! unat idx))"

definition ValidatorAtIndexReadOnly :: "BeaconState \<Rightarrow> ValidatorIndex \<Rightarrow> Validator res" where
  [state_defs]: "ValidatorAtIndexReadOnly b idx =
     (if length (b_validators b) \<le> unat idx then Inl (Err ''validator index does not exist: index out of bounds'')
      else Inr (b_validators b ! unat idx))"

definition UpdateValidatorAtIndex :: "BeaconState \<Rightarrow> ValidatorIndex \<Rightarrow> Validator \<Rightarrow> BeaconState res" where
  [state_defs]: "UpdateValidatorAtIndex b idx val =
     (let val = normalizeRandaoCommitment val
      in if length (b_validators b) \<le> unat idx
         then Inl (Err ''validator index does not exist: index out of bounds'')
         else Inr (b\<lparr>b_validators := (b_validators b)[unat idx := val]\<rparr>))"

text \<open>The pubkey map: later entries of the registry overwrite earlier ones.\<close>

definition ValidatorIndexMap :: "Validator list \<Rightarrow> (bytes \<rightharpoonup> ValidatorIndex)" where
  "ValidatorIndexMap vals =
     fold (\<lambda>(idx, v) m. m(ToBytes2592 (PublicKey v) \<mapsto> of_nat idx)) (enumerate 0 vals) Map.empty"

definition SetValidators :: "BeaconState \<Rightarrow> Validator list \<Rightarrow> BeaconState res" where
  [state_defs]: "SetValidators b val =
     (let val = map normalizeRandaoCommitment val
      in Inr (b\<lparr>b_validators := val, b_valMap := ValidatorIndexMap val\<rparr>))"

definition AppendValidator :: "BeaconState \<Rightarrow> Validator option \<Rightarrow> BeaconState res" where
  [state_defs]: "AppendValidator b val =
     (case val of None \<Rightarrow> Inl (Err ''cannot append nil validator'')
      | Some val \<Rightarrow>
          let val = normalizeRandaoCommitment val; vals = b_validators b @ [val];
              valIdx = of_nat (length vals - 1)
          in Inr (b\<lparr>b_validators := vals, b_valMap := (b_valMap b)(ToBytes2592 (PublicKey val) \<mapsto> valIdx)\<rparr>))"

definition ValidatorIndexByPubkey :: "BeaconState \<Rightarrow> bytes \<Rightarrow> ValidatorIndex \<times> bool" where
  [state_defs]: "ValidatorIndexByPubkey b key =
     (case b_valMap b key of None \<Rightarrow> (0, False)
      | Some idx \<Rightarrow> if of_nat (length (b_validators b)) \<le> idx then (0, False) else (idx, True))"

definition PubkeyAtIndex :: "BeaconState \<Rightarrow> ValidatorIndex \<Rightarrow> bytes" where
  [state_defs]: "PubkeyAtIndex b idx =
     (if unat idx \<ge> length (b_validators b) then replicate 2592 0
      else ToBytes2592 (PublicKey (b_validators b ! unat idx)))"

text \<open>
  The callback of \<open>ReadFromEveryValidator\<close> closes over local variables: they are its accumulator.
  The callback of \<open>ApplyToEveryValidator\<close> may call other methods of the state.
\<close>

definition ReadFromEveryValidator ::
  "BeaconState \<Rightarrow> (nat \<Rightarrow> Validator \<Rightarrow> 'a \<Rightarrow> 'a res) \<Rightarrow> 'a \<Rightarrow> 'a res" where
  "ReadFromEveryValidator b f = foldR (\<lambda>(i, v). f i v) (enumerate 0 (b_validators b))"

definition ApplyToEveryValidator ::
  "BeaconState \<Rightarrow> (nat \<Rightarrow> Validator \<Rightarrow> BeaconState \<Rightarrow> (bool \<times> Validator \<times> BeaconState) res) \<Rightarrow> BeaconState res" where
  "ApplyToEveryValidator b f =
     foldR (\<lambda>i b. bindR (ValidatorAtIndex b (of_nat i)) (\<lambda>val.
                  bindR (f i val b) (\<lambda>(changed, newVal, b).
                  if changed then wrapR ''could not update validator'' (UpdateValidatorAtIndex b (of_nat i) newVal)
                  else Inr b)))
       [0..<NumValidators b] b"

section \<open>Balances, inactivity scores and slashings\<close>

definition BalanceAtIndex :: "BeaconState \<Rightarrow> ValidatorIndex \<Rightarrow> u64 res" where
  [state_defs]: "BalanceAtIndex b idx =
     (if length (b_balances b) \<le> unat idx then Inl (Err ''balance index does not exist: index out of bounds'')
      else Inr (b_balances b ! unat idx))"

definition UpdateBalancesAtIndex :: "BeaconState \<Rightarrow> ValidatorIndex \<Rightarrow> u64 \<Rightarrow> BeaconState res" where
  [state_defs]: "UpdateBalancesAtIndex b idx val =
     (if length (b_balances b) \<le> unat idx then Inl (Err ''balance index does not exist: index out of bounds'')
      else Inr (b\<lparr>b_balances := (b_balances b)[unat idx := val]\<rparr>))"

definition SetBalances :: "BeaconState \<Rightarrow> u64 list \<Rightarrow> BeaconState res" where
  [state_defs]: "SetBalances b val = Inr (b\<lparr>b_balances := val\<rparr>)"

definition AppendBalance :: "BeaconState \<Rightarrow> u64 \<Rightarrow> BeaconState res" where
  [state_defs]: "AppendBalance b bal = Inr (b\<lparr>b_balances := b_balances b @ [bal]\<rparr>)"

definition AppendInactivityScore :: "BeaconState \<Rightarrow> u64 \<Rightarrow> BeaconState res" where
  [state_defs]: "AppendInactivityScore b s = Inr (b\<lparr>b_inactivityScores := b_inactivityScores b @ [s]\<rparr>)"

definition SetInactivityScores :: "BeaconState \<Rightarrow> u64 list \<Rightarrow> BeaconState res" where
  [state_defs]: "SetInactivityScores b val = Inr (b\<lparr>b_inactivityScores := val\<rparr>)"

text \<open>\<open>b.Slashings()[idx]\<close>\<close>

definition SlashingsAtIndex :: "BeaconState \<Rightarrow> u64 \<Rightarrow> u64 res" where
  [state_defs]: "SlashingsAtIndex b idx =
     (if length (b_slashings b) \<le> unat idx then Inl (Panic ''index out of range'')
      else Inr (b_slashings b ! unat idx))"

definition UpdateSlashingsAtIndex :: "BeaconState \<Rightarrow> u64 \<Rightarrow> u64 \<Rightarrow> BeaconState res" where
  [state_defs]: "UpdateSlashingsAtIndex b idx val =
     (if length (b_slashings b) \<le> unat idx then Inl (Err ''invalid index provided'')
      else Inr (b\<lparr>b_slashings := (b_slashings b)[unat idx := val]\<rparr>))"

section \<open>RANDAO mixes and historical roots\<close>

definition RandaoMixAtIndex :: "BeaconState \<Rightarrow> u64 \<Rightarrow> bytes res" where
  [state_defs]: "RandaoMixAtIndex b idx =
     (if length (b_randaoMixes b) \<le> unat idx then Inl (Err ''randao mix index does not exist: index out of bounds'')
      else Inr (b_randaoMixes b ! unat idx))"

definition UpdateRandaoMixesAtIndex :: "BeaconState \<Rightarrow> u64 \<Rightarrow> bytes \<Rightarrow> BeaconState res" where
  [state_defs]: "UpdateRandaoMixesAtIndex b idx val =
     (if length (b_randaoMixes b) \<le> unat idx then Inl (Err ''randao mix index does not exist: index out of bounds'')
      else Inr (b\<lparr>b_randaoMixes := (b_randaoMixes b)[unat idx := val]\<rparr>))"

definition BlockRootAtIndex :: "BeaconState \<Rightarrow> u64 \<Rightarrow> bytes res" where
  [state_defs]: "BlockRootAtIndex b idx =
     (if length (b_blockRoots b) \<le> unat idx then Inl (Err ''block root index does not exist: index out of bounds'')
      else Inr (b_blockRoots b ! unat idx))"

definition UpdateBlockRootAtIndex :: "BeaconState \<Rightarrow> u64 \<Rightarrow> bytes \<Rightarrow> BeaconState res" where
  [state_defs]: "UpdateBlockRootAtIndex b idx blockRoot =
     (if length (b_blockRoots b) \<le> unat idx then Inl (Err ''block root index does not exist: index out of bounds'')
      else Inr (b\<lparr>b_blockRoots := (b_blockRoots b)[unat idx := blockRoot]\<rparr>))"

definition StateRootAtIndex :: "BeaconState \<Rightarrow> u64 \<Rightarrow> bytes res" where
  [state_defs]: "StateRootAtIndex b idx =
     (if length (b_stateRoots b) \<le> unat idx then Inl (Err ''state root index does not exist: index out of bounds'')
      else Inr (b_stateRoots b ! unat idx))"

definition UpdateStateRootAtIndex :: "BeaconState \<Rightarrow> u64 \<Rightarrow> bytes \<Rightarrow> BeaconState res" where
  [state_defs]: "UpdateStateRootAtIndex b idx stateRoot =
     (if length (b_stateRoots b) \<le> unat idx then Inl (Err ''state root index does not exist: index out of bounds'')
      else Inr (b\<lparr>b_stateRoots := (b_stateRoots b)[unat idx := stateRoot]\<rparr>))"

section \<open>Whole-field setters\<close>

definition AppendHistoricalSummaries :: "BeaconState \<Rightarrow> HistoricalSummary \<Rightarrow> BeaconState res" where
  [state_defs]: "AppendHistoricalSummaries b summary =
     Inr (b\<lparr>b_historicalSummaries := b_historicalSummaries b @ [summary]\<rparr>)"

definition SetExecutionDataVotes :: "BeaconState \<Rightarrow> ExecutionData list \<Rightarrow> BeaconState res" where
  [state_defs]: "SetExecutionDataVotes b val = Inr (b\<lparr>b_executionDataVotes := val\<rparr>)"

definition SetJustificationBits :: "BeaconState \<Rightarrow> bytes \<Rightarrow> BeaconState res" where
  [state_defs]: "SetJustificationBits b val = Inr (b\<lparr>b_justificationBits := val\<rparr>)"

definition SetPreviousJustifiedCheckpoint :: "BeaconState \<Rightarrow> Checkpoint \<Rightarrow> BeaconState res" where
  [state_defs]: "SetPreviousJustifiedCheckpoint b val = Inr (b\<lparr>b_previousJustifiedCheckpoint := val\<rparr>)"

definition SetCurrentJustifiedCheckpoint :: "BeaconState \<Rightarrow> Checkpoint \<Rightarrow> BeaconState res" where
  [state_defs]: "SetCurrentJustifiedCheckpoint b val = Inr (b\<lparr>b_currentJustifiedCheckpoint := val\<rparr>)"

definition SetFinalizedCheckpoint :: "BeaconState \<Rightarrow> Checkpoint \<Rightarrow> BeaconState res" where
  [state_defs]: "SetFinalizedCheckpoint b val = Inr (b\<lparr>b_finalizedCheckpoint := val\<rparr>)"

definition SetPreviousParticipationBits :: "BeaconState \<Rightarrow> bytes \<Rightarrow> BeaconState res" where
  [state_defs]: "SetPreviousParticipationBits b val = Inr (b\<lparr>b_previousEpochParticipation := val\<rparr>)"

definition SetCurrentParticipationBits :: "BeaconState \<Rightarrow> bytes \<Rightarrow> BeaconState res" where
  [state_defs]: "SetCurrentParticipationBits b val = Inr (b\<lparr>b_currentEpochParticipation := val\<rparr>)"

definition SetCurrentSyncCommittee :: "BeaconState \<Rightarrow> SyncCommittee \<Rightarrow> BeaconState res" where
  [state_defs]: "SetCurrentSyncCommittee b val = Inr (b\<lparr>b_currentSyncCommittee := val\<rparr>)"

definition SetNextSyncCommittee :: "BeaconState \<Rightarrow> SyncCommittee \<Rightarrow> BeaconState res" where
  [state_defs]: "SetNextSyncCommittee b val = Inr (b\<lparr>b_nextSyncCommittee := val\<rparr>)"

definition AppendCurrentParticipationBits :: "BeaconState \<Rightarrow> u8 \<Rightarrow> BeaconState res" where
  [state_defs]: "AppendCurrentParticipationBits b val =
     Inr (b\<lparr>b_currentEpochParticipation := b_currentEpochParticipation b @ [val]\<rparr>)"

definition AppendPreviousParticipationBits :: "BeaconState \<Rightarrow> u8 \<Rightarrow> BeaconState res" where
  [state_defs]: "AppendPreviousParticipationBits b val =
     Inr (b\<lparr>b_previousEpochParticipation := b_previousEpochParticipation b @ [val]\<rparr>)"

definition ModifyPreviousParticipationBits :: "BeaconState \<Rightarrow> (bytes \<Rightarrow> bytes res) \<Rightarrow> BeaconState res" where
  [state_defs]: "ModifyPreviousParticipationBits b mutator =
     bindR (mutator (b_previousEpochParticipation b)) (SetPreviousParticipationBits b)"

definition ModifyCurrentParticipationBits :: "BeaconState \<Rightarrow> (bytes \<Rightarrow> bytes res) \<Rightarrow> BeaconState res" where
  [state_defs]: "ModifyCurrentParticipationBits b mutator =
     bindR (mutator (b_currentEpochParticipation b)) (SetCurrentParticipationBits b)"

definition AppendExecutionDataVotes :: "BeaconState \<Rightarrow> ExecutionData \<Rightarrow> BeaconState res" where
  [state_defs]: "AppendExecutionDataVotes b val =
     Inr (b\<lparr>b_executionDataVotes := b_executionDataVotes b @ [val]\<rparr>)"

section \<open>Indexed fields\<close>

text \<open>
  What a reader and a writer by index promise: both succeed exactly below the length, a write keeps
  the length, and a read after a write gives the (normalised) written value at that index and the
  old one everywhere else.
\<close>

locale indexed_field =
  fixes get :: "'s \<Rightarrow> u64 \<Rightarrow> 'v res" and upd :: "'s \<Rightarrow> u64 \<Rightarrow> 'v \<Rightarrow> 's res"
    and len :: "'s \<Rightarrow> nat" and norm :: "'v \<Rightarrow> 'v"
  assumes get_total: "unat i < len s \<Longrightarrow> \<exists>v. get s i = Inr v"
    and get_bounds: "len s \<le> unat i \<Longrightarrow> \<exists>e. get s i = Inl e"
    and upd_total: "unat i < len s \<Longrightarrow> \<exists>t. upd s i v = Inr t"
    and upd_bounds: "len s \<le> unat i \<Longrightarrow> \<exists>e. upd s i v = Inl e"
    and len_upd: "upd s i v = Inr t \<Longrightarrow> len t = len s"
    and get_upd: "upd s i v = Inr t \<Longrightarrow> get t j = (if j = i then Inr (norm v) else get s j)"
begin

lemma get_Inr_iff: "(\<exists>v. get s i = Inr v) \<longleftrightarrow> unat i < len s"
  using get_total [of i s] get_bounds [of s i] by (metis Inl_Inr_False linorder_not_le)

lemma upd_Inr_iff: "(\<exists>t. upd s i v = Inr t) \<longleftrightarrow> unat i < len s"
  using upd_total [of i s v] upd_bounds [of s i v] by (metis Inl_Inr_False linorder_not_le)

text \<open>Reading, changing and writing back the first \<open>k\<close> entries one after the other.\<close>

lemma modify_prefix:
  assumes "k \<le> len s" and "len s < 18446744073709551616"
  shows "\<exists>t. foldR (\<lambda>i s. bindR (get s (of_nat i)) (\<lambda>v. upd s (of_nat i) (f i v))) [0..<k] s = Inr t
    \<and> len t = len s
    \<and> (\<forall>j. get t j = (if unat j < k then bindR (get s j) (\<lambda>v. Inr (norm (f (unat j) v))) else get s j))"
  using assms(1)
proof (induction k)
  case 0
  then show ?case by simp
next
  case (Suc k)
  then obtain t where t: "foldR (\<lambda>i s. bindR (get s (of_nat i)) (\<lambda>v. upd s (of_nat i) (f i v))) [0..<k] s = Inr t"
    "len t = len s"
    "\<And>j. get t j = (if unat j < k then bindR (get s j) (\<lambda>v. Inr (norm (f (unat j) v))) else get s j)"
    by auto
  have k: "unat (of_nat k :: u64) = k" "k < len s"
    using Suc.prems assms(2) by (auto simp: unat_of_nat_u64)
  obtain v where v: "get s (of_nat k) = Inr v"
    using get_total [of "of_nat k" s] k by auto
  then have gt: "get t (of_nat k) = Inr v"
    using t(3) k by simp
  obtain u where u: "upd t (of_nat k) (f k v) = Inr u"
    using upd_total [of "of_nat k" t] k t(2) by auto
  have "get u j = (if unat j < Suc k then bindR (get s j) (\<lambda>v. Inr (norm (f (unat j) v))) else get s j)" for j
  proof (cases "j = of_nat k")
    case True
    then show ?thesis
      using get_upd [OF u, of j] v k by simp
  next
    case False
    then have "unat j \<noteq> k"
      by auto
    then show ?thesis
      using get_upd [OF u, of j] False t(3) by (simp add: less_Suc_eq)
  qed
  then show ?case
    using t gt u len_upd [OF u] by (simp add: foldR_append)
qed

end

lemmas field_rules = state_defs Let_def nth_list_update unat_eq_u64 [symmetric]

interpretation valf: indexed_field ValidatorAtIndex UpdateValidatorAtIndex NumValidators normalizeRandaoCommitment
  by unfold_locales (auto simp: field_rules split: if_splits)

interpretation balf: indexed_field BalanceAtIndex UpdateBalancesAtIndex "\<lambda>b. length (b_balances b)" "\<lambda>v. v"
  by unfold_locales (auto simp: field_rules split: if_splits)

interpretation slashf: indexed_field SlashingsAtIndex UpdateSlashingsAtIndex "\<lambda>b. length (b_slashings b)" "\<lambda>v. v"
  by unfold_locales (auto simp: field_rules split: if_splits)

interpretation mixf: indexed_field RandaoMixAtIndex UpdateRandaoMixesAtIndex "\<lambda>b. length (b_randaoMixes b)" "\<lambda>v. v"
  by unfold_locales (auto simp: field_rules split: if_splits)

interpretation blockf: indexed_field BlockRootAtIndex UpdateBlockRootAtIndex "\<lambda>b. length (b_blockRoots b)" "\<lambda>v. v"
  by unfold_locales (auto simp: field_rules split: if_splits)

interpretation statef: indexed_field StateRootAtIndex UpdateStateRootAtIndex "\<lambda>b. length (b_stateRoots b)" "\<lambda>v. v"
  by unfold_locales (auto simp: field_rules split: if_splits)

text \<open>A callback that only computes a new validator: the whole registry is mapped.\<close>

lemma ApplyToEveryValidator_map:
  assumes num: "NumValidators b < 18446744073709551616"
    and f: "\<And>i c. i < NumValidators b \<Longrightarrow>
      f i (b_validators b ! i) c = Inr (ch i (b_validators b ! i), g i (b_validators b ! i), c)"
  shows "ApplyToEveryValidator b f = Inr (b\<lparr>b_validators :=
    map (\<lambda>(i, v). if ch i v then normalizeRandaoCommitment (g i v) else v) (enumerate 0 (b_validators b))\<rparr>)"
proof -
  let ?F = "\<lambda>i v. if ch i v then normalizeRandaoCommitment (g i v) else v"
  let ?body = "\<lambda>i b. bindR (ValidatorAtIndex b (of_nat i)) (\<lambda>val.
                  bindR (f i val b) (\<lambda>(changed, newVal, b).
                  if changed then wrapR ''could not update validator'' (UpdateValidatorAtIndex b (of_nat i) newVal)
                  else Inr b))"
  let ?vs = "\<lambda>k. map (\<lambda>(i, v). if i < k then ?F i v else v) (enumerate 0 (b_validators b))"
  have "foldR ?body [0..<k] b = Inr (b\<lparr>b_validators := ?vs k\<rparr>)" if "k \<le> NumValidators b" for k
    using that
  proof (induction k)
    case 0
    have "?vs 0 = b_validators b"
      by (rule nth_equalityI) (simp_all add: nth_enumerate_eq)
    then show ?case by simp
  next
    case (Suc k)
    have k: "unat (of_nat k :: u64) = k" "k < length (b_validators b)"
      using Suc.prems num by (simp_all add: unat_of_nat_u64 NumValidators_def)
    have nth: "?vs k ! k = b_validators b ! k"
      using k by (simp add: nth_enumerate_eq)
    have "?vs (Suc k) = (?vs k)[k := ?F k (b_validators b ! k)]"
      using k by (intro nth_equalityI) (auto simp: nth_enumerate_eq nth_list_update less_Suc_eq)
    moreover have "(?vs k)[k := b_validators b ! k] = ?vs k"
      by (subst nth [symmetric]) (rule list_update_id)
    ultimately have "?body k (b\<lparr>b_validators := ?vs k\<rparr>) = Inr (b\<lparr>b_validators := ?vs (Suc k)\<rparr>)"
      using k nth f [of k] Suc.prems by (simp add: ValidatorAtIndex_def UpdateValidatorAtIndex_def Let_def)
    then show ?case
      using Suc by (simp add: foldR_append)
  qed
  moreover have "?vs (NumValidators b) = map (\<lambda>(i, v). ?F i v) (enumerate 0 (b_validators b))"
    by (rule nth_equalityI) (simp_all add: nth_enumerate_eq NumValidators_def)
  ultimately show ?thesis
    by (simp add: ApplyToEveryValidator_def)
qed

section \<open>The public-key index\<close>

text \<open>
  The map agrees with the registry: an entry points at a validator with that key, and every key of
  the registry has an entry.
\<close>

definition valmap_ok :: "BeaconState \<Rightarrow> bool" where
  "valmap_ok b \<longleftrightarrow>
     (\<forall>k i. b_valMap b k = Some i \<longrightarrow>
        unat i < length (b_validators b) \<and> ToBytes2592 (PublicKey (b_validators b ! unat i)) = k) \<and>
     (\<forall>v \<in> set (b_validators b). b_valMap b (ToBytes2592 (PublicKey v)) \<noteq> None)"

lemma PublicKey_normalize [simp]: "PublicKey (normalizeRandaoCommitment v) = PublicKey v"
  by (simp add: normalizeRandaoCommitment_def)

lemma ValidatorIndexMap_append:
  "ValidatorIndexMap (vals @ [v]) = (ValidatorIndexMap vals)(ToBytes2592 (PublicKey v) \<mapsto> of_nat (length vals))"
  by (simp add: ValidatorIndexMap_def enumerate_append_eq)

lemma ValidatorIndexMap_ok:
  assumes "length vals < 18446744073709551616"
  shows "(\<forall>k i. ValidatorIndexMap vals k = Some i \<longrightarrow>
        unat i < length vals \<and> ToBytes2592 (PublicKey (vals ! unat i)) = k) \<and>
     (\<forall>v \<in> set vals. ValidatorIndexMap vals (ToBytes2592 (PublicKey v)) \<noteq> None)"
  using assms
proof (induction vals rule: rev_induct)
  case Nil
  then show ?case by (simp add: ValidatorIndexMap_def)
next
  case (snoc v vals)
  then have len: "unat (of_nat (length vals) :: u64) = length vals"
    by (simp add: unat_of_nat_u64)
  have IH: "\<And>k i. ValidatorIndexMap vals k = Some i \<Longrightarrow>
      unat i < length vals \<and> ToBytes2592 (PublicKey (vals ! unat i)) = k"
    "\<And>v. v \<in> set vals \<Longrightarrow> ValidatorIndexMap vals (ToBytes2592 (PublicKey v)) \<noteq> None"
    using snoc by auto
  show ?case
    using IH len by (auto simp: ValidatorIndexMap_append nth_append less_Suc_eq split: if_splits)
qed

lemma AppendValidator_valmap:
  assumes "valmap_ok b" "length (b_validators b) < 18446744073709551615" "AppendValidator b (Some v) = Inr c"
  shows "valmap_ok c"
proof -
  have len: "unat (of_nat (length (b_validators b)) :: u64) = length (b_validators b)"
    using assms(2) by (simp add: unat_of_nat_u64)
  have c: "c = b\<lparr>b_validators := b_validators b @ [normalizeRandaoCommitment v],
      b_valMap := (b_valMap b)(ToBytes2592 (PublicKey v) \<mapsto> of_nat (length (b_validators b)))\<rparr>"
    using assms(3) by (simp add: AppendValidator_def Let_def)
  have old: "\<And>k i. b_valMap b k = Some i \<Longrightarrow>
      unat i < length (b_validators b) \<and> ToBytes2592 (PublicKey (b_validators b ! unat i)) = k"
    "\<And>v. v \<in> set (b_validators b) \<Longrightarrow> b_valMap b (ToBytes2592 (PublicKey v)) \<noteq> None"
    using assms(1) by (auto simp: valmap_ok_def)
  show ?thesis
    unfolding c valmap_ok_def using old len by (auto simp: nth_append less_Suc_eq split: if_splits)
qed

lemma UpdateValidatorAtIndex_valmap:
  assumes ok: "valmap_ok b" and upd: "UpdateValidatorAtIndex b idx v = Inr c"
    and key: "PublicKey v = PublicKey (b_validators b ! unat idx)"
  shows "valmap_ok c"
proof -
  have idx: "unat idx < length (b_validators b)"
    and c: "c = b\<lparr>b_validators := (b_validators b)[unat idx := normalizeRandaoCommitment v]\<rparr>"
    using upd by (auto simp: UpdateValidatorAtIndex_def Let_def split: if_splits)
  have keys: "map PublicKey (b_validators c) = map PublicKey (b_validators b)"
    using idx key by (simp add: c map_update list_update_same_conv)
  have nth: "PublicKey (b_validators c ! i) = PublicKey (b_validators b ! i)" if "i < length (b_validators b)" for i
    using arg_cong [OF keys, of "\<lambda>ks. ks ! i"] that by (simp add: c)
  have img: "PublicKey ` set (b_validators c) = PublicKey ` set (b_validators b)"
    using arg_cong [OF keys, of set] by simp
  have "b_valMap b (ToBytes2592 (PublicKey w)) \<noteq> None" if "w \<in> set (b_validators c)" for w
  proof -
    have "PublicKey w \<in> PublicKey ` set (b_validators b)"
      using that img by blast
    then show ?thesis
      using ok by (auto simp: valmap_ok_def)
  qed
  moreover have "length (b_validators c) = length (b_validators b)" "b_valMap c = b_valMap b"
    by (simp_all add: c)
  ultimately show ?thesis
    using ok nth by (auto simp: valmap_ok_def)
qed

end
