(* ===== verification/Shuffle.thy ===== *)
theory Shuffle
  imports Valid_Config Bytes_Util
begin

text \<open>
  \<open>beacon-chain/core/helpers/shuffle.go\<close>: the swap-or-not shuffle of the validator indices, computed
  for one index (\<open>ComputeShuffledIndex\<close>) and in place for a whole list (\<open>innerShuffleList\<close>, which
  caches the hash of the position block and its current byte). SHA-256 is the parameter \<open>hash\<close>.
  The lemmas: one round is an involution below the index count, so that the rounds in ascending and
  in descending order are inverse permutations; the list shuffle moves the elements exactly as the
  index shuffle says.
\<close>

section \<open>The round loop\<close>

text \<open>
  Both functions run the same loop over an 8-bit round counter: upwards from 0 until the counter
  reaches \<open>rounds\<close>, or downwards from \<open>rounds - 1\<close> to 0.
\<close>

function rounds_loop :: "(u8 \<Rightarrow> 'a \<Rightarrow> 'a) \<Rightarrow> u8 \<Rightarrow> bool \<Rightarrow> u8 \<Rightarrow> 'a \<Rightarrow> 'a" where
  "rounds_loop body rounds shuffle round x =
     (let x' = body round x
      in if shuffle
         then (if round + 1 = rounds then x' else rounds_loop body rounds shuffle (round + 1) x')
         else (if round = 0 then x' else rounds_loop body rounds shuffle (round - 1) x'))"
  by pat_completeness auto
termination
proof (relation "measure (\<lambda>(body, rounds, shuffle, round, x).
    if shuffle then unat (rounds - round - 1) else unat round)", goal_cases)
  case (2 body rounds shuffle round x x')
  then have "rounds - round - 1 \<noteq> 0"
    by (metis add.commute diff_add_cancel diff_zero eq_iff_diff_eq_0)
  moreover have "rounds - (round + 1) - 1 = (rounds - round - 1) - 1"
    by simp
  ultimately have "unat (rounds - (round + 1) - 1) < unat (rounds - round - 1)"
    by (metis diff_less unat_gt_0 unat_minus_one zero_less_one)
  then show ?case using 2 by simp
next
  case (3 body rounds shuffle round x x')
  then show ?case
    by (simp add: unat_minus_one unat_gt_0)
qed simp

declare rounds_loop.simps [simp del]

section \<open>Shuffling one index\<close>

definition maxShuffleListSize :: u64 where
  "maxShuffleListSize = 1099511627776"

definition shuffle_round :: "(bytes \<Rightarrow> bytes) \<Rightarrow> bytes \<Rightarrow> u64 \<Rightarrow> u8 \<Rightarrow> u64 \<Rightarrow> u64" where
  "shuffle_round hash seed indexCount round index =
     (let h = hash (seed @ [round]);
          pivot = FromBytes8 (take 8 h) mod indexCount;
          flip = (pivot + indexCount - index) mod indexCount;
          position = max flip index;
          source = hash (seed @ [round] @ take 4 (put_le 8 (unat (drop_bit 8 position))));
          byteV = source ! unat (drop_bit 3 (position AND 0xff));
          bitV = drop_bit (unat (position AND 7)) byteV AND 1
      in if bitV = 1 then flip else index)"

definition ComputeShuffledIndex ::
  "config \<Rightarrow> (bytes \<Rightarrow> bytes) \<Rightarrow> ValidatorIndex \<Rightarrow> u64 \<Rightarrow> bytes \<Rightarrow> bool \<Rightarrow> ValidatorIndex res" where
  "ComputeShuffledIndex cfg hash index indexCount seed shuffle =
     (if ShuffleRoundCount (raw cfg) = 0 then Inr index
      else if index \<ge> indexCount then Inl (Err ''input index out of bounds'')
      else if indexCount > maxShuffleListSize then Inl (Err ''list size out of bounds'')
      else let rounds = ucast (ShuffleRoundCount (raw cfg)) :: u8;
               round = (if shuffle then 0 else rounds - 1)
           in Inr (rounds_loop (shuffle_round hash seed indexCount) rounds shuffle round index))"

definition ShuffledIndex ::
  "config \<Rightarrow> (bytes \<Rightarrow> bytes) \<Rightarrow> ValidatorIndex \<Rightarrow> u64 \<Rightarrow> bytes \<Rightarrow> ValidatorIndex res" where
  "ShuffledIndex cfg hash index indexCount seed =
     ComputeShuffledIndex cfg hash index indexCount seed True"

definition UnShuffledIndex ::
  "config \<Rightarrow> (bytes \<Rightarrow> bytes) \<Rightarrow> ValidatorIndex \<Rightarrow> u64 \<Rightarrow> bytes \<Rightarrow> ValidatorIndex res" where
  "UnShuffledIndex cfg hash index indexCount seed =
     ComputeShuffledIndex cfg hash index indexCount seed False"

section \<open>Shuffling a list\<close>

text \<open>\<open>block_source\<close> is the hash of the buffer after \<open>PutUint32(buf[pivotViewSize:], uint32(j>>8))\<close>.\<close>

definition block_source :: "(bytes \<Rightarrow> bytes) \<Rightarrow> bytes \<Rightarrow> u8 \<Rightarrow> u64 \<Rightarrow> bytes" where
  "block_source hash seed r j = hash (seed @ [r] @ put_le 4 (unat (ucast (drop_bit 8 j) :: u32)))"

definition swapOrNot ::
  "(bytes \<Rightarrow> bytes) \<Rightarrow> bytes \<Rightarrow> u8 \<Rightarrow> u8 \<Rightarrow> u64 \<Rightarrow> 'a list \<Rightarrow> u64 \<Rightarrow> bytes \<Rightarrow> u8 \<times> bytes \<times> 'a list" where
  "swapOrNot hash seed r byteV i input j source =
     (let source = (if j AND 0xff = 0xff then block_source hash seed r j else source);
          byteV = (if j AND 7 = 7 then source ! unat (drop_bit 3 (j AND 0xff)) else byteV);
          bitV = drop_bit (unat (j AND 7)) byteV AND 1
      in (byteV, source, if bitV = 1 then swap_at input (unat i) (unat j) else input))"

function swap_loop ::
  "(bytes \<Rightarrow> bytes) \<Rightarrow> bytes \<Rightarrow> u8 \<Rightarrow> u64 \<Rightarrow> u64 \<Rightarrow> u64 \<Rightarrow> u8 \<times> bytes \<times> 'a list \<Rightarrow> u8 \<times> bytes \<times> 'a list" where
  "swap_loop hash seed r mirror i j (byteV, source, input) =
     (if i < mirror
      then swap_loop hash seed r mirror (i + 1) (j - 1) (swapOrNot hash seed r byteV i input j source)
      else (byteV, source, input))"
  by pat_completeness auto
termination
proof (relation "measure (\<lambda>(hash, seed, r, mirror, i, j, s). unat mirror - unat i)", goal_cases)
  case (2 hash seed r mirror i j byteV source input)
  then have "unat (i + 1) = unat i + 1"
    using unat_lt_2_64 [of mirror] by (simp add: unat_add_u64 unat_less_u64)
  then show ?case
    using 2 by (simp add: unat_less_u64)
qed simp

declare swap_loop.simps [simp del]

definition shuffle_list_round :: "(bytes \<Rightarrow> bytes) \<Rightarrow> bytes \<Rightarrow> u8 \<Rightarrow> 'a list \<Rightarrow> 'a list" where
  "shuffle_list_round hash seed r input =
     (let listSize = of_nat (length input) :: u64;
          ph = hash (seed @ [r]);
          pivot = of_nat (get_le (take 8 ph)) mod listSize;
          mirror = drop_bit 1 (pivot + 1);
          source = block_source hash seed r pivot;
          byteV = source ! unat (drop_bit 3 (pivot AND 0xff));
          (_, _, input) = swap_loop hash seed r mirror 0 pivot (byteV, source, input);
          mirror = drop_bit 1 (pivot + listSize + 1);
          end = listSize - 1;
          source = block_source hash seed r end;
          byteV = source ! unat (drop_bit 3 (end AND 0xff));
          (_, _, input) = swap_loop hash seed r mirror (pivot + 1) end (byteV, source, input)
      in input)"

definition innerShuffleList ::
  "config \<Rightarrow> (bytes \<Rightarrow> bytes) \<Rightarrow> 'a list \<Rightarrow> bytes \<Rightarrow> bool \<Rightarrow> 'a list res" where
  "innerShuffleList cfg hash input seed shuffle =
     (if length input \<le> 1 then Inr input
      else if length input > unat maxShuffleListSize then Inl (Err ''list size out of bounds'')
      else let rounds = ucast (ShuffleRoundCount (raw cfg)) :: u8
           in if rounds = 0 then Inr input
              else Inr (rounds_loop (shuffle_list_round hash seed) rounds shuffle
                          (if shuffle then 0 else rounds - 1) input))"

definition ShuffleList :: "config \<Rightarrow> (bytes \<Rightarrow> bytes) \<Rightarrow> 'a list \<Rightarrow> bytes \<Rightarrow> 'a list res" where
  "ShuffleList cfg hash input seed = innerShuffleList cfg hash input seed True"

definition UnshuffleList :: "config \<Rightarrow> (bytes \<Rightarrow> bytes) \<Rightarrow> 'a list \<Rightarrow> bytes \<Rightarrow> 'a list res" where
  "UnshuffleList cfg hash input seed = innerShuffleList cfg hash input seed False"

section \<open>The rounds as a fold\<close>

definition up_rounds :: "u8 \<Rightarrow> u8 list" where
  "up_rounds rounds = map of_nat [0..<unat rounds]"

lemma rounds_loop_up:
  "unat round < unat rounds \<Longrightarrow>
   rounds_loop body rounds True round x = fold body (map of_nat [unat round..<unat rounds]) x"
proof (induction "unat rounds - unat round" arbitrary: round x)
  case 0
  then show ?case by simp
next
  case (Suc d)
  have plus: "unat (round + 1) = unat round + 1"
    using Suc.prems unat_lt_256 [of rounds] by (simp add: unat_word_ariths)
  have list: "[unat round..<unat rounds] = unat round # [unat round + 1..<unat rounds]"
    using Suc.prems by (simp add: upt_conv_Cons)
  show ?case
  proof (cases "round + 1 = rounds")
    case True
    then have "[unat round..<unat rounds] = [unat round]"
      using plus list by auto
    then show ?thesis
      using True by (subst rounds_loop.simps) simp
  next
    case False
    then have "unat (round + 1) < unat rounds"
      using Suc.prems plus by (metis Suc_eq_plus1 Suc_leI le_neq_implies_less word_unat_eq_iff)
    then have "rounds_loop body rounds True (round + 1) (body round x) =
        fold body (map of_nat [unat (round + 1)..<unat rounds]) (body round x)"
      using Suc.hyps plus by (intro Suc.hyps(1)) auto
    then show ?thesis
      using False list plus by (subst rounds_loop.simps) simp
  qed
qed

lemma rounds_loop_down:
  "rounds_loop body rounds False round x = fold body (rev (map of_nat [0..<Suc (unat round)])) x"
proof (induction "unat round" arbitrary: round x)
  case 0
  then have "round = 0"
    by (simp add: unat_eq_zero)
  then show ?case
    by (subst rounds_loop.simps) simp
next
  case (Suc d)
  then have nz: "round \<noteq> 0"
    by auto
  then have minus: "unat (round - 1) = d"
    using Suc.hyps(2) by (simp add: unat_minus_one)
  have "rounds_loop body rounds False (round - 1) (body round x) =
      fold body (rev (map of_nat [0..<Suc d])) (body round x)"
    using Suc.hyps(1) [of "round - 1"] minus by simp
  moreover have "of_nat (Suc d) = round"
    using Suc.hyps(2) by (metis of_nat_unat_word)
  ultimately show ?case
    using nz Suc.hyps(2) [symmetric] by (subst rounds_loop.simps) simp
qed

lemma rounds_loop_dir:
  assumes "rounds \<noteq> 0"
  shows "rounds_loop body rounds shuffle (if shuffle then 0 else rounds - 1) x =
    fold body (if shuffle then up_rounds rounds else rev (up_rounds rounds)) x"
proof (cases shuffle)
  case True
  then show ?thesis
    using rounds_loop_up [of 0 rounds body x] assms by (simp add: up_rounds_def unat_gt_0)
next
  case False
  have "Suc (unat (rounds - 1)) = unat rounds"
    using assms by (simp add: unat_minus_one unat_gt_0)
  then show ?thesis
    using False rounds_loop_down [of body rounds "rounds - 1" x] by (simp add: up_rounds_def)
qed

section \<open>Involutive rounds\<close>

text \<open>
  What the rounds promise: below an admissible size every round maps the range into itself and is
  its own inverse. Any sequence of such rounds is then a permutation, undone by the reversed sequence.
\<close>

locale involutive_rounds =
  fixes step :: "u64 \<Rightarrow> u8 \<Rightarrow> u64 \<Rightarrow> u64" and size_ok :: "u64 \<Rightarrow> bool"
  assumes step_range: "size_ok n \<Longrightarrow> i < n \<Longrightarrow> step n r i < n"
    and step_involution: "size_ok n \<Longrightarrow> i < n \<Longrightarrow> step n r (step n r i) = i"
begin

lemma fold_range: "size_ok n \<Longrightarrow> i < n \<Longrightarrow> fold (step n) rs i < n"
  by (induction rs arbitrary: i) (simp_all add: step_range)

lemma fold_rev_inverse: "size_ok n \<Longrightarrow> i < n \<Longrightarrow> fold (step n) (rev rs) (fold (step n) rs i) = i"
  by (induction rs arbitrary: i) (simp_all add: step_range step_involution)

lemma fold_bij:
  assumes "size_ok n"
  shows "bij_betw (fold (step n) rs) {i. i < n} {i. i < n}"
proof (rule bij_betw_byWitness [where f' = "fold (step n) (rev rs)"])
  show "\<forall>a\<in>{i. i < n}. fold (step n) (rev rs) (fold (step n) rs a) = a"
    using fold_rev_inverse [OF assms] by simp
  show "\<forall>a\<in>{i. i < n}. fold (step n) rs (fold (step n) (rev rs) a) = a"
    using fold_rev_inverse [OF assms, of _ "rev rs"] by simp
qed (auto simp: fold_range [OF assms])

end

definition shuffle_size :: "u64 \<Rightarrow> bool" where
  "shuffle_size n \<longleftrightarrow> 0 < n \<and> n \<le> maxShuffleListSize"

text \<open>The pivot, the mirrored index and the selecting bit, read as numbers.\<close>

definition pivot_nat :: "(bytes \<Rightarrow> bytes) \<Rightarrow> bytes \<Rightarrow> u8 \<Rightarrow> u64 \<Rightarrow> nat" where
  "pivot_nat hash seed r n = unat (FromBytes8 (take 8 (hash (seed @ [r]))) mod n)"

definition select_bit :: "(bytes \<Rightarrow> bytes) \<Rightarrow> bytes \<Rightarrow> u8 \<Rightarrow> u64 \<Rightarrow> bool" where
  "select_bit hash seed r j \<longleftrightarrow>
     drop_bit (unat (j AND 7)) (block_source hash seed r j ! unat (drop_bit 3 (j AND 0xff))) AND 1 = 1"

definition mirror_nat :: "nat \<Rightarrow> nat \<Rightarrow> nat \<Rightarrow> nat" where
  "mirror_nat p n k = (if k \<le> p then p - k else p + n - k)"

lemma mirror_nat_props:
  assumes "p < n" "k < n"
  shows "mirror_nat p n k < n" "mirror_nat p n (mirror_nat p n k) = k"
  using assms by (auto simp: mirror_nat_def)

lemma put_le_mod: "put_le n (x mod 256 ^ n) = put_le n x"
proof (induction n arbitrary: x)
  case (Suc n)
  have "x mod (256 * 256 ^ n) mod 256 = x mod 256"
    by (simp add: mod_mult2_eq)
  moreover have "x mod (256 * 256 ^ n) div 256 = x div 256 mod 256 ^ n"
    by (simp add: mod_mult2_eq)
  ultimately show ?case
    using Suc by simp
qed simp

lemma position_bytes: "take 4 (put_le 8 (unat (x :: u64))) = put_le 4 (unat (ucast x :: u32))"
proof -
  have "unat (ucast x :: u32) = unat x mod 256 ^ 4"
    by (simp add: unsigned_ucast_eq take_bit_eq_mod)
  then show ?thesis
    by (simp only: put_le_mod) (simp add: take_put_le)
qed

lemma unat_flip:
  assumes "shuffle_size n" "p < n" "k < n"
  shows "unat ((p + n - k) mod n) = mirror_nat (unat p) (unat n) (unat k)"
proof -
  have n: "unat n \<le> 1099511627776"
    using assms(1) by (simp add: shuffle_size_def maxShuffleListSize_def unat_le_u64)
  have pn: "unat (p + n) = unat p + unat n"
    using assms n by (simp add: unat_add_u64 unat_less_u64)
  have "unat (p + n - k) = unat p + unat n - unat k"
    using assms pn by (subst unat_sub_u64) (auto simp: unat_le_u64 unat_less_u64)
  then have "unat ((p + n - k) mod n) = (unat p + unat n - unat k) mod unat n"
    by (simp add: unat_mod_u64)
  also have "\<dots> = mirror_nat (unat p) (unat n) (unat k)"
  proof (cases "unat k \<le> unat p")
    case True
    then have "unat p + unat n - unat k = (unat p - unat k) + unat n"
      by simp
    then have "(unat p + unat n - unat k) mod unat n = (unat p - unat k) mod unat n"
      by (simp only: mod_add_self2)
    then show ?thesis
      using True assms by (simp add: mirror_nat_def unat_less_u64)
  next
    case False
    then show ?thesis
      using assms by (simp add: mirror_nat_def unat_less_u64)
  qed
  finally show ?thesis .
qed

lemma unat_shuffle_round:
  assumes "shuffle_size n" "k < n"
  shows "unat (shuffle_round hash seed n r k) =
    (let m = mirror_nat (pivot_nat hash seed r n) (unat n) (unat k)
     in if select_bit hash seed r (of_nat (max m (unat k))) then m else unat k)"
proof -
  let ?p = "FromBytes8 (take 8 (hash (seed @ [r]))) mod n"
  let ?f = "(?p + n - k) mod n"
  have p: "?p < n"
    using assms by (simp add: unat_less_u64 unat_mod_u64 shuffle_size_def)
  have f: "unat ?f = mirror_nat (pivot_nat hash seed r n) (unat n) (unat k)"
    using unat_flip [OF assms(1) p assms(2)] by (simp add: pivot_nat_def)
  then have "of_nat (max (mirror_nat (pivot_nat hash seed r n) (unat n) (unat k)) (unat k)) = max ?f k"
    by (metis unat_max_u64 of_nat_unat_word)
  then show ?thesis
    using f by (simp add: shuffle_round_def select_bit_def block_source_def position_bytes Let_def)
qed

lemma pivot_nat_less: "shuffle_size n \<Longrightarrow> pivot_nat hash seed r n < unat n"
  by (simp add: pivot_nat_def unat_mod_u64 shuffle_size_def unat_less_u64)

interpretation sr: involutive_rounds "shuffle_round hash seed" shuffle_size for hash seed
proof
  fix n i r
  assume n: "shuffle_size n" and i: "i < n"
  let ?m = "mirror_nat (pivot_nat hash seed r n) (unat n)"
  let ?j = "shuffle_round hash seed n r i"
  have m: "?m (unat i) < unat n" "?m (?m (unat i)) = unat i"
    using mirror_nat_props [OF pivot_nat_less [OF n], of "unat i" hash seed r] i
    by (simp_all add: unat_less_u64)
  show j: "?j < n"
    using m i unat_shuffle_round [OF n i, of hash seed r] by (simp add: unat_less_u64 Let_def)
  show "shuffle_round hash seed n r ?j = i"
    using m unat_shuffle_round [OF n i, of hash seed r] unat_shuffle_round [OF n j, of hash seed r]
    by (simp add: unat_eq_u64 Let_def max.commute split: if_splits)
qed

section \<open>The in-place round\<close>

lemma unat_and_255: "unat ((j :: u64) AND 255) = unat j mod 256"
proof -
  have "j AND 255 = take_bit 8 j"
    by (simp add: take_bit_eq_mask mask_eq_exp_minus_1)
  then show ?thesis
    by (simp only: unsigned_take_bit_eq) (simp add: take_bit_eq_mod)
qed

lemma unat_and_7: "unat ((j :: u64) AND 7) = unat j mod 8"
proof -
  have "j AND 7 = take_bit 3 j"
    by (simp add: take_bit_eq_mask mask_eq_exp_minus_1)
  then show ?thesis
    by (simp only: unsigned_take_bit_eq) (simp add: take_bit_eq_mod)
qed

lemma unat_drop_bit_u64: "unat (drop_bit k (j :: u64)) = unat j div 2 ^ k"
  by (simp only: unat_drop_bit_eq) (simp add: drop_bit_eq_div)

lemma and_eqs:
  "(j :: u64) AND 255 = 255 \<longleftrightarrow> unat j mod 256 = 255"
  "(j :: u64) AND 7 = 7 \<longleftrightarrow> unat j mod 8 = 7"
  by (simp_all add: unat_eq_u64 unat_and_255 unat_and_7)

lemma byte_offset: "unat (drop_bit 3 ((j :: u64) AND 255)) = unat j mod 256 div 8"
  by (simp only: unat_drop_bit_u64 unat_and_255) simp

lemmas byte_position = byte_offset unat_and_7 and_eqs

text \<open>The cached hash and byte are those of position \<open>j\<close>, or are about to be refreshed there.\<close>

definition fresh :: "(bytes \<Rightarrow> bytes) \<Rightarrow> bytes \<Rightarrow> u8 \<Rightarrow> u64 \<Rightarrow> u8 \<Rightarrow> bytes \<Rightarrow> bool" where
  "fresh hash seed r j byteV source \<longleftrightarrow>
     (unat j mod 256 \<noteq> 255 \<longrightarrow> source = block_source hash seed r j) \<and>
     (unat j mod 8 \<noteq> 7 \<longrightarrow> byteV = block_source hash seed r j ! (unat j mod 256 div 8))"

lemma mod_256_255: "(m :: nat) mod 256 = 255 \<Longrightarrow> m mod 8 = 7"
  using mod_mod_cancel [of 8 256 m] by simp

lemma mod_256_div_8: "(m :: nat) mod 256 div 8 = m div 8 mod 32"
  using mod_mult2_eq [of m 8 32] by simp

lemma swapOrNot_fresh:
  assumes "fresh hash seed r j byteV source"
  shows "swapOrNot hash seed r byteV i input j source =
    (block_source hash seed r j ! (unat j mod 256 div 8), block_source hash seed r j,
     if select_bit hash seed r j then swap_at input (unat i) (unat j) else input)"
  using assms mod_256_255 [of "unat j"] unfolding swapOrNot_def fresh_def select_bit_def byte_position
  by (cases "unat j mod 256 = 255"; cases "unat j mod 8 = 7") (simp_all add: Let_def)

lemma fresh_step:
  assumes "j \<noteq> 0"
  shows "fresh hash seed r (j - 1) (block_source hash seed r j ! (unat j mod 256 div 8))
           (block_source hash seed r j)"
proof -
  define m where "m = unat (j - 1)"
  then have m: "unat j = Suc m" "unat (j - 1) = m"
    using assms by (simp_all add: unat_minus_one unat_gt_0)
  have src: "block_source hash seed r j = block_source hash seed r (j - 1)" if "m mod 256 \<noteq> 255"
  proof -
    have "Suc m div 256 = m div 256"
      using that by (auto simp: div_Suc mod_Suc)
    then have "drop_bit 8 j = drop_bit 8 (j - 1)"
      using m by (simp add: unat_eq_u64 unat_drop_bit_u64)
    then show ?thesis
      by (simp add: block_source_def)
  qed
  have "Suc m div 8 = m div 8" if "m mod 8 \<noteq> 7"
    using that by (auto simp: div_Suc mod_Suc)
  then have "Suc m mod 256 div 8 = m mod 256 div 8" if "m mod 8 \<noteq> 7"
    using that by (simp add: mod_256_div_8)
  then show ?thesis
    using src m mod_256_255 [of m] by (cases "m mod 256 = 255") (simp_all add: fresh_def)
qed

lemma swap_loop_nth:
  assumes "unat i + unat j = S" and "unat mirror = (S + 1) div 2" and "unat j < length input"
    and "fresh hash seed r j byteV source" and "S < 4611686018427387904"
    and "swap_loop hash seed r mirror i j (byteV, source, input) = (byteV', source', out)"
  shows "length out = length input \<and> (\<forall>k < length input. out ! k =
    (if unat i \<le> k \<and> k \<le> unat j \<and> select_bit hash seed r (of_nat (max k (S - k)))
     then input ! (S - k) else input ! k))"
  using assms
proof (induction "unat mirror - unat i" arbitrary: i j byteV source input)
  case 0
  have stop: "\<not> i < mirror"
    using "0.hyps" by (simp add: unat_less_u64)
  have le: "unat j \<le> unat i"
    using "0.hyps" "0.prems"(1,2) by linarith
  have "out = input"
    using "0.prems"(6) stop by (simp add: swap_loop.simps)
  moreover have "S - k = k" if "unat i \<le> k" "k \<le> unat j" for k
    using that le "0.prems"(1) by linarith
  ultimately show ?case by auto
next
  case (Suc d)
  have S: "S = unat i + unat j"
    using Suc.prems(1) by simp
  have lt: "i < mirror"
    using Suc.hyps(2) by (simp add: unat_less_u64)
  have ij: "unat i < unat j"
    using Suc.hyps(2) Suc.prems(2) S by linarith
  define inp where "inp = (if select_bit hash seed r j then swap_at input (unat i) (unat j) else input)"
  have len: "length inp = length input"
    by (simp add: inp_def)
  have sw: "inp ! m = (if select_bit hash seed r j \<and> m = unat i then input ! unat j
      else if select_bit hash seed r j \<and> m = unat j then input ! unat i else input ! m)"
    if "m < length input" for m
    using that ij Suc.prems(3) nth_swap_at [of "unat i" input "unat j" m]
    by (cases "select_bit hash seed r j"; cases "m = unat i"; cases "m = unat j") (simp_all add: inp_def)
  have nz: "j \<noteq> 0"
    using ij by auto
  then have un: "unat (i + 1) = unat i + 1" "unat (j - 1) = unat j - 1"
    using Suc.prems(1,5) by (simp_all add: unat_add_u64 unat_minus_one)
  have loop: "swap_loop hash seed r mirror (i + 1) (j - 1)
      (block_source hash seed r j ! (unat j mod 256 div 8), block_source hash seed r j, inp)
      = (byteV', source', out)"
    using Suc.prems(6) lt by (simp add: swap_loop.simps [of _ _ _ _ i] swapOrNot_fresh [OF Suc.prems(4)] inp_def)
  have IH: "length out = length inp \<and> (\<forall>k < length inp. out ! k =
    (if unat (i + 1) \<le> k \<and> k \<le> unat (j - 1) \<and> select_bit hash seed r (of_nat (max k (S - k)))
     then inp ! (S - k) else inp ! k))"
  proof (rule Suc.hyps(1) [OF _ _ _ _ fresh_step [OF nz] _ loop])
    show "d = unat mirror - unat (i + 1)"
      using Suc.hyps(2) un by linarith
    show "unat (i + 1) + unat (j - 1) = S"
      using S ij un by linarith
    show "unat (j - 1) < length inp"
      using Suc.prems(3) un len by simp
  qed (rule Suc.prems)+
  show ?case
  proof (intro conjI allI impI)
    show "length out = length input"
      using IH len by simp
    fix k assume k: "k < length input"
    have mid: "unat (i + 1) \<le> k \<and> k \<le> unat (j - 1) \<longleftrightarrow> unat i < k \<and> k < unat j"
      using un ij by linarith
    have "out ! k =
      (if unat (i + 1) \<le> k \<and> k \<le> unat (j - 1) \<and> select_bit hash seed r (of_nat (max k (S - k)))
       then inp ! (S - k) else inp ! k)"
      using IH k len by metis
    then have out: "out ! k =
      (if unat i < k \<and> k < unat j \<and> select_bit hash seed r (of_nat (max k (S - k)))
       then inp ! (S - k) else inp ! k)"
      by (simp only: conj_assoc [symmetric] mid)
    consider "k = unat i" | "k = unat j" | "unat i < k" "k < unat j" | "k < unat i \<or> unat j < k"
      by linarith
    then show "out ! k =
      (if unat i \<le> k \<and> k \<le> unat j \<and> select_bit hash seed r (of_nat (max k (S - k)))
       then input ! (S - k) else input ! k)"
    proof cases
      case 1
      then have "max k (S - k) = unat j" "S - k = unat j"
        using ij S by simp_all
      then show ?thesis
        using 1 out sw [OF k] ij by (simp add: of_nat_unat_word)
    next
      case 2
      then have "max k (S - k) = unat j" "S - k = unat i"
        using ij S by simp_all
      then show ?thesis
        using 2 out sw [OF k] ij by (simp add: of_nat_unat_word)
    next
      case 3
      then have "S - k < length input" "S - k \<noteq> unat i" "S - k \<noteq> unat j"
        using S Suc.prems(3) ij by simp_all
      then show ?thesis
        using 3 out sw [OF k] sw [of "S - k"] by simp
    next
      case 4
      then show ?thesis
        using out sw [OF k] ij by auto
    qed
  qed
qed

text \<open>The two halves of a round before and after the pivot, each mirrored onto itself.\<close>

lemma fresh_start: "fresh hash seed r j (block_source hash seed r j ! unat (drop_bit 3 (j AND 0xff)))
    (block_source hash seed r j)"
  unfolding byte_offset by (simp add: fresh_def)

lemma shuffle_list_round_nth:
  fixes input :: "'a list"
  assumes hash: "\<And>x. length (hash x) = 32"
    and len: "2 \<le> length input" "length input \<le> 1099511627776"
  shows "length (shuffle_list_round hash seed r input) = length input \<and>
    (\<forall>k < length input. shuffle_list_round hash seed r input ! k =
       input ! unat (shuffle_round hash seed (of_nat (length input)) r (of_nat k)))"
proof -
  let ?n = "of_nat (length input) :: u64"
  let ?sel = "\<lambda>k. select_bit hash seed r (of_nat k)"
  define pivot where "pivot = of_nat (get_le (take 8 (hash (seed @ [r])))) mod ?n"
  define p where "p = unat pivot"
  have n: "unat ?n = length input" "shuffle_size ?n"
    using len by (auto simp: unat_of_nat_u64 shuffle_size_def maxShuffleListSize_def unat_le_u64 unat_less_u64)
  have pv: "pivot_nat hash seed r ?n = p"
    by (simp add: pivot_nat_def p_def pivot_def FromBytes8_def hash)
  have p: "p < length input"
    using pivot_nat_less [OF n(2), of hash seed r] pv n by simp
  obtain b1 s1 l1 where l1: "swap_loop hash seed r (drop_bit 1 (pivot + 1)) 0 pivot
      (block_source hash seed r pivot ! unat (drop_bit 3 (pivot AND 0xff)), block_source hash seed r pivot, input)
      = (b1, s1, l1)"
    by (metis prod_cases3)
  have un1: "unat (drop_bit 1 (pivot + 1)) = (p + 1) div 2"
    using p len by (simp add: unat_drop_bit_u64 unat_add_u64 p_def [symmetric])
  have first: "length l1 = length input \<and> (\<forall>k < length input. l1 ! k =
      (if unat (0 :: u64) \<le> k \<and> k \<le> unat pivot \<and> ?sel (max k (p - k)) then input ! (p - k) else input ! k))"
    by (rule swap_loop_nth [OF _ un1 _ fresh_start _ l1]) (use p len in \<open>simp_all add: p_def\<close>)
  obtain b2 s2 l2 where l2: "swap_loop hash seed r (drop_bit 1 (pivot + ?n + 1)) (pivot + 1) (?n - 1)
      (block_source hash seed r (?n - 1) ! unat (drop_bit 3 ((?n - 1) AND 0xff)),
       block_source hash seed r (?n - 1), l1) = (b2, s2, l2)"
    by (metis prod_cases3)
  have "unat (pivot + ?n) = p + length input"
    using p len n by (simp add: unat_add_u64 p_def [symmetric])
  then have "unat (pivot + ?n + 1) = p + length input + 1"
    using p len by (subst unat_add_u64) simp_all
  moreover have "1 \<le> ?n"
    using len n by (simp add: unat_le_u64)
  ultimately have un2: "unat (pivot + 1) = p + 1" "unat (?n - 1) = length input - 1"
    "unat (drop_bit 1 (pivot + ?n + 1)) = (p + length input + 1) div 2"
    using p len n by (simp_all add: unat_add_u64 unat_sub_u64 unat_drop_bit_u64 p_def [symmetric])
  have second: "length l2 = length l1 \<and> (\<forall>k < length l1. l2 ! k =
      (if unat (pivot + 1) \<le> k \<and> k \<le> unat (?n - 1) \<and> ?sel (max k (p + length input - k))
       then l1 ! (p + length input - k) else l1 ! k))"
    by (rule swap_loop_nth [OF _ un2(3) _ fresh_start _ l2]) (use p len un2 first in simp_all)
  have out: "shuffle_list_round hash seed r input = l2"
    using l1 l2 by (simp add: shuffle_list_round_def Let_def pivot_def)
  have "l2 ! k = input ! unat (shuffle_round hash seed ?n r (of_nat k))" if k: "k < length input" for k
  proof -
    have k': "unat (of_nat k :: u64) = k" "(of_nat k :: u64) < ?n"
      using k len n by (simp_all add: unat_of_nat_u64 unat_less_u64)
    have sr: "unat (shuffle_round hash seed ?n r (of_nat k)) =
        (let m = mirror_nat p (length input) k in if ?sel (max m k) then m else k)"
      using unat_shuffle_round [OF n(2) k'(2), of hash seed r] by (simp only: k'(1) n(1) pv)
    show ?thesis
    proof (cases "k \<le> p")
      case True
      then show ?thesis
        using first second un2 k sr p by (simp add: mirror_nat_def Let_def max.commute p_def)
    next
      case False
      then have "p + length input - k < length input" "\<not> p + length input - k \<le> p"
        using k p by simp_all
      then show ?thesis
        using first second un2 k sr False by (simp add: mirror_nat_def Let_def max.commute p_def)
    qed
  qed
  then show ?thesis
    using out first second by simp
qed

section \<open>All rounds\<close>

lemma ShuffleRoundCount_le: "ShuffleRoundCount (raw cfg) \<le> 255"
  using Validate_raw [of cfg] by (auto simp: Validate_def bindR_eq_Inr not_less split: if_splits)

lemma unat_rounds: "unat (ucast (ShuffleRoundCount (raw cfg)) :: u8) = unat (ShuffleRoundCount (raw cfg))"
  using ShuffleRoundCount_le [of cfg] by (simp add: unsigned_ucast_eq take_bit_eq_mod unat_le_u64)

lemma rounds_zero: "(ucast (ShuffleRoundCount (raw cfg)) :: u8) = 0 \<longleftrightarrow> ShuffleRoundCount (raw cfg) = 0"
  using unat_rounds [of cfg] by (metis unat_eq_zero unsigned_0)

definition dir_rounds :: "config \<Rightarrow> bool \<Rightarrow> u8 list" where
  "dir_rounds cfg shuffle =
     (let up = up_rounds (ucast (ShuffleRoundCount (raw cfg))) in if shuffle then up else rev up)"

lemma dir_rounds_rev: "dir_rounds cfg (\<not> shuffle) = rev (dir_rounds cfg shuffle)"
  by (simp add: dir_rounds_def Let_def)

lemma dir_rounds_zero: "ShuffleRoundCount (raw cfg) = 0 \<Longrightarrow> dir_rounds cfg shuffle = []"
  by (simp add: dir_rounds_def up_rounds_def)

lemma ComputeShuffledIndex_fold:
  assumes "i < n" "n \<le> maxShuffleListSize"
  shows "ComputeShuffledIndex cfg hash i n seed shuffle =
    Inr (fold (shuffle_round hash seed n) (dir_rounds cfg shuffle) i)"
proof (cases "ShuffleRoundCount (raw cfg) = 0")
  case True
  then show ?thesis
    by (simp add: ComputeShuffledIndex_def dir_rounds_zero)
next
  case False
  then have "(ucast (ShuffleRoundCount (raw cfg)) :: u8) \<noteq> 0"
    by (simp add: rounds_zero)
  then show ?thesis
    using False assms by (simp add: ComputeShuffledIndex_def dir_rounds_def rounds_loop_dir Let_def not_le not_less)
qed

lemma shuffle_size_le: "i < n \<Longrightarrow> n \<le> maxShuffleListSize \<Longrightarrow> shuffle_size n"
  by (auto simp: shuffle_size_def unat_less_u64)

lemma fold_list_rounds:
  fixes input :: "'a list"
  assumes hash: "\<And>x. length (hash x) = 32"
    and len: "2 \<le> length input" "length input \<le> 1099511627776"
  shows "length (fold (shuffle_list_round hash seed) rs input) = length input \<and>
    (\<forall>k < length input. fold (shuffle_list_round hash seed) rs input ! k =
       input ! unat (fold (shuffle_round hash seed (of_nat (length input))) (rev rs) (of_nat k)))"
  using len
proof (induction rs arbitrary: input)
  case Nil
  then show ?case by (auto simp: unat_of_nat_u64)
next
  case (Cons r rs)
  let ?n = "of_nat (length input) :: u64"
  let ?l = "shuffle_list_round hash seed r input"
  note R = shuffle_list_round_nth [where hash = hash and seed = seed and r = r, OF hash Cons.prems]
  have IH: "length (fold (shuffle_list_round hash seed) rs ?l) = length ?l \<and>
    (\<forall>k < length ?l. fold (shuffle_list_round hash seed) rs ?l ! k =
       ?l ! unat (fold (shuffle_round hash seed (of_nat (length ?l))) (rev rs) (of_nat k)))"
    using R Cons.prems by (intro Cons.IH) simp_all
  have n: "unat ?n = length input" "shuffle_size ?n"
    using Cons.prems
    by (auto simp: unat_of_nat_u64 shuffle_size_def maxShuffleListSize_def unat_le_u64 unat_less_u64)
  have "unat (fold (shuffle_round hash seed ?n) (rev rs) (of_nat k)) < length input"
    if "k < length input" for k
    using sr.fold_range [OF n(2), of "of_nat k" hash seed "rev rs"] that n Cons.prems
    by (simp add: unat_less_u64 unat_of_nat_u64)
  then show ?case
    using R IH by (simp add: of_nat_unat_word)
qed

lemma innerShuffleList_nth:
  assumes hash: "\<And>x. length (hash x) = 32" and len: "length input \<le> unat maxShuffleListSize"
  shows "\<exists>out. innerShuffleList cfg hash input seed shuffle = Inr out \<and> length out = length input \<and>
    (\<forall>k < length input. out ! k = input !
       unat (fold (shuffle_round hash seed (of_nat (length input))) (dir_rounds cfg (\<not> shuffle)) (of_nat k)))"
proof (cases "length input \<le> 1")
  case True
  have "input ! unat (fold (shuffle_round hash seed (of_nat (length input))) rs (of_nat k)) = input ! k"
    if k: "k < length input" for k rs
  proof -
    have one: "length input = 1" "k = 0"
      using True k by linarith+
    then have "fold (shuffle_round hash seed 1) rs 0 < 1"
      by (intro sr.fold_range) (simp_all add: shuffle_size_def maxShuffleListSize_def)
    then show ?thesis
      using one by simp
  qed
  then show ?thesis
    using True by (simp add: innerShuffleList_def)
next
  case False
  then have l2: "2 \<le> length input" "length input \<le> 1099511627776"
    using len by (simp_all add: maxShuffleListSize_def)
  show ?thesis
  proof (cases "ShuffleRoundCount (raw cfg) = 0")
    case True
    then show ?thesis
      using False len l2 by (auto simp: innerShuffleList_def dir_rounds_zero unat_of_nat_u64)
  next
    case nz: False
    then have "innerShuffleList cfg hash input seed shuffle =
        Inr (fold (shuffle_list_round hash seed) (dir_rounds cfg shuffle) input)"
      using False len by (simp add: innerShuffleList_def dir_rounds_def rounds_zero rounds_loop_dir Let_def)
    then show ?thesis
      using fold_list_rounds [where hash = hash and seed = seed and rs = "dir_rounds cfg shuffle", OF hash l2] by (simp add: dir_rounds_rev)
  qed
qed

section \<open>Properties\<close>

text \<open>C3: For every seed, every hash function and every index count up to \<open>2^40\<close>, shuffling an index
  (and un-shuffling it) always succeeds, and is a permutation of the indices below the count.\<close>

theorem ComputeShuffledIndex_permutation:
  assumes "0 < n" and "n \<le> maxShuffleListSize"
  shows "\<exists>\<pi>. bij_betw \<pi> {i. i < n} {i. i < n} \<and>
    (\<forall>i. i < n \<longrightarrow> ComputeShuffledIndex cfg hash i n seed shuffle = Inr (\<pi> i))"
proof (intro exI conjI allI impI)
  show "bij_betw (fold (shuffle_round hash seed n) (dir_rounds cfg shuffle)) {i. i < n} {i. i < n}"
    by (rule sr.fold_bij) (simp add: shuffle_size_def assms)
qed (rule ComputeShuffledIndex_fold [OF _ assms(2)])

theorem ComputeShuffledIndex_permutation_witness:
  "\<exists>\<pi>. bij_betw \<pi> {i. i < 5} {i. i < 5} \<and>
    (\<forall>i. i < 5 \<longrightarrow> ComputeShuffledIndex mainnet (\<lambda>_. replicate 32 255) i 5 [] True = Inr (\<pi> i))"
  by (rule ComputeShuffledIndex_permutation) (simp_all add: maxShuffleListSize_def)

text \<open>C4: \<open>UnShuffledIndex\<close> inverts \<open>ShuffledIndex\<close> and \<open>ShuffledIndex\<close> inverts \<open>UnShuffledIndex\<close>, for
  every index below an index count of at most \<open>2^40\<close>.\<close>

theorem ShuffledIndex_roundtrip:
  assumes "i < n" and "n \<le> maxShuffleListSize"
  shows "bindR (ShuffledIndex cfg hash i n seed) (\<lambda>j. UnShuffledIndex cfg hash j n seed) = Inr i \<and>
    bindR (UnShuffledIndex cfg hash i n seed) (\<lambda>j. ShuffledIndex cfg hash j n seed) = Inr i"
proof -
  note size = shuffle_size_le [OF assms]
  note run = ComputeShuffledIndex_fold [OF assms] ComputeShuffledIndex_fold [OF sr.fold_range [OF size assms(1)] assms(2)]
  show ?thesis
    using sr.fold_rev_inverse [OF size assms(1), of hash seed "dir_rounds cfg True"]
      sr.fold_rev_inverse [OF size assms(1), of hash seed "dir_rounds cfg False"] dir_rounds_rev [of cfg True]
    by (simp add: ShuffledIndex_def UnShuffledIndex_def run)
qed

theorem ShuffledIndex_roundtrip_witness:
  "bindR (ShuffledIndex tiny (\<lambda>x. replicate 32 (last x)) 2 7 (replicate 32 1))
     (\<lambda>j. UnShuffledIndex tiny (\<lambda>x. replicate 32 (last x)) j 7 (replicate 32 1)) = Inr 2 \<and>
   bindR (UnShuffledIndex tiny (\<lambda>x. replicate 32 (last x)) 2 7 (replicate 32 1))
     (\<lambda>j. ShuffledIndex tiny (\<lambda>x. replicate 32 (last x)) j 7 (replicate 32 1)) = Inr 2"
  by (rule ShuffledIndex_roundtrip) (simp_all add: maxShuffleListSize_def)

text \<open>C5: The in-place list routines, with their cached hash blocks, agree with the index routine: with
  32-byte digests and a list of at most \<open>2^40\<close> elements, \<open>UnshuffleList\<close> puts at position \<open>k\<close> the
  element that stood at \<open>ShuffledIndex k\<close>, and \<open>ShuffleList\<close> the one at \<open>UnShuffledIndex k\<close>.\<close>

theorem list_shuffle_equivalence:
  assumes "\<And>x. length (hash x) = 32" and "length input \<le> unat maxShuffleListSize"
  shows "\<exists>un sh. UnshuffleList cfg hash input seed = Inr un \<and> ShuffleList cfg hash input seed = Inr sh \<and>
    length un = length input \<and> length sh = length input \<and>
    (\<forall>k < length input.
       (\<exists>j. ShuffledIndex cfg hash (of_nat k) (of_nat (length input)) seed = Inr j \<and> un ! k = input ! unat j) \<and>
       (\<exists>j. UnShuffledIndex cfg hash (of_nat k) (of_nat (length input)) seed = Inr j \<and> sh ! k = input ! unat j))"
proof -
  have "(of_nat k :: u64) < of_nat (length input)" "(of_nat (length input) :: u64) \<le> maxShuffleListSize"
    if "k < length input" for k
    using that assms(2) by (simp_all add: unat_less_u64 unat_le_u64 unat_of_nat_u64 maxShuffleListSize_def)
  note run = ComputeShuffledIndex_fold [OF this]
  show ?thesis
    using innerShuffleList_nth [where hash = hash and cfg = cfg and seed = seed and shuffle = True, OF assms]
      innerShuffleList_nth [where hash = hash and cfg = cfg and seed = seed and shuffle = False, OF assms]
    by (auto simp: UnshuffleList_def ShuffleList_def ShuffledIndex_def UnShuffledIndex_def run)
qed

theorem list_shuffle_equivalence_witness:
  "\<exists>un sh. UnshuffleList tiny (\<lambda>_. replicate 32 7) [10 :: u64, 11, 12] [] = Inr un \<and>
    ShuffleList tiny (\<lambda>_. replicate 32 7) [10 :: u64, 11, 12] [] = Inr sh \<and>
    length un = length [10 :: u64, 11, 12] \<and> length sh = length [10 :: u64, 11, 12] \<and>
    (\<forall>k < length [10 :: u64, 11, 12].
       (\<exists>j. ShuffledIndex tiny (\<lambda>_. replicate 32 7) (of_nat k) (of_nat (length [10 :: u64, 11, 12])) [] = Inr j \<and>
          un ! k = [10, 11, 12] ! unat j) \<and>
       (\<exists>j. UnShuffledIndex tiny (\<lambda>_. replicate 32 7) (of_nat k) (of_nat (length [10 :: u64, 11, 12])) [] = Inr j \<and>
          sh ! k = [10, 11, 12] ! unat j))"
  by (rule list_shuffle_equivalence) (simp_all add: maxShuffleListSize_def)

end
