(* ===== verification/Core_Helpers.thy ===== *)
theory Core_Helpers
  imports Beacon_State Shuffle
begin

text \<open>
  \<open>beacon-chain/core/time/slot_epoch.go\<close> and the state-reading helpers of
  \<open>beacon-chain/core/helpers\<close>: validator status, active sets, churn limits, balances, RANDAO seeds,
  historical roots, and the sampling of a proposer by effective balance.
  \<open>ActiveValidatorIndices\<close> and \<open>ActiveValidatorCount\<close> are given here by what they return without a
  cache; the versions with the shared committee cache are in \<open>Committees\<close> and proved equal to these.
\<close>

section \<open>Epochs of a state\<close>

definition CurrentEpoch :: "config \<Rightarrow> BeaconState \<Rightarrow> Epoch" where
  "CurrentEpoch cfg s = ToEpoch cfg (b_slot s)"

definition PrevEpoch :: "config \<Rightarrow> BeaconState \<Rightarrow> Epoch" where
  "PrevEpoch cfg s = (let currentEpoch = CurrentEpoch cfg s in if currentEpoch = 0 then 0 else currentEpoch - 1)"

definition NextEpoch :: "config \<Rightarrow> BeaconState \<Rightarrow> Epoch" where
  "NextEpoch cfg s = ToEpoch cfg (b_slot s) + 1"

section \<open>Validator status\<close>

definition checkValidatorActiveStatus :: "Epoch \<Rightarrow> Epoch \<Rightarrow> Epoch \<Rightarrow> bool" where
  "checkValidatorActiveStatus activationEpoch exitEpoch epoch \<longleftrightarrow> activationEpoch \<le> epoch \<and> epoch < exitEpoch"

definition IsActiveValidator :: "Validator \<Rightarrow> Epoch \<Rightarrow> bool" where
  "IsActiveValidator v epoch = checkValidatorActiveStatus (ActivationEpoch v) (ExitEpoch v) epoch"

definition isEligibileForActivationQueue :: "config \<Rightarrow> Epoch \<Rightarrow> u64 \<Rightarrow> bool" where
  "isEligibileForActivationQueue cfg activationEligibilityEpoch effectiveBalance \<longleftrightarrow>
     activationEligibilityEpoch = FarFutureEpoch (raw cfg) \<and> effectiveBalance = MaxEffectiveBalance (raw cfg)"

definition IsEligibleForActivationQueue :: "config \<Rightarrow> Validator \<Rightarrow> bool" where
  "IsEligibleForActivationQueue cfg v = isEligibileForActivationQueue cfg (ActivationEligibilityEpoch v) (EffectiveBalance v)"

definition isEligibleForActivation :: "config \<Rightarrow> Epoch \<Rightarrow> Epoch \<Rightarrow> Epoch \<Rightarrow> bool" where
  "isEligibleForActivation cfg activationEligibilityEpoch activationEpoch finalizedEpoch \<longleftrightarrow>
     activationEligibilityEpoch \<le> finalizedEpoch \<and> activationEpoch = FarFutureEpoch (raw cfg)"

definition IsEligibleForActivation :: "config \<Rightarrow> BeaconState \<Rightarrow> Validator \<Rightarrow> bool" where
  "IsEligibleForActivation cfg s v =
     isEligibleForActivation cfg (ActivationEligibilityEpoch v) (ActivationEpoch v) (cp_Epoch (b_finalizedCheckpoint s))"

definition activeValidatorIndices :: "BeaconState \<Rightarrow> Epoch \<Rightarrow> ValidatorIndex list res" where
  "activeValidatorIndices s epoch =
     ReadFromEveryValidator s
       (\<lambda>idx val indices. Inr (if IsActiveValidator val epoch then indices @ [of_nat idx] else indices)) []"

definition LastActivatedValidatorIndex :: "config \<Rightarrow> BeaconState \<Rightarrow> ValidatorIndex" where
  "LastActivatedValidatorIndex cfg s =
     (case List.find (\<lambda>j. IsActiveValidator (b_validators s ! j) (CurrentEpoch cfg s)) (rev [0..<NumValidators s]) of
        None \<Rightarrow> 0 | Some j \<Rightarrow> of_nat j)"

section \<open>Churn limits\<close>

definition ActivationExitEpoch :: "config \<Rightarrow> Epoch \<Rightarrow> Epoch" where
  "ActivationExitEpoch cfg epoch = epoch + 1 + MaxSeedLookahead (raw cfg)"

definition calculateChurnLimit :: "config \<Rightarrow> u64 \<Rightarrow> u64" where
  "calculateChurnLimit cfg activeValidatorCount =
     (let churnLimit = activeValidatorCount div ChurnLimitQuotient (raw cfg)
      in if churnLimit < MinPerEpochChurnLimit (raw cfg) then MinPerEpochChurnLimit (raw cfg) else churnLimit)"

definition ValidatorActivationChurnLimit :: "config \<Rightarrow> u64 \<Rightarrow> u64" where
  "ValidatorActivationChurnLimit cfg activeValidatorCount =
     (let limit = calculateChurnLimit cfg activeValidatorCount
      in if limit > MaxPerEpochActivationChurnLimit (raw cfg) then MaxPerEpochActivationChurnLimit (raw cfg) else limit)"

definition ValidatorExitChurnLimit :: "config \<Rightarrow> u64 \<Rightarrow> u64" where
  "ValidatorExitChurnLimit cfg activeValidatorCount = calculateChurnLimit cfg activeValidatorCount"

section \<open>Historical roots and RANDAO\<close>

definition BlockRootAtSlot :: "config \<Rightarrow> BeaconState \<Rightarrow> Slot \<Rightarrow> bytes res" where
  "BlockRootAtSlot cfg s slot =
     (if max_u64 - slot < SlotsPerHistoricalRoot (raw cfg) then Inl (Err ''slot overflows uint64'')
      else if slot \<ge> b_slot s \<or> b_slot s > slot + SlotsPerHistoricalRoot (raw cfg)
      then Inl (Err ''slot out of bounds'')
      else BlockRootAtIndex s (slot mod SlotsPerHistoricalRoot (raw cfg)))"

definition BlockRoot :: "config \<Rightarrow> BeaconState \<Rightarrow> Epoch \<Rightarrow> bytes res" where
  "BlockRoot cfg s epoch = bindR (EpochStart cfg epoch) (BlockRootAtSlot cfg s)"

definition RandaoMix :: "config \<Rightarrow> BeaconState \<Rightarrow> Epoch \<Rightarrow> bytes res" where
  "RandaoMix cfg s epoch = RandaoMixAtIndex s (epoch mod EpochsPerHistoricalVector (raw cfg))"

definition Seed :: "config \<Rightarrow> (bytes \<Rightarrow> bytes) \<Rightarrow> BeaconState \<Rightarrow> Epoch \<Rightarrow> bytes \<Rightarrow> bytes res" where
  "Seed cfg hash s epoch domain =
     (let lookAheadEpoch = epoch + EpochsPerHistoricalVector (raw cfg) - MinSeedLookahead (raw cfg) - 1
      in bindR (RandaoMix cfg s lookAheadEpoch) (\<lambda>randaoMix.
         Inr (hash (domain @ Bytes8 epoch @ randaoMix))))"

definition ActiveValidatorIndices :: "config \<Rightarrow> (bytes \<Rightarrow> bytes) \<Rightarrow> BeaconState \<Rightarrow> Epoch \<Rightarrow> ValidatorIndex list res" where
  "ActiveValidatorIndices cfg hash s epoch =
     bindR (activeValidatorIndices s epoch) (\<lambda>indices.
     if length indices = 0 then Inl (Err ''no active validator indices'')
     else if b_slot s = 0 then Inr indices
     else bindR (wrapR ''could not get seed'' (Seed cfg hash s epoch (DomainBeaconAttester (raw cfg)))) (\<lambda>_.
     Inr indices))"

definition ActiveValidatorCount :: "config \<Rightarrow> (bytes \<Rightarrow> bytes) \<Rightarrow> BeaconState \<Rightarrow> Epoch \<Rightarrow> u64 res" where
  "ActiveValidatorCount cfg hash s epoch =
     bindR (activeValidatorIndices s epoch) (\<lambda>indices.
     bindR (wrapR ''could not get seed'' (Seed cfg hash s epoch (DomainBeaconAttester (raw cfg)))) (\<lambda>_.
     Inr (of_nat (length indices))))"

section \<open>Balances\<close>

definition TotalBalance :: "config \<Rightarrow> BeaconState \<Rightarrow> ValidatorIndex list \<Rightarrow> u64" where
  "TotalBalance cfg s indices =
     (let total = fold (\<lambda>idx total. case ValidatorAtIndexReadOnly s idx of Inl _ \<Rightarrow> total
                          | Inr val \<Rightarrow> total + EffectiveBalance val) indices 0
      in if total < EffectiveBalanceIncrement (raw cfg) then EffectiveBalanceIncrement (raw cfg) else total)"

definition IncreaseBalanceWithVal :: "u64 \<Rightarrow> u64 \<Rightarrow> u64 res" where
  "IncreaseBalanceWithVal currBalance delta = Add64 currBalance delta"

definition IncreaseBalance :: "BeaconState \<Rightarrow> ValidatorIndex \<Rightarrow> u64 \<Rightarrow> BeaconState res" where
  "IncreaseBalance s idx delta =
     bindR (BalanceAtIndex s idx) (\<lambda>balAtIdx.
     bindR (IncreaseBalanceWithVal balAtIdx delta) (\<lambda>newBal.
     UpdateBalancesAtIndex s idx newBal))"

definition DecreaseBalanceWithVal :: "u64 \<Rightarrow> u64 \<Rightarrow> u64" where
  "DecreaseBalanceWithVal currBalance delta = (if delta > currBalance then 0 else currBalance - delta)"

definition DecreaseBalance :: "BeaconState \<Rightarrow> ValidatorIndex \<Rightarrow> u64 \<Rightarrow> BeaconState res" where
  "DecreaseBalance s idx delta =
     bindR (BalanceAtIndex s idx) (\<lambda>balAtIdx.
     UpdateBalancesAtIndex s idx (DecreaseBalanceWithVal balAtIdx delta))"

definition FinalityDelay :: "Epoch \<Rightarrow> Epoch \<Rightarrow> Epoch" where
  "FinalityDelay prevEpoch finalizedEpoch = prevEpoch - finalizedEpoch"

definition IsInInactivityLeak :: "config \<Rightarrow> Epoch \<Rightarrow> Epoch \<Rightarrow> bool" where
  "IsInInactivityLeak cfg prevEpoch finalizedEpoch \<longleftrightarrow>
     FinalityDelay prevEpoch finalizedEpoch > MinEpochsToInactivityPenalty (raw cfg)"

section \<open>Sampling the proposer\<close>

text \<open>
  One turn of the loop of \<open>ComputeProposerIndex\<close>: \<open>None\<close> goes on with the next \<open>i\<close>. The loop itself
  may run forever, which is the value \<open>None\<close> of \<open>proposer_loop\<close>.
\<close>

definition proposer_step ::
  "config \<Rightarrow> (bytes \<Rightarrow> bytes) \<Rightarrow> BeaconState \<Rightarrow> ValidatorIndex list \<Rightarrow> bytes \<Rightarrow> u64 \<Rightarrow> ValidatorIndex res option" where
  "proposer_step cfg hash s activeIndices seed i =
     (let len = of_nat (length activeIndices)
      in case ComputeShuffledIndex cfg hash (i mod len) len seed True of
           Inl e \<Rightarrow> Some (Inl e)
         | Inr c \<Rightarrow>
             let candidateIndex = activeIndices ! unat c
             in if unat candidateIndex \<ge> NumValidators s then Some (Inl (Err ''active index out of range''))
                else let randomByte = hash (seed @ Bytes8 (i div 32)) ! unat (i mod 32)
                     in case ValidatorAtIndexReadOnly s candidateIndex of
                          Inl e \<Rightarrow> Some (Inl e)
                        | Inr v \<Rightarrow>
                            if EffectiveBalance v * 255 \<ge> MaxEffectiveBalance (raw cfg) * ucast randomByte
                            then Some (Inr candidateIndex) else None)"

partial_function (option) proposer_loop ::
  "config \<Rightarrow> (bytes \<Rightarrow> bytes) \<Rightarrow> BeaconState \<Rightarrow> ValidatorIndex list \<Rightarrow> bytes \<Rightarrow> u64 \<Rightarrow> ValidatorIndex res option" where
  "proposer_loop cfg hash s activeIndices seed i =
     (if proposer_step cfg hash s activeIndices seed i \<noteq> None then proposer_step cfg hash s activeIndices seed i
      else proposer_loop cfg hash s activeIndices seed (i + 1))"

definition ComputeProposerIndex ::
  "config \<Rightarrow> (bytes \<Rightarrow> bytes) \<Rightarrow> BeaconState \<Rightarrow> ValidatorIndex list \<Rightarrow> bytes \<Rightarrow> ValidatorIndex res option" where
  "ComputeProposerIndex cfg hash s activeIndices seed =
     (if length activeIndices = 0 then Some (Inl (Err ''empty active indices list''))
      else proposer_loop cfg hash s activeIndices seed 0)"

section \<open>Active sets\<close>

lemma foldR_enumerate_filter:
  "foldR (\<lambda>(i, v) acc. Inr (if P v then acc @ [of_nat i] else acc)) (enumerate n vs) acc =
     Inr (acc @ map (\<lambda>(i, v). of_nat i) (filter (\<lambda>(i, v). P v) (enumerate n vs)))"
  by (induction vs arbitrary: n acc) simp_all

lemma activeValidatorIndices_eq:
  "activeValidatorIndices s epoch =
     Inr (map (\<lambda>(i, v). of_nat i) (filter (\<lambda>(i, v). IsActiveValidator v epoch) (enumerate 0 (b_validators s))))"
  using foldR_enumerate_filter [of "\<lambda>v. IsActiveValidator v epoch" 0 "b_validators s" "[]"]
  by (simp add: activeValidatorIndices_def ReadFromEveryValidator_def case_prod_beta')

definition active_set :: "BeaconState \<Rightarrow> Epoch \<Rightarrow> ValidatorIndex list" where
  "active_set s epoch =
     map (\<lambda>(i, v). of_nat i) (filter (\<lambda>(i, v). IsActiveValidator v epoch) (enumerate 0 (b_validators s)))"

lemma active_set_iff:
  assumes "NumValidators s < 18446744073709551616"
  shows "k \<in> set (active_set s epoch) \<longleftrightarrow>
    unat k < NumValidators s \<and> IsActiveValidator (b_validators s ! unat k) epoch"
  using assms
  by (force simp: active_set_def in_set_enumerate_eq NumValidators_def unat_of_nat_u64 image_iff)

lemma distinct_enumerate_filter:
  assumes "n + length vs \<le> 18446744073709551616"
  shows "distinct (map (\<lambda>(i, v). of_nat i :: u64) (filter P (enumerate n vs)))"
  using assms
proof (induction vs arbitrary: n)
  case Nil
  then show ?case by simp
next
  case (Cons v vs)
  have "(of_nat n :: u64) \<notin> (\<lambda>(i, v). of_nat i) ` set (filter P (enumerate (Suc n) vs))"
  proof
    assume "(of_nat n :: u64) \<in> (\<lambda>(i, v). of_nat i) ` set (filter P (enumerate (Suc n) vs))"
    then obtain i where i: "Suc n \<le> i" "i < Suc n + length vs" "(of_nat n :: u64) = of_nat i"
      by (auto simp: in_set_enumerate_eq)
    have "unat (of_nat n :: u64) = n" "unat (of_nat i :: u64) = i"
      using i(1,2) Cons.prems by (simp_all add: unat_of_nat_u64)
    then show False
      using i(1,3) by simp
  qed
  moreover have "distinct (map (\<lambda>(i, v). of_nat i :: u64) (filter P (enumerate (Suc n) vs)))"
    using Cons.prems by (intro Cons.IH) simp
  ultimately show ?case by simp
qed

lemma distinct_active_set: "NumValidators s \<le> 18446744073709551616 \<Longrightarrow> distinct (active_set s epoch)"
  unfolding active_set_def NumValidators_def by (rule distinct_enumerate_filter) simp

lemma length_active_set: "length (active_set s epoch) \<le> NumValidators s"
  unfolding active_set_def NumValidators_def by (metis length_enumerate length_filter_le length_map)

section \<open>The proposer loop\<close>

lemma shuffled_in_range:
  assumes "0 < length act" and "length act \<le> unat maxShuffleListSize"
  shows "\<exists>k < length act.
    ComputeShuffledIndex cfg hash (i mod of_nat (length act)) (of_nat (length act)) seed True = Inr (of_nat k)"
proof -
  let ?n = "of_nat (length act) :: u64"
  have n: "unat ?n = length act" "?n \<le> maxShuffleListSize"
    using assms by (simp_all add: unat_of_nat_u64 maxShuffleListSize_def unat_le_u64)
  have lt: "i mod ?n < ?n"
    using n assms by (simp add: unat_less_u64 unat_mod_u64)
  let ?c = "fold (shuffle_round hash seed ?n) (dir_rounds cfg True) (i mod ?n)"
  have "unat ?c < length act"
    using sr.fold_range [OF shuffle_size_le [OF lt n(2)] lt] n by (simp add: unat_less_u64)
  then show ?thesis
    by (intro exI [of _ "unat ?c"]) (simp add: ComputeShuffledIndex_fold [OF lt n(2)])
qed

lemma proposer_step_eq:
  assumes "k < length act" and "length act \<le> unat maxShuffleListSize"
    and "ComputeShuffledIndex cfg hash (i mod of_nat (length act)) (of_nat (length act)) seed True = Inr (of_nat k)"
  shows "proposer_step cfg hash s act seed i =
      (if unat (act ! k) \<ge> NumValidators s then Some (Inl (Err ''active index out of range''))
       else if EffectiveBalance (b_validators s ! unat (act ! k)) * 255
                 \<ge> MaxEffectiveBalance (raw cfg) * ucast (hash (seed @ Bytes8 (i div 32)) ! unat (i mod 32))
            then Some (Inr (act ! k)) else None)"
proof -
  have "unat (of_nat k :: u64) = k"
    using assms(1,2) by (simp add: unat_of_nat_u64 maxShuffleListSize_def)
  then show ?thesis
    using assms(3) by (simp add: proposer_step_def Let_def ValidatorAtIndexReadOnly_def NumValidators_def)
qed

lemma proposer_loop_reaches:
  assumes "proposer_step cfg hash s act seed (i + of_nat d) \<noteq> None"
  shows "\<exists>j \<le> d. proposer_loop cfg hash s act seed i = proposer_step cfg hash s act seed (i + of_nat j)
    \<and> proposer_loop cfg hash s act seed i \<noteq> None"
  using assms
proof (induction d arbitrary: i)
  case 0
  then show ?case
    by (subst (1 2) proposer_loop.simps) simp
next
  case (Suc d)
  show ?case
  proof (cases "proposer_step cfg hash s act seed i = None")
    case True
    have "proposer_step cfg hash s act seed ((i + 1) + of_nat d) \<noteq> None"
      using Suc.prems by (simp add: algebra_simps)
    from Suc.IH [OF this] obtain j where "j \<le> d"
      "proposer_loop cfg hash s act seed (i + 1) = proposer_step cfg hash s act seed (i + 1 + of_nat j)"
      "proposer_loop cfg hash s act seed (i + 1) \<noteq> None"
      by blast
    then show ?thesis
      using True by (intro exI [of _ "Suc j"]) (subst (1 2) proposer_loop.simps, simp add: algebra_simps)
  next
    case False
    then show ?thesis
      by (intro exI [of _ 0]) (subst (1 2) proposer_loop.simps, simp)
  qed
qed

text \<open>A validator with the maximum effective balance is accepted whatever the random byte.\<close>

lemma max_balance_accepted:
  assumes "unat (MaxEffectiveBalance (raw cfg)) * 255 < 18446744073709551616"
  shows "MaxEffectiveBalance (raw cfg) * ucast (b :: u8) \<le> MaxEffectiveBalance (raw cfg) * 255"
proof -
  have b: "unat (ucast b :: u64) \<le> 255"
    using unat_lt_256 [of b] by (simp add: unsigned_ucast_eq take_bit_eq_mod)
  have le: "unat (MaxEffectiveBalance (raw cfg)) * unat (ucast b :: u64) \<le> unat (MaxEffectiveBalance (raw cfg)) * 255"
    using b by (rule mult_le_mono2)
  have "unat (MaxEffectiveBalance (raw cfg) * ucast b) = unat (MaxEffectiveBalance (raw cfg)) * unat (ucast b :: u64)"
    by (rule unat_mult_u64 [OF le_less_trans [OF le assms]])
  moreover have "unat (MaxEffectiveBalance (raw cfg) * 255) = unat (MaxEffectiveBalance (raw cfg)) * 255"
    using assms by (simp add: unat_mult_u64)
  ultimately show ?thesis
    using le by (simp only: unat_le_u64)
qed

lemma shuffled_preimage:
  assumes "k < length act" and "length act \<le> unat maxShuffleListSize"
  shows "\<exists>j < length act. ComputeShuffledIndex cfg hash (of_nat j) (of_nat (length act)) seed True = Inr (of_nat k)"
proof -
  let ?n = "of_nat (length act) :: u64"
  have n: "unat ?n = length act" "?n \<le> maxShuffleListSize" "(of_nat k :: u64) < ?n"
    using assms by (simp_all add: unat_of_nat_u64 maxShuffleListSize_def unat_le_u64 unat_less_u64)
  let ?j = "fold (shuffle_round hash seed ?n) (dir_rounds cfg False) (of_nat k)"
  have size: "shuffle_size ?n"
    by (rule shuffle_size_le [OF n(3,2)])
  have lt: "?j < ?n"
    by (rule sr.fold_range [OF size n(3)])
  have "fold (shuffle_round hash seed ?n) (dir_rounds cfg True) ?j = of_nat k"
    using sr.fold_rev_inverse [OF size n(3), of hash seed "dir_rounds cfg False"] dir_rounds_rev [of cfg False]
    by simp
  then have "ComputeShuffledIndex cfg hash (of_nat (unat ?j)) ?n seed True = Inr (of_nat k)"
    using ComputeShuffledIndex_fold [OF lt n(2), of cfg hash seed True] by simp
  then show ?thesis
    using lt n(1) by (intro exI [of _ "unat ?j"]) (simp add: unat_less_u64)
qed

section \<open>Properties\<close>

text \<open>C11: \<open>ComputeProposerIndex\<close> returns: when the active indices are registered validators (at most
  \<open>2^40\<close> of them), one of them holds the maximum effective balance, and 255 times that maximum fits
  64 bits, the sampling loop stops after at most as many turns as there are active indices, with the
  index of an active validator.\<close>

theorem ComputeProposerIndex_returns:
  assumes "length act \<le> unat maxShuffleListSize"
    and "\<forall>k \<in> set act. unat k < NumValidators s"
    and "m \<in> set act" and "EffectiveBalance (b_validators s ! unat m) = MaxEffectiveBalance (raw cfg)"
    and "unat (MaxEffectiveBalance (raw cfg)) * 255 < 18446744073709551616"
  shows "\<exists>k \<in> set act. ComputeProposerIndex cfg hash s act seed = Some (Inr k)"
proof -
  obtain k where k: "k < length act" "act ! k = m"
    using assms(3) by (auto simp: in_set_conv_nth)
  obtain j where j: "j < length act"
    "ComputeShuffledIndex cfg hash (of_nat j) (of_nat (length act)) seed True = Inr (of_nat k)"
    using shuffled_preimage [OF k(1) assms(1)] by blast
  have len: "0 < length act" "unat (of_nat (length act) :: u64) = length act" "unat (of_nat j :: u64) = j"
    "unat (of_nat k :: u64) = k"
    using j(1) k(1) assms(1) by (auto simp: unat_of_nat_u64 maxShuffleListSize_def)
  then have mod: "(of_nat j :: u64) mod of_nat (length act) = of_nat j"
    using j by (simp add: unat_eq_u64 unat_mod_u64)
  have "proposer_step cfg hash s act seed (0 + of_nat j) \<noteq> None"
    using proposer_step_eq [OF k(1) assms(1), of cfg hash "of_nat j" seed s] j(2) mod k(2) assms(4)
      max_balance_accepted [OF assms(5)] by simp
  from proposer_loop_reaches [OF this] obtain i where
    i: "proposer_loop cfg hash s act seed 0 = proposer_step cfg hash s act seed i"
    "proposer_loop cfg hash s act seed 0 \<noteq> None"
    by blast
  obtain q where q: "q < length act"
    "ComputeShuffledIndex cfg hash (i mod of_nat (length act)) (of_nat (length act)) seed True = Inr (of_nat q)"
    using shuffled_in_range [OF len(1) assms(1)] by blast
  then have "unat (act ! q) < NumValidators s"
    using assms(2) by simp
  then have "proposer_loop cfg hash s act seed 0 = Some (Inr (act ! q))"
    using proposer_step_eq [OF q(1) assms(1) q(2), of s] i by (simp split: if_splits)
  then show ?thesis
    using q(1) by (intro bexI [of _ "act ! q"]) (auto simp: ComputeProposerIndex_def)
qed

theorem ComputeProposerIndex_returns_witness:
  "\<exists>k \<in> set [0, 1]. ComputeProposerIndex mainnet (\<lambda>_. replicate 32 200) (zero_state\<lparr>b_validators :=
     [zero_validator, zero_validator\<lparr>EffectiveBalance := MaxEffectiveBalance mainnetBeaconConfig\<rparr>]\<rparr>)
     [0, 1] [] = Some (Inr k)"
  by (rule ComputeProposerIndex_returns [where m = 1])
     (simp_all add: maxShuffleListSize_def NumValidators_def mainnetBeaconConfig_def)

end
