(* ===== verification/Committees.thy ===== *)
theory Committees
  imports Core_Helpers
begin

text \<open>
  Beacon committees: \<open>beacon-chain/core/helpers/beacon_committee.go\<close>, the committee cache
  \<open>beacon-chain/cache/committee.go\<close> and \<open>committees.go\<close>, and \<open>SplitOffset\<close> of \<open>container/slice\<close>.
  The committees of an epoch cut the shuffled active set into consecutive pieces; the cache hands
  out slices of a stored shuffle. The LRU store behind the cache (a third-party package), the digest
  of the cache key and the outcome of waiting for a concurrent request are parameters.
\<close>

section \<open>Cutting the active set\<close>

text \<open>The callers never pass zero chunks.\<close>

definition SplitOffset :: "u64 \<Rightarrow> u64 \<Rightarrow> u64 \<Rightarrow> u64" where
  "SplitOffset listSize chunks index = (listSize * index) div chunks"

definition SlotCommitteeCount :: "config \<Rightarrow> u64 \<Rightarrow> u64" where
  "SlotCommitteeCount cfg activeValidatorCount =
     (let committeesPerSlot = activeValidatorCount div SlotsPerEpoch (raw cfg) div TargetCommitteeSize (raw cfg)
      in if committeesPerSlot > MaxCommitteesPerSlot (raw cfg) then MaxCommitteesPerSlot (raw cfg)
         else if committeesPerSlot = 0 then 1
         else committeesPerSlot)"

definition computeCommittee ::
  "config \<Rightarrow> (bytes \<Rightarrow> bytes) \<Rightarrow> ValidatorIndex list \<Rightarrow> bytes \<Rightarrow> u64 \<Rightarrow> u64 \<Rightarrow> ValidatorIndex list res" where
  "computeCommittee cfg hash indices seed index count =
     (let validatorCount = of_nat (length indices)
      in if index \<ge> count then Inl (Err ''index out of range: committee offset'')
         else let start = SplitOffset validatorCount count index;
                  end = SplitOffset validatorCount count (index + 1)
              in if start > validatorCount \<or> end > validatorCount then Inl (Err ''index out of range'')
                 else bindR (UnshuffleList cfg hash indices seed) (\<lambda>shuffledList.
                      go_slice shuffledList (unat start) (unat end)))"

definition verifyAssignmentEpoch :: "config \<Rightarrow> Epoch \<Rightarrow> BeaconState \<Rightarrow> unit res" where
  "verifyAssignmentEpoch cfg epoch s =
     (let nextEpoch = NextEpoch cfg s
      in if epoch > nextEpoch then Inl (Err ''epoch can't be greater than next epoch'')
         else bindR (EpochStart cfg epoch) (\<lambda>startSlot.
              let minValidStartSlot =
                    (if b_slot s \<ge> SlotsPerHistoricalRoot (raw cfg) then b_slot s - SlotsPerHistoricalRoot (raw cfg) else 0)
              in if startSlot < minValidStartSlot
                 then Inl (Err ''start slot is smaller than the minimum valid start slot'')
                 else Inr ()))"

section \<open>The committee cache\<close>

record Committees_entry =
  CommitteeCount :: u64
  cm_Seed :: bytes
  ShuffledIndices :: "ValidatorIndex list"
  SortedIndices :: "ValidatorIndex list"

type_synonym CommitteeKey = "bytes \<times> bytes" \<comment> \<open>\<open>seed\<close> and \<open>indicesRoot\<close>\<close>

text \<open>The bytes that the key's digest commits to.\<close>

definition key_preimage :: "config \<Rightarrow> ValidatorIndex list \<Rightarrow> bytes" where
  "key_preimage cfg indices =
     concat (map Bytes8 [SlotsPerEpoch (raw cfg), TargetCommitteeSize (raw cfg),
                         MaxCommitteesPerSlot (raw cfg), ShuffleRoundCount (raw cfg)]) @
     concat (map Bytes8 indices)"

definition NewCommitteeKey :: "config \<Rightarrow> (bytes \<Rightarrow> bytes) \<Rightarrow> bytes \<Rightarrow> ValidatorIndex list \<Rightarrow> CommitteeKey" where
  "NewCommitteeKey cfg sha seed indices = (seed, sha (key_preimage cfg indices))"

definition committeeKey :: "CommitteeKey \<Rightarrow> bytes" where
  "committeeKey cacheKey = fst cacheKey @ snd cacheKey"

definition committeeKeyFn :: "config \<Rightarrow> (bytes \<Rightarrow> bytes) \<Rightarrow> Committees_entry \<Rightarrow> bytes" where
  "committeeKeyFn cfg sha info = committeeKey (NewCommitteeKey cfg sha (cm_Seed info) (SortedIndices info))"

text \<open>
  The store: \<open>lru_Get\<close> may reorder it, \<open>lru_Add\<close> may evict. \<open>lru_law\<close> is what its documentation
  promises: only what was added under a key is found under it.
\<close>

record ('c, 'v) lru =
  lru_Get :: "'c \<Rightarrow> bytes \<Rightarrow> 'v option \<times> 'c"
  lru_Add :: "'c \<Rightarrow> bytes \<Rightarrow> 'v \<Rightarrow> 'c"

definition lru_law :: "('c, 'v) lru \<Rightarrow> ('c \<Rightarrow> bytes \<rightharpoonup> 'v) \<Rightarrow> bool" where
  "lru_law ops view \<longleftrightarrow>
     (\<forall>c k. fst (lru_Get ops c k) = view c k \<and> view (snd (lru_Get ops c k)) = view c) \<and>
     (\<forall>c k v. view (lru_Add ops c k v) \<subseteq>\<^sub>m (view c)(k \<mapsto> v))"

record 'c CommitteeCache =
  cc_lru :: 'c
  inProgress :: "bytes set"

text \<open>
  The caller's context and what other requests do while a call waits: \<open>ctx_Err\<close> is the error of a
  cancelled context, and \<open>waiting\<close> gives the cache as it is when the wait for a key is over.
\<close>

record 'c request =
  ctx_Err :: "string option"
  waiting :: "'c CommitteeCache \<Rightarrow> bytes \<Rightarrow> 'c CommitteeCache res"

definition checkInProgress :: "'c request \<Rightarrow> 'c CommitteeCache \<Rightarrow> CommitteeKey \<Rightarrow> 'c CommitteeCache res" where
  "checkInProgress req c cacheKey =
     (case ctx_Err req of Some e \<Rightarrow> Inl (Err e)
      | None \<Rightarrow> if committeeKey cacheKey \<in> inProgress c then waiting req c (committeeKey cacheKey) else Inr c)"

definition startEndIndices :: "Committees_entry \<Rightarrow> u64 \<Rightarrow> u64 \<times> u64" where
  "startEndIndices c index =
     (let validatorCount = of_nat (length (ShuffledIndices c))
      in (SplitOffset validatorCount (CommitteeCount c) index,
          SplitOffset validatorCount (CommitteeCount c) (index + 1)))"

definition cached_slice :: "config \<Rightarrow> Committees_entry \<Rightarrow> Slot \<Rightarrow> CommitteeIndex \<Rightarrow> ValidatorIndex list res" where
  "cached_slice cfg item slot index =
     (let committeeCountPerSlot =
            (if CommitteeCount item div SlotsPerEpoch (raw cfg) > 1
             then CommitteeCount item div SlotsPerEpoch (raw cfg) else 1)
      in if index \<ge> committeeCountPerSlot then Inl (Err ''requested index out of bound: committee index'')
         else bindR (bindR (Slot_ModSlot slot (SlotsPerEpoch (raw cfg))) (\<lambda>m. Slot_Mul m committeeCountPerSlot)) (\<lambda>off.
              bindR (Add64 index off) (\<lambda>indexOffSet.
              if indexOffSet \<ge> CommitteeCount item then Inl (Err ''requested index out of bound: committee offset'')
              else let (start, end) = startEndIndices item indexOffSet
                   in if end > of_nat (length (ShuffledIndices item)) \<or> end < start
                      then Inl (Err ''requested index out of bound'')
                      else go_slice (ShuffledIndices item) (unat start) (unat end))))"

definition Committee ::
  "config \<Rightarrow> ('c, Committees_entry) lru \<Rightarrow> 'c request \<Rightarrow> 'c CommitteeCache \<Rightarrow> Slot \<Rightarrow> CommitteeKey \<Rightarrow> CommitteeIndex
     \<Rightarrow> (ValidatorIndex list option \<times> 'c CommitteeCache) res" where
  "Committee cfg ops req c slot cacheKey index =
     bindR (checkInProgress req c cacheKey) (\<lambda>c.
     let (obj, l) = lru_Get ops (cc_lru c) (committeeKey cacheKey); c = c\<lparr>cc_lru := l\<rparr>
     in case obj of None \<Rightarrow> Inr (None, c)
        | Some item \<Rightarrow> bindR (cached_slice cfg item slot index) (\<lambda>xs. Inr (Some xs, c)))"

definition AddCommitteeShuffledList ::
  "config \<Rightarrow> (bytes \<Rightarrow> bytes) \<Rightarrow> ('c, Committees_entry) lru \<Rightarrow> 'c request \<Rightarrow> 'c CommitteeCache \<Rightarrow> Committees_entry
     \<Rightarrow> 'c CommitteeCache res" where
  "AddCommitteeShuffledList cfg sha ops req c committees =
     (case ctx_Err req of Some e \<Rightarrow> Inl (Err e)
      | None \<Rightarrow> Inr (c\<lparr>cc_lru := lru_Add ops (cc_lru c) (committeeKeyFn cfg sha committees) committees\<rparr>))"

definition ActiveIndices ::
  "('c, Committees_entry) lru \<Rightarrow> 'c request \<Rightarrow> 'c CommitteeCache \<Rightarrow> CommitteeKey
     \<Rightarrow> (ValidatorIndex list option \<times> 'c CommitteeCache) res" where
  "ActiveIndices ops req c cacheKey =
     bindR (checkInProgress req c cacheKey) (\<lambda>c.
     let (obj, l) = lru_Get ops (cc_lru c) (committeeKey cacheKey)
     in Inr (map_option SortedIndices obj, c\<lparr>cc_lru := l\<rparr>))"

definition ActiveIndicesCount ::
  "('c, Committees_entry) lru \<Rightarrow> 'c request \<Rightarrow> 'c CommitteeCache \<Rightarrow> CommitteeKey \<Rightarrow> (nat \<times> 'c CommitteeCache) res" where
  "ActiveIndicesCount ops req c cacheKey =
     bindR (checkInProgress req c cacheKey) (\<lambda>c.
     let (obj, l) = lru_Get ops (cc_lru c) (committeeKey cacheKey)
     in Inr (case obj of None \<Rightarrow> 0 | Some item \<Rightarrow> length (SortedIndices item), c\<lparr>cc_lru := l\<rparr>))"

definition HasEntry :: "('c, Committees_entry) lru \<Rightarrow> 'c CommitteeCache \<Rightarrow> CommitteeKey \<Rightarrow> bool \<times> 'c CommitteeCache" where
  "HasEntry ops c cacheKey =
     (let (obj, l) = lru_Get ops (cc_lru c) (committeeKey cacheKey) in (obj \<noteq> None, c\<lparr>cc_lru := l\<rparr>))"

text \<open>\<open>ErrAlreadyInProgress\<close> is \<open>None\<close>.\<close>

definition MarkInProgress :: "'c CommitteeCache \<Rightarrow> CommitteeKey \<Rightarrow> 'c CommitteeCache option" where
  "MarkInProgress c cacheKey =
     (if committeeKey cacheKey \<in> inProgress c then None
      else Some (c\<lparr>inProgress := insert (committeeKey cacheKey) (inProgress c)\<rparr>))"

definition MarkNotInProgress :: "'c CommitteeCache \<Rightarrow> CommitteeKey \<Rightarrow> 'c CommitteeCache" where
  "MarkNotInProgress c cacheKey = c\<lparr>inProgress := inProgress c - {committeeKey cacheKey}\<rparr>"

section \<open>Committees and active sets through the cache\<close>

text \<open>The first component is the returned error.\<close>

definition updateCommitteeCache ::
  "config \<Rightarrow> (bytes \<Rightarrow> bytes) \<Rightarrow> (bytes \<Rightarrow> bytes) \<Rightarrow> ('c, Committees_entry) lru \<Rightarrow> 'c request \<Rightarrow> 'c CommitteeCache
     \<Rightarrow> bytes \<Rightarrow> ValidatorIndex list \<Rightarrow> unit res \<times> 'c CommitteeCache" where
  "updateCommitteeCache cfg hash sha ops req c seed indices =
     (let (has, c) = HasEntry ops c (NewCommitteeKey cfg sha seed indices)
      in if has then (Inr (), c)
         else case UnshuffleList cfg hash indices seed of Inl e \<Rightarrow> (Inl e, c)
         | Inr shuffledIndices \<Rightarrow>
             let count = SlotCommitteeCount cfg (of_nat (length shuffledIndices))
             in case Slot_Mul (SlotsPerEpoch (raw cfg)) count of Inl e \<Rightarrow> (Inl e, c)
             | Inr committeeCount \<Rightarrow>
                 case AddCommitteeShuffledList cfg sha ops req c
                        \<lparr>CommitteeCount = committeeCount, cm_Seed = seed,
                         ShuffledIndices = shuffledIndices, SortedIndices = indices\<rparr> of
                   Inl e \<Rightarrow> (Inl e, c) | Inr c \<Rightarrow> (Inr (), c))"

definition committee_at ::
  "config \<Rightarrow> (bytes \<Rightarrow> bytes) \<Rightarrow> ValidatorIndex list \<Rightarrow> bytes \<Rightarrow> Slot \<Rightarrow> CommitteeIndex \<Rightarrow> ValidatorIndex list res" where
  "committee_at cfg hash validatorIndices seed slot committeeIndex =
     (let committeesPerSlot = SlotCommitteeCount cfg (of_nat (length validatorIndices))
      in if committeeIndex \<ge> committeesPerSlot then Inl (Err ''committee index out of range'')
         else bindR (bindR (Slot_ModSlot slot (SlotsPerEpoch (raw cfg))) (\<lambda>m. Slot_Mul m committeesPerSlot)) (\<lambda>off.
              bindR (wrapR ''could not add calculate index offset'' (Add64 committeeIndex off)) (\<lambda>indexOffset.
              let count = committeesPerSlot * SlotsPerEpoch (raw cfg)
              in computeCommittee cfg hash validatorIndices seed indexOffset count)))"

definition BeaconCommittee ::
  "config \<Rightarrow> (bytes \<Rightarrow> bytes) \<Rightarrow> (bytes \<Rightarrow> bytes) \<Rightarrow> ('c, Committees_entry) lru \<Rightarrow> 'c request \<Rightarrow> 'c CommitteeCache
     \<Rightarrow> ValidatorIndex list \<Rightarrow> bytes \<Rightarrow> Slot \<Rightarrow> CommitteeIndex \<Rightarrow> (ValidatorIndex list \<times> 'c CommitteeCache) res" where
  "BeaconCommittee cfg hash sha ops req c validatorIndices seed slot committeeIndex =
     (let cacheKey = NewCommitteeKey cfg sha seed validatorIndices
      in bindR (wrapR ''could not interface with committee cache''
                  (Committee cfg ops req c slot cacheKey committeeIndex)) (\<lambda>(committee, c).
         case committee of Some xs \<Rightarrow> Inr (xs, c)
         | None \<Rightarrow> bindR (committee_at cfg hash validatorIndices seed slot committeeIndex) (\<lambda>xs. Inr (xs, c))))"

definition ActiveValidatorIndices_cached ::
  "config \<Rightarrow> (bytes \<Rightarrow> bytes) \<Rightarrow> (bytes \<Rightarrow> bytes) \<Rightarrow> ('c, Committees_entry) lru \<Rightarrow> 'c request \<Rightarrow> 'c CommitteeCache
     \<Rightarrow> BeaconState \<Rightarrow> Epoch \<Rightarrow> (ValidatorIndex list \<times> 'c CommitteeCache) res" where
  "ActiveValidatorIndices_cached cfg hash sha ops req c s epoch =
     bindR (activeValidatorIndices s epoch) (\<lambda>indices.
     if length indices = 0 then Inl (Err ''no active validator indices'')
     else if b_slot s = 0 then Inr (indices, c)
     else bindR (wrapR ''could not get seed'' (Seed cfg hash s epoch (DomainBeaconAttester (raw cfg)))) (\<lambda>seed.
     let cacheKey = NewCommitteeKey cfg sha seed indices
     in bindR (wrapR ''could not interface with committee cache'' (ActiveIndices ops req c cacheKey)) (\<lambda>(act, c).
        case act of Some a \<Rightarrow> Inr (a, c)
        | None \<Rightarrow> (case MarkInProgress c cacheKey of
             None \<Rightarrow> bindR (ActiveIndices ops req c cacheKey) (\<lambda>(act, c).
                       case act of None \<Rightarrow> Inl (Err ''nil active indices'') | Some a \<Rightarrow> Inr (a, c))
           | Some c \<Rightarrow> (case updateCommitteeCache cfg hash sha ops req c seed indices of
               (Inl (Panic p), c) \<Rightarrow> Inl (Panic p)
             | (_, c) \<Rightarrow> Inr (indices, MarkNotInProgress c cacheKey))))))"

definition ActiveValidatorCount_cached ::
  "config \<Rightarrow> (bytes \<Rightarrow> bytes) \<Rightarrow> (bytes \<Rightarrow> bytes) \<Rightarrow> ('c, Committees_entry) lru \<Rightarrow> 'c request \<Rightarrow> 'c CommitteeCache
     \<Rightarrow> BeaconState \<Rightarrow> Epoch \<Rightarrow> (u64 \<times> 'c CommitteeCache) res" where
  "ActiveValidatorCount_cached cfg hash sha ops req c s epoch =
     bindR (activeValidatorIndices s epoch) (\<lambda>indices.
     bindR (wrapR ''could not get seed'' (Seed cfg hash s epoch (DomainBeaconAttester (raw cfg)))) (\<lambda>seed.
     let cacheKey = NewCommitteeKey cfg sha seed indices
     in bindR (wrapR ''could not interface with committee cache'' (ActiveIndicesCount ops req c cacheKey))
        (\<lambda>(activeCount, c).
        if activeCount \<noteq> 0 \<and> b_slot s \<noteq> 0 then Inr (of_nat activeCount, c)
        else (case MarkInProgress c cacheKey of
             None \<Rightarrow> bindR (ActiveIndicesCount ops req c cacheKey) (\<lambda>(activeCount, c). Inr (of_nat activeCount, c))
           | Some c \<Rightarrow> (case updateCommitteeCache cfg hash sha ops req c seed indices of
               (Inl (Panic p), c) \<Rightarrow> Inl (Panic p)
             | (_, c) \<Rightarrow> Inr (of_nat (length indices), MarkNotInProgress c cacheKey))))))"

definition BeaconCommitteeFromState ::
  "config \<Rightarrow> (bytes \<Rightarrow> bytes) \<Rightarrow> (bytes \<Rightarrow> bytes) \<Rightarrow> ('c, Committees_entry) lru \<Rightarrow> 'c request \<Rightarrow> 'c CommitteeCache
     \<Rightarrow> BeaconState \<Rightarrow> Slot \<Rightarrow> CommitteeIndex \<Rightarrow> (ValidatorIndex list \<times> 'c CommitteeCache) res" where
  "BeaconCommitteeFromState cfg hash sha ops req c s slot committeeIndex =
     (let epoch = ToEpoch cfg slot
      in bindR (wrapR ''could not get seed'' (Seed cfg hash s epoch (DomainBeaconAttester (raw cfg)))) (\<lambda>seed.
         bindR (wrapR ''could not get active indices''
                  (ActiveValidatorIndices_cached cfg hash sha ops req c s epoch)) (\<lambda>(activeIndices, c).
         BeaconCommittee cfg hash sha ops req c activeIndices seed slot committeeIndex)))"

definition UpdateCommitteeCache ::
  "config \<Rightarrow> (bytes \<Rightarrow> bytes) \<Rightarrow> (bytes \<Rightarrow> bytes) \<Rightarrow> ('c, Committees_entry) lru \<Rightarrow> 'c request \<Rightarrow> 'c CommitteeCache
     \<Rightarrow> BeaconState \<Rightarrow> Epoch \<Rightarrow> unit res \<times> 'c CommitteeCache" where
  "UpdateCommitteeCache cfg hash sha ops req c s e =
     (case Seed cfg hash s e (DomainBeaconAttester (raw cfg)) of Inl err \<Rightarrow> (Inl err, c)
      | Inr seed \<Rightarrow> (case activeValidatorIndices s e of Inl err \<Rightarrow> (Inl err, c)
      | Inr indices \<Rightarrow> updateCommitteeCache cfg hash sha ops req c seed indices))"

definition ShuffledIndices_of :: "config \<Rightarrow> (bytes \<Rightarrow> bytes) \<Rightarrow> BeaconState \<Rightarrow> Epoch \<Rightarrow> ValidatorIndex list res" where
  "ShuffledIndices_of cfg hash s epoch =
     bindR (wrapR ''could not get seed for epoch'' (Seed cfg hash s epoch (DomainBeaconAttester (raw cfg)))) (\<lambda>seed.
     bindR (ReadFromEveryValidator s
       (\<lambda>idx val indices. Inr (if IsActiveValidator val epoch then indices @ [of_nat idx] else indices)) []) (\<lambda>indices.
     UnshuffleList cfg hash indices seed))"

section \<open>Counting committees\<close>

lemma SlotCommitteeCount_unat:
  "unat (SlotCommitteeCount cfg n) =
     max 1 (min (unat (MaxCommitteesPerSlot (raw cfg)))
       (unat n div unat (SlotsPerEpoch (raw cfg)) div unat (TargetCommitteeSize (raw cfg))))"
proof -
  let ?q = "n div SlotsPerEpoch (raw cfg) div TargetCommitteeSize (raw cfg)"
  have q: "unat ?q = unat n div unat (SlotsPerEpoch (raw cfg)) div unat (TargetCommitteeSize (raw cfg))"
    by (simp add: unat_div_u64)
  have m: "0 < unat (MaxCommitteesPerSlot (raw cfg))"
    by (simp add: unat_gt_0)
  have "?q = 0 \<longleftrightarrow> unat ?q = 0"
    by (simp add: unat_eq_zero)
  then show ?thesis
    using m by (auto simp: SlotCommitteeCount_def Let_def unat_less_u64 q [symmetric] max_def min_def)
qed

lemma SlotCommitteeCount_bounds:
  "1 \<le> unat (SlotCommitteeCount cfg n)" "unat (SlotCommitteeCount cfg n) \<le> unat (MaxCommitteesPerSlot (raw cfg))"
proof -
  have "0 < unat (MaxCommitteesPerSlot (raw cfg))"
    by (simp add: unat_gt_0)
  then show "1 \<le> unat (SlotCommitteeCount cfg n)" "unat (SlotCommitteeCount cfg n) \<le> unat (MaxCommitteesPerSlot (raw cfg))"
    by (simp_all add: SlotCommitteeCount_unat)
qed

text \<open>The number of committees of an epoch is within 64 bits for every valid configuration.\<close>

lemma MaxActiveValidators_Inr:
  assumes "MaxActiveValidators b = Inr cap"
  shows "unat (MaxCommitteesPerSlot b) * unat (SlotsPerEpoch b) < 18446744073709551616"
    "unat (MaxCommitteesPerSlot b) * unat (SlotsPerEpoch b) * unat (MaxValidatorsPerCommittee b) < 18446744073709551616"
    "unat cap = (if 1 < unat (MaxCommitteesPerSlot b) \<and>
         (unat (SlotsPerEpoch b) * unat (MaxValidatorsPerCommittee b) + 1)
            div unat (SlotsPerEpoch b) div unat (TargetCommitteeSize b) < 2
       then unat (SlotsPerEpoch b) * unat (MaxValidatorsPerCommittee b)
       else unat (MaxCommitteesPerSlot b) * unat (SlotsPerEpoch b) * unat (MaxValidatorsPerCommittee b))"
proof -
  let ?C = "MaxCommitteesPerSlot b" and ?S = "SlotsPerEpoch b" and ?M = "MaxValidatorsPerCommittee b"
  have hi: "fst (bits_Mul64 ?C ?S) = 0" "fst (bits_Mul64 (?C * ?S) ?M) = 0" and C: "?C \<noteq> 0"
    and cap: "cap = (if ?C > 1 \<and> (?S * ?M + 1) div ?S div TargetCommitteeSize b < 2 then ?S * ?M else ?C * ?S * ?M)"
    using assms by (auto simp: MaxActiveValidators_def bindR_eq_Inr Let_def case_prod_beta' split: if_splits)
  show cs: "unat ?C * unat ?S < 18446744073709551616"
    using hi(1) bits_Mul64_hi_zero by blast
  then have ucs: "unat (?C * ?S) = unat ?C * unat ?S"
    by (rule unat_mult_u64)
  then show csm: "unat ?C * unat ?S * unat ?M < 18446744073709551616"
    using hi(2) bits_Mul64_hi_zero [of "?C * ?S" ?M] by simp
  have c1: "1 \<le> unat ?C"
    using C by (simp add: Suc_le_eq unat_gt_0)
  then have "1 * (unat ?S * unat ?M) \<le> unat ?C * (unat ?S * unat ?M)"
    by (rule mult_le_mono1)
  then have "unat ?S * unat ?M < 18446744073709551616"
    using csm by (simp only: mult_1 mult.assoc)
  then have usm: "unat (?S * ?M) = unat ?S * unat ?M"
    by (rule unat_mult_u64)
  have ucsm: "unat (?C * ?S * ?M) = unat ?C * unat ?S * unat ?M"
    using csm ucs by (simp add: unat_mult_u64)
  have "unat ((?S * ?M + 1) div ?S div TargetCommitteeSize b) =
      (unat ?S * unat ?M + 1) div unat ?S div unat (TargetCommitteeSize b)" if "1 < unat ?C"
  proof -
    have "2 * (unat ?S * unat ?M) \<le> unat ?C * (unat ?S * unat ?M)"
      using that by (intro mult_le_mono1) simp
    then have "unat ?S * unat ?M + 1 < 18446744073709551616"
      using csm by (simp only: mult.assoc)
    then have "unat (?S * ?M + 1) = unat ?S * unat ?M + 1"
      using usm by (subst unat_add_u64) simp_all
    then show ?thesis
      by (simp add: unat_div_u64)
  qed
  then show "unat cap = (if 1 < unat ?C \<and>
       (unat ?S * unat ?M + 1) div unat ?S div unat (TargetCommitteeSize b) < 2
     then unat ?S * unat ?M else unat ?C * unat ?S * unat ?M)"
    using usm ucsm unfolding cap by (auto simp: unat_less_u64)
qed

lemma epoch_committees_fit:
  "unat (SlotCommitteeCount cfg n) * unat (SlotsPerEpoch (raw cfg)) < 18446744073709551616"
proof -
  obtain cap where "MaxActiveValidators (raw cfg) = Inr cap"
    using raw_arith(11) [of cfg] by blast
  from MaxActiveValidators_Inr(1) [OF this] show ?thesis
    using mult_le_mono1 [OF SlotCommitteeCount_bounds(2) [of cfg n]] le_less_trans by blast
qed

text \<open>The arithmetic of the cap: up to the cap, \<open>k\<close> committees per slot have room for everybody.\<close>

lemma capacity_arith:
  fixes S T C M n :: nat
  assumes pos: "0 < S" "0 < T" "0 < C" and
    cap: "n \<le> (if 1 < C \<and> (S * M + 1) div S div T < 2 then S * M else C * S * M)"
  shows "n \<le> max 1 (min C (n div S div T)) * S * M"
proof -
  define q where "q = n div S div T"
  consider (one) "C \<le> 1" | (low) "1 < C" "(S * M + 1) div S div T < 2"
    | (full) "1 < C" "2 \<le> (S * M + 1) div S div T" "C \<le> q"
    | (part) "1 < C" "2 \<le> (S * M + 1) div S div T" "q < C"
    by linarith
  then show ?thesis
  proof cases
    case one
    then have "C = 1" using pos by simp
    then show ?thesis using cap by (simp add: max_def min_def)
  next
    case low
    have "1 * (S * M) \<le> max 1 (min C q) * (S * M)"
      by (rule mult_le_mono1) simp
    moreover have "n \<le> 1 * (S * M)" using low cap by simp
    ultimately show ?thesis unfolding q_def mult.assoc by (rule le_trans [rotated])
  next
    case full
    then show ?thesis using cap pos by (simp add: q_def max_def min_def)
  next
    case part
    have big: "2 * (S * T) \<le> S * M + 1"
      using part(2) pos by (simp add: div_mult2_eq [symmetric] less_eq_div_iff_mult_less_eq)
    have "q = n div (S * T)"
      by (simp add: q_def div_mult2_eq)
    then have n: "n < (q + 1) * (S * T)"
      using pos by (metis Suc_eq_plus1 dividend_less_times_div mult.commute mult_Suc nat_0_less_mult_iff)
    show ?thesis
    proof (cases "q = 0")
      case True
      have "1 \<le> S * T" using pos by simp
      then have "n \<le> S * M" using n big True by simp
      then show ?thesis using True by (simp add: q_def max_def min_def)
    next
      case False
      have "q * (2 * (S * T)) \<le> q * (S * M + 1)"
        using big by (rule mult_le_mono2)
      moreover have "(q - 1) * 1 \<le> (q - 1) * (S * T)"
        using pos by (intro mult_le_mono2) simp
      moreover have "(q + 1) * (S * T) + (q - 1) * (S * T) = q * (2 * (S * T))"
        using False by (cases q) (simp_all add: algebra_simps)
      moreover have "q * (S * M + 1) = q * (S * M) + q"
        by simp
      ultimately have "n \<le> q * (S * M)"
        using n False by linarith
      then show ?thesis
        using False part by (simp add: q_def max_def min_def mult.assoc)
    qed
  qed
qed

lemma split_width:
  fixes n K M i :: nat
  assumes "0 < K" "n \<le> K * M"
  shows "n * (i + 1) div K - n * i div K \<le> M"
proof -
  have "n * (i + 1) div K \<le> (n * i + K * M) div K"
    using assms(2) by (intro div_le_mono) (simp add: algebra_simps)
  also have "\<dots> = n * i div K + M"
    using assms(1) by simp
  finally show ?thesis by simp
qed

section \<open>The committees of an epoch\<close>

lemma unat_SplitOffset:
  assumes "unat n * unat i < 18446744073709551616"
  shows "unat (SplitOffset n k i) = unat n * unat i div unat k"
  using assms by (simp add: SplitOffset_def unat_div_u64 unat_mult_u64)

lemma computeCommittee_slice:
  assumes hash: "\<And>x. length (hash x) = 32" and len: "length indices \<le> unat maxShuffleListSize"
    and fit: "length indices * unat k < 18446744073709551616" and i: "i < unat k"
    and un: "UnshuffleList cfg hash indices seed = Inr sh"
  shows "computeCommittee cfg hash indices seed (of_nat i) k =
    Inr (take (length indices * (i + 1) div unat k - length indices * i div unat k)
           (drop (length indices * i div unat k) sh))"
proof -
  let ?n = "of_nat (length indices) :: u64"
  have n: "unat ?n = length indices"
    using len by (simp add: unat_of_nat_u64 maxShuffleListSize_def)
  have ui: "unat (of_nat i :: u64) = i" "unat (of_nat i + 1 :: u64) = i + 1"
    using i unat_lt_2_64 [of k] by (simp_all add: unat_of_nat_u64 unat_add_u64)
  have le: "length indices * (i + 1) \<le> length indices * unat k"
    using i by (intro mult_le_mono2) simp
  have off: "unat (SplitOffset ?n k (of_nat i)) = length indices * i div unat k"
    "unat (SplitOffset ?n k (of_nat i + 1)) = length indices * (i + 1) div unat k"
    using le fit by (simp_all add: unat_SplitOffset n ui)
  have mono: "length indices * i div unat k \<le> length indices * (i + 1) div unat k"
    by (intro div_le_mono) simp
  have top: "length indices * (i + 1) div unat k \<le> length indices"
    using div_le_mono [OF le, of "unat k"] i by simp
  have "length sh = length indices"
    using innerShuffleList_nth [where hash = hash and cfg = cfg and seed = seed and shuffle = False, OF hash len] un
    by (auto simp: UnshuffleList_def)
  then show ?thesis
    using i ui mono top off un n
    by (simp add: computeCommittee_def Let_def unat_le_u64 unat_less_u64 go_slice_def)
qed

text \<open>The shuffled list holds the same validators as the active set, each once.\<close>

lemma UnshuffleList_permutes:
  assumes hash: "\<And>x. length (hash x) = 32" and len: "length input \<le> unat maxShuffleListSize"
  shows "\<exists>out. UnshuffleList cfg hash input seed = Inr out \<and> length out = length input \<and> set out = set input
    \<and> (distinct input \<longrightarrow> distinct out)"
proof -
  let ?n = "of_nat (length input) :: u64"
  let ?p = "\<lambda>k. unat (fold (shuffle_round hash seed ?n) (dir_rounds cfg True) (of_nat k))"
  obtain out where out: "UnshuffleList cfg hash input seed = Inr out" "length out = length input"
    "\<forall>k < length input. out ! k = input ! ?p k"
    using innerShuffleList_nth [where hash = hash and cfg = cfg and seed = seed and shuffle = False, OF hash len]
    by (auto simp: UnshuffleList_def)
  have n: "unat ?n = length input"
    using len by (simp add: unat_of_nat_u64 maxShuffleListSize_def)
  have bij: "bij_betw ?p {..<length input} {..<length input}"
  proof (cases "length input = 0")
    case False
    then have size: "shuffle_size ?n"
      using n len by (simp add: shuffle_size_def unat_less_u64 unat_le_u64)
    have 1: "bij_betw (of_nat :: nat \<Rightarrow> u64) {..<length input} {i. i < ?n}"
      by (rule bij_betw_byWitness [where f' = unat])
         (use n len in \<open>auto simp: unat_less_u64 unat_of_nat_u64 maxShuffleListSize_def\<close>)
    have 2: "bij_betw unat {i. i < ?n} {..<length input}"
      by (rule bij_betw_byWitness [where f' = of_nat])
         (use n len in \<open>auto simp: unat_less_u64 unat_of_nat_u64 maxShuffleListSize_def\<close>)
    show ?thesis
      using bij_betw_trans [OF bij_betw_trans [OF 1 sr.fold_bij [OF size, of hash seed "dir_rounds cfg True"]] 2]
      by (simp only: o_def)
  qed (simp add: bij_betw_def)
  have "out ! k = input ! ?p k" if "k \<in> {..<length input}" for k
    using out(3) that by simp
  then have img: "(\<lambda>k. out ! k) ` {..<length input} = (\<lambda>k. input ! k) ` ?p ` {..<length input}"
    unfolding image_image by (rule image_cong [OF refl])
  then have "set out = set input"
    using out(2) bij_betw_imp_surj_on [OF bij] nth_image [of "length out" out] nth_image [of "length input" input]
    by (simp add: lessThan_atLeast0)
  moreover have "distinct out" if "distinct input"
  proof -
    have "k = l" if "k < length out" "l < length out" "out ! k = out ! l" for k l
    proof -
      have "?p k < length input" "?p l < length input"
        using bij_betw_apply [OF bij, of k] bij_betw_apply [OF bij, of l] that out(2) by simp_all
      moreover have "input ! ?p k = input ! ?p l"
        using that out(2,3) by simp
      ultimately have "?p k = ?p l"
        using \<open>distinct input\<close> nth_eq_iff_index_eq by blast
      then show ?thesis
        using bij_betw_imp_inj_on [OF bij] that out(2) by (auto dest: inj_onD)
    qed
    then show ?thesis
      unfolding distinct_conv_nth by blast
  qed
  ultimately show ?thesis
    using out by blast
qed

section \<open>The cache is transparent\<close>

lemma Bytes8_inj: "Bytes8 x = Bytes8 y \<longleftrightarrow> x = y"
proof
  assume "Bytes8 x = Bytes8 y"
  then have "get_le (put_le 8 (unat x)) = get_le (put_le 8 (unat y))"
    by (simp add: Bytes8_def)
  then show "x = y"
    using unat_lt_2_64 [of x] unat_lt_2_64 [of y] by (simp add: get_put_le unat_eq_u64)
qed simp

lemma length_Bytes8 [simp]: "length (Bytes8 x) = 8"
  by (simp add: Bytes8_def)

lemma concat_Bytes8_inj: "concat (map Bytes8 xs) = concat (map Bytes8 ys) \<Longrightarrow> xs = ys"
proof (induction xs arbitrary: ys)
  case Nil
  then show ?case by (cases ys) (auto dest: arg_cong [of _ _ length])
next
  case (Cons x xs)
  then obtain y ys' where ys: "ys = y # ys'"
    by (cases ys) (auto dest: arg_cong [of _ _ length])
  then have "Bytes8 x = Bytes8 y \<and> concat (map Bytes8 xs) = concat (map Bytes8 ys')"
    using Cons.prems append_eq_append_conv [of "Bytes8 x" "Bytes8 y"] by simp
  then show ?case
    using Cons.IH ys by (simp add: Bytes8_inj)
qed

lemma key_preimage_inj: "key_preimage cfg xs = key_preimage cfg ys \<Longrightarrow> xs = ys"
  unfolding key_preimage_def by (metis append_same_eq append_eq_append_conv concat_Bytes8_inj)

text \<open>
  A stored entry is the shuffle of its own seed and membership, under its own key. \<open>H\<close> is the set of
  byte strings the digest has been applied to.
\<close>

definition entry_ok :: "config \<Rightarrow> (bytes \<Rightarrow> bytes) \<Rightarrow> Committees_entry \<Rightarrow> bool" where
  "entry_ok cfg hash e \<longleftrightarrow>
     UnshuffleList cfg hash (SortedIndices e) (cm_Seed e) = Inr (ShuffledIndices e) \<and> length (cm_Seed e) = 32 \<and>
     length (ShuffledIndices e) = length (SortedIndices e) \<and>
     CommitteeCount e = SlotsPerEpoch (raw cfg) * SlotCommitteeCount cfg (of_nat (length (SortedIndices e)))"

definition cache_inv ::
  "config \<Rightarrow> (bytes \<Rightarrow> bytes) \<Rightarrow> (bytes \<Rightarrow> bytes) \<Rightarrow> bytes set \<Rightarrow> ('c \<Rightarrow> bytes \<rightharpoonup> Committees_entry) \<Rightarrow> 'c CommitteeCache \<Rightarrow> bool" where
  "cache_inv cfg hash sha H view c \<longleftrightarrow>
     (\<forall>k e. view (cc_lru c) k = Some e \<longrightarrow>
        k = committeeKeyFn cfg sha e \<and> entry_ok cfg hash e \<and> key_preimage cfg (SortedIndices e) \<in> H)"

definition collision_free :: "(bytes \<Rightarrow> bytes) \<Rightarrow> bytes set \<Rightarrow> bool" where
  "collision_free sha H \<longleftrightarrow> (\<forall>x \<in> H. \<forall>y \<in> H. sha x = sha y \<longrightarrow> x = y)"

lemma cache_inv_lookup:
  assumes inv: "cache_inv cfg hash sha H view c" and free: "collision_free sha H"
    and "length seed = 32" and "key_preimage cfg indices \<in> H"
    and e: "view (cc_lru c) (committeeKey (NewCommitteeKey cfg sha seed indices)) = Some e"
  shows "cm_Seed e = seed" "SortedIndices e = indices" "entry_ok cfg hash e"
proof -
  have k: "committeeKey (NewCommitteeKey cfg sha seed indices) = committeeKeyFn cfg sha e"
    and ok: "entry_ok cfg hash e" and H: "key_preimage cfg (SortedIndices e) \<in> H"
    using inv e by (auto simp: cache_inv_def)
  show "entry_ok cfg hash e" by (rule ok)
  have "length (cm_Seed e) = 32"
    using ok by (simp add: entry_ok_def)
  then have "seed = cm_Seed e \<and> sha (key_preimage cfg indices) = sha (key_preimage cfg (SortedIndices e))"
    using k assms(3) by (simp add: committeeKey_def committeeKeyFn_def NewCommitteeKey_def)
  then show "cm_Seed e = seed" "SortedIndices e = indices"
    using free H assms(4) key_preimage_inj unfolding collision_free_def by (blast, metis)
qed

text \<open>On a sound entry the cached slice is the computed committee; both fail together.\<close>

lemma Slot_Mul_committees:
  assumes "k \<le> MaxCommitteesPerSlot (raw cfg)"
  shows "Slot_Mul (SlotsPerEpoch (raw cfg)) k = Inr (SlotsPerEpoch (raw cfg) * k)"
proof -
  obtain cap where "MaxActiveValidators (raw cfg) = Inr cap"
    using raw_arith(11) [of cfg] by blast
  then have "unat (SlotsPerEpoch (raw cfg)) * unat (MaxCommitteesPerSlot (raw cfg)) < 18446744073709551616"
    using MaxActiveValidators_Inr(1) by (simp only: mult.commute)
  moreover have "unat (SlotsPerEpoch (raw cfg)) * unat k
      \<le> unat (SlotsPerEpoch (raw cfg)) * unat (MaxCommitteesPerSlot (raw cfg))"
    using assms unfolding unat_le_u64 by (rule mult_le_mono2)
  ultimately have "unat (SlotsPerEpoch (raw cfg)) * unat k < 18446744073709551616"
    by (rule le_less_trans [rotated])
  then show ?thesis
    by (simp add: prim_cases)
qed

lemma UnshuffleList_Inr_length: "UnshuffleList cfg hash input seed = Inr out \<Longrightarrow> length input \<le> unat maxShuffleListSize"
  by (auto simp: UnshuffleList_def innerShuffleList_def maxShuffleListSize_def not_less split: if_splits)

lemma cached_slice_eq:
  assumes ok: "entry_ok cfg hash e"
  shows "cached_slice cfg e slot i = Inr xs \<longleftrightarrow>
    committee_at cfg hash (SortedIndices e) (cm_Seed e) slot i = Inr xs"
proof -
  let ?n = "of_nat (length (SortedIndices e)) :: u64"
  let ?k = "SlotCommitteeCount cfg ?n"
  have cc: "CommitteeCount e = SlotsPerEpoch (raw cfg) * ?k" "length (ShuffledIndices e) = length (SortedIndices e)"
    and un: "UnshuffleList cfg hash (SortedIndices e) (cm_Seed e) = Inr (ShuffledIndices e)"
    using ok by (simp_all add: entry_ok_def)
  have "unat (SlotsPerEpoch (raw cfg) * ?k) = unat (SlotsPerEpoch (raw cfg)) * unat ?k"
    using epoch_committees_fit [of cfg ?n] by (intro unat_mult_u64) (simp add: mult.commute)
  then have "unat (CommitteeCount e div SlotsPerEpoch (raw cfg)) = unat ?k"
    by (simp add: cc unat_div_u64)
  then have k: "CommitteeCount e div SlotsPerEpoch (raw cfg) = ?k"
    by (simp add: unat_eq_u64)
  have k1: "(if ?k > 1 then ?k else 1) = ?k"
    using SlotCommitteeCount_bounds(1) [of cfg ?n] by (auto simp: unat_less_u64 unat_eq_u64)
  have n: "unat ?n = length (SortedIndices e)"
    using UnshuffleList_Inr_length [OF un] by (simp add: unat_of_nat_u64 maxShuffleListSize_def)
  have tail: "(if off \<ge> CommitteeCount e then Inl (Err m1)
        else let (start, end) = startEndIndices e off
             in if end > of_nat (length (ShuffledIndices e)) \<or> end < start then Inl (Err m2)
                else go_slice (ShuffledIndices e) (unat start) (unat end)) = Inr xs \<longleftrightarrow>
      computeCommittee cfg hash (SortedIndices e) (cm_Seed e) off (?k * SlotsPerEpoch (raw cfg)) = Inr xs"
    for off xs m1 m2
  proof -
    have "?k * SlotsPerEpoch (raw cfg) = CommitteeCount e"
      by (simp add: cc mult.commute)
    then show ?thesis
      using un n cc(2)
      by (simp add: computeCommittee_def startEndIndices_def Let_def go_slice_def unat_le_u64 unat_less_u64)
  qed
  show ?thesis
    unfolding cached_slice_def committee_at_def k k1 Let_def [of ?k] Let_def [of "?k * _"]
    by (auto simp: bindR_eq_Inr tail split: if_splits)
qed

lemma lru_lawD:
  assumes "lru_law ops view"
  shows "fst (lru_Get ops c k) = view c k" "view (snd (lru_Get ops c k)) = view c"
    "view (lru_Add ops c k v) l = Some e \<Longrightarrow> (l = k \<and> e = v) \<or> view c l = Some e"
proof -
  show "fst (lru_Get ops c k) = view c k" "view (snd (lru_Get ops c k)) = view c"
    using assms by (simp_all add: lru_law_def)
  assume e: "view (lru_Add ops c k v) l = Some e"
  have "view (lru_Add ops c k v) \<subseteq>\<^sub>m (view c)(k \<mapsto> v)"
    using assms by (simp add: lru_law_def)
  then have "((view c)(k \<mapsto> v)) l = Some e"
    using e by (metis domI map_le_def)
  then show "(l = k \<and> e = v) \<or> view c l = Some e"
    by (auto split: if_splits)
qed

lemma cache_inv_cong: "view (cc_lru c) = view (cc_lru d) \<Longrightarrow> cache_inv cfg hash sha H view c = cache_inv cfg hash sha H view d"
  by (simp add: cache_inv_def)

text \<open>Refreshing the cache keeps it sound, leaves the keys in progress alone and never panics.\<close>

lemma updateCommitteeCache_inv:
  assumes hash: "\<And>x. length (hash x) = 32" and law: "lru_law ops view"
    and inv: "cache_inv cfg hash sha H view c"
    and key: "length seed = 32" "key_preimage cfg indices \<in> H"
    and upd: "updateCommitteeCache cfg hash sha ops req c seed indices = (r, d)"
  shows "cache_inv cfg hash sha H view d \<and> inProgress d = inProgress c \<and> (\<forall>p. r \<noteq> Inl (Panic p))"
proof -
  obtain obj l where get: "lru_Get ops (cc_lru c) (committeeKey (NewCommitteeKey cfg sha seed indices)) = (obj, l)"
    by force
  have view: "view l = view (cc_lru c)"
    using lru_lawD(2) [OF law, of "cc_lru c"] get by (metis snd_conv)
  let ?c = "c\<lparr>cc_lru := l\<rparr>"
  have inv': "cache_inv cfg hash sha H view ?c"
    using inv view by (simp add: cache_inv_def)
  show ?thesis
  proof (cases "length indices \<le> unat maxShuffleListSize")
    case True
    obtain sh where sh: "UnshuffleList cfg hash indices seed = Inr sh" "length sh = length indices"
      using UnshuffleList_permutes [where hash = hash, OF hash True] by blast
    let ?k = "SlotCommitteeCount cfg (of_nat (length indices))"
    let ?e = "\<lparr>CommitteeCount = SlotsPerEpoch (raw cfg) * ?k, cm_Seed = seed, ShuffledIndices = sh, SortedIndices = indices\<rparr>"
    have mul: "Slot_Mul (SlotsPerEpoch (raw cfg)) ?k = Inr (SlotsPerEpoch (raw cfg) * ?k)"
      by (rule Slot_Mul_committees) (simp add: unat_le_u64 SlotCommitteeCount_bounds)
    have "entry_ok cfg hash ?e"
      using sh key by (simp add: entry_ok_def)
    then have "cache_inv cfg hash sha H view (?c\<lparr>cc_lru := lru_Add ops l (committeeKeyFn cfg sha ?e) ?e\<rparr>)"
      using inv' key(2) lru_lawD(3) [OF law] unfolding cache_inv_def by fastforce
    then show ?thesis
      using upd get sh mul inv'
      by (auto simp: updateCommitteeCache_def HasEntry_def AddCommitteeShuffledList_def Let_def
          split: if_splits option.splits)
  next
    case False
    then have "UnshuffleList cfg hash indices seed = Inl (Err ''list size out of bounds'')"
      by (simp add: UnshuffleList_def innerShuffleList_def maxShuffleListSize_def)
    then show ?thesis
      using upd get inv' by (auto simp: updateCommitteeCache_def HasEntry_def Let_def split: if_splits)
  qed
qed

lemma ActiveIndices_quiet:
  assumes "lru_law ops view" and "ctx_Err req = None" and "committeeKey k \<notin> inProgress c"
  shows "\<exists>d. ActiveIndices ops req c k = Inr (map_option SortedIndices (view (cc_lru c) (committeeKey k)), d)
     \<and> ActiveIndicesCount ops req c k =
         Inr (case view (cc_lru c) (committeeKey k) of None \<Rightarrow> 0 | Some e \<Rightarrow> length (SortedIndices e), d)
     \<and> view (cc_lru d) = view (cc_lru c) \<and> inProgress d = inProgress c"
  using lru_lawD(1,2) [OF assms(1), of "cc_lru c" "committeeKey k"] assms(2,3)
  by (auto simp: ActiveIndices_def ActiveIndicesCount_def checkInProgress_def Let_def case_prod_beta')

text \<open>With no request in progress: both cached readers of the active set.\<close>

lemma Seed_length: "(\<And>x. length (hash x) = 32) \<Longrightarrow> Seed cfg hash s e d = Inr seed \<Longrightarrow> length seed = 32"
  by (auto simp: Seed_def Let_def bindR_eq_Inr)

lemma active_cached_quiet:
  assumes hash: "\<And>x. length (hash x) = 32" and law: "lru_law ops view"
    and inv: "cache_inv cfg hash sha H view c" and free: "collision_free sha H"
    and H: "key_preimage cfg (active_set s epoch) \<in> H"
    and quiet: "ctx_Err req = None" "inProgress c = {}"
    and seed: "Seed cfg hash s epoch (DomainBeaconAttester (raw cfg)) = Inr seed"
  shows "active_set s epoch \<noteq> [] \<Longrightarrow> b_slot s \<noteq> 0 \<Longrightarrow> \<exists>d. ActiveValidatorIndices_cached cfg hash sha ops req c s epoch = Inr (active_set s epoch, d)
       \<and> cache_inv cfg hash sha H view d \<and> inProgress d = {}"
    and "\<exists>d. ActiveValidatorCount_cached cfg hash sha ops req c s epoch = Inr (of_nat (length (active_set s epoch)), d)
       \<and> cache_inv cfg hash sha H view d \<and> inProgress d = {}"
proof -
  let ?a = "active_set s epoch"
  let ?K = "NewCommitteeKey cfg sha seed ?a"
  have len: "length seed = 32"
    using Seed_length [where hash = hash, OF hash seed] .
  have eq: "activeValidatorIndices s epoch = Inr ?a"
    by (simp add: activeValidatorIndices_eq active_set_def)
  obtain d where d: "ActiveIndices ops req c ?K = Inr (map_option SortedIndices (view (cc_lru c) (committeeKey ?K)), d)"
    "ActiveIndicesCount ops req c ?K = Inr (case view (cc_lru c) (committeeKey ?K) of None \<Rightarrow> 0 | Some e \<Rightarrow> length (SortedIndices e), d)"
    "view (cc_lru d) = view (cc_lru c)" "inProgress d = {}"
    using ActiveIndices_quiet [OF law quiet(1), of ?K c] quiet(2) by auto
  have invd: "cache_inv cfg hash sha H view d"
    using inv d(3) by (simp add: cache_inv_def)
  let ?m = "d\<lparr>inProgress := {committeeKey ?K}\<rparr>"
  have mark: "MarkInProgress d ?K = Some ?m"
    using d(4) by (simp add: MarkInProgress_def)
  have invm: "cache_inv cfg hash sha H view ?m"
    using invd by (simp add: cache_inv_def)
  obtain r u where u: "updateCommitteeCache cfg hash sha ops req ?m seed ?a = (r, u)"
    by force
  note upd = updateCommitteeCache_inv [where hash = hash, OF hash law invm len H u]
  have fin: "cache_inv cfg hash sha H view (MarkNotInProgress u ?K) \<and> inProgress (MarkNotInProgress u ?K) = {}"
    using upd by (auto simp: MarkNotInProgress_def cache_inv_def)
  have hit: "SortedIndices e = ?a" if "view (cc_lru c) (committeeKey ?K) = Some e" for e
    using cache_inv_lookup(2) [OF inv free len H that] .
  show "\<exists>d. ActiveValidatorIndices_cached cfg hash sha ops req c s epoch = Inr (?a, d)
       \<and> cache_inv cfg hash sha H view d \<and> inProgress d = {}" if "?a \<noteq> []" "b_slot s \<noteq> 0"
    using that eq seed d invd mark u upd fin hit
    by (cases "view (cc_lru c) (committeeKey ?K)"; cases r)
       (auto simp: ActiveValidatorIndices_cached_def Let_def split: fail.splits)
  show "\<exists>d. ActiveValidatorCount_cached cfg hash sha ops req c s epoch = Inr (of_nat (length ?a), d)
       \<and> cache_inv cfg hash sha H view d \<and> inProgress d = {}"
    using eq seed d invd mark u upd fin hit
    by (cases "view (cc_lru c) (committeeKey ?K)"; cases r; cases "b_slot s = 0"; cases "?a = []")
       (auto simp: ActiveValidatorCount_cached_def Let_def split: fail.splits)
qed

section \<open>Properties\<close>

text \<open>C6: The committees of an epoch partition the active set: with 32-byte digests, at most \<open>2^40\<close>
  indices and an offset product that fits 64 bits, every one of the \<open>k\<close> committees is computed without
  error, and one after the other they are exactly the un-shuffled list, which holds the given
  validators, each once if they are distinct.\<close>

theorem committees_partition:
  assumes "\<And>x. length (hash x) = 32" and "length indices \<le> unat maxShuffleListSize"
    and "0 < k" and "length indices * unat k < 18446744073709551616"
  shows "\<exists>coms. mapR (\<lambda>i. computeCommittee cfg hash indices seed (of_nat i) k) [0..<unat k] = Inr coms
    \<and> UnshuffleList cfg hash indices seed = Inr (concat coms)
    \<and> set (concat coms) = set indices \<and> (distinct indices \<longrightarrow> distinct (concat coms))"
proof -
  obtain sh where sh: "UnshuffleList cfg hash indices seed = Inr sh" "length sh = length indices"
    "set sh = set indices" "distinct indices \<longrightarrow> distinct sh"
    using UnshuffleList_permutes [where hash = hash, OF assms(1,2)] by blast
  let ?f = "\<lambda>i. length indices * i div unat k"
  let ?com = "\<lambda>i. take (?f (Suc i) - ?f i) (drop (?f i) sh)"
  have "mapR (\<lambda>i. computeCommittee cfg hash indices seed (of_nat i) k) [0..<unat k] = Inr (map ?com [0..<unat k])"
    by (rule mapR_total) (use computeCommittee_slice [where hash = hash, OF assms(1,2,4) _ sh(1)] in simp)
  moreover have "concat (map ?com [0..<unat k]) = take (?f (unat k) - ?f 0) (drop (?f 0) sh)"
    by (rule concat_slices) (simp add: div_le_mono)
  moreover have "0 < unat k"
    using assms(3) by (simp add: unat_less_u64)
  ultimately show ?thesis
    using sh by (intro exI [of _ "map ?com [0..<unat k]"]) simp
qed

theorem committees_partition_witness:
  "\<exists>coms. mapR (\<lambda>i. computeCommittee tiny (\<lambda>_. replicate 32 9) [3, 5, 8] [] (of_nat i) 2) [0..<unat (2 :: u64)] = Inr coms
    \<and> UnshuffleList tiny (\<lambda>_. replicate 32 9) [3, 5, 8] [] = Inr (concat coms)
    \<and> set (concat coms) = set [3, 5, 8] \<and> (distinct [3, 5, 8 :: u64] \<longrightarrow> distinct (concat coms))"
  by (rule committees_partition) (simp_all add: maxShuffleListSize_def)

text \<open>C7: The active validator cap of the configuration protects the committee size: with at most
  \<open>MaxActiveValidators\<close> active validators, no committee of the epoch has more than
  \<open>MaxValidatorsPerCommittee\<close> members.\<close>

theorem committee_size_capped:
  assumes "\<And>x. length (hash x) = 32" and "MaxActiveValidators (raw cfg) = Inr cap"
    and "length indices \<le> unat cap" and "length indices \<le> unat maxShuffleListSize"
    and "k = SlotCommitteeCount cfg (of_nat (length indices)) * SlotsPerEpoch (raw cfg)"
    and "length indices * unat k < 18446744073709551616"
    and "computeCommittee cfg hash indices seed i k = Inr com"
  shows "length com \<le> unat (MaxValidatorsPerCommittee (raw cfg))"
proof -
  let ?n = "length indices" and ?M = "unat (MaxValidatorsPerCommittee (raw cfg))"
  let ?S = "unat (SlotsPerEpoch (raw cfg))" and ?T = "unat (TargetCommitteeSize (raw cfg))"
  let ?C = "unat (MaxCommitteesPerSlot (raw cfg))"
  have n: "unat (of_nat ?n :: u64) = ?n"
    using assms(4) by (simp add: unat_of_nat_u64 maxShuffleListSize_def)
  have k: "unat k = max 1 (min ?C (?n div ?S div ?T)) * ?S"
    using epoch_committees_fit [of cfg "of_nat ?n"] assms(5) by (simp add: unat_mult_u64 SlotCommitteeCount_unat n)
  have pos: "0 < ?S" "0 < ?T" "0 < ?C"
    by (simp_all add: unat_gt_0)
  have "?n \<le> unat k * ?M"
    using capacity_arith [OF pos, of ?n ?M] assms(3) MaxActiveValidators_Inr(3) [OF assms(2)] unfolding k by simp
  moreover have i: "unat i < unat k"
    using assms(7) by (auto simp: computeCommittee_def Let_def unat_le_u64 not_le split: if_splits)
  ultimately have "?n * (unat i + 1) div unat k - ?n * unat i div unat k \<le> ?M"
    by (intro split_width) auto
  moreover obtain sh where sh: "UnshuffleList cfg hash indices seed = Inr sh" "length sh = ?n"
    using UnshuffleList_permutes [where hash = hash, OF assms(1,4)] by blast
  moreover have "com = take (?n * (unat i + 1) div unat k - ?n * unat i div unat k) (drop (?n * unat i div unat k) sh)"
    using computeCommittee_slice [where hash = hash, OF assms(1,4,6) i sh(1)] assms(7) by simp
  ultimately show ?thesis
    by simp
qed

theorem committee_size_capped_witness:
  "\<exists>com. computeCommittee tiny (\<lambda>_. replicate 32 9) [3, 5, 8, 2, 1] [] 1 4 = Inr com
     \<and> length com \<le> unat (MaxValidatorsPerCommittee (raw tiny))"
proof -
  have "\<exists>cap. MaxActiveValidators (raw tiny) = Inr cap \<and> length [3, 5, 8, 2, 1 :: u64] \<le> unat cap"
    by (simp add: tinyBeaconConfig_def mainnetBeaconConfig_def MaxActiveValidators_def validateCommitteeSize_def
        bits_Mul64_def fieldparams_defs Let_def)
  then obtain cap where cap: "MaxActiveValidators (raw tiny) = Inr cap" "length [3, 5, 8, 2, 1 :: u64] \<le> unat cap"
    by blast
  have k: "(4 :: u64) = SlotCommitteeCount tiny (of_nat (length [3, 5, 8, 2, 1 :: u64])) * SlotsPerEpoch (raw tiny)"
    by (simp add: SlotCommitteeCount_def tinyBeaconConfig_def mainnetBeaconConfig_def)
  have h: "\<And>x. length ((\<lambda>_. replicate 32 9) (x :: bytes) :: bytes) = 32"
    by simp
  obtain sh where "UnshuffleList tiny (\<lambda>_. replicate 32 9) [3, 5, 8, 2, 1 :: u64] [] = Inr sh"
    using UnshuffleList_permutes [of "\<lambda>_. replicate 32 9" "[3, 5, 8, 2, 1 :: u64]" tiny "[]"] h
    by (auto simp: maxShuffleListSize_def)
  from computeCommittee_slice [OF h _ _ _ this, of 4 1]
  obtain com where com: "computeCommittee tiny (\<lambda>_. replicate 32 9) [3, 5, 8, 2, 1] [] 1 4 = Inr com"
    by (auto simp: maxShuffleListSize_def)
  from committee_size_capped [OF h cap _ k _ com] com show ?thesis
    by (simp add: maxShuffleListSize_def)
qed

text \<open>C8: The committee cache never changes an answer: with a sound cache, a digest without collisions
  among the keys in use and no concurrent request for the same key, \<open>BeaconCommittee\<close> gives a committee
  exactly when the computation without the cache does, and the same one; the cache stays sound.\<close>

theorem BeaconCommittee_transparent:
  assumes "lru_law ops view" and "cache_inv cfg hash sha H view c" and "collision_free sha H"
    and "length seed = 32" and "key_preimage cfg indices \<in> H"
    and "ctx_Err req = None" and "committeeKey (NewCommitteeKey cfg sha seed indices) \<notin> inProgress c"
  shows "(\<exists>d. BeaconCommittee cfg hash sha ops req c indices seed slot i = Inr (xs, d)
             \<and> cache_inv cfg hash sha H view d)
     \<longleftrightarrow> committee_at cfg hash indices seed slot i = Inr xs"
proof -
  let ?k = "committeeKey (NewCommitteeKey cfg sha seed indices)"
  obtain obj l where get: "lru_Get ops (cc_lru c) ?k = (obj, l)"
    by force
  then have obj: "obj = view (cc_lru c) ?k" and l: "view l = view (cc_lru c)"
    using lru_lawD(1,2) [OF assms(1), of "cc_lru c" ?k] by simp_all
  have inv: "cache_inv cfg hash sha H view (c\<lparr>cc_lru := l\<rparr>)"
    using assms(2) l by (simp add: cache_inv_def)
  show ?thesis
  proof (cases obj)
    case None
    then show ?thesis
      using get inv assms(6,7)
      by (auto simp: BeaconCommittee_def Committee_def checkInProgress_def Let_def bindR_eq_Inr)
  next
    case (Some e)
    then have e: "cm_Seed e = seed" "SortedIndices e = indices" "entry_ok cfg hash e"
      using cache_inv_lookup [OF assms(2,3,4,5)] obj by auto
    have eq: "cached_slice cfg e slot i = Inr xs \<longleftrightarrow> committee_at cfg hash indices seed slot i = Inr xs"
      using cached_slice_eq [OF e(3)] e(1,2) by simp
    show ?thesis
    proof (cases "cached_slice cfg e slot i")
      case (Inl err)
      then have "\<nexists>d. BeaconCommittee cfg hash sha ops req c indices seed slot i = Inr (xs, d)"
        using get Some assms(6,7) by (cases err) (simp_all add: BeaconCommittee_def Committee_def checkInProgress_def Let_def)
      then show ?thesis
        using Inl eq by simp
    next
      case (Inr ys)
      then have "BeaconCommittee cfg hash sha ops req c indices seed slot i = Inr (ys, c\<lparr>cc_lru := l\<rparr>)"
        using get Some assms(6,7) by (simp add: BeaconCommittee_def Committee_def checkInProgress_def Let_def)
      then show ?thesis
        using Inr eq inv by simp
    qed
  qed
qed

text \<open>A least-recently-used store of 32 entries as a list, the most recent first.\<close>

definition list_lru :: "((bytes \<times> 'v) list, 'v) lru" where
  "list_lru = \<lparr>lru_Get = (\<lambda>c k. (map_of c k,
       case map_of c k of None \<Rightarrow> c | Some v \<Rightarrow> (k, v) # filter (\<lambda>(l, _). l \<noteq> k) c)),
     lru_Add = (\<lambda>c k v. take 32 ((k, v) # filter (\<lambda>(l, _). l \<noteq> k) c))\<rparr>"

lemma map_of_filter_other: "map_of (filter (\<lambda>(l, _). l \<noteq> k) c) l = (if l = k then None else map_of c l)"
  by (induction c) auto

lemma map_of_take: "map_of (take n c) l = Some v \<Longrightarrow> map_of c l = Some v"
proof (induction c arbitrary: n)
  case (Cons a c)
  then show ?case by (cases n; cases a) (auto split: if_splits)
qed simp

lemma map_of_take_le: "map_of (take n c) \<subseteq>\<^sub>m map_of c"
  unfolding map_le_def by (metis domD map_of_take)

lemma list_lru_law: "lru_law list_lru map_of"
proof -
  have "map_of (take 32 ((k, v) # filter (\<lambda>(l, _). l \<noteq> k) c)) \<subseteq>\<^sub>m (map_of c)(k \<mapsto> v)" for c k and v :: 'a
  proof -
    have "map_of ((k, v) # filter (\<lambda>(l, _). l \<noteq> k) c) = (map_of c)(k \<mapsto> v)"
      by (rule ext) (simp add: map_of_filter_other)
    then show ?thesis
      using map_of_take_le by metis
  qed
  moreover have "map_of ((k, v) # filter (\<lambda>(l, _). l \<noteq> k) c) = map_of c" if "map_of c k = Some v" for c k and v :: 'a
    using that by (auto simp: map_of_filter_other fun_eq_iff)
  ultimately show ?thesis
    by (auto simp: lru_law_def list_lru_def split: option.splits)
qed

text \<open>An idle request, an empty cache and a state with two active validators.\<close>

definition idle_request :: "'c request" where
  "idle_request = \<lparr>ctx_Err = None, waiting = (\<lambda>c _. Inr c)\<rparr>"

definition empty_cache :: "(bytes \<times> Committees_entry) list CommitteeCache" where
  "empty_cache = \<lparr>cc_lru = [], inProgress = {}\<rparr>"

definition two_active :: BeaconState where
  "two_active = zero_state\<lparr>b_slot := 9,
     b_validators := [zero_validator\<lparr>ExitEpoch := 100\<rparr>, zero_validator\<lparr>ExitEpoch := 100\<rparr>],
     b_randaoMixes := replicate 4 (replicate 32 0)\<rparr>"

lemma empty_cache_inv: "cache_inv cfg hash sha H map_of empty_cache"
  by (simp add: cache_inv_def empty_cache_def)

theorem BeaconCommittee_transparent_witness:
  "\<forall>xs. (\<exists>d. BeaconCommittee tiny (\<lambda>_. replicate 32 3) (\<lambda>_. []) list_lru idle_request empty_cache [4, 6] (replicate 32 1) 5 0
          = Inr (xs, d) \<and> cache_inv tiny (\<lambda>_. replicate 32 3) (\<lambda>_. []) {key_preimage tiny [4, 6]} map_of d)
     \<longleftrightarrow> committee_at tiny (\<lambda>_. replicate 32 3) [4, 6] (replicate 32 1) 5 0 = Inr xs"
  by (intro allI, rule BeaconCommittee_transparent [OF list_lru_law empty_cache_inv])
     (simp_all add: collision_free_def idle_request_def empty_cache_def)

text \<open>C9: The cached readers of the active set agree with the registry: without concurrent requests,
  \<open>ActiveValidatorIndices\<close> and \<open>ActiveValidatorCount\<close> with a sound cache succeed exactly when their
  cache-free meanings do, with the same value, and leave the cache sound and nothing in progress.\<close>

theorem active_set_transparent:
  assumes "\<And>x. length (hash x) = 32" and "lru_law ops view"
    and "cache_inv cfg hash sha H view c" and "collision_free sha H"
    and "key_preimage cfg (active_set s epoch) \<in> H"
    and "ctx_Err req = None" and "inProgress c = {}"
  shows "((\<exists>d. ActiveValidatorIndices_cached cfg hash sha ops req c s epoch = Inr (xs, d)
            \<and> cache_inv cfg hash sha H view d \<and> inProgress d = {})
           \<longleftrightarrow> ActiveValidatorIndices cfg hash s epoch = Inr xs)
    \<and> ((\<exists>d. ActiveValidatorCount_cached cfg hash sha ops req c s epoch = Inr (n, d)
            \<and> cache_inv cfg hash sha H view d \<and> inProgress d = {})
           \<longleftrightarrow> ActiveValidatorCount cfg hash s epoch = Inr n)"
proof
  let ?seed = "Seed cfg hash s epoch (DomainBeaconAttester (raw cfg))"
  have eq: "activeValidatorIndices s epoch = Inr (active_set s epoch)"
    by (simp add: activeValidatorIndices_eq active_set_def)
  note quiet = active_cached_quiet [where hash = hash, OF assms]
  show "(\<exists>d. ActiveValidatorIndices_cached cfg hash sha ops req c s epoch = Inr (xs, d)
            \<and> cache_inv cfg hash sha H view d \<and> inProgress d = {})
           \<longleftrightarrow> ActiveValidatorIndices cfg hash s epoch = Inr xs"
  proof (cases "active_set s epoch = [] \<or> b_slot s = 0")
    case True
    then show ?thesis
      using assms(3,7) eq by (auto simp: ActiveValidatorIndices_cached_def ActiveValidatorIndices_def)
  next
    case act: False
    show ?thesis
    proof (cases ?seed)
      case (Inl err)
      then show ?thesis
        using act eq by (cases err) (auto simp: ActiveValidatorIndices_cached_def ActiveValidatorIndices_def)
    next
      case (Inr seed)
      then show ?thesis
        using act eq quiet(1) [OF Inr] by (auto simp: ActiveValidatorIndices_def)
    qed
  qed
  show "(\<exists>d. ActiveValidatorCount_cached cfg hash sha ops req c s epoch = Inr (n, d)
            \<and> cache_inv cfg hash sha H view d \<and> inProgress d = {})
           \<longleftrightarrow> ActiveValidatorCount cfg hash s epoch = Inr n"
  proof (cases ?seed)
    case (Inl err)
    then show ?thesis
      using eq by (cases err) (auto simp: ActiveValidatorCount_cached_def ActiveValidatorCount_def)
  next
    case (Inr seed)
    then show ?thesis
      using eq quiet(2) [OF Inr] by (auto simp: ActiveValidatorCount_def)
  qed
qed

theorem active_set_transparent_witness:
  "((\<exists>d. ActiveValidatorIndices_cached tiny (\<lambda>_. replicate 32 3) (\<lambda>_. []) list_lru idle_request empty_cache two_active 2
            = Inr ([0, 1], d)
            \<and> cache_inv tiny (\<lambda>_. replicate 32 3) (\<lambda>_. []) {key_preimage tiny (active_set two_active 2)} map_of d
            \<and> inProgress d = {})
           \<longleftrightarrow> ActiveValidatorIndices tiny (\<lambda>_. replicate 32 3) two_active 2 = Inr [0, 1])
    \<and> ((\<exists>d. ActiveValidatorCount_cached tiny (\<lambda>_. replicate 32 3) (\<lambda>_. []) list_lru idle_request empty_cache two_active 2
            = Inr (2, d)
            \<and> cache_inv tiny (\<lambda>_. replicate 32 3) (\<lambda>_. []) {key_preimage tiny (active_set two_active 2)} map_of d
            \<and> inProgress d = {})
           \<longleftrightarrow> ActiveValidatorCount tiny (\<lambda>_. replicate 32 3) two_active 2 = Inr 2)"
  by (rule active_set_transparent [OF _ list_lru_law empty_cache_inv])
     (simp_all add: collision_free_def idle_request_def empty_cache_def)

text \<open>C10: A gap in the sharing of work: when a request finds its key in progress twice and the other
  requests end without storing an entry (for instance because their contexts were cancelled),
  \<open>ActiveValidatorCount\<close> returns zero active validators and no error, whatever the registry holds;
  \<open>ActiveValidatorIndices\<close> returns an error in the same situation.\<close>

theorem ActiveValidatorCount_zero_on_failed_wait:
  assumes "lru_law ops view" and "Seed cfg hash s epoch (DomainBeaconAttester (raw cfg)) = Inr seed"
    and "k = committeeKey (NewCommitteeKey cfg sha seed (active_set s epoch))"
    and "ctx_Err req = None" and "k \<in> inProgress c"
    and "\<And>c. waiting req c k = Inr (other c)"
    and "k \<in> inProgress (other c)" and "\<And>c. view (cc_lru (other c)) k = None"
    and "active_set s epoch \<noteq> []" and "b_slot s \<noteq> 0"
  shows "(\<exists>d. ActiveValidatorCount_cached cfg hash sha ops req c s epoch = Inr (0, d))
    \<and> ActiveValidatorIndices_cached cfg hash sha ops req c s epoch = Inl (Err ''nil active indices'')"
proof -
  have eq: "activeValidatorIndices s epoch = Inr (active_set s epoch)"
    by (simp add: activeValidatorIndices_eq active_set_def)
  have "fst (lru_Get ops (cc_lru (other d)) k) = None" for d
    using lru_lawD(1) [OF assms(1)] assms(8) by simp
  then show ?thesis
    using assms(2,4,5,6,7,9,10) eq
    by (simp add: ActiveValidatorCount_cached_def ActiveValidatorIndices_cached_def ActiveIndicesCount_def
        ActiveIndices_def checkInProgress_def MarkInProgress_def assms(3) [symmetric] case_prod_beta')
qed

definition marked_cache :: "(bytes \<times> Committees_entry) list CommitteeCache" where
  "marked_cache = \<lparr>cc_lru = [], inProgress =
     {committeeKey (NewCommitteeKey tiny (\<lambda>_. []) (replicate 32 3) (active_set two_active 2))}\<rparr>"

theorem ActiveValidatorCount_zero_on_failed_wait_witness:
  "active_set two_active 2 = [0, 1] \<and>
   (\<exists>d. ActiveValidatorCount_cached tiny (\<lambda>_. replicate 32 3) (\<lambda>_. []) list_lru
          (idle_request\<lparr>waiting := \<lambda>_ _. Inr marked_cache\<rparr>) marked_cache two_active 2 = Inr (0, d))
    \<and> ActiveValidatorIndices_cached tiny (\<lambda>_. replicate 32 3) (\<lambda>_. []) list_lru
          (idle_request\<lparr>waiting := \<lambda>_ _. Inr marked_cache\<rparr>) marked_cache two_active 2 = Inl (Err ''nil active indices'')"
proof -
  have act: "active_set two_active 2 = [0, 1]"
    by (simp add: active_set_def two_active_def zero_validator_def IsActiveValidator_def checkValidatorActiveStatus_def)
  have seed: "Seed tiny (\<lambda>_. replicate 32 3) two_active 2 (DomainBeaconAttester (raw tiny)) = Inr (replicate 32 3)"
    by (simp add: Seed_def RandaoMix_def RandaoMixAtIndex_def two_active_def tinyBeaconConfig_def
        mainnetBeaconConfig_def)
  show ?thesis
    using act
      ActiveValidatorCount_zero_on_failed_wait [OF list_lru_law seed refl, where c = marked_cache
        and other = "\<lambda>_. marked_cache" and req = "idle_request\<lparr>waiting := \<lambda>_ _. Inr marked_cache\<rparr>" and sha = "\<lambda>_. []"]
    by (simp add: marked_cache_def idle_request_def two_active_def)
qed

end
