(* ===== verification/Validator_Lifecycle.thy ===== *)
theory Validator_Lifecycle
  imports Core_Helpers "HOL-Library.Product_Lexorder"
begin

text \<open>
  Entry to and exit from the registry: \<open>beacon-chain/core/validators/validator.go\<close> (exit queue,
  slashing) and \<open>ProcessRegistryUpdates\<close> of \<open>beacon-chain/core/epoch/epoch_processing.go\<close>.
  \<open>InitiateValidatorExit\<close> returns the state together with \<open>ValidatorAlreadyExitedErr\<close>; the flag of its
  result stands for that error. The lemmas: the exit queue respects the churn limit, an exit never
  makes anybody active, and activation respects the active validator cap.
\<close>

section \<open>The exit queue\<close>

definition max_exit_step :: "config \<Rightarrow> Validator \<Rightarrow> Epoch \<times> u64 \<Rightarrow> Epoch \<times> u64" where
  "max_exit_step cfg val acc =
     (case acc of (maxExitEpoch, churn) \<Rightarrow>
        let e = ExitEpoch val
        in if e \<noteq> FarFutureEpoch (raw cfg)
           then (if e > maxExitEpoch then (e, 1) else if e = maxExitEpoch then (maxExitEpoch, churn + 1)
                 else (maxExitEpoch, churn))
           else (maxExitEpoch, churn))"

definition ValidatorsMaxExitEpochAndChurn :: "config \<Rightarrow> BeaconState \<Rightarrow> Epoch \<times> u64" where
  "ValidatorsMaxExitEpochAndChurn cfg s = fold (max_exit_step cfg) (b_validators s) (0, 0)"

definition InitiateValidatorExit ::
  "config \<Rightarrow> (bytes \<Rightarrow> bytes) \<Rightarrow> BeaconState \<Rightarrow> ValidatorIndex \<Rightarrow> Epoch \<Rightarrow> u64 \<Rightarrow> (BeaconState \<times> Epoch \<times> bool) res" where
  "InitiateValidatorExit cfg hash s idx exitQueueEpoch churn =
     (let exitableEpoch = ActivationExitEpoch cfg (CurrentEpoch cfg s);
          (exitQueueEpoch, churn) = (if exitableEpoch > exitQueueEpoch then (exitableEpoch, 0) else (exitQueueEpoch, churn))
      in bindR (ValidatorAtIndex s idx) (\<lambda>validator.
         if ExitEpoch validator \<noteq> FarFutureEpoch (raw cfg) then Inr (s, ExitEpoch validator, True)
         else bindR (wrapR ''could not get active validator count''
                       (ActiveValidatorCount cfg hash s (CurrentEpoch cfg s))) (\<lambda>activeValidatorCount.
              let currentChurn = ValidatorExitChurnLimit cfg activeValidatorCount
              in bindR (if churn \<ge> currentChurn then Epoch_SafeAdd exitQueueEpoch 1 else Inr exitQueueEpoch) (\<lambda>exitQueueEpoch.
                 bindR (Epoch_SafeAddEpoch exitQueueEpoch (MinValidatorWithdrawabilityDelay (raw cfg))) (\<lambda>withdrawable.
                 bindR (UpdateValidatorAtIndex s idx
                          (validator\<lparr>ExitEpoch := exitQueueEpoch, WithdrawableEpoch := withdrawable\<rparr>)) (\<lambda>s.
                 Inr (s, exitQueueEpoch, False)))))))"

section \<open>Slashing\<close>

text \<open>\<open>proposer\<close> is \<open>helpers.BeaconProposerIndex\<close> on the state it is applied to.\<close>

definition SlashValidator ::
  "config \<Rightarrow> (bytes \<Rightarrow> bytes) \<Rightarrow> (BeaconState \<Rightarrow> ValidatorIndex res) \<Rightarrow> BeaconState \<Rightarrow> ValidatorIndex \<Rightarrow> u64 \<Rightarrow> u64 \<Rightarrow> BeaconState res" where
  "SlashValidator cfg hash proposer s slashedIdx penaltyQuotient proposerRewardQuotient =
     (let (maxExitEpoch, churn) = ValidatorsMaxExitEpochAndChurn cfg s
      in bindR (wrapR ''could not initiate validator exit'' (InitiateValidatorExit cfg hash s slashedIdx maxExitEpoch churn))
           (\<lambda>(s, _, _).
         let currentEpoch = ToEpoch cfg (b_slot s)
         in bindR (ValidatorAtIndex s slashedIdx) (\<lambda>validator.
            let validator = validator\<lparr>Slashed := True,
                  WithdrawableEpoch := MaxEpoch (WithdrawableEpoch validator)
                                         (currentEpoch + EpochsPerSlashingsVector (raw cfg))\<rparr>
            in bindR (UpdateValidatorAtIndex s slashedIdx validator) (\<lambda>s.
               let slashingIdx = currentEpoch mod EpochsPerSlashingsVector (raw cfg)
               in if unat slashingIdx \<ge> length (b_slashings s) then Inl (Err ''slashings index out of range'')
                  else bindR (UpdateSlashingsAtIndex s slashingIdx
                                (b_slashings s ! unat slashingIdx + EffectiveBalance validator)) (\<lambda>s.
                  if penaltyQuotient = 0 then Inl (Panic ''integer divide by zero'')
                  else bindR (DecreaseBalance s slashedIdx (EffectiveBalance validator div penaltyQuotient)) (\<lambda>s.
                  bindR (wrapR ''could not get proposer idx'' (proposer s)) (\<lambda>proposerIdx.
                  let whistleBlowerIdx = proposerIdx;
                      whistleblowerReward = EffectiveBalance validator div WhistleBlowerRewardQuotient (raw cfg)
                  in if proposerRewardQuotient = 0 then Inl (Panic ''integer divide by zero'')
                     else let proposerReward = whistleblowerReward div proposerRewardQuotient
                          in bindR (IncreaseBalance s proposerIdx proposerReward) (\<lambda>s.
                             IncreaseBalance s whistleBlowerIdx (whistleblowerReward - proposerReward)))))))))"

definition ActivatedValidatorIndices :: "Epoch \<Rightarrow> Validator list \<Rightarrow> ValidatorIndex list" where
  "ActivatedValidatorIndices epoch vals =
     map (of_nat \<circ> fst) (filter (\<lambda>(i, v). ActivationEpoch v = epoch) (enumerate 0 vals))"

definition NewlySlashedValidatorIndices :: "Validator list \<Rightarrow> Validator list \<Rightarrow> ValidatorIndex list" where
  "NewlySlashedValidatorIndices before after =
     map (of_nat \<circ> fst) (filter (\<lambda>(i, v). Slashed v \<and> \<not> (i < length before \<and> Slashed (before ! i))) (enumerate 0 after))"

definition ExitedValidatorIndices :: "config \<Rightarrow> Epoch \<Rightarrow> Validator list \<Rightarrow> ValidatorIndex list" where
  "ExitedValidatorIndices cfg epoch vals =
     map (of_nat \<circ> fst) (filter (\<lambda>(i, v). ExitEpoch v = epoch \<and> EffectiveBalance v > EjectionBalance (raw cfg)) (enumerate 0 vals))"

definition EjectedValidatorIndices :: "config \<Rightarrow> Epoch \<Rightarrow> Validator list \<Rightarrow> ValidatorIndex list" where
  "EjectedValidatorIndices cfg epoch vals =
     map (of_nat \<circ> fst) (filter (\<lambda>(i, v). ExitEpoch v = epoch \<and> EffectiveBalance v \<le> EjectionBalance (raw cfg)) (enumerate 0 vals))"

section \<open>Registry updates\<close>

definition activeValidatorCountAtEpoch :: "BeaconState \<Rightarrow> Epoch \<Rightarrow> u64 res" where
  "activeValidatorCountAtEpoch st epoch =
     ReadFromEveryValidator st (\<lambda>_ v cnt. Inr (if IsActiveValidator v epoch then cnt + 1 else cnt)) 0"

text \<open>
  The first loop walks a copy of the registry and writes to the state; the second component of its
  state collects the walked copy.
\<close>

definition registry_step ::
  "config \<Rightarrow> (bytes \<Rightarrow> bytes) \<Rightarrow> Epoch \<Rightarrow> Epoch \<Rightarrow> nat \<times> Validator \<Rightarrow> BeaconState \<times> Validator list
     \<Rightarrow> (BeaconState \<times> Validator list) res" where
  "registry_step cfg hash currentEpoch eligibilityEpoch iv acc =
     (case (iv, acc) of ((idx, v), (st, vals)) \<Rightarrow>
      bindR (if IsEligibleForActivationQueue cfg v
             then let v = normalizeRandaoCommitment (v\<lparr>ActivationEligibilityEpoch := eligibilityEpoch\<rparr>)
                  in bindR (UpdateValidatorAtIndex st (of_nat idx) v) (\<lambda>st. Inr (v, st))
             else Inr (v, st)) (\<lambda>(v, st).
      bindR (if IsActiveValidator v currentEpoch \<and> EffectiveBalance v \<le> EjectionBalance (raw cfg)
             then let (maxExitEpoch, churn) = ValidatorsMaxExitEpochAndChurn cfg st
                  in bindR (wrapR ''could not initiate exit for validator''
                              (InitiateValidatorExit cfg hash st (of_nat idx) maxExitEpoch churn)) (\<lambda>(st, _, _). Inr st)
             else Inr st) (\<lambda>st.
      Inr (st, vals @ [v]))))"

definition activation_queue :: "config \<Rightarrow> BeaconState \<Rightarrow> Validator list \<Rightarrow> ValidatorIndex list" where
  "activation_queue cfg st vals =
     sort_key (\<lambda>i. (ActivationEligibilityEpoch (vals ! unat i), i))
       (map (\<lambda>(i, v). of_nat i) (filter (\<lambda>(i, v). IsEligibleForActivation cfg st v) (enumerate 0 vals)))"

definition activate :: "Epoch \<Rightarrow> ValidatorIndex \<Rightarrow> BeaconState \<Rightarrow> BeaconState res" where
  "activate activationExitEpoch index st =
     bindR (ValidatorAtIndex st index) (\<lambda>validator.
     UpdateValidatorAtIndex st index (validator\<lparr>ActivationEpoch := activationExitEpoch\<rparr>))"

definition ProcessRegistryUpdates :: "config \<Rightarrow> (bytes \<Rightarrow> bytes) \<Rightarrow> BeaconState \<Rightarrow> BeaconState res" where
  "ProcessRegistryUpdates cfg hash state =
     (let currentEpoch = CurrentEpoch cfg state; activationEligibilityEpoch = CurrentEpoch cfg state + 1
      in bindR (foldR (registry_step cfg hash currentEpoch activationEligibilityEpoch)
                  (enumerate 0 (b_validators state)) (state, [])) (\<lambda>(state, vals).
         let activationQ = activation_queue cfg state vals; limit = of_nat (length activationQ) :: u64
         in bindR (wrapR ''could not get active validator count'' (ActiveValidatorCount cfg hash state currentEpoch))
              (\<lambda>activeValidatorCount.
            let churnLimit = ValidatorActivationChurnLimit cfg activeValidatorCount;
                limit = (if churnLimit < limit then churnLimit else limit);
                activationExitEpoch = ActivationExitEpoch cfg currentEpoch
            in bindR (wrapR ''could not determine active validator capacity'' (MaxActiveValidators (raw cfg)))
                 (\<lambda>maxActiveValidators.
               bindR (wrapR ''could not count active validators at activation epoch''
                        (activeValidatorCountAtEpoch state activationExitEpoch)) (\<lambda>futureActiveValidatorCount.
               let limit = (if futureActiveValidatorCount \<ge> maxActiveValidators then 0
                            else if maxActiveValidators - futureActiveValidatorCount < limit
                            then maxActiveValidators - futureActiveValidatorCount else limit)
               in foldR (activate activationExitEpoch) (take (unat limit) activationQ) state)))))"

section \<open>Counting validators\<close>

lemma length_filter_update:
  assumes "i < length xs"
  shows "length (filter P (xs[i := y])) + (if P (xs ! i) then 1 else 0) = length (filter P xs) + (if P y then 1 else 0)"
  using assms
proof (induction xs arbitrary: i)
  case (Cons x xs)
  then show ?case by (cases i) auto
qed simp

lemma length_filter_update_le:
  assumes "i < length xs"
  shows "(P y \<Longrightarrow> P (xs ! i)) \<Longrightarrow> length (filter P (xs[i := y])) \<le> length (filter P xs)"
    and "length (filter P (xs[i := y])) \<le> length (filter P xs) + 1"
    and "P y = P (xs ! i) \<Longrightarrow> length (filter P (xs[i := y])) = length (filter P xs)"
  using length_filter_update [OF assms, of P y] by (auto split: if_splits)

definition exiting :: "BeaconState \<Rightarrow> Epoch \<Rightarrow> nat" where
  "exiting s e = length (filter (\<lambda>v. ExitEpoch v = e) (b_validators s))"

definition active_at :: "BeaconState \<Rightarrow> Epoch \<Rightarrow> nat" where
  "active_at s e = length (filter (\<lambda>v. IsActiveValidator v e) (b_validators s))"

lemma normalize_fields [simp]:
  "ExitEpoch (normalizeRandaoCommitment v) = ExitEpoch v"
  "ActivationEpoch (normalizeRandaoCommitment v) = ActivationEpoch v"
  "EffectiveBalance (normalizeRandaoCommitment v) = EffectiveBalance v"
  "Slashed (normalizeRandaoCommitment v) = Slashed v"
  "WithdrawableEpoch (normalizeRandaoCommitment v) = WithdrawableEpoch v"
  "ActivationEligibilityEpoch (normalizeRandaoCommitment v) = ActivationEligibilityEpoch v"
  "IsActiveValidator (normalizeRandaoCommitment v) e = IsActiveValidator v e"
  by (simp_all add: normalizeRandaoCommitment_def IsActiveValidator_def)

lemma max_exit_fold:
  "fold (max_exit_step cfg) vs (0, 0) = (m, c) \<Longrightarrow>
     (\<forall>v \<in> set vs. ExitEpoch v \<noteq> FarFutureEpoch (raw cfg) \<longrightarrow> ExitEpoch v \<le> m) \<and>
     c = of_nat (length (filter (\<lambda>v. ExitEpoch v \<noteq> FarFutureEpoch (raw cfg) \<and> ExitEpoch v = m) vs))"
proof (induction vs arbitrary: m c rule: rev_induct)
  case Nil
  then show ?case by simp
next
  case (snoc v vs)
  obtain m' c' where mc: "fold (max_exit_step cfg) vs (0, 0) = (m', c')"
    by force
  note IH = snoc.IH [OF mc]
  have step: "max_exit_step cfg v (m', c') = (m, c)"
    using snoc.prems mc by simp
  show ?case
  proof (cases "ExitEpoch v \<noteq> FarFutureEpoch (raw cfg) \<and> m' < ExitEpoch v")
    case True
    then have "filter (\<lambda>w. ExitEpoch w \<noteq> FarFutureEpoch (raw cfg) \<and> ExitEpoch w = ExitEpoch v) vs = []"
      using IH by (auto simp: filter_empty_conv)
    then show ?thesis
      using True step IH by (auto simp: max_exit_step_def Let_def)
  next
    case False
    then show ?thesis
      using step IH by (auto simp: max_exit_step_def Let_def split: if_splits)
  qed
qed

lemma max_exit_churn:
  assumes "ValidatorsMaxExitEpochAndChurn cfg s = (m, c)"
  shows "\<forall>v \<in> set (b_validators s). ExitEpoch v \<noteq> FarFutureEpoch (raw cfg) \<longrightarrow> ExitEpoch v \<le> m"
    and "m \<noteq> FarFutureEpoch (raw cfg) \<Longrightarrow> c = of_nat (exiting s m)"
proof -
  note fold = max_exit_fold [OF assms [unfolded ValidatorsMaxExitEpochAndChurn_def]]
  show "\<forall>v \<in> set (b_validators s). ExitEpoch v \<noteq> FarFutureEpoch (raw cfg) \<longrightarrow> ExitEpoch v \<le> m"
    using fold by simp
  assume "m \<noteq> FarFutureEpoch (raw cfg)"
  then have "filter (\<lambda>v. ExitEpoch v \<noteq> FarFutureEpoch (raw cfg) \<and> ExitEpoch v = m) (b_validators s)
      = filter (\<lambda>v. ExitEpoch v = m) (b_validators s)"
    by (intro filter_cong) auto
  then show "c = of_nat (exiting s m)"
    using fold by (simp add: exiting_def)
qed

lemma exiting_later:
  assumes "ValidatorsMaxExitEpochAndChurn cfg s = (m, c)" and "m < e" and "e \<noteq> FarFutureEpoch (raw cfg)"
  shows "exiting s e = 0"
  using max_exit_churn(1) [OF assms(1)] assms(2,3) by (auto simp: exiting_def filter_empty_conv)

section \<open>What an exit does\<close>

lemma InitiateValidatorExit_already:
  "InitiateValidatorExit cfg hash s idx q0 ch = Inr (t, q, True) \<Longrightarrow>
     t = s \<and> unat idx < length (b_validators s) \<and> q = ExitEpoch (b_validators s ! unat idx)
     \<and> ExitEpoch (b_validators s ! unat idx) \<noteq> FarFutureEpoch (raw cfg)"
  by (auto simp: InitiateValidatorExit_def Let_def bindR_eq_Inr ValidatorAtIndex_def not_le split: if_splits prod.splits)

lemma InitiateValidatorExit_exits:
  assumes "InitiateValidatorExit cfg hash s idx q0 ch = Inr (t, q, False)"
  shows "\<exists>L w base ch'.
     ActiveValidatorCount cfg hash s (CurrentEpoch cfg s) = Inr L
     \<and> (base, ch') = (if ActivationExitEpoch cfg (CurrentEpoch cfg s) > q0
                      then (ActivationExitEpoch cfg (CurrentEpoch cfg s), 0) else (q0, ch))
     \<and> (if ValidatorExitChurnLimit cfg L \<le> ch' then Epoch_SafeAdd base 1 = Inr q else q = base)
     \<and> Epoch_SafeAddEpoch q (MinValidatorWithdrawabilityDelay (raw cfg)) = Inr w
     \<and> unat idx < length (b_validators s) \<and> ExitEpoch (b_validators s ! unat idx) = FarFutureEpoch (raw cfg)
     \<and> t = s\<lparr>b_validators := (b_validators s)[unat idx := normalizeRandaoCommitment
            ((b_validators s ! unat idx)\<lparr>ExitEpoch := q, WithdrawableEpoch := w\<rparr>)]\<rparr>"
proof -
  let ?e = "ActivationExitEpoch cfg (CurrentEpoch cfg s)"
  obtain base ch' where b: "(base, ch') = (if ?e > q0 then (?e, 0) else (q0, ch))"
    by (metis surj_pair)
  show ?thesis
    using assms unfolding InitiateValidatorExit_def b [symmetric]
    by (auto simp: Let_def bindR_eq_Inr ValidatorAtIndex_def UpdateValidatorAtIndex_def not_le b [symmetric]
        split: if_splits)
qed

lemma le_max_u64: "(x :: u64) \<le> max_u64"
  using unat_lt_2_64 [of x] by (simp add: unat_le_u64)

lemma max_exit_far:
  assumes "FarFutureEpoch (raw cfg) = max_u64" and "ValidatorsMaxExitEpochAndChurn cfg s = (m, c)"
  shows "m \<noteq> FarFutureEpoch (raw cfg)"
proof -
  have "fold (max_exit_step cfg) vs (0, 0) = (m, c) \<Longrightarrow> m \<noteq> FarFutureEpoch (raw cfg)" for vs m c
  proof (induction vs arbitrary: m c rule: rev_induct)
    case Nil
    then show ?case using assms(1) by simp
  next
    case (snoc v vs)
    obtain m' c' where mc: "fold (max_exit_step cfg) vs (0, 0) = (m', c')"
      by force
    then have "m' \<noteq> FarFutureEpoch (raw cfg)"
      by (rule snoc.IH)
    moreover have "max_exit_step cfg v (m', c') = (m, c)"
      using snoc.prems mc by simp
    ultimately show ?case
      by (auto simp: max_exit_step_def Let_def split: if_splits)
  qed
  then show ?thesis
    using assms(2) by (auto simp: ValidatorsMaxExitEpochAndChurn_def)
qed

text \<open>An exit never makes anybody active at any epoch.\<close>

lemma InitiateValidatorExit_active:
  assumes "FarFutureEpoch (raw cfg) = max_u64" and "InitiateValidatorExit cfg hash s idx q0 ch = Inr (t, q, f)"
  shows "length (b_validators t) = length (b_validators s)" and "active_at t e \<le> active_at s e"
    and "\<forall>j. j \<noteq> unat idx \<longrightarrow> b_validators t ! j = b_validators s ! j" and "b_slot t = b_slot s"
    and "b_finalizedCheckpoint t = b_finalizedCheckpoint s"
proof -
  have *: "length (b_validators t) = length (b_validators s) \<and> active_at t e \<le> active_at s e
      \<and> (\<forall>j. j \<noteq> unat idx \<longrightarrow> b_validators t ! j = b_validators s ! j) \<and> b_slot t = b_slot s
      \<and> b_finalizedCheckpoint t = b_finalizedCheckpoint s"
  proof (cases f)
    case True
    then show ?thesis
      using InitiateValidatorExit_already assms(2) by fastforce
  next
    case False
    then obtain w where idx: "unat idx < length (b_validators s)"
      and far: "ExitEpoch (b_validators s ! unat idx) = FarFutureEpoch (raw cfg)"
      and t: "t = s\<lparr>b_validators := (b_validators s)[unat idx := normalizeRandaoCommitment
            ((b_validators s ! unat idx)\<lparr>ExitEpoch := q, WithdrawableEpoch := w\<rparr>)]\<rparr>"
      using InitiateValidatorExit_exits [of cfg hash s idx q0 ch t q] assms(2) by auto
    have mono: "IsActiveValidator (normalizeRandaoCommitment
          ((b_validators s ! unat idx)\<lparr>ExitEpoch := q, WithdrawableEpoch := w\<rparr>)) e \<Longrightarrow>
        IsActiveValidator (b_validators s ! unat idx) e"
      using far assms(1) less_le_trans [OF _ le_max_u64 [of q], of e]
      by (auto simp: IsActiveValidator_def checkValidatorActiveStatus_def)
    have "length (filter (\<lambda>v. IsActiveValidator v e) ((b_validators s)[unat idx := normalizeRandaoCommitment
          ((b_validators s ! unat idx)\<lparr>ExitEpoch := q, WithdrawableEpoch := w\<rparr>)]))
        \<le> length (filter (\<lambda>v. IsActiveValidator v e) (b_validators s))"
      by (rule length_filter_update_le(1) [OF idx], rule mono)
    then have "active_at t e \<le> active_at s e"
      by (simp add: active_at_def t)
    then show ?thesis
      by (auto simp: t)
  qed
  show "length (b_validators t) = length (b_validators s)" "active_at t e \<le> active_at s e"
    "\<forall>j. j \<noteq> unat idx \<longrightarrow> b_validators t ! j = b_validators s ! j" "b_slot t = b_slot s"
    "b_finalizedCheckpoint t = b_finalizedCheckpoint s"
    using * by auto
qed

section \<open>What the registry update does\<close>

lemma registry_step_keeps:
  assumes far: "FarFutureEpoch (raw cfg) = max_u64" and n: "length (b_validators st) < 18446744073709551616"
    and k: "k < length (b_validators st)" and v: "b_validators st ! k = v"
    and run: "registry_step cfg hash cur el (k, v) (st, acc) = Inr (st', acc')"
  shows "length (b_validators st') = length (b_validators st) \<and> active_at st' e \<le> active_at st e
    \<and> (\<forall>j. j \<noteq> k \<longrightarrow> b_validators st' ! j = b_validators st ! j) \<and> b_slot st' = b_slot st
    \<and> b_finalizedCheckpoint st' = b_finalizedCheckpoint st"
proof -
  have uk: "unat (of_nat k :: u64) = k"
    using k n by (simp add: unat_of_nat_u64)
  let ?v = "if IsEligibleForActivationQueue cfg v then normalizeRandaoCommitment (v\<lparr>ActivationEligibilityEpoch := el\<rparr>) else v"
  let ?st = "if IsEligibleForActivationQueue cfg v
    then st\<lparr>b_validators := (b_validators st)[k := normalizeRandaoCommitment (normalizeRandaoCommitment (v\<lparr>ActivationEligibilityEpoch := el\<rparr>))]\<rparr>
    else st"
  have same: "active_at ?st e = active_at st e"
    using v by (simp add: active_at_def length_filter_update_le(3) [OF k] IsActiveValidator_def)
  have run': "bindR (if IsActiveValidator ?v cur \<and> EffectiveBalance ?v \<le> EjectionBalance (raw cfg)
             then let (maxExitEpoch, churn) = ValidatorsMaxExitEpochAndChurn cfg ?st
                  in bindR (wrapR ''could not initiate exit for validator''
                              (InitiateValidatorExit cfg hash ?st (of_nat k) maxExitEpoch churn)) (\<lambda>(st, _, _). Inr st)
             else Inr ?st) (\<lambda>st. Inr (st, acc @ [?v])) = Inr (st', acc')"
    using run k uk
    by (cases "IsEligibleForActivationQueue cfg v")
       (simp_all add: registry_step_def UpdateValidatorAtIndex_def Let_def cong: if_cong split del: if_split)
  then consider "st' = ?st" | m c q f where "InitiateValidatorExit cfg hash ?st (of_nat k) m c = Inr (st', q, f)"
    by (auto simp: bindR_eq_Inr Let_def split: if_splits prod.splits)
  then show ?thesis
  proof cases
    case 1
    then show ?thesis using same by auto
  next
    case 2
    show ?thesis
      using InitiateValidatorExit_active(1,3,4,5) [OF far 2] InitiateValidatorExit_active(2) [OF far 2, of e] same uk
      by (auto split: if_splits)
  qed
qed

lemma registry_loop_keeps:
  assumes far: "FarFutureEpoch (raw cfg) = max_u64" and "length (b_validators st) < 18446744073709551616"
    and "length (b_validators st) = k + length vs" and "\<forall>j < length vs. b_validators st ! (k + j) = vs ! j"
    and "foldR (registry_step cfg hash cur el) (enumerate k vs) (st, acc) = Inr (st', acc')"
  shows "length (b_validators st') = length (b_validators st) \<and> active_at st' e \<le> active_at st e
    \<and> b_slot st' = b_slot st \<and> b_finalizedCheckpoint st' = b_finalizedCheckpoint st"
  using assms(2-)
proof (induction vs arbitrary: k st acc)
  case Nil
  then show ?case by simp
next
  case (Cons v vs)
  obtain st1 acc1 where 1: "registry_step cfg hash cur el (k, v) (st, acc) = Inr (st1, acc1)"
    and 2: "foldR (registry_step cfg hash cur el) (enumerate (Suc k) vs) (st1, acc1) = Inr (st', acc')"
    using Cons.prems(4) by (auto simp: bindR_eq_Inr)
  have "b_validators st ! k = v"
    using Cons.prems(3) by force
  then have k1: "length (b_validators st1) = length (b_validators st) \<and> active_at st1 e \<le> active_at st e
    \<and> (\<forall>j. j \<noteq> k \<longrightarrow> b_validators st1 ! j = b_validators st ! j) \<and> b_slot st1 = b_slot st
    \<and> b_finalizedCheckpoint st1 = b_finalizedCheckpoint st"
    using Cons.prems(1,2) by (intro registry_step_keeps [OF far _ _ _ 1]) auto
  have "\<forall>j < length vs. b_validators st1 ! (Suc k + j) = vs ! j"
    using k1 Cons.prems(3) by (metis Suc_less_eq add_Suc_right add_Suc_shift length_Cons less_add_Suc1 less_irrefl_nat nth_Cons_Suc)
  then have "length (b_validators st') = length (b_validators st1) \<and> active_at st' e \<le> active_at st1 e
    \<and> b_slot st' = b_slot st1 \<and> b_finalizedCheckpoint st' = b_finalizedCheckpoint st1"
    using Cons.prems(1,2) k1 by (intro Cons.IH [OF _ _ _ 2]) auto
  then show ?case
    using k1 by auto
qed

lemma foldR_activate:
  "foldR (activate e) is st = Inr st' \<Longrightarrow>
     length (b_validators st') = length (b_validators st) \<and> active_at st' e' \<le> active_at st e' + length is"
proof (induction "is" arbitrary: st)
  case (Cons i "is")
  then obtain st1 where 1: "activate e i st = Inr st1" and 2: "foldR (activate e) is st1 = Inr st'"
    by (auto simp: bindR_eq_Inr)
  have i: "unat i < length (b_validators st)" and st1: "st1 = st\<lparr>b_validators := (b_validators st)[unat i :=
      normalizeRandaoCommitment ((b_validators st ! unat i)\<lparr>ActivationEpoch := e\<rparr>)]\<rparr>"
    using 1 by (auto simp: activate_def ValidatorAtIndex_def UpdateValidatorAtIndex_def bindR_eq_Inr Let_def split: if_splits)
  have "active_at st1 e' \<le> active_at st e' + 1"
    using length_filter_update_le(2) [OF i, of "\<lambda>v. IsActiveValidator v e'"] by (simp add: active_at_def st1)
  then show ?case
    using Cons.IH [OF 2] by (auto simp: st1)
qed simp

lemma foldR_count:
  "foldR (\<lambda>(i, v) cnt. Inr (if P v then cnt + 1 else cnt)) (enumerate k vs) (c :: u64) =
     Inr (c + of_nat (length (filter P vs)))"
  by (induction vs arbitrary: k c) (simp_all add: ac_simps)

lemma activeValidatorCountAtEpoch_eq: "activeValidatorCountAtEpoch st e = Inr (of_nat (active_at st e))"
  using foldR_count [of "\<lambda>v. IsActiveValidator v e" 0 "b_validators st" 0]
  by (simp add: activeValidatorCountAtEpoch_def ReadFromEveryValidator_def active_at_def)

text \<open>Counts of a registry of machine size fit a machine integer.\<close>

lemma counts_fit:
  assumes "NumValidators s < 18446744073709551616"
  shows "unat (of_nat (exiting s e) :: u64) = exiting s e" "unat (of_nat (active_at s e) :: u64) = active_at s e"
proof -
  have "length (filter P (b_validators s)) < 18446744073709551616" for P
    by (rule le_less_trans [OF length_filter_le assms [unfolded NumValidators_def]])
  then show "unat (of_nat (exiting s e) :: u64) = exiting s e" "unat (of_nat (active_at s e) :: u64) = active_at s e"
    unfolding exiting_def active_at_def by (rule unat_of_nat_u64)+
qed

text \<open>The effect of the balance changes and of a slashing, written out.\<close>

lemma IncreaseBalance_Inr:
  "IncreaseBalance s i d = Inr t \<longleftrightarrow> unat i < length (b_balances s)
     \<and> unat (b_balances s ! unat i) + unat d < 18446744073709551616
     \<and> t = s\<lparr>b_balances := (b_balances s)[unat i := b_balances s ! unat i + d]\<rparr>"
  by (auto simp: IncreaseBalance_def IncreaseBalanceWithVal_def Add64_cases BalanceAtIndex_def UpdateBalancesAtIndex_def
      bindR_eq_Inr not_le split: if_splits)

lemma DecreaseBalance_Inr:
  "DecreaseBalance s i d = Inr t \<longleftrightarrow> unat i < length (b_balances s)
     \<and> t = s\<lparr>b_balances := (b_balances s)[unat i := DecreaseBalanceWithVal (b_balances s ! unat i) d]\<rparr>"
  by (auto simp: DecreaseBalance_def BalanceAtIndex_def UpdateBalancesAtIndex_def bindR_eq_Inr not_le split: if_splits)

lemma DecreaseBalanceWithVal_unat: "unat (DecreaseBalanceWithVal b d) = unat b - unat d"
  by (auto simp: DecreaseBalanceWithVal_def unat_less_u64 unat_sub_u64 unat_le_u64 not_less)

lemma InitiateValidatorExit_frame:
  assumes "InitiateValidatorExit cfg hash s idx m c = Inr (t, q, f)"
  shows "\<exists>v. t = s\<lparr>b_validators := (b_validators s)[unat idx := v]\<rparr> \<and> unat idx < length (b_validators s)
     \<and> ExitEpoch v = q \<and> EffectiveBalance v = EffectiveBalance (b_validators s ! unat idx)"
proof (cases f)
  case True
  then show ?thesis
    using InitiateValidatorExit_already [of cfg hash s idx m c t q] assms
    by (intro exI [of _ "b_validators s ! unat idx"]) auto
next
  case False
  then obtain w where "unat idx < length (b_validators s)" "t = s\<lparr>b_validators := (b_validators s)[unat idx :=
      normalizeRandaoCommitment ((b_validators s ! unat idx)\<lparr>ExitEpoch := q, WithdrawableEpoch := w\<rparr>)]\<rparr>"
    using InitiateValidatorExit_exits [of cfg hash s idx m c t q] assms by auto
  then show ?thesis
    by (intro exI) (rule conjI, assumption, simp)
qed

section \<open>Properties\<close>

text \<open>A small state for the witnesses: two active validators and one that waits for activation.\<close>

definition small_registry :: BeaconState where
  "small_registry = zero_state\<lparr>b_slot := 9,
     b_validators := [zero_validator\<lparr>ExitEpoch := max_u64, EffectiveBalance := 40000000000000\<rparr>,
                      zero_validator\<lparr>ExitEpoch := max_u64, EffectiveBalance := 40000000000000\<rparr>,
                      zero_validator\<lparr>ActivationEpoch := max_u64, ExitEpoch := max_u64, EffectiveBalance := 40000000000000\<rparr>],
     b_balances := [40000000000000, 40000000000000, 40000000000000],
     b_slashings := [0, 0, 7, 0],
     b_randaoMixes := replicate 4 (replicate 32 0)\<rparr>"

lemmas small_defs = small_registry_def zero_validator_def tinyBeaconConfig_def mainnetBeaconConfig_def

lemma small_epoch: "CurrentEpoch tiny small_registry = 2"
  by (simp add: CurrentEpoch_def ToEpoch_def small_defs)

lemma small_count: "ActiveValidatorCount tiny (\<lambda>_. replicate 32 3) small_registry 2 = Inr 2"
  by (simp add: ActiveValidatorCount_def activeValidatorIndices_eq Seed_def RandaoMix_def RandaoMixAtIndex_def small_defs
      IsActiveValidator_def checkValidatorActiveStatus_def)

lemma small_exit_epoch: "ActivationExitEpoch tiny 2 = 7"
  by (simp add: ActivationExitEpoch_def small_defs)

lemma small_churn: "ValidatorExitChurnLimit tiny 2 = 2" "ValidatorActivationChurnLimit tiny 2 = 2"
  by (simp_all add: ValidatorExitChurnLimit_def ValidatorActivationChurnLimit_def calculateChurnLimit_def small_defs)

lemma small_max_exit: "ValidatorsMaxExitEpochAndChurn tiny small_registry = (0, 0)"
  by (simp add: ValidatorsMaxExitEpochAndChurn_def max_exit_step_def small_defs)

lemma small_validator:
  "ValidatorAtIndex small_registry 0 = Inr (zero_validator\<lparr>ExitEpoch := max_u64, EffectiveBalance := 40000000000000\<rparr>)"
  "FarFutureEpoch (raw tiny) = max_u64"
  by (simp_all add: ValidatorAtIndex_def small_defs)

lemma small_exit:
  "InitiateValidatorExit tiny (\<lambda>_. replicate 32 3) small_registry 0 0 0 =
     Inr (small_registry\<lparr>b_validators := (b_validators small_registry)[0 := normalizeRandaoCommitment
            ((b_validators small_registry ! 0)\<lparr>ExitEpoch := 7, WithdrawableEpoch := 23\<rparr>)]\<rparr>, 7, False)"
  by (simp add: InitiateValidatorExit_def small_epoch small_exit_epoch small_count small_churn small_validator)
     (simp add: small_defs ValidatorAtIndex_def UpdateValidatorAtIndex_def prim_cases Let_def)

text \<open>C12: The exit queue respects the churn limit: if no exit epoch is used by more validators than the
  churn limit allows, then after initiating one more exit (with the queue position computed by
  \<open>ValidatorsMaxExitEpochAndChurn\<close>) that is still so; the new exit epoch is not before the activation
  and exit delay, and the withdrawable epoch follows it by the full withdrawability delay.\<close>

theorem exit_queue_respects_churn:
  assumes "FarFutureEpoch (raw cfg) = max_u64" and "NumValidators s < 18446744073709551616"
    and "ValidatorsMaxExitEpochAndChurn cfg s = (m, c)"
    and "ActiveValidatorCount cfg hash s (CurrentEpoch cfg s) = Inr n"
    and "0 < ValidatorExitChurnLimit cfg n"
    and "\<forall>e. e \<noteq> FarFutureEpoch (raw cfg) \<longrightarrow> exiting s e \<le> unat (ValidatorExitChurnLimit cfg n)"
    and "InitiateValidatorExit cfg hash s idx m c = Inr (t, q, False)"
  shows "(\<forall>e. e \<noteq> FarFutureEpoch (raw cfg) \<longrightarrow> exiting t e \<le> unat (ValidatorExitChurnLimit cfg n))
    \<and> ActivationExitEpoch cfg (CurrentEpoch cfg s) \<le> q \<and> ExitEpoch (b_validators t ! unat idx) = q
    \<and> unat (WithdrawableEpoch (b_validators t ! unat idx)) = unat q + unat (MinValidatorWithdrawabilityDelay (raw cfg))"
proof -
  let ?L = "ValidatorExitChurnLimit cfg n" and ?x = "ActivationExitEpoch cfg (CurrentEpoch cfg s)"
  obtain w base ch' where base: "(base, ch') = (if ?x > m then (?x, 0) else (m, c))"
    and q: "if ?L \<le> ch' then Epoch_SafeAdd base 1 = Inr q else q = base"
    and w: "Epoch_SafeAddEpoch q (MinValidatorWithdrawabilityDelay (raw cfg)) = Inr w"
    and idx: "unat idx < length (b_validators s)"
    and far: "ExitEpoch (b_validators s ! unat idx) = FarFutureEpoch (raw cfg)"
    and t: "t = s\<lparr>b_validators := (b_validators s)[unat idx := normalizeRandaoCommitment
            ((b_validators s ! unat idx)\<lparr>ExitEpoch := q, WithdrawableEpoch := w\<rparr>)]\<rparr>"
    using InitiateValidatorExit_exits [OF assms(7)] assms(4) by auto
  have c: "unat c = exiting s m"
    using max_exit_churn(2) [OF assms(3) max_exit_far [OF assms(1,3)]] counts_fit(1) [OF assms(2)] by simp
  have later: "m < base \<or> base = m \<and> ch' = c" "?x \<le> base"
    using base by (auto split: if_splits)
  have q': "q = base \<and> unat ch' < unat ?L \<or> base < q"
    using q by (auto simp: prim_cases unat_less_u64 not_le unat_le_u64 unat_add_u64 split: if_splits)
  have "exiting s q < unat ?L" if "q \<noteq> FarFutureEpoch (raw cfg)"
    using later(1) q' c exiting_later [OF assms(3) _ that] assms(5)
    by (auto simp: unat_less_u64)
  moreover have "exiting t e = exiting s e + (if q = e then 1 else 0)" if "e \<noteq> FarFutureEpoch (raw cfg)" for e
    using length_filter_update [OF idx, of "\<lambda>v. ExitEpoch v = e" "normalizeRandaoCommitment
            ((b_validators s ! unat idx)\<lparr>ExitEpoch := q, WithdrawableEpoch := w\<rparr>)"] far that
    by (auto simp: exiting_def t)
  ultimately have "\<forall>e. e \<noteq> FarFutureEpoch (raw cfg) \<longrightarrow> exiting t e \<le> unat ?L"
    using assms(6) by (auto simp: Suc_le_eq)
  moreover have "?x \<le> q"
    using later(2) q' by auto
  ultimately show ?thesis
    using idx w by (auto simp: t prim_cases unat_add_u64 split: if_splits)
qed

theorem exit_queue_respects_churn_witness:
  "\<exists>t q. InitiateValidatorExit tiny (\<lambda>_. replicate 32 3) small_registry 0 0 0 = Inr (t, q, False)
     \<and> ActivationExitEpoch tiny 2 \<le> q \<and> ExitEpoch (b_validators t ! 0) = q"
proof -
  have e: "exiting small_registry e = 0" if "e \<noteq> max_u64" for e
    using that by (simp add: exiting_def small_defs)
  have far: "FarFutureEpoch (raw tiny) = max_u64" "NumValidators small_registry < 18446744073709551616"
    by (simp_all add: small_defs NumValidators_def)
  show ?thesis
    using exit_queue_respects_churn [OF far small_max_exit _ _ _ small_exit, of 2]
    by (simp add: small_epoch small_count small_churn small_exit e far(1) [simplified])
qed

text \<open>C13: Activation never exceeds the active validator cap: after \<open>ProcessRegistryUpdates\<close> the number of
  validators active at the activation epoch is at most the larger of the cap and the number that
  was already due to be active then.\<close>

theorem registry_respects_capacity:
  assumes "FarFutureEpoch (raw cfg) = max_u64" and "NumValidators s < 18446744073709551616"
    and "MaxActiveValidators (raw cfg) = Inr cap" and "ProcessRegistryUpdates cfg hash s = Inr t"
    and "e = ActivationExitEpoch cfg (CurrentEpoch cfg s)"
  shows "active_at t e \<le> max (unat cap) (active_at s e)"
proof -
  obtain st vals where loop: "foldR (registry_step cfg hash (CurrentEpoch cfg s) (CurrentEpoch cfg s + 1))
      (enumerate 0 (b_validators s)) (s, []) = Inr (st, vals)"
    using assms(4) by (auto simp: ProcessRegistryUpdates_def Let_def bindR_eq_Inr)
  have st: "length (b_validators st) = length (b_validators s)" "active_at st e \<le> active_at s e"
    using registry_loop_keeps [OF assms(1) _ _ _ loop] assms(2) by (simp_all add: NumValidators_def)
  have fut: "activeValidatorCountAtEpoch st e = Inr (of_nat (active_at st e))"
    by (rule activeValidatorCountAtEpoch_eq)
  have small: "unat (of_nat (active_at st e) :: u64) = active_at st e"
    by (rule counts_fit(2)) (use assms(2) st(1) in \<open>simp add: NumValidators_def\<close>)
  let ?room = "cap - of_nat (active_at st e)" and ?q = "activation_queue cfg st vals"
  let ?lim = "\<lambda>l :: u64. if of_nat (active_at st e) \<ge> cap then 0 else if ?room < l then ?room else l"
  obtain l where "foldR (activate e) (take (unat (?lim l)) ?q) st = Inr t"
    using assms(3,4) loop fut assms(5) [symmetric]
    by (auto simp: ProcessRegistryUpdates_def Let_def bindR_eq_Inr split del: if_split)
  then obtain limit where run: "foldR (activate e) (take (unat limit) ?q) st = Inr t"
    and lim: "limit \<le> (if of_nat (active_at st e) \<ge> cap then 0 else ?room)"
    using that [of "?lim l"] by (auto simp: not_less split: if_splits)
  have "active_at t e \<le> active_at st e + length (take (unat limit) (activation_queue cfg st vals))"
    using foldR_activate [OF run, of e] by simp
  also have "\<dots> \<le> active_at st e + unat limit"
    by simp
  also have "\<dots> \<le> max (unat cap) (active_at st e)"
    using lim small by (auto simp: unat_le_u64 unat_sub_u64 split: if_splits)
  finally show ?thesis
    using st(2) by linarith
qed

theorem registry_respects_capacity_witness:
  "\<exists>t cap. ProcessRegistryUpdates tiny (\<lambda>_. replicate 32 3) small_registry = Inr t \<and> MaxActiveValidators (raw tiny) = Inr cap
     \<and> active_at t 7 \<le> max (unat cap) (active_at small_registry 7)"
proof -
  have cap: "MaxActiveValidators (raw tiny) = Inr 256"
    by (simp add: tinyBeaconConfig_def mainnetBeaconConfig_def MaxActiveValidators_def validateCommitteeSize_def
        bits_Mul64_def fieldparams_defs Let_def)
  have loop: "foldR (registry_step tiny (\<lambda>_. replicate 32 3) 2 3) (enumerate 0 (b_validators small_registry)) (small_registry, [])
      = Inr (small_registry, b_validators small_registry)"
    by (simp add: registry_step_def small_defs IsEligibleForActivationQueue_def isEligibileForActivationQueue_def
        IsActiveValidator_def checkValidatorActiveStatus_def)
  have queue: "activation_queue tiny small_registry (b_validators small_registry) = [2]"
    by (simp add: activation_queue_def small_defs IsEligibleForActivation_def isEligibleForActivation_def zero_state_def)
  have act: "active_at small_registry 7 = 2"
    by (simp add: active_at_def small_defs IsActiveValidator_def checkValidatorActiveStatus_def)
  obtain t where t: "ProcessRegistryUpdates tiny (\<lambda>_. replicate 32 3) small_registry = Inr t"
    by (simp add: ProcessRegistryUpdates_def Let_def small_epoch loop queue small_count small_churn small_exit_epoch cap
        activeValidatorCountAtEpoch_eq act cap [simplified] activate_def)
       (simp add: small_defs ValidatorAtIndex_def UpdateValidatorAtIndex_def Let_def)
  show ?thesis
    using registry_respects_capacity [OF small_validator(2) _ cap t refl] cap t
    by (simp add: small_epoch small_exit_epoch) (simp add: small_defs NumValidators_def)
qed

text \<open>C14: A slashing does all that the protocol asks of it: the validator is marked slashed and
  is withdrawable only after the whole slashings window, no other registry entry changes, its effective
  balance enters the slashings sum of the current epoch, it loses the immediate penalty (down to
  zero), and the proposer gets the whole whistleblower reward.\<close>

theorem SlashValidator_effect:
  assumes "SlashValidator cfg hash proposer s i pq rq = Inr t"
    and "\<And>s. proposer s = Inr p" and "p \<noteq> i"
    and "v = b_validators s ! unat i" and "k = ToEpoch cfg (b_slot s) mod EpochsPerSlashingsVector (raw cfg)"
  shows "Slashed (b_validators t ! unat i)
    \<and> ToEpoch cfg (b_slot s) + EpochsPerSlashingsVector (raw cfg) \<le> WithdrawableEpoch (b_validators t ! unat i)
    \<and> (\<forall>j. j \<noteq> unat i \<longrightarrow> b_validators t ! j = b_validators s ! j)
    \<and> b_slashings t = (b_slashings s)[unat k := b_slashings s ! unat k + EffectiveBalance v]
    \<and> unat (b_balances t ! unat i) = unat (b_balances s ! unat i) - unat (EffectiveBalance v) div unat pq
    \<and> b_balances t ! unat p = b_balances s ! unat p + EffectiveBalance v div WhistleBlowerRewardQuotient (raw cfg)"
proof -
  obtain m c where mc: "ValidatorsMaxExitEpochAndChurn cfg s = (m, c)"
    by force
  then obtain u q f where u: "InitiateValidatorExit cfg hash s i m c = Inr (u, q, f)"
    using assms(1) by (auto simp: SlashValidator_def Let_def bindR_eq_Inr)
  obtain w where w: "u = s\<lparr>b_validators := (b_validators s)[unat i := w]\<rparr>" "unat i < length (b_validators s)"
    "EffectiveBalance w = EffectiveBalance v"
    using InitiateValidatorExit_frame [OF u] assms(4) by auto
  have ne: "unat p \<noteq> unat i"
    using assms(3) by (simp add: unat_eq_u64)
  show ?thesis
    using assms(1) mc u w ne assms(2,5)
    by (auto simp: SlashValidator_def Let_def bindR_eq_Inr ValidatorAtIndex_def UpdateValidatorAtIndex_def
        UpdateSlashingsAtIndex_def IncreaseBalance_Inr DecreaseBalance_Inr DecreaseBalanceWithVal_unat unat_div_u64
        MaxEpoch_def split: if_splits)
qed

theorem SlashValidator_effect_witness:
  "\<exists>t. SlashValidator tiny (\<lambda>_. replicate 32 3) (\<lambda>_. Inr 1) small_registry 0 32 8 = Inr t
     \<and> Slashed (b_validators t ! 0) \<and> b_slashings t = [0, 0, 40000000000007, 0]
     \<and> unat (b_balances t ! 0) = 38750000000000"
proof -
  have "\<exists>t. SlashValidator tiny (\<lambda>_. replicate 32 3) (\<lambda>_. Inr 1) small_registry 0 32 8 = Inr t"
    by (simp add: SlashValidator_def small_max_exit small_exit)
       (simp add: small_defs ToEpoch_def ValidatorAtIndex_def UpdateValidatorAtIndex_def UpdateSlashingsAtIndex_def
        DecreaseBalance_def IncreaseBalance_def IncreaseBalanceWithVal_def Add64_cases BalanceAtIndex_def
        UpdateBalancesAtIndex_def DecreaseBalanceWithVal_def Let_def)
  then obtain t where t: "SlashValidator tiny (\<lambda>_. replicate 32 3) (\<lambda>_. Inr 1) small_registry 0 32 8 = Inr t"
    by blast
  show ?thesis
    using SlashValidator_effect [OF t, of 1] t
    by (simp add: ToEpoch_def small_defs)
qed

end
