(* ===== verification/Merkle_Tree.thy ===== *)
theory Merkle_Tree
  imports Qrysm_Prelude
begin

text \<open>
  The reference for every Merkle tree of the program: \<open>mroot\<close> is the root of the binary tree of a
  given depth over a list of leaves that is filled up with zero subtrees. \<open>block j b\<close> is the node at
  height \<open>j\<close> and position \<open>b\<close>, \<open>layer\<close> hashes one layer into the next and \<open>climb\<close> recomputes a root
  from a leaf and its siblings. The locale \<open>merkle\<close> has the law of zero subtrees; it is
  interpreted on SHA-256 pairs and the table of zero hashes in \<open>Ssz_Merkle\<close>.
\<close>

fun mroot :: "('a \<Rightarrow> 'a \<Rightarrow> 'a) \<Rightarrow> (nat \<Rightarrow> 'a) \<Rightarrow> nat \<Rightarrow> nat \<Rightarrow> 'a list \<Rightarrow> 'a" where
  "mroot c z k 0 xs = (case xs of [] \<Rightarrow> z k | x # _ \<Rightarrow> x)"
| "mroot c z k (Suc d) xs = c (mroot c z k d (take (2 ^ d) xs)) (mroot c z k d (drop (2 ^ d) xs))"

fun layer :: "('a \<Rightarrow> 'a \<Rightarrow> 'a) \<Rightarrow> 'a \<Rightarrow> 'a list \<Rightarrow> 'a list" where
  "layer c p [] = []"
| "layer c p [x] = [c x p]"
| "layer c p (x # y # xs) = c x y # layer c p xs"

definition block :: "('a \<Rightarrow> 'a \<Rightarrow> 'a) \<Rightarrow> (nat \<Rightarrow> 'a) \<Rightarrow> 'a list \<Rightarrow> nat \<Rightarrow> nat \<Rightarrow> 'a" where
  "block c z xs j b = mroot c z 0 j (drop (b * 2 ^ j) xs)"

text \<open>The position of the sibling.\<close>

definition flip_last :: "nat \<Rightarrow> nat" where
  "flip_last b = (if even b then b + 1 else b - 1)"

fun climb :: "('a \<Rightarrow> 'a \<Rightarrow> 'a) \<Rightarrow> 'a \<Rightarrow> nat \<Rightarrow> 'a list \<Rightarrow> 'a" where
  "climb c node i [] = node"
| "climb c node i (s # ss) = climb c (if odd i then c s node else c node s) (i div 2) ss"

section \<open>Layers\<close>

lemma length_layer [simp]: "length (layer c p xs) = (length xs + 1) div 2"
  by (induction c p xs rule: layer.induct) simp_all

lemma layer_eq_Nil [simp]: "layer c p xs = [] \<longleftrightarrow> xs = []"
  by (cases "(c, p, xs)" rule: layer.cases) simp_all

lemma layer_take: "layer c p (take (2 * n) xs) = take n (layer c p xs)"
proof (induction n arbitrary: xs)
  case (Suc n)
  show ?case
  proof (cases xs)
    case (Cons x ys)
    then show ?thesis
      using Suc by (cases ys) simp_all
  qed simp
qed simp

lemma layer_drop: "layer c p (drop (2 * n) xs) = drop n (layer c p xs)"
proof (induction n arbitrary: xs)
  case (Suc n)
  show ?case
  proof (cases xs)
    case (Cons x ys)
    then show ?thesis
      using Suc by (cases ys) simp_all
  qed simp
qed simp

lemma layer_nth:
  "i < length (layer c p xs) \<Longrightarrow>
     layer c p xs ! i = c (xs ! (2 * i)) (if 2 * i + 1 < length xs then xs ! (2 * i + 1) else p)"
proof (induction c p xs arbitrary: i rule: layer.induct)
  case (3 c p x y xs)
  then show ?case by (cases i) simp_all
qed simp_all

lemma layer_append_even: "even (length xs) \<Longrightarrow> layer c p (xs @ ys) = layer c p xs @ layer c p ys"
  by (induction c p xs rule: layer.induct) simp_all

lemma layer_pad: "odd (length xs) \<Longrightarrow> layer c p (xs @ [p]) = layer c p xs"
  by (induction c p xs rule: layer.induct) simp_all

lemma layer_even_pad: "even (length xs) \<Longrightarrow> layer c p xs = layer c q xs"
  by (induction c p xs rule: layer.induct) simp_all

section \<open>Roots\<close>

lemma mroot_take_more: "2 ^ d \<le> n \<Longrightarrow> mroot c z k d (take n xs) = mroot c z k d xs"
proof (induction d arbitrary: n xs)
  case 0
  then show ?case by (cases xs; cases n) simp_all
next
  case (Suc d)
  have "take (2 ^ d) (take n xs) = take (2 ^ d) xs"
    using Suc.prems by (simp add: min_def)
  moreover have "mroot c z k d (drop (2 ^ d) (take n xs)) = mroot c z k d (drop (2 ^ d) xs)"
    using Suc.IH [of "n - 2 ^ d" "drop (2 ^ d) xs"] Suc.prems by (simp add: drop_take)
  ultimately show ?case
    by simp
qed

lemma mroot_step: "mroot c z k (Suc d) xs = c (mroot c z k d xs) (mroot c z k d (drop (2 ^ d) xs))"
  by (simp add: mroot_take_more)

lemma block_0: "block c z xs 0 b = (if b < length xs then xs ! b else z 0)"
  by (simp add: block_def drop_eq_Nil Cons_nth_drop_Suc [symmetric] split: list.split)

lemma block_Suc: "block c z xs (Suc j) b = c (block c z xs j (2 * b)) (block c z xs j (2 * b + 1))"
  by (simp only: block_def mroot_step drop_drop) (simp add: algebra_simps)

lemma block_root: "block c z xs d 0 = mroot c z 0 d xs"
  by (simp add: block_def)

lemma div_Suc_pow: "(i :: nat) div 2 ^ Suc j = i div 2 ^ j div 2"
  by (simp only: power_Suc2 div_mult2_eq)

text \<open>A node over the parent of a position, from the node of the position and its sibling.\<close>

lemma block_parent:
  "block c z xs (Suc j) (i div 2 ^ Suc j) =
     (if odd (i div 2 ^ j)
      then c (block c z xs j (flip_last (i div 2 ^ j))) (block c z xs j (i div 2 ^ j))
      else c (block c z xs j (i div 2 ^ j)) (block c z xs j (flip_last (i div 2 ^ j))))"
proof -
  have "2 * (i div 2 ^ j div 2) = (if odd (i div 2 ^ j) then i div 2 ^ j - 1 else i div 2 ^ j)"
    by (auto elim: oddE)
  then show ?thesis
    unfolding block_Suc div_Suc_pow by (auto simp: flip_last_def)
qed

text \<open>The siblings on the way up give the root back.\<close>

lemma climb_append:
  "climb c node i (ss @ ts) = climb c (climb c node i ss) (i div 2 ^ length ss) ts"
  by (induction c node i ss rule: climb.induct) (simp_all add: div_mult2_eq)

lemma climb_siblings:
  "climb c (block c z xs 0 i) i (map (\<lambda>j. block c z xs j (flip_last (i div 2 ^ j))) [0..<d]) =
     block c z xs d (i div 2 ^ d)"
proof (induction d)
  case (Suc d)
  show ?case
    unfolding block_parent upt_Suc_append [OF le0] map_append climb_append Suc
    by simp
qed simp

locale merkle =
  fixes comb :: "'a \<Rightarrow> 'a \<Rightarrow> 'a" and zero :: "nat \<Rightarrow> 'a"
  assumes zero_Suc: "zero (Suc i) = comb (zero i) (zero i)"
begin

lemma mroot_Nil: "mroot comb zero k d [] = zero (k + d)"
  by (induction d) (simp_all add: zero_Suc)

lemma mroot_layer: "mroot comb zero k (Suc d) xs = mroot comb zero (Suc k) d (layer comb (zero k) xs)"
proof (induction d arbitrary: xs)
  case 0
  show ?case
    by (cases "(comb, zero k, xs)" rule: layer.cases) (simp_all add: zero_Suc)
next
  case (Suc d)
  show ?case
    using layer_take [of comb "zero k" "2 ^ d" xs] layer_drop [of comb "zero k" "2 ^ d" xs]
    by (simp only: mroot.simps(2) [of comb zero k "Suc d"] mroot.simps(2) [of comb zero "Suc k" d] Suc power_Suc)
qed

lemma block_zero:
  assumes "length xs \<le> b * 2 ^ j"
  shows "block comb zero xs j b = zero j"
  using assms by (simp add: block_def mroot_Nil)

lemma mroot_above:
  assumes "length xs \<le> 2 ^ d"
  shows "mroot comb zero 0 (Suc d) xs = comb (mroot comb zero 0 d xs) (zero d)"
  using assms mroot_Nil [of 0 d] by (simp add: mroot_take_more)

end

end
