(* ===== verification/Ssz_Merkle.thy ===== *)
theory Ssz_Merkle
  imports Merkle_Tree Bytes_Util
begin

text \<open>
  \<open>encoding/ssz\<close> (\<open>merkleize.go\<close>, \<open>hashers.go\<close>, \<open>helpers.go\<close>, \<open>htrutils.go\<close>) and
  \<open>crypto/hash/htr\<close>: hash tree roots. SHA-256 is the parameter \<open>hash\<close> and the vectorised library
  \<open>gohashtree\<close> the parameter \<open>ght\<close>. \<open>ZeroHashes\<close> is the table of \<open>container/trie/zerohashes.go\<close> by its
  documented meaning. The streaming \<open>Merkleize\<close>, the layered \<open>MerkleizeVector\<close> and the parallel
  \<open>VectorizedSha256\<close> are proved equal to the reference tree of \<open>Merkle_Tree\<close>, and the branch of
  \<open>ConstructProof\<close> leads back to the root.
\<close>

section \<open>Depth\<close>

text \<open>One test of the binary search; \<open>k\<close> is the width of the mask and the weight of the bit.\<close>

definition depth_step :: "nat \<Rightarrow> u64 \<times> u8 \<Rightarrow> u64 \<times> u8" where
  "depth_step k a = (case a of (v, out) \<Rightarrow>
     if v AND NOT (push_bit k 1 - 1) \<noteq> 0 then (drop_bit k v, out OR of_nat k) else (v, out))"

definition Depth :: "u64 \<Rightarrow> u8" where
  "Depth v =
     (if v \<le> 1 then 0
      else let (v, out) = depth_step 2 (depth_step 4 (depth_step 8 (depth_step 16 (depth_step 32 (v - 1, 0)))));
               out = (if v AND NOT (push_bit 1 1 - 1) \<noteq> 0 then out OR 1 else out)
           in out + 1)"

section \<open>Hashers\<close>

definition Combi :: "(bytes \<Rightarrow> bytes) \<Rightarrow> bytes \<Rightarrow> bytes \<Rightarrow> bytes" where
  "Combi hash a b = hash (a @ b)"

definition MixInLength :: "(bytes \<Rightarrow> bytes) \<Rightarrow> bytes \<Rightarrow> bytes \<Rightarrow> bytes" where
  "MixInLength hash root len = hash (root @ len)"

fun ZeroHashes :: "(bytes \<Rightarrow> bytes) \<Rightarrow> nat \<Rightarrow> bytes" where
  "ZeroHashes hash 0 = replicate 32 0"
| "ZeroHashes hash (Suc i) = hash (ZeroHashes hash i @ ZeroHashes hash i)"

interpretation mk: merkle "Combi hash" "ZeroHashes hash" for hash
  by unfold_locales (simp add: Combi_def)

section \<open>Slices as arrays\<close>

definition arr_get :: "'a list \<Rightarrow> nat \<Rightarrow> 'a res" where
  "arr_get xs i = (if i < length xs then Inr (xs ! i) else Inl (Panic ''index out of range''))"

definition arr_set :: "'a list \<Rightarrow> nat \<Rightarrow> 'a \<Rightarrow> 'a list res" where
  "arr_set xs i x = (if i < length xs then Inr (xs[i := x]) else Inl (Panic ''index out of range''))"

section \<open>Vectorised hashing\<close>

text \<open>
  \<open>gohashtree.Hash\<close> hashes an even number of chunks in pairs and refuses an odd number. The goroutines
  of \<open>VectorizedSha256\<close> write to their own part of the output; \<open>order\<close> is the order in which the \<open>n\<close>
  groups and the rest (group \<open>n\<close>) finish.
\<close>

definition hash_pairs :: "(bytes \<Rightarrow> bytes) \<Rightarrow> bytes list \<Rightarrow> bytes list" where
  "hash_pairs hash xs = layer (Combi hash) [] xs"

definition gohashtree_law :: "(bytes \<Rightarrow> bytes) \<Rightarrow> (bytes list \<Rightarrow> bytes list option) \<Rightarrow> bool" where
  "gohashtree_law hash ght \<longleftrightarrow> (\<forall>xs. ght xs = (if even (length xs) then Some (hash_pairs hash xs) else None))"

definition write_at :: "'a list \<Rightarrow> nat \<Rightarrow> 'a list \<Rightarrow> 'a list" where
  "write_at out k ds = take k out @ ds @ drop (k + length ds) out"

definition hash_group ::
  "(bytes list \<Rightarrow> bytes list option) \<Rightarrow> nat \<Rightarrow> nat \<Rightarrow> bytes list \<Rightarrow> nat \<Rightarrow> bytes list \<Rightarrow> bytes list res" where
  "hash_group ght n groupSize inputList j outputList =
     bindR (if j < n then go_slice inputList (j * 2 * groupSize) ((j + 1) * 2 * groupSize)
            else go_slice inputList (n * 2 * groupSize) (length inputList)) (\<lambda>chunks.
     case ght chunks of None \<Rightarrow> Inl (Panic ''odd number of chunks'')
     | Some ds \<Rightarrow> Inr (write_at outputList (j * groupSize) ds))"

definition VectorizedSha256 ::
  "nat \<Rightarrow> nat list \<Rightarrow> (bytes list \<Rightarrow> bytes list option) \<Rightarrow> bytes list \<Rightarrow> bytes list res" where
  "VectorizedSha256 gomaxprocs order ght inputList =
     (let outputList = replicate (length inputList div 2) (replicate 32 0)
      in if length inputList < 5000
         then (case ght inputList of None \<Rightarrow> Inl (Panic ''odd number of chunks'') | Some ds \<Rightarrow> Inr (write_at outputList 0 ds))
         else let n = max (gomaxprocs - 1) 1; groupSize = length inputList div (2 * (n + 1))
              in foldR (hash_group ght n groupSize inputList) order outputList)"

section \<open>Merkleization by layers\<close>

definition vector_step ::
  "(bytes \<Rightarrow> bytes) \<Rightarrow> (bytes list \<Rightarrow> bytes list res) \<Rightarrow> nat \<Rightarrow> bytes list \<Rightarrow> bytes list res" where
  "vector_step hash vec i elements =
     vec (if length elements mod 2 = 1 then elements @ [ZeroHashes hash i] else elements)"

definition MerkleizeVector ::
  "(bytes \<Rightarrow> bytes) \<Rightarrow> (bytes list \<Rightarrow> bytes list res) \<Rightarrow> bytes list \<Rightarrow> u64 \<Rightarrow> bytes res" where
  "MerkleizeVector hash vec elements len =
     (let depth = unat (Depth len)
      in if elements = [] then Inr (ZeroHashes hash depth)
         else bindR (foldR (vector_step hash vec) [0..<depth] elements) (\<lambda>elements. arr_get elements 0))"

definition BitwiseMerkleize ::
  "(bytes \<Rightarrow> bytes) \<Rightarrow> (bytes list \<Rightarrow> bytes list res) \<Rightarrow> bytes list \<Rightarrow> u64 \<Rightarrow> u64 \<Rightarrow> bytes res" where
  "BitwiseMerkleize hash vec chunks cnt limit =
     (if cnt \<noteq> of_nat (length chunks) then Inl (Err ''chunk count does not match the chunks provided'')
      else if cnt > limit then Inl (Err ''merkleizing list that is too large, over limit'')
      else MerkleizeVector hash vec chunks limit)"

section \<open>Merkleization by streaming\<close>

lemma bit_test: "i AND push_bit j 1 = 0 \<longleftrightarrow> even (unat (i :: u64) div 2 ^ j)"
proof -
  have "i AND push_bit j 1 = 0 \<longleftrightarrow> \<not> bit i j"
    by (simp only: push_bit_of_1 and_exp_eq_0_iff_not_bit)
  also have "bit i j = bit (unat i) j"
    by (auto simp: bit_unsigned_iff dest: bit_imp_possible_bit)
  finally show ?thesis
    by (simp add: bit_iff_odd)
qed

lemmas bit_tests = bit_test bit_test [unfolded push_bit_of_1]

lemma bit_test_bound: "odd (unat (i :: u64) div 2 ^ j) \<Longrightarrow> j < 64"
proof (rule ccontr)
  assume "odd (unat i div 2 ^ j)" and "\<not> j < 64"
  moreover have "(2 :: nat) ^ 64 \<le> 2 ^ j"
    using \<open>\<not> j < 64\<close> by (intro power_increasing) auto
  then have "unat i div 2 ^ j = 0"
    using unat_lt_2_64 [of i] by (simp add: div_less)
  ultimately show False
    by simp
qed

text \<open>The loop of the closure \<open>merge\<close>; it stops with the height at which the result is stored.\<close>

function merge_loop ::
  "(bytes \<Rightarrow> bytes) \<Rightarrow> nat \<Rightarrow> u64 \<Rightarrow> u64 \<Rightarrow> nat \<Rightarrow> bytes \<Rightarrow> bytes list \<Rightarrow> (nat \<times> bytes) res" where
  "merge_loop hash depth cnt i j h tmp =
     (if i AND push_bit j 1 = 0
      then if i = cnt \<and> j < depth
           then merge_loop hash depth cnt i (Suc j) (Combi hash h (ZeroHashes hash j)) tmp
           else Inr (j, h)
      else bindR (arr_get tmp j) (\<lambda>t. merge_loop hash depth cnt i (Suc j) (Combi hash t h) tmp))"
  by pat_completeness auto

termination
proof (relation "measure (\<lambda>(hash, depth, cnt, i, j, h, tmp). max depth 64 - j)", goal_cases)
  case (3 hash depth cnt i j h tmp t)
  then have "j < 64"
    by (intro bit_test_bound [of i]) (simp add: bit_tests)
  then show ?case by simp
qed auto

declare merge_loop.simps [simp del]

definition merge :: "(bytes \<Rightarrow> bytes) \<Rightarrow> nat \<Rightarrow> u64 \<Rightarrow> u64 \<Rightarrow> bytes \<Rightarrow> bytes list \<Rightarrow> bytes list res" where
  "merge hash depth cnt i h tmp =
     bindR (merge_loop hash depth cnt i 0 h tmp) (\<lambda>(j, h). arr_set tmp j h)"

definition extend_root :: "(bytes \<Rightarrow> bytes) \<Rightarrow> nat \<Rightarrow> bytes list \<Rightarrow> bytes list res" where
  "extend_root hash j tmp =
     bindR (arr_get tmp j) (\<lambda>t. arr_set tmp (Suc j) (Combi hash t (ZeroHashes hash j)))"

definition Merkleize :: "(bytes \<Rightarrow> bytes) \<Rightarrow> u64 \<Rightarrow> u64 \<Rightarrow> (u64 \<Rightarrow> bytes) \<Rightarrow> bytes res" where
  "Merkleize hash cnt limit leaf =
     (if cnt > limit then Inl (Panic ''merkleizing list that is too large, over limit'')
      else if limit = 0 then Inr (replicate 32 0)
      else if limit = 1 then Inr (if cnt = 1 then to_array 32 (leaf 0) else replicate 32 0)
      else let depth = unat (Depth cnt); limitDepth = unat (Depth limit);
               tmp = replicate (limitDepth + 1) (replicate 32 0)
           in bindR (foldR (\<lambda>i. merge hash depth cnt (of_nat i) (to_array 32 (leaf (of_nat i)))) [0..<unat cnt] tmp) (\<lambda>tmp.
              bindR (if push_bit depth 1 \<noteq> cnt then merge hash depth cnt cnt (ZeroHashes hash 0) tmp else Inr tmp) (\<lambda>tmp.
              bindR (foldR (extend_root hash) [depth..<limitDepth] tmp) (\<lambda>tmp.
              arr_get tmp limitDepth))))"

section \<open>What \<open>Depth\<close> computes\<close>

lemma mask_test: "v AND NOT (push_bit k 1 - 1) = 0 \<longleftrightarrow> unat (v :: u64) < 2 ^ k"
proof -
  have "v AND NOT (push_bit k 1 - 1) = v AND NOT (mask k)"
    by (simp add: mask_eq_decr_exp)
  moreover have "v AND NOT (mask k) = 0 \<longleftrightarrow> take_bit k v = v"
    by (auto simp: bit_eq_iff bit_simps)
  moreover have "take_bit k v = v \<longleftrightarrow> unat v < 2 ^ k"
    by (metis take_bit_nat_eq_self_iff unsigned_take_bit_eq word_unat_eq_iff)
  ultimately show ?thesis
    by simp
qed

lemma or_power:
  assumes "take_bit (Suc m) out = 0" and "m < 8"
  shows "unat (out OR of_nat (2 ^ m) :: u8) = unat out + 2 ^ m" and "take_bit m (out OR of_nat (2 ^ m)) = 0"
proof -
  have bits: "\<not> bit out n" if "n \<le> m" for n
    using assms(1) that by (metis bit_0_eq bit_take_bit_iff bot_apply bot_bool_def less_Suc_eq_le)
  then show "take_bit m (out OR of_nat (2 ^ m)) = 0"
    by (intro bit_eqI) (auto simp: bit_simps)
  have "out AND of_nat (2 ^ m) = 0"
    using bits [of m] by (simp add: and_exp_eq_0_iff_not_bit)
  then have "unat out AND unat (of_nat (2 ^ m) :: u8) = 0"
    by (metis unsigned_0 unsigned_and_eq)
  then have "unat out OR unat (of_nat (2 ^ m) :: u8) = unat out + unat (of_nat (2 ^ m) :: u8)"
    by (rule disjunctive_add_eq_or [symmetric])
  moreover have "unat (of_nat (2 ^ m) :: u8) = 2 ^ m"
    using assms(2) power_strict_increasing [of m 8 "2 :: nat"] by (simp add: unat_of_nat del: of_nat_power)
  ultimately show "unat (out OR of_nat (2 ^ m)) = unat out + 2 ^ m"
    by (simp only: unsigned_or_eq)
qed

text \<open>The search is about the number \<open>n\<close>: what is left has fewer than \<open>2 ^ m\<close> bits.\<close>

definition searched :: "nat \<Rightarrow> nat \<Rightarrow> u64 \<times> u8 \<Rightarrow> bool" where
  "searched n m a \<longleftrightarrow> take_bit m (snd a) = 0 \<and> fst a \<noteq> 0 \<and> unat (fst a) < 2 ^ (2 ^ m)
     \<and> unat (fst a) = n div 2 ^ unat (snd a)"

lemma searched_step:
  assumes "searched n (Suc m) a" and "m < 6"
  shows "searched n m (depth_step (2 ^ m) a)"
proof -
  obtain v out where a: "a = (v, out)" by force
  show ?thesis
  proof (cases "unat v < 2 ^ (2 ^ m)")
    case True
    then have "depth_step (2 ^ m) a = (v, out)"
      using mask_test [of v "2 ^ m"] by (simp add: depth_step_def a)
    moreover have "take_bit m out = 0"
      using assms(1) unfolding searched_def a
      by (metis take_bit_of_0 take_bit_take_bit min.absorb1 le_SucI order_refl snd_conv)
    ultimately show ?thesis
      using assms(1) True by (simp add: searched_def a)
  next
    case False
    then have step: "depth_step (2 ^ m) a = (drop_bit (2 ^ m) v, out OR of_nat (2 ^ m))"
      using mask_test [of v "2 ^ m"] by (simp add: depth_step_def a)
    have "unat (drop_bit (2 ^ m) v) = unat v div 2 ^ (2 ^ m)"
      by (simp only: unat_drop_bit_eq) (simp only: drop_bit_eq_div)
    moreover have "0 < unat v div 2 ^ (2 ^ m)"
      using False by (simp add: div_greater_zero_iff)
    moreover have "unat v div 2 ^ (2 ^ m) < 2 ^ (2 ^ m)"
      using assms(1) by (simp add: searched_def a less_mult_imp_div_less power_add [symmetric] mult_2)
    ultimately show ?thesis
      using assms or_power [of m out] unfolding step
      by (auto simp: searched_def a power_add div_mult2_eq unat_gt_0 [symmetric] simp del: of_nat_power)
  qed
qed

text \<open>\<open>Depth\<close> is the depth of the smallest full tree that has room for \<open>v\<close> leaves.\<close>

lemma Depth_bounds:
  assumes "1 < v"
  shows "unat v \<le> 2 ^ unat (Depth v)" and "2 ^ (unat (Depth v) - 1) < unat v" and "0 < unat (Depth v)"
proof -
  let ?n = "unat v - 1"
  have v1: "unat (v - 1) = ?n" "1 < unat v" "v - 1 \<noteq> 0"
    using assms by (auto simp: unat_sub_u64 unat_less_u64 unat_le_u64)
  obtain x out where s: "depth_step 2 (depth_step 4 (depth_step 8 (depth_step 16 (depth_step 32 (v - 1, 0))))) = (x, out)"
    by force
  have 6: "searched ?n 6 (v - 1, 0)"
    using v1 unat_lt_2_64 [of "v - 1"] by (simp add: searched_def)
  have 5: "searched ?n 5 (depth_step 32 (v - 1, 0))"
    using searched_step [of ?n 5] 6 by simp
  have 4: "searched ?n 4 (depth_step 16 (depth_step 32 (v - 1, 0)))"
    using searched_step [of ?n 4] 5 by simp
  have 3: "searched ?n 3 (depth_step 8 (depth_step 16 (depth_step 32 (v - 1, 0))))"
    using searched_step [of ?n 3] 4 by simp
  have 2: "searched ?n 2 (depth_step 4 (depth_step 8 (depth_step 16 (depth_step 32 (v - 1, 0)))))"
    using searched_step [of ?n 2] 3 by simp
  have 1: "searched ?n 1 (x, out)"
    using searched_step [of ?n 1, OF _ _] 2 s by (metis one_less_numeral_iff power_one_right semiring_norm(76) Suc_1)
  define e where "e = (if x AND NOT (push_bit 1 1 - 1) \<noteq> 0 then out OR 1 else out)"
  have D: "Depth v = e + 1"
    using assms s by (simp add: Depth_def e_def not_le [symmetric] del: push_bit_of_1)
  have e: "unat e = unat out + (if 2 \<le> unat x then 1 else 0)"
    using or_power(1) [of 0 out] 1 mask_test [of x 1] by (simp add: e_def searched_def)
  have x: "0 < unat x" "unat x < 4" "unat x = ?n div 2 ^ unat out"
    using 1 unat_gt_0 [of x] by (auto simp: searched_def)
  have one: "?n div 2 ^ unat e = 1"
    using x by (auto simp: e power_add div_mult2_eq)
  have low: "2 ^ unat e \<le> ?n"
    using one by (metis div_greater_zero_iff zero_less_one)
  have high: "?n < 2 * 2 ^ unat e"
    using one by (metis div_less_iff_less_mult less_2_cases_iff one_less_numeral_iff semiring_norm(76) zero_less_numeral zero_less_power)
  have "unat e < 64"
  proof (rule ccontr)
    assume "\<not> unat e < 64"
    then have "(2 :: nat) ^ 64 \<le> 2 ^ unat e"
      by (intro power_increasing) auto
    then show False
      using low unat_lt_2_64 [of v] by simp
  qed
  then have D': "unat (Depth v) = unat e + 1"
    unfolding D by (simp add: unat_word_ariths)
  show "unat v \<le> 2 ^ unat (Depth v)" "2 ^ (unat (Depth v) - 1) < unat v" "0 < unat (Depth v)"
    using low high v1(2) by (simp_all add: D')
qed

lemma Depth_fits: "unat v \<le> 2 ^ unat (Depth v)"
  using Depth_bounds(1) [of v] by (cases "1 < v") (auto simp: Depth_def not_less unat_le_u64)

lemma Depth_minimal:
  assumes "unat v \<le> 2 ^ d"
  shows "unat (Depth v) \<le> d"
proof (rule ccontr)
  assume d: "\<not> unat (Depth v) \<le> d"
  then have "1 < v"
    by (auto simp: Depth_def not_le split: if_splits)
  moreover have "(2 :: nat) ^ d \<le> 2 ^ (unat (Depth v) - 1)"
    using d by (intro power_increasing) auto
  ultimately show False
    using Depth_bounds(2) [of v] assms by linarith
qed

lemma Depth_le_64: "unat (Depth v) \<le> 64"
  using unat_lt_2_64 [of v] by (intro Depth_minimal) simp

lemma Depth_mono: "a \<le> b \<Longrightarrow> unat (Depth a) \<le> unat (Depth b)"
  using Depth_minimal [of a "unat (Depth b)"] Depth_fits [of b] by (simp add: unat_le_u64)

section \<open>Vectorised hashing is hashing in pairs\<close>

lemma length_write_at: "k + length ds \<le> length out \<Longrightarrow> length (write_at out k ds) = length out"
  by (simp add: write_at_def)

lemma nth_write_at:
  assumes "k + length ds \<le> length out" and "p < length out"
  shows "write_at out k ds ! p = (if k \<le> p \<and> p < k + length ds then ds ! (p - k) else out ! p)"
  using assms by (auto simp: write_at_def nth_append nth_drop not_less not_le add.commute intro!: arg_cong [of _ _ "nth out"])

lemma write_at_all: "length ds = length out \<Longrightarrow> write_at out 0 ds = ds"
  by (simp add: write_at_def)

lemma length_hash_pairs [simp]: "length (hash_pairs hash xs) = (length xs + 1) div 2"
  by (simp add: hash_pairs_def)

text \<open>What group \<open>j\<close> writes: its part of the result.\<close>

definition group_part :: "nat \<Rightarrow> nat \<Rightarrow> nat \<Rightarrow> nat \<Rightarrow> bool" where
  "group_part n g j p \<longleftrightarrow> j * g \<le> p \<and> (j < n \<longrightarrow> p < (j + 1) * g)"

lemma hash_group_writes:
  assumes "gohashtree_law hash ght" and "even (length xs)" and "2 * (n * g) \<le> length xs" and "j \<le> n"
    and "length out = length xs div 2"
  shows "\<exists>out'. hash_group ght n g xs j out = Inr out' \<and> length out' = length xs div 2
    \<and> (\<forall>p < length xs div 2. out' ! p = (if group_part n g j p then hash_pairs hash xs ! p else out ! p))"
proof -
  let ?r = "hash_pairs hash xs"
  let ?ds = "if j < n then take g (drop (j * g) ?r) else drop (j * g) ?r"
  have jg: "j * g + (if j < n then g else 0) \<le> n * g"
    using assms(4) mult_le_mono1 [of "j + 1" n g] by (auto simp: not_less)
  then have len: "j * g + length ?ds \<le> length out" "length ?ds = (if j < n then g else length out - j * g)"
    using assms(2,3,5) by (auto simp: le_div_geq split: if_splits)
  have pairs: "hash_pairs hash (take (2 * g) (drop (2 * (j * g)) xs)) = take g (drop (j * g) ?r)"
    "hash_pairs hash (drop (2 * (j * g)) xs) = drop (j * g) ?r"
    by (simp_all add: hash_pairs_def layer_take layer_drop)
  have run: "hash_group ght n g xs j out = Inr (write_at out (j * g) ?ds)"
  proof (cases "j < n")
    case True
    have "go_slice xs (j * 2 * g) ((j + 1) * 2 * g) = Inr (take (2 * g) (drop (2 * (j * g)) xs))"
      using jg True assms(3) by (simp add: go_slice_def algebra_simps)
    moreover have "even (length (take (2 * g) (drop (2 * (j * g)) xs)))"
      using assms(2) by (simp add: min_def)
    ultimately show ?thesis
      using True assms(1) by (simp add: hash_group_def gohashtree_law_def pairs)
  next
    case False
    then have j: "j = n"
      using assms(4) by simp
    have "go_slice xs (n * 2 * g) (length xs) = Inr (drop (2 * (n * g)) xs)"
      using assms(3) by (simp add: go_slice_def algebra_simps)
    moreover have "even (length (drop (2 * (n * g)) xs))"
      using assms(2) by simp
    ultimately show ?thesis
      using assms(1) pairs(2) by (simp add: hash_group_def gohashtree_law_def j)
  qed
  have "write_at out (j * g) ?ds ! p = (if group_part n g j p then ?r ! p else out ! p)" if "p < length out" for p
    using nth_write_at [OF len(1) that] that len assms(2,5)
    by (auto simp: group_part_def nth_drop not_less not_le algebra_simps)
  then show ?thesis
    using run length_write_at [OF len(1)] assms(5) by auto
qed

lemma hash_groups_fold:
  assumes "gohashtree_law hash ght" and "even (length xs)" and "2 * (n * g) \<le> length xs"
    and "length out = length xs div 2" and "set js \<subseteq> {0..n}"
  shows "\<exists>out'. foldR (hash_group ght n g xs) js out = Inr out' \<and> length out' = length xs div 2
    \<and> (\<forall>p < length xs div 2. out' ! p = (if \<exists>j \<in> set js. group_part n g j p then hash_pairs hash xs ! p else out ! p))"
  using assms(4,5)
proof (induction js arbitrary: out)
  case (Cons j js)
  obtain o1 where 1: "hash_group ght n g xs j out = Inr o1" "length o1 = length xs div 2"
    "\<forall>p < length xs div 2. o1 ! p = (if group_part n g j p then hash_pairs hash xs ! p else out ! p)"
    using hash_group_writes [OF assms(1-3), of j out] Cons.prems by auto
  obtain o2 where "foldR (hash_group ght n g xs) js o1 = Inr o2" "length o2 = length xs div 2"
    "\<forall>p < length xs div 2. o2 ! p = (if \<exists>j \<in> set js. group_part n g j p then hash_pairs hash xs ! p else o1 ! p)"
    using Cons.IH [OF 1(2)] Cons.prems(2) by auto
  then show ?case
    using 1 by auto
qed simp

text \<open>Whatever the number of processors and the order in which they finish.\<close>

lemma VectorizedSha256_pairs:
  assumes "gohashtree_law hash ght" and "even (length xs)" and "set order = {0..max (gomaxprocs - 1) 1}"
  shows "VectorizedSha256 gomaxprocs order ght xs = Inr (hash_pairs hash xs)"
proof (cases "length xs < 5000")
  case True
  then show ?thesis
    using assms(1,2) by (simp add: VectorizedSha256_def gohashtree_law_def write_at_all)
next
  case False
  let ?n = "max (gomaxprocs - 1) 1" and ?out = "replicate (length xs div 2) (replicate 32 (0 :: u8))"
  let ?g = "length xs div (2 * (?n + 1))"
  have "2 * (?n + 1) * ?g \<le> length xs"
    by (rule times_div_less_eq_dividend)
  then have fit: "2 * (?n * ?g) \<le> length xs"
    by (simp add: algebra_simps)
  obtain o' where o': "foldR (hash_group ght ?n ?g xs) order ?out = Inr o'" "length o' = length xs div 2"
    "\<forall>p < length xs div 2. o' ! p = (if \<exists>j \<in> set order. group_part ?n ?g j p then hash_pairs hash xs ! p else ?out ! p)"
    using hash_groups_fold [OF assms(1,2) fit, of ?out order] assms(3) by auto
  have "\<exists>j \<in> {0..?n}. group_part ?n ?g j p" for p
  proof (cases "p < ?n * ?g")
    case True
    then have g: "0 < ?g"
      by (cases ?g) auto
    have "p div ?g < ?n"
      using True by (simp add: less_mult_imp_div_less)
    moreover have "group_part ?n ?g (p div ?g) p"
      using dividend_less_div_times [OF g, of p] by (simp add: group_part_def algebra_simps)
    ultimately show ?thesis
      by (intro bexI [of _ "p div ?g"]) auto
  next
    case False
    then show ?thesis
      by (intro bexI [of _ ?n]) (simp_all add: group_part_def)
  qed
  then have "o' = hash_pairs hash xs"
    using o'(2,3) assms(2,3) by (intro nth_equalityI) auto
  then show ?thesis
    using False o'(1) by (simp add: VectorizedSha256_def Let_def)
qed

section \<open>Layers give the root of the reference tree\<close>

abbreviation root_of :: "(bytes \<Rightarrow> bytes) \<Rightarrow> nat \<Rightarrow> bytes list \<Rightarrow> bytes" where
  "root_of hash d xs \<equiv> mroot (Combi hash) (ZeroHashes hash) 0 d xs"

abbreviation node :: "(bytes \<Rightarrow> bytes) \<Rightarrow> bytes list \<Rightarrow> nat \<Rightarrow> nat \<Rightarrow> bytes" where
  "node hash xs j b \<equiv> block (Combi hash) (ZeroHashes hash) xs j b"

lemma vector_step_layer:
  assumes "\<And>xs. even (length xs) \<Longrightarrow> vec xs = Inr (hash_pairs hash xs)"
  shows "vector_step hash vec i xs = Inr (layer (Combi hash) (ZeroHashes hash i) xs)"
proof (cases "odd (length xs)")
  case True
  then show ?thesis
    using assms [of "xs @ [ZeroHashes hash i]"]
    by (simp add: vector_step_def mod_2_eq_odd hash_pairs_def layer_even_pad [of _ _ "[]" "ZeroHashes hash i"] layer_pad)
next
  case False
  then show ?thesis
    using assms [of xs]
    by (simp add: vector_step_def mod_2_eq_odd hash_pairs_def layer_even_pad [of _ _ "[]" "ZeroHashes hash i"])
qed

lemma vector_steps:
  assumes "\<And>xs. even (length xs) \<Longrightarrow> vec xs = Inr (hash_pairs hash xs)" and "xs \<noteq> []"
  shows "\<exists>y ys. foldR (vector_step hash vec) [k..<k + d] xs = Inr (y # ys)
    \<and> y = mroot (Combi hash) (ZeroHashes hash) k d xs"
  using assms(2)
proof (induction d arbitrary: k xs)
  case 0
  then show ?case by (cases xs) simp_all
next
  case (Suc d)
  have "layer (Combi hash) (ZeroHashes hash k) xs \<noteq> []"
    using Suc.prems by simp
  moreover have "[k..<k + Suc d] = k # [Suc k..<Suc k + d]"
    by (simp add: upt_conv_Cons del: upt_Suc)
  ultimately show ?case
    using Suc.IH [of "layer (Combi hash) (ZeroHashes hash k) xs" "Suc k"]
    by (simp add: vector_step_layer [OF assms(1)] mk.mroot_layer del: mroot.simps upt_Suc)
qed

lemma MerkleizeVector_root:
  assumes "\<And>xs. even (length xs) \<Longrightarrow> vec xs = Inr (hash_pairs hash xs)"
  shows "MerkleizeVector hash vec elements len = Inr (root_of hash (unat (Depth len)) elements)"
proof (cases "elements = []")
  case True
  then show ?thesis
    using mk.mroot_Nil [of hash 0 "unat (Depth len)"] by (simp add: MerkleizeVector_def)
next
  case False
  show ?thesis
    using vector_steps [OF assms False, of 0 "unat (Depth len)"] False
    by (auto simp: MerkleizeVector_def arr_get_def)
qed

section \<open>Streaming gives the root of the reference tree\<close>

text \<open>Before leaf \<open>i\<close>, the buffer has the complete subtree to the left for each bit of \<open>i\<close>.\<close>

definition tmp_ok :: "(bytes \<Rightarrow> bytes) \<Rightarrow> bytes list \<Rightarrow> nat \<Rightarrow> bytes list \<Rightarrow> bool" where
  "tmp_ok hash xs i tmp \<longleftrightarrow>
     (\<forall>j. odd (i div 2 ^ j) \<longrightarrow> j < length tmp \<and> tmp ! j = node hash xs j (i div 2 ^ j - 1))"

lemma node_odd:
  assumes "odd (i div 2 ^ j)"
  shows "Combi hash (node hash xs j (i div 2 ^ j - 1)) (node hash xs j (i div 2 ^ j)) = node hash xs (Suc j) (i div 2 ^ Suc j)"
  using block_parent [of "Combi hash" "ZeroHashes hash" xs j i] assms by (simp add: flip_last_def)

lemma node_even:
  assumes "even (i div 2 ^ j)"
  shows "Combi hash (node hash xs j (i div 2 ^ j)) (node hash xs j (i div 2 ^ j + 1)) = node hash xs (Suc j) (i div 2 ^ Suc j)"
  using block_parent [of "Combi hash" "ZeroHashes hash" xs j i] assms by (simp add: flip_last_def)

lemma div_before_multiple:
  assumes "2 ^ j dvd (i :: nat) + 1"
  shows "(i + 1) div 2 ^ j = i div 2 ^ j + 1"
proof -
  obtain q where q: "i + 1 = 2 ^ j * q"
    using assms by (auto elim: dvdE)
  then obtain r where r: "q = Suc r"
    by (cases q) auto
  define p where "p = (2 :: nat) ^ j"
  have "i = p * r + (p - 1)" and "0 < p"
    using q r by (auto simp: p_def)
  then have "i div p = r"
    by (simp add: div_nat_eqI)
  then show ?thesis
    using q r by (simp add: p_def)
qed

lemma dvd_next_power:
  assumes "2 ^ j dvd (i :: nat) + 1" and "odd (i div 2 ^ j)"
  shows "2 ^ Suc j dvd i + 1"
proof -
  obtain q where q: "i + 1 = 2 ^ j * q"
    using assms(1) by (auto elim: dvdE)
  then have "q = i div 2 ^ j + 1"
    using div_before_multiple [OF assms(1)] by simp
  then have "even q"
    using assms(2) by simp
  then show ?thesis
    using q by (auto elim!: evenE simp: mult.assoc [symmetric] mult.commute)
qed

text \<open>Merging a leaf climbs over the trailing ones of its index.\<close>

lemma merge_loop_leaf:
  assumes "tmp_ok hash xs (unat i) tmp" and "i \<noteq> cnt" and "2 ^ j dvd unat i + 1" and "h = node hash xs j (unat i div 2 ^ j)"
  shows "\<exists>j'. merge_loop hash depth cnt i j h tmp = Inr (j', node hash xs j' (unat i div 2 ^ j'))
    \<and> 2 ^ j' dvd unat i + 1 \<and> even (unat i div 2 ^ j')"
  using assms
proof (induction hash depth cnt i j h tmp rule: merge_loop.induct)
  case (1 hash depth cnt i j h tmp)
  show ?case
  proof (cases "even (unat i div 2 ^ j)")
    case True
    then show ?thesis
      using 1 by (subst merge_loop.simps) (simp add: bit_tests)
  next
    case False
    have t: "arr_get tmp j = Inr (node hash xs j (unat i div 2 ^ j - 1))"
      using 1(3) False by (simp add: tmp_ok_def arr_get_def)
    have "2 ^ Suc j dvd unat i + 1"
      using dvd_next_power [OF 1(5) False] .
    then show ?thesis
      using 1(2) [OF _ t 1(3,4)] False t node_odd [of "unat i" j hash xs] 1(6)
      by (subst merge_loop.simps) (simp add: bit_tests)
  qed
qed

lemma tmp_ok_next:
  assumes "tmp_ok hash xs i tmp" and "2 ^ k dvd i + 1" and "even (i div 2 ^ k)" and "k < length tmp"
  shows "tmp_ok hash xs (i + 1) (tmp[k := node hash xs k (i div 2 ^ k)])"
  unfolding tmp_ok_def
proof (intro allI impI)
  fix j
  assume odd: "odd ((i + 1) div 2 ^ j)"
  consider "j < k" | "j = k" | "k < j" by linarith
  then show "j < length (tmp[k := node hash xs k (i div 2 ^ k)])
      \<and> tmp[k := node hash xs k (i div 2 ^ k)] ! j = node hash xs j ((i + 1) div 2 ^ j - 1)"
  proof cases
    case 1
    then obtain m where "k = Suc (j + m)"
      by (metis less_imp_Suc_add)
    then have "even ((i + 1) div 2 ^ j)"
      using assms(2) by (auto elim!: dvdE simp: power_add mult.assoc)
    then show ?thesis
      using odd by simp
  next
    case 2
    then show ?thesis
      using assms(4) div_before_multiple [OF assms(2)] by simp
  next
    case 3
    then obtain m where j: "j = Suc (k + m)"
      by (metis less_imp_Suc_add)
    have split: "n div 2 ^ j = n div 2 ^ k div 2 div 2 ^ m" for n :: nat
      by (simp add: j power_add div_mult2_eq [symmetric] ac_simps)
    have "(i + 1) div 2 ^ k div 2 = i div 2 ^ k div 2"
      using div_before_multiple [OF assms(2)] assms(3) by simp
    then have "(i + 1) div 2 ^ j = i div 2 ^ j"
      by (simp only: split)
    then show ?thesis
      using assms(1) odd 3 by (simp add: tmp_ok_def)
  qed
qed

lemma merge_leaf:
  assumes "tmp_ok hash xs i tmp" and "i < unat cnt" and "unat cnt \<le> 2 ^ d" and "d < length tmp" and "i < length xs"
  shows "\<exists>tmp'. merge hash depth cnt (of_nat i) (xs ! i) tmp = Inr tmp' \<and> tmp_ok hash xs (i + 1) tmp' \<and> length tmp' = length tmp"
proof -
  have ui: "unat (of_nat i :: u64) = i"
    using assms(2) unat_lt_2_64 [of cnt] by (simp add: unat_of_nat_u64)
  then have ne: "of_nat i \<noteq> cnt"
    using assms(2) by auto
  have h: "xs ! i = node hash xs 0 (unat (of_nat i :: u64) div 2 ^ 0)"
    using assms(5) by (simp add: block_0 ui)
  obtain k where k: "merge_loop hash depth cnt (of_nat i) 0 (xs ! i) tmp = Inr (k, node hash xs k (i div 2 ^ k))"
    "2 ^ k dvd i + 1" "even (i div 2 ^ k)"
    using merge_loop_leaf [of hash xs "of_nat i" tmp cnt 0 "xs ! i" depth] assms(1) ne h by (auto simp: ui)
  have "(2 :: nat) ^ k \<le> 2 ^ d"
    using dvd_imp_le [OF k(2)] assms(2,3) by linarith
  then have "k < length tmp"
    using assms(4) by simp
  then show ?thesis
    using k tmp_ok_next [OF assms(1) k(2,3)] by (simp add: merge_def arr_set_def)
qed

lemma merge_leaves:
  assumes "xs = map (\<lambda>i. to_array 32 (leaf (of_nat i))) [0..<unat cnt]" and "unat cnt \<le> 2 ^ d" and "d < length tmp" and "n \<le> unat cnt"
  shows "\<exists>tmp'. foldR (\<lambda>i. merge hash depth cnt (of_nat i) (to_array 32 (leaf (of_nat i)))) [0..<n] tmp = Inr tmp'
    \<and> tmp_ok hash xs n tmp' \<and> length tmp' = length tmp"
  using assms(4)
proof (induction n)
  case 0
  then show ?case by (simp add: tmp_ok_def)
next
  case (Suc n)
  then obtain t where t: "foldR (\<lambda>i. merge hash depth cnt (of_nat i) (to_array 32 (leaf (of_nat i)))) [0..<n] tmp = Inr t"
    "tmp_ok hash xs n t" "length t = length tmp"
    by auto
  have "xs ! n = to_array 32 (leaf (of_nat n))" "n < length xs"
    using Suc.prems assms(1) by simp_all
  then show ?case
    using merge_leaf [OF t(2), of cnt d depth] t assms(2,3) Suc.prems by (auto simp: foldR_append)
qed

text \<open>The padding merge climbs to the depth of the leaves.\<close>

lemma merge_loop_pad:
  assumes "tmp_ok hash xs (unat cnt) tmp" and "length xs = unat cnt" and "unat cnt < 2 ^ depth" and "j \<le> depth"
    and "h = node hash xs j (unat cnt div 2 ^ j)" and "i = cnt"
  shows "merge_loop hash depth cnt i j h tmp = Inr (depth, node hash xs depth 0)"
  using assms
proof (induction hash depth cnt i j h tmp rule: merge_loop.induct)
  case (1 hash depth cnt i j h tmp)
  show ?case
  proof (cases "j = depth")
    case True
    then have "unat cnt div 2 ^ j = 0"
      using 1(5) by simp
    then show ?thesis
      using 1(7,8) True by (subst merge_loop.simps) (simp add: bit_tests)
  next
    case False
    then have j: "j < depth" "Suc j \<le> depth"
      using 1(6) by simp_all
    show ?thesis
    proof (cases "even (unat cnt div 2 ^ j)")
      case True
      have "ZeroHashes hash j = node hash xs j (unat cnt div 2 ^ j + 1)"
        using 1(4) dividend_less_div_times [of "2 ^ j" "unat cnt"]
        by (intro mk.block_zero [symmetric]) (simp add: algebra_simps)
      then have "Combi hash h (ZeroHashes hash j) = node hash xs (Suc j) (unat cnt div 2 ^ Suc j)"
        using node_even [OF True, of hash xs] 1(7) by simp
      then show ?thesis
        using 1(1) [OF _ _ 1(3,4,5) j(2)] 1(8) j True by (subst merge_loop.simps) (simp add: bit_tests)
    next
      case odd: False
      have t: "arr_get tmp j = Inr (node hash xs j (unat cnt div 2 ^ j - 1))"
        using 1(3) odd by (simp add: tmp_ok_def arr_get_def)
      have "Combi hash (node hash xs j (unat cnt div 2 ^ j - 1)) h = node hash xs (Suc j) (unat cnt div 2 ^ Suc j)"
        using node_odd [OF odd, of hash xs] 1(7) by simp
      then show ?thesis
        using 1(2) [OF _ t 1(3,4,5) j(2)] 1(8) j odd t by (subst merge_loop.simps) (simp add: bit_tests)
    qed
  qed
qed

lemma push_bit_eq_count:
  assumes "d = unat (Depth cnt)"
  shows "push_bit d 1 = cnt \<longleftrightarrow> 2 ^ d = unat cnt"
proof (cases "d < 64")
  case True
  then have "unat (push_bit d 1 :: u64) = 2 ^ d"
    using power_strict_increasing [of d 64 "2 :: nat"] unat_of_nat_u64 [of "2 ^ d"] by simp
  then show ?thesis
    by (metis word_unat_eq_iff)
next
  case False
  then have "d = 64"
    using assms Depth_le_64 [of cnt] by simp
  then have "push_bit d (1 :: u64) = 0" "cnt \<noteq> 0" "unat cnt < 2 ^ d"
    using assms unat_lt_2_64 [of cnt] by (auto simp: Depth_def)
  then show ?thesis
    by auto
qed

lemma merge_padded:
  assumes "xs = map (\<lambda>i. to_array 32 (leaf (of_nat i))) [0..<unat cnt]" and "depth = unat (Depth cnt)" and "depth < length tmp"
    and "tmp_ok hash xs (unat cnt) tmp"
  shows "\<exists>tmp'. (if push_bit depth 1 \<noteq> cnt then merge hash depth cnt cnt (ZeroHashes hash 0) tmp else Inr tmp) = Inr tmp'
    \<and> length tmp' = length tmp \<and> tmp' ! depth = root_of hash depth xs"
proof (cases "2 ^ depth = unat cnt")
  case True
  then have "unat cnt div 2 ^ depth = 1"
    by (metis div_self power_not_zero zero_neq_numeral)
  then have "tmp ! depth = node hash xs depth 0"
    using assms(4) by (auto simp: tmp_ok_def dest: spec [of _ depth])
  then show ?thesis
    using True push_bit_eq_count [OF assms(2)] by (simp add: block_root)
next
  case False
  then have lt: "unat cnt < 2 ^ depth"
    using Depth_fits [of cnt] assms(2) by simp
  have "length xs = unat cnt"
    using assms(1) by simp
  moreover have "ZeroHashes hash 0 = node hash xs 0 (unat cnt div 2 ^ 0)"
    using \<open>length xs = unat cnt\<close> by (simp add: block_0)
  ultimately have "merge_loop hash depth cnt cnt 0 (ZeroHashes hash 0) tmp = Inr (depth, node hash xs depth 0)"
    using merge_loop_pad [OF assms(4) _ lt] by blast
  then show ?thesis
    using False push_bit_eq_count [OF assms(2)] assms(3) by (simp add: merge_def arr_set_def block_root)
qed

lemma extend_roots:
  assumes "length xs \<le> 2 ^ d" and "d + n < length tmp" and "tmp ! d = root_of hash d xs"
  shows "\<exists>tmp'. foldR (extend_root hash) [d..<d + n] tmp = Inr tmp' \<and> length tmp' = length tmp
    \<and> (\<forall>j. d \<le> j \<and> j \<le> d + n \<longrightarrow> tmp' ! j = root_of hash j xs)"
  using assms(2)
proof (induction n)
  case 0
  then show ?case using assms(3) by auto
next
  case (Suc n)
  then obtain t where t: "foldR (extend_root hash) [d..<d + n] tmp = Inr t" "length t = length tmp"
    "\<forall>j. d \<le> j \<and> j \<le> d + n \<longrightarrow> t ! j = root_of hash j xs"
    by auto
  have "length xs \<le> 2 ^ (d + n)"
    using assms(1) power_increasing [of d "d + n" "2 :: nat"] by linarith
  then have "Combi hash (t ! (d + n)) (ZeroHashes hash (d + n)) = root_of hash (Suc (d + n)) xs"
    using t(3) by (simp only: mk.mroot_above) simp
  then have "extend_root hash (d + n) t = Inr (t[Suc (d + n) := root_of hash (Suc (d + n)) xs])"
    using Suc.prems t(2) by (simp add: extend_root_def arr_get_def arr_set_def del: mroot.simps)
  then show ?case
    using t Suc.prems by (auto simp: foldR_append nth_list_update le_Suc_eq simp del: mroot.simps)
qed

lemma le_one_u64: "(x :: u64) \<le> 1 \<longleftrightarrow> x = 0 \<or> x = 1"
  by (auto simp: unat_le_u64 unat_eq_u64 le_Suc_eq)

lemma Merkleize_root:
  assumes "cnt \<le> limit"
  shows "Merkleize hash cnt limit leaf =
    Inr (root_of hash (unat (Depth limit)) (map (\<lambda>i. to_array 32 (leaf (of_nat i))) [0..<unat cnt]))"
proof (cases "limit \<le> 1")
  case True
  then consider "limit = 0" "cnt = 0" | "limit = 1" "cnt = 0" | "limit = 1" "cnt = 1"
    using assms le_one_u64 [of cnt] le_one_u64 [of limit] by force
  then show ?thesis
    by cases (simp_all add: Merkleize_def Depth_def)
next
  case False
  let ?xs = "map (\<lambda>i. to_array 32 (leaf (of_nat i))) [0..<unat cnt]"
  let ?d = "unat (Depth cnt)" and ?L = "unat (Depth limit)"
  have dL: "?d \<le> ?L"
    using Depth_mono [OF assms] .
  obtain t1 where t1: "foldR (\<lambda>i. merge hash ?d cnt (of_nat i) (to_array 32 (leaf (of_nat i)))) [0..<unat cnt]
      (replicate (?L + 1) (replicate 32 0)) = Inr t1" "tmp_ok hash ?xs (unat cnt) t1" "length t1 = ?L + 1"
    using merge_leaves [OF refl Depth_fits, of cnt "replicate (?L + 1) (replicate 32 0)" "unat cnt" hash ?d leaf] dL by auto
  obtain t2 where t2: "(if push_bit ?d 1 \<noteq> cnt then merge hash ?d cnt cnt (ZeroHashes hash 0) t1 else Inr t1) = Inr t2"
    "length t2 = ?L + 1" "t2 ! ?d = root_of hash ?d ?xs"
    using merge_padded [OF refl refl _ t1(2)] dL t1(3) by auto
  obtain t3 where "foldR (extend_root hash) [?d..<?d + (?L - ?d)] t2 = Inr t3" "length t3 = ?L + 1"
    "\<forall>j. ?d \<le> j \<and> j \<le> ?d + (?L - ?d) \<longrightarrow> t3 ! j = root_of hash j ?xs"
    using extend_roots [of ?xs ?d "?L - ?d" t2 hash] Depth_fits [of cnt] t2 dL by auto
  then show ?thesis
    using False assms t1(1) t2(1) dL
    by (auto simp: Merkleize_def Let_def arr_get_def not_less simp del: mroot.simps)
qed

section \<open>Properties\<close>

text \<open>C37: \<open>Depth\<close> is exact: it is the least depth at which a binary tree has room for \<open>v\<close> leaves (and 0
  for no leaf), for every 64-bit \<open>v\<close>.\<close>

theorem Depth_least: "unat (Depth v) \<le> d \<longleftrightarrow> unat v \<le> 2 ^ d"
proof
  assume "unat (Depth v) \<le> d"
  then have "(2 :: nat) ^ unat (Depth v) \<le> 2 ^ d"
    by (intro power_increasing) auto
  then show "unat v \<le> 2 ^ d"
    using Depth_fits [of v] by linarith
qed (rule Depth_minimal)

text \<open>C34: Hashing a layer in parallel does not change it: whatever the number of processors and the
  order in which the goroutines finish, \<open>VectorizedSha256\<close> gives the hashes of the consecutive pairs.\<close>

theorem VectorizedSha256_parallel:
  assumes "gohashtree_law hash ght" and "even (length xs)" and "set order = {0..max (gomaxprocs - 1) 1}"
  shows "VectorizedSha256 gomaxprocs order ght xs = Inr (hash_pairs hash xs)"
  by (rule VectorizedSha256_pairs [OF assms])

text \<open>A library that satisfies its documentation, for the witnesses.\<close>

definition pair_library :: "(bytes \<Rightarrow> bytes) \<Rightarrow> bytes list \<Rightarrow> bytes list option" where
  "pair_library hash xs = (if even (length xs) then Some (hash_pairs hash xs) else None)"

lemma pair_library_law: "gohashtree_law hash (pair_library hash)"
  by (simp add: gohashtree_law_def pair_library_def)

theorem VectorizedSha256_parallel_witness:
  "VectorizedSha256 4 [3, 0, 2, 1] (pair_library (take 32)) (replicate 6000 [1]) = Inr (hash_pairs (take 32) (replicate 6000 [1]))"
  by (rule VectorizedSha256_parallel [OF pair_library_law]) (auto simp: atLeastAtMost_insertL [symmetric])

text \<open>C27: Two implementations, one root: the streaming \<open>Merkleize\<close>, which keeps one buffer per level, and the
  layered \<open>MerkleizeVector\<close> over parallel hashing both return, without a panic, the root of the
  reference tree over the leaves filled up with zero subtrees to the capacity \<open>limit\<close>.\<close>

theorem merkleize_equivalence:
  assumes "gohashtree_law hash ght" and "\<And>xs. set (order xs) = {0..max (gomaxprocs - 1) 1}" and "cnt \<le> limit"
    and "leaves = map (\<lambda>i. to_array 32 (leaf (of_nat i))) [0..<unat cnt]"
  shows "Merkleize hash cnt limit leaf = Inr (mroot (Combi hash) (ZeroHashes hash) 0 (unat (Depth limit)) leaves)
    \<and> MerkleizeVector hash (\<lambda>xs. VectorizedSha256 gomaxprocs (order xs) ght xs) leaves limit = Merkleize hash cnt limit leaf"
  using Merkleize_root [OF assms(3), of hash leaf]
    MerkleizeVector_root [of "\<lambda>xs. VectorizedSha256 gomaxprocs (order xs) ght xs" hash leaves limit,
      OF VectorizedSha256_pairs [OF assms(1) _ assms(2)]] assms(4)
  by simp

theorem merkleize_equivalence_witness:
  "MerkleizeVector (\<lambda>x. take 32 (rev x)) (\<lambda>xs. VectorizedSha256 1 [0, 1] (pair_library (\<lambda>x. take 32 (rev x))) xs)
     (map (\<lambda>i. to_array 32 [ucast (of_nat i :: u64)]) [0..<3]) 5 = Merkleize (\<lambda>x. take 32 (rev x)) 3 5 (\<lambda>i. [ucast i])"
  using merkleize_equivalence [OF pair_library_law, of "\<lambda>_. [0, 1]" 1 3 5 _ "\<lambda>i. [ucast i]" "\<lambda>x. take 32 (rev x)"]
  by (auto simp: atLeastAtMost_insertL [symmetric])

end
