(* ===== verification/Merkle_Proof.thy ===== *)
theory Merkle_Proof
  imports Ssz_Merkle
begin

text \<open>
  \<open>ConstructProof\<close> of \<open>encoding/ssz/merkleize.go\<close>: the branch of siblings collected while the leaves
  are streamed. Every entry of the branch is the node of the reference tree next to the path, so
  the branch leads from the leaf (or from the zero padding) back to the root of \<open>Merkleize\<close>.
\<close>

function proof_loop ::
  "(bytes \<Rightarrow> bytes) \<Rightarrow> nat \<Rightarrow> u64 \<Rightarrow> u64 \<Rightarrow> u64 \<Rightarrow> nat \<Rightarrow> bytes \<Rightarrow> bytes list \<Rightarrow> bytes list
     \<Rightarrow> (nat \<times> bytes \<times> bytes list) res" where
  "proof_loop hash depth cnt index i j h tmp branch =
     bindR (if drop_bit j i XOR 1 = drop_bit j index
               \<and> (i = cnt \<or> (push_bit j 1 - 1) AND i = push_bit j 1 - 1)
            then arr_set branch j h else Inr branch) (\<lambda>branch.
     if i AND push_bit j 1 = 0
     then if i = cnt \<and> j < depth
          then proof_loop hash depth cnt index i (Suc j) (Combi hash h (ZeroHashes hash j)) tmp branch
          else Inr (j, h, branch)
     else bindR (arr_get tmp j) (\<lambda>t. proof_loop hash depth cnt index i (Suc j) (Combi hash t h) tmp branch))"
  by pat_completeness auto

termination
proof (relation "measure (\<lambda>(hash, depth, cnt, index, i, j, h, tmp, branch). max depth 64 - j)", goal_cases)
  case (3 hash depth cnt index i j h tmp branch branch' t)
  then have "j < 64"
    by (intro bit_test_bound [of i]) (simp add: bit_tests)
  then show ?case by simp
qed auto

declare proof_loop.simps [simp del]

definition proof_merge ::
  "(bytes \<Rightarrow> bytes) \<Rightarrow> nat \<Rightarrow> u64 \<Rightarrow> u64 \<Rightarrow> u64 \<Rightarrow> bytes \<Rightarrow> bytes list \<times> bytes list \<Rightarrow> (bytes list \<times> bytes list) res" where
  "proof_merge hash depth cnt index i h a = (case a of (tmp, branch) \<Rightarrow>
     bindR (proof_loop hash depth cnt index i 0 h tmp branch) (\<lambda>(j, h, branch).
     bindR (arr_set tmp j h) (\<lambda>tmp. Inr (tmp, branch))))"

definition proof_extend ::
  "(bytes \<Rightarrow> bytes) \<Rightarrow> u64 \<Rightarrow> nat \<Rightarrow> bytes list \<times> bytes list \<Rightarrow> (bytes list \<times> bytes list) res" where
  "proof_extend hash index j a = (case a of (tmp, branch) \<Rightarrow>
     bindR (arr_get tmp j) (\<lambda>t.
     bindR (if drop_bit j index = 1 then arr_set branch j t else Inr branch) (\<lambda>branch.
     bindR (arr_set tmp (Suc j) (Combi hash t (ZeroHashes hash j))) (\<lambda>tmp. Inr (tmp, branch)))))"

definition ConstructProof :: "(bytes \<Rightarrow> bytes) \<Rightarrow> u64 \<Rightarrow> u64 \<Rightarrow> (u64 \<Rightarrow> bytes) \<Rightarrow> u64 \<Rightarrow> bytes list res" where
  "ConstructProof hash cnt limit leaf index =
     (if cnt > limit then Inl (Panic ''merkleizing list that is too large, over limit'')
      else if index \<ge> limit then Inl (Panic ''index out of range, over limit'')
      else if limit \<le> 1 then Inr []
      else let depth = unat (Depth cnt); limitDepth = unat (Depth limit);
               branch = map (ZeroHashes hash) [0..<limitDepth];
               tmp = replicate (limitDepth + 1) (replicate 32 0)
           in bindR (foldR (\<lambda>i. proof_merge hash depth cnt index (of_nat i) (to_array 32 (leaf (of_nat i)))) [0..<unat cnt] (tmp, branch)) (\<lambda>a.
              bindR (if push_bit depth 1 \<noteq> cnt then proof_merge hash depth cnt index cnt (ZeroHashes hash 0) a else Inr a) (\<lambda>a.
              bindR (foldR (proof_extend hash index) [depth..<limitDepth] a) (\<lambda>(tmp, branch).
              Inr branch))))"

section \<open>When an entry is written\<close>

lemma unat_xor_one: "unat (w XOR 1 :: u64) = flip_last (unat w)"
proof -
  have "unat (w XOR 1) = unat w XOR 1"
    by (simp add: unsigned_xor_eq)
  also have "\<dots> = flip_last (unat w)"
    by (simp add: flip_last_def xor_Suc_0_eq)
  finally show ?thesis .
qed

lemma flip_last_flip: "flip_last (flip_last b) = b"
  by (auto simp: flip_last_def)

lemma sibling_test: "drop_bit j i XOR 1 = drop_bit j (index :: u64) \<longleftrightarrow> unat i div 2 ^ j = flip_last (unat index div 2 ^ j)"
proof -
  have "unat (drop_bit j x) = unat x div 2 ^ j" for x :: u64
    by (simp only: unat_drop_bit_eq) (simp only: drop_bit_eq_div)
  then show ?thesis
    by (metis flip_last_flip unat_xor_one word_unat_eq_iff)
qed

lemma bit_u64: "bit (i :: u64) n \<longleftrightarrow> odd (unat i div 2 ^ n)"
  using bit_test [of i n] by (auto simp: and_exp_eq_0_iff_not_bit)

lemma low_ones:
  assumes "2 ^ j dvd unat (i :: u64) + 1"
  shows "(push_bit j 1 - 1) AND i = push_bit j 1 - 1"
proof -
  have "bit i n" if "n < j" for n
  proof -
    obtain m where m: "j = Suc (n + m)"
      using \<open>n < j\<close> by (metis less_imp_Suc_add)
    then have "even ((unat i + 1) div 2 ^ n)"
      using assms by (auto elim!: dvdE simp: power_add mult.assoc)
    moreover have "2 ^ n dvd unat i + 1"
      using assms \<open>n < j\<close> by (metis dvd_trans le_imp_power_dvd less_imp_le)
    ultimately show ?thesis
      using div_before_multiple [of n "unat i"] by (simp add: bit_u64)
  qed
  then have "mask j AND i = mask j"
    by (intro bit_eqI) (auto simp: bit_simps)
  then show ?thesis
    by (simp add: mask_eq_decr_exp)
qed

text \<open>\<open>next_to index i m\<close>: at height \<open>m\<close>, the position \<open>i\<close> is under the sibling of the path of \<open>index\<close>.\<close>

definition next_to :: "nat \<Rightarrow> nat \<Rightarrow> nat \<Rightarrow> bool" where
  "next_to index i m \<longleftrightarrow> i div 2 ^ m = flip_last (index div 2 ^ m)"

lemma even_no_higher:
  assumes "2 ^ j dvd (i :: nat) + 1" and "even (i div 2 ^ j)" and "j \<le> m" and "2 ^ m dvd i + 1"
  shows "m = j"
proof (rule ccontr)
  assume "m \<noteq> j"
  then obtain k where "m = Suc (j + k)"
    using assms(3) by (metis le_neq_implies_less less_imp_Suc_add)
  then have "even ((i + 1) div 2 ^ j)"
    using assms(4) by (auto elim!: dvdE simp: power_add mult.assoc)
  then show False
    using div_before_multiple [OF assms(1)] assms(2) by simp
qed

lemma proof_loop_leaf:
  assumes "tmp_ok hash xs (unat i) tmp" and "i \<noteq> cnt" and "2 ^ j dvd unat i + 1" and "h = node hash xs j (unat i div 2 ^ j)"
    and "\<forall>m. 2 ^ m dvd unat i + 1 \<and> next_to (unat index) (unat i) m \<longrightarrow> m < length branch"
  shows "\<exists>k b. proof_loop hash depth cnt index i j h tmp branch = Inr (k, node hash xs k (unat i div 2 ^ k), b)
    \<and> 2 ^ k dvd unat i + 1 \<and> even (unat i div 2 ^ k) \<and> length b = length branch
    \<and> (\<forall>m < length branch. b ! m = (if j \<le> m \<and> 2 ^ m dvd unat i + 1 \<and> next_to (unat index) (unat i) m
                                 then node hash xs m (unat i div 2 ^ m) else branch ! m))"
  using assms
proof (induction hash depth cnt index i j h tmp branch rule: proof_loop.induct)
  case (1 hash depth cnt index i j h tmp branch)
  define b where "b = (if next_to (unat index) (unat i) j then branch[j := h] else branch)"
  have set: "(if drop_bit j i XOR 1 = drop_bit j index \<and> (i = cnt \<or> (push_bit j 1 - 1) AND i = push_bit j 1 - 1)
      then arr_set branch j h else Inr branch) = Inr b"
    using 1(5,7) low_ones [OF 1(5)] by (auto simp: sibling_test next_to_def b_def arr_set_def)
  have lb: "length b = length branch"
    by (simp add: b_def)
  have nb: "b ! m = (if m = j \<and> next_to (unat index) (unat i) j then h else branch ! m)" if "m < length branch" for m
    using that by (auto simp: b_def)
  show ?case
  proof (cases "even (unat i div 2 ^ j)")
    case True
    have "proof_loop hash depth cnt index i j h tmp branch = Inr (j, h, b)"
      using True 1(4) set by (subst proof_loop.simps) (simp add: bit_tests)
    moreover have "\<forall>m < length branch. b ! m = (if j \<le> m \<and> 2 ^ m dvd unat i + 1 \<and> next_to (unat index) (unat i) m
                                 then node hash xs m (unat i div 2 ^ m) else branch ! m)"
      using nb 1(5,6) even_no_higher [OF 1(5) True] by auto
    ultimately show ?thesis
      using True 1(5,6) lb by auto
  next
    case False
    have t: "arr_get tmp j = Inr (node hash xs j (unat i div 2 ^ j - 1))"
      using 1(3) False by (simp add: tmp_ok_def arr_get_def)
    have up: "Combi hash (node hash xs j (unat i div 2 ^ j - 1)) h = node hash xs (Suc j) (unat i div 2 ^ Suc j)"
      using node_odd [OF False, of hash xs] 1(6) by simp
    have "proof_loop hash depth cnt index i j h tmp branch =
        proof_loop hash depth cnt index i (Suc j) (Combi hash (node hash xs j (unat i div 2 ^ j - 1)) h) tmp b"
      using False set t by (subst proof_loop.simps) (simp add: bit_tests)
    moreover obtain k b' where "proof_loop hash depth cnt index i (Suc j) (Combi hash (node hash xs j (unat i div 2 ^ j - 1)) h) tmp b =
        Inr (k, node hash xs k (unat i div 2 ^ k), b')" "2 ^ k dvd unat i + 1" "even (unat i div 2 ^ k)" "length b' = length b"
      "\<forall>m < length b. b' ! m = (if Suc j \<le> m \<and> 2 ^ m dvd unat i + 1 \<and> next_to (unat index) (unat i) m
                                 then node hash xs m (unat i div 2 ^ m) else b ! m)"
      using 1(2) [OF set _ t 1(3,4) dvd_next_power [OF 1(5) False] up] False 1(7) lb by (auto simp: bit_tests)
    ultimately show ?thesis
      using nb lb 1(5,6) by (intro exI [of _ k] exI [of _ b']) (auto simp: Suc_le_eq le_less)
  qed
qed

section \<open>The branch while leaves are merged\<close>

text \<open>The siblings that are complete after \<open>n\<close> leaves are there; the rest is still zero.\<close>

definition branch_ok :: "(bytes \<Rightarrow> bytes) \<Rightarrow> bytes list \<Rightarrow> nat \<Rightarrow> nat \<Rightarrow> bytes list \<Rightarrow> bool" where
  "branch_ok hash xs index n branch \<longleftrightarrow>
     (\<forall>m < length branch. branch ! m =
        (if (flip_last (index div 2 ^ m) + 1) * 2 ^ m \<le> n then node hash xs m (flip_last (index div 2 ^ m)) else ZeroHashes hash m))"

lemma top_not_next_to: "i < 2 ^ L \<Longrightarrow> index < 2 ^ L \<Longrightarrow> \<not> next_to index i L"
  by (simp add: next_to_def flip_last_def)

lemma completes_block:
  assumes "(w + 1) * 2 ^ m = (i :: nat) + 1"
  shows "2 ^ m dvd i + 1 \<and> i div 2 ^ m = w"
proof -
  have d: "2 ^ m dvd i + 1"
    using assms by (metis dvd_triv_right)
  have "(i + 1) div 2 ^ m = w + 1"
    using assms by (metis nonzero_mult_div_cancel_right power_not_zero zero_neq_numeral)
  then show ?thesis
    using d div_before_multiple [OF d] by simp
qed

lemma branch_ok_next:
  assumes "branch_ok hash xs index i branch" and "length b = length branch"
    and "\<forall>m < length branch. b ! m = (if 0 \<le> m \<and> 2 ^ m dvd i + 1 \<and> next_to index i m
                                 then node hash xs m (i div 2 ^ m) else branch ! m)"
  shows "branch_ok hash xs index (i + 1) b"
  unfolding branch_ok_def
proof (intro allI impI)
  fix m
  assume m: "m < length b"
  let ?w = "flip_last (index div 2 ^ m)"
  show "b ! m = (if (?w + 1) * 2 ^ m \<le> i + 1 then node hash xs m ?w else ZeroHashes hash m)"
  proof (cases "2 ^ m dvd i + 1 \<and> next_to index i m")
    case True
    then have "(i div 2 ^ m + 1) * 2 ^ m = i + 1"
      using div_before_multiple [of m i] by (metis dvd_div_mult_self)
    then show ?thesis
      using True assms(2,3) m by (simp add: next_to_def)
  next
    case False
    then have "(?w + 1) * 2 ^ m \<noteq> i + 1"
      using completes_block [of ?w m i] by (auto simp: next_to_def)
    then have "(?w + 1) * 2 ^ m \<le> i + 1 \<longleftrightarrow> (?w + 1) * 2 ^ m \<le> i"
      by linarith
    then show ?thesis
      using False assms m by (auto simp: branch_ok_def)
  qed
qed

lemma proof_merge_leaf:
  assumes "tmp_ok hash xs i tmp" and "branch_ok hash xs (unat index) i branch" and "i < unat cnt" and "i < length xs"
    and "unat cnt \<le> 2 ^ L" and "length tmp = L + 1" and "length branch = L" and "unat index < 2 ^ L"
  shows "\<exists>tmp' branch'. proof_merge hash depth cnt index (of_nat i) (xs ! i) (tmp, branch) = Inr (tmp', branch')
    \<and> tmp_ok hash xs (i + 1) tmp' \<and> branch_ok hash xs (unat index) (i + 1) branch' \<and> length tmp' = L + 1 \<and> length branch' = L"
proof -
  have ui: "unat (of_nat i :: u64) = i"
    using assms(3) unat_lt_2_64 [of cnt] by (simp add: unat_of_nat_u64)
  then have ne: "of_nat i \<noteq> cnt"
    using assms(3) by auto
  have low: "m \<le> L" if "2 ^ m dvd i + 1" for m
  proof -
    have "(2 :: nat) ^ m \<le> 2 ^ L"
      using dvd_imp_le [OF that] assms(3,5) by linarith
    then show ?thesis by simp
  qed
  have "i < 2 ^ L"
    using assms(3,5) by linarith
  then have range: "\<forall>m. 2 ^ m dvd i + 1 \<and> next_to (unat index) i m \<longrightarrow> m < length branch"
    using low top_not_next_to [OF _ assms(8)] assms(7) by (metis le_neq_implies_less)
  have h: "xs ! i = node hash xs 0 (unat (of_nat i :: u64) div 2 ^ 0)"
    using assms(4) by (simp add: block_0 ui)
  obtain k b where k: "proof_loop hash depth cnt index (of_nat i) 0 (xs ! i) tmp branch = Inr (k, node hash xs k (i div 2 ^ k), b)"
    "2 ^ k dvd i + 1" "even (i div 2 ^ k)" "length b = length branch"
    "\<forall>m < length branch. b ! m = (if 0 \<le> m \<and> 2 ^ m dvd i + 1 \<and> next_to (unat index) i m
                                 then node hash xs m (i div 2 ^ m) else branch ! m)"
    using proof_loop_leaf [of hash xs "of_nat i" tmp cnt 0 "xs ! i" index branch depth] assms(1) ne h range by (auto simp: ui)
  have "k < length tmp"
    using low [OF k(2)] assms(6) by simp
  then show ?thesis
    using k tmp_ok_next [OF assms(1) k(2,3)] branch_ok_next [OF assms(2) k(4,5)] assms(6,7)
    by (simp add: proof_merge_def arr_set_def)
qed

lemma proof_merge_leaves:
  assumes "xs = map (\<lambda>i. to_array 32 (leaf (of_nat i))) [0..<unat cnt]" and "unat cnt \<le> 2 ^ L" and "unat index < 2 ^ L" and "n \<le> unat cnt"
  shows "\<exists>tmp branch. foldR (\<lambda>i. proof_merge hash depth cnt index (of_nat i) (to_array 32 (leaf (of_nat i)))) [0..<n]
      (replicate (L + 1) (replicate 32 0), map (ZeroHashes hash) [0..<L]) = Inr (tmp, branch)
    \<and> tmp_ok hash xs n tmp \<and> branch_ok hash xs (unat index) n branch \<and> length tmp = L + 1 \<and> length branch = L"
  using assms(4)
proof (induction n)
  case 0
  then show ?case by (simp add: tmp_ok_def branch_ok_def)
next
  case (Suc n)
  then obtain tmp branch where t: "foldR (\<lambda>i. proof_merge hash depth cnt index (of_nat i) (to_array 32 (leaf (of_nat i)))) [0..<n]
      (replicate (L + 1) (replicate 32 0), map (ZeroHashes hash) [0..<L]) = Inr (tmp, branch)"
    "tmp_ok hash xs n tmp" "branch_ok hash xs (unat index) n branch" "length tmp = L + 1" "length branch = L"
    by auto
  have "xs ! n = to_array 32 (leaf (of_nat n))" "n < length xs"
    using Suc.prems assms(1) by simp_all
  then show ?case
    using proof_merge_leaf [OF t(2,3), of cnt L depth] t assms(2,3) Suc.prems by (auto simp: foldR_append)
qed

section \<open>Padding and extension\<close>

lemma proof_loop_pad:
  assumes "tmp_ok hash xs (unat cnt) tmp" and "length xs = unat cnt" and "unat cnt < 2 ^ depth" and "j \<le> depth"
    and "h = node hash xs j (unat cnt div 2 ^ j)" and "i = cnt"
    and "\<forall>m \<le> depth. next_to (unat index) (unat cnt) m \<longrightarrow> m < length branch"
  shows "\<exists>b. proof_loop hash depth cnt index i j h tmp branch = Inr (depth, node hash xs depth 0, b) \<and> length b = length branch
    \<and> (\<forall>m < length branch. b ! m = (if j \<le> m \<and> m \<le> depth \<and> next_to (unat index) (unat cnt) m
                                 then node hash xs m (unat cnt div 2 ^ m) else branch ! m))"
  using assms
proof (induction hash depth cnt index i j h tmp branch rule: proof_loop.induct)
  case (1 hash depth cnt index i j h tmp branch)
  define b where "b = (if next_to (unat index) (unat cnt) j then branch[j := h] else branch)"
  have set: "(if drop_bit j i XOR 1 = drop_bit j index \<and> (i = cnt \<or> (push_bit j 1 - 1) AND i = push_bit j 1 - 1)
      then arr_set branch j h else Inr branch) = Inr b"
    using 1(6,8,9) by (auto simp: sibling_test next_to_def b_def arr_set_def)
  have lb: "length b = length branch"
    by (simp add: b_def)
  have nb: "b ! m = (if m = j \<and> next_to (unat index) (unat cnt) j then h else branch ! m)" if "m < length branch" for m
    using that by (auto simp: b_def)
  show ?case
  proof (cases "j = depth")
    case True
    then have "unat cnt div 2 ^ j = 0"
      using 1(5) by simp
    then show ?thesis
      using 1(7,8) True set lb nb by (subst proof_loop.simps) (auto simp: bit_tests)
  next
    case False
    then have j: "j < depth" "Suc j \<le> depth"
      using 1(6) by simp_all
    have "\<exists>b'. proof_loop hash depth cnt index i j h tmp branch = Inr (depth, node hash xs depth 0, b') \<and> length b' = length b
      \<and> (\<forall>m < length b. b' ! m = (if Suc j \<le> m \<and> m \<le> depth \<and> next_to (unat index) (unat cnt) m
                                 then node hash xs m (unat cnt div 2 ^ m) else b ! m))"
    proof (cases "even (unat cnt div 2 ^ j)")
      case True
      have "ZeroHashes hash j = node hash xs j (unat cnt div 2 ^ j + 1)"
        using 1(4) dividend_less_div_times [of "2 ^ j" "unat cnt"]
        by (intro mk.block_zero [symmetric]) (simp add: algebra_simps)
      then have up: "Combi hash h (ZeroHashes hash j) = node hash xs (Suc j) (unat cnt div 2 ^ Suc j)"
        using node_even [OF True, of hash xs] 1(7) by simp
      show ?thesis
        using 1(1) [OF set _ _ 1(3,4,5) j(2) up 1(8)] 1(8,9) j True set lb by (subst proof_loop.simps) (simp add: bit_tests)
    next
      case odd: False
      have t: "arr_get tmp j = Inr (node hash xs j (unat cnt div 2 ^ j - 1))"
        using 1(3) odd by (simp add: tmp_ok_def arr_get_def)
      have up: "Combi hash (node hash xs j (unat cnt div 2 ^ j - 1)) h = node hash xs (Suc j) (unat cnt div 2 ^ Suc j)"
        using node_odd [OF odd, of hash xs] 1(7) by simp
      show ?thesis
        using 1(2) [OF set _ t 1(3,4,5) j(2) up 1(8)] 1(8,9) j odd set lb t by (subst proof_loop.simps) (simp add: bit_tests)
    qed
    then obtain b' where b': "proof_loop hash depth cnt index i j h tmp branch = Inr (depth, node hash xs depth 0, b')" "length b' = length b"
      "\<forall>m < length b. b' ! m = (if Suc j \<le> m \<and> m \<le> depth \<and> next_to (unat index) (unat cnt) m
                                 then node hash xs m (unat cnt div 2 ^ m) else b ! m)"
      by blast
    then show ?thesis
      using nb lb j 1(7) by (intro exI [of _ b']) (auto simp: Suc_le_eq le_less)
  qed
qed

text \<open>After the padding, only a sibling that is the whole list may be missing.\<close>

lemma branch_padded:
  assumes "branch_ok hash xs index n branch" and "length xs = n" and "n \<le> 2 ^ depth" and "length b = length branch"
    and "n < 2 ^ depth \<Longrightarrow> \<forall>m < length branch. b ! m = (if 0 \<le> m \<and> m \<le> depth \<and> next_to index n m then node hash xs m (n div 2 ^ m) else branch ! m)"
    and "n = 2 ^ depth \<Longrightarrow> b = branch"
    and "m < length branch" and "m \<le> depth \<or> flip_last (index div 2 ^ m) \<noteq> 0"
  shows "b ! m = node hash xs m (flip_last (index div 2 ^ m))"
proof -
  let ?w = "flip_last (index div 2 ^ m)"
  have zero: "ZeroHashes hash m = node hash xs m ?w" if "n \<le> ?w * 2 ^ m"
    using that assms(2) by (intro mk.block_zero [symmetric]) simp
  have above: "n \<le> ?w * 2 ^ m" if "?w \<noteq> 0" "depth \<le> m"
  proof -
    have "n \<le> 2 ^ m"
      using assms(3) power_increasing [OF \<open>depth \<le> m\<close>, of "2 :: nat"] by linarith
    also have "\<dots> \<le> ?w * 2 ^ m"
      using that(1) by simp
    finally show ?thesis .
  qed
  have old: "branch ! m = (if (?w + 1) * 2 ^ m \<le> n then node hash xs m ?w else ZeroHashes hash m)"
    using assms(1,7) by (simp add: branch_ok_def)
  show ?thesis
  proof (cases "n = 2 ^ depth")
    case True
    show ?thesis
    proof (cases "m \<le> depth")
      case m: True
      have n: "n = 2 ^ (depth - m) * 2 ^ m"
        using True m by (simp add: power_add [symmetric])
      have "n \<le> ?w * 2 ^ m" if "\<not> (?w + 1) * 2 ^ m \<le> n"
        using that unfolding n not_le mult_less_cancel2 mult_le_cancel2 by simp
      then show ?thesis
        using assms(6) True old zero by auto
    next
      case False
      then show ?thesis
        using assms(6,8) True old zero above by auto
    qed
  next
    case False
    then have "n < 2 ^ depth"
      using assms(3) by simp
    then have b: "b ! m = (if m \<le> depth \<and> next_to index n m then node hash xs m (n div 2 ^ m) else branch ! m)"
      using assms(5,7) by simp
    have "n \<le> ?w * 2 ^ m" if "\<not> (?w + 1) * 2 ^ m \<le> n" "?w \<noteq> n div 2 ^ m"
    proof -
      have "n div 2 ^ m < ?w + 1"
        using that(1) by (simp add: div_less_iff_less_mult)
      then have "n div 2 ^ m < ?w"
        using that(2) by simp
      then show ?thesis
        by (simp add: div_less_iff_less_mult)
    qed
    then show ?thesis
      using b old zero above assms(8) by (auto simp: next_to_def)
  qed
qed

lemma proof_extends:
  assumes "length xs \<le> 2 ^ d" and "length tmp = L + 1" and "length branch = L" and "tmp ! d = root_of hash d xs" and "d + n \<le> L"
  shows "\<exists>tmp' branch'. foldR (proof_extend hash index) [d..<d + n] (tmp, branch) = Inr (tmp', branch')
    \<and> length tmp' = L + 1 \<and> length branch' = L \<and> tmp' ! (d + n) = root_of hash (d + n) xs
    \<and> (\<forall>m < L. branch' ! m = (if d \<le> m \<and> m < d + n \<and> unat index div 2 ^ m = 1 then root_of hash m xs else branch ! m))"
  using assms(5)
proof (induction n)
  case 0
  then show ?case using assms(2-4) by auto
next
  case (Suc n)
  then obtain t b where t: "foldR (proof_extend hash index) [d..<d + n] (tmp, branch) = Inr (t, b)"
    "length t = L + 1" "length b = L" "t ! (d + n) = root_of hash (d + n) xs"
    "\<forall>m < L. b ! m = (if d \<le> m \<and> m < d + n \<and> unat index div 2 ^ m = 1 then root_of hash m xs else branch ! m)"
    by auto
  have "length xs \<le> 2 ^ (d + n)"
    using assms(1) power_increasing [of d "d + n" "2 :: nat"] by linarith
  then have up: "Combi hash (t ! (d + n)) (ZeroHashes hash (d + n)) = root_of hash (Suc (d + n)) xs"
    using t(4) by (simp only: mk.mroot_above)
  have one: "drop_bit (d + n) index = 1 \<longleftrightarrow> unat index div 2 ^ (d + n) = 1"
  proof -
    have "unat (drop_bit (d + n) index) = unat index div 2 ^ (d + n)"
      by (simp only: unat_drop_bit_eq) (simp only: drop_bit_eq_div)
    then show ?thesis
      by (simp add: unat_eq_u64)
  qed
  have "proof_extend hash index (d + n) (t, b) = Inr (t[Suc (d + n) := root_of hash (Suc (d + n)) xs],
      if unat index div 2 ^ (d + n) = 1 then b[d + n := root_of hash (d + n) xs] else b)"
    using Suc.prems t(2-4) up
    by (simp add: proof_extend_def arr_get_def arr_set_def one del: mroot.simps)
  moreover have "Suc (d + n) < length t" "d + n < L"
    using Suc.prems t(2) by simp_all
  ultimately show ?case
    using t by (auto simp: foldR_append nth_list_update less_Suc_eq simp del: mroot.simps)
qed

lemma flip_last_eq_0: "flip_last b = 0 \<longleftrightarrow> b = 1"
  by (auto simp: flip_last_def elim: oddE)

lemma proof_padded:
  assumes "length xs = unat cnt" and "depth = unat (Depth cnt)" and "depth \<le> L" and "length tmp = L + 1" and "length branch = L"
    and "tmp_ok hash xs (unat cnt) tmp" and "branch_ok hash xs (unat index) (unat cnt) branch" and "unat index < 2 ^ L"
  shows "\<exists>tmp' branch'. (if push_bit depth 1 \<noteq> cnt then proof_merge hash depth cnt index cnt (ZeroHashes hash 0) (tmp, branch) else Inr (tmp, branch))
      = Inr (tmp', branch') \<and> length tmp' = L + 1 \<and> length branch' = L \<and> tmp' ! depth = root_of hash depth xs
    \<and> (\<forall>m < L. m \<le> depth \<or> flip_last (unat index div 2 ^ m) \<noteq> 0 \<longrightarrow> branch' ! m = node hash xs m (flip_last (unat index div 2 ^ m)))"
proof (cases "2 ^ depth = unat cnt")
  case True
  then have "unat cnt div 2 ^ depth = 1"
    by (metis div_self power_not_zero zero_neq_numeral)
  then have "tmp ! depth = node hash xs depth 0"
    using assms(6) by (auto simp: tmp_ok_def dest: spec [of _ depth])
  moreover have "\<forall>m < L. m \<le> depth \<or> flip_last (unat index div 2 ^ m) \<noteq> 0 \<longrightarrow> branch ! m = node hash xs m (flip_last (unat index div 2 ^ m))"
    using branch_padded [OF assms(7,1), of depth branch] True assms(5) by auto
  ultimately show ?thesis
    using True push_bit_eq_count [OF assms(2)] assms(4,5) by (simp add: block_root)
next
  case False
  then have lt: "unat cnt < 2 ^ depth"
    using Depth_fits [of cnt] assms(2) by simp
  then have "unat cnt < 2 ^ L"
    using power_increasing [OF assms(3), of "2 :: nat"] by linarith
  then have range: "\<forall>m \<le> depth. next_to (unat index) (unat cnt) m \<longrightarrow> m < length branch"
    using top_not_next_to [OF _ assms(8)] assms(3,5) by (metis le_neq_implies_less le_trans)
  have h: "ZeroHashes hash 0 = node hash xs 0 (unat cnt div 2 ^ 0)"
    using assms(1) by (simp add: block_0)
  obtain b where b: "proof_loop hash depth cnt index cnt 0 (ZeroHashes hash 0) tmp branch = Inr (depth, node hash xs depth 0, b)"
    "length b = length branch" "\<forall>m < length branch. b ! m = (if 0 \<le> m \<and> m \<le> depth \<and> next_to (unat index) (unat cnt) m
                                 then node hash xs m (unat cnt div 2 ^ m) else branch ! m)"
    using proof_loop_pad [OF assms(6,1) lt le0 h refl range] by blast
  have "\<forall>m < L. m \<le> depth \<or> flip_last (unat index div 2 ^ m) \<noteq> 0 \<longrightarrow> b ! m = node hash xs m (flip_last (unat index div 2 ^ m))"
    using branch_padded [OF assms(7,1) less_imp_le [OF lt] b(2,3)] lt assms(5) by auto
  then show ?thesis
    using False push_bit_eq_count [OF assms(2)] assms(3-5) b(1,2) by (simp add: proof_merge_def arr_set_def block_root)
qed

text \<open>The branch is the list of the siblings.\<close>

lemma ConstructProof_siblings:
  assumes "cnt \<le> limit" and "index < limit" and "L = unat (Depth limit)"
    and "xs = map (\<lambda>i. to_array 32 (leaf (of_nat i))) [0..<unat cnt]"
  shows "ConstructProof hash cnt limit leaf index =
    Inr (map (\<lambda>m. node hash xs m (flip_last (unat index div 2 ^ m))) [0..<L])"
proof (cases "limit \<le> 1")
  case True
  then show ?thesis
    using assms by (simp add: ConstructProof_def Depth_def not_less [symmetric])
next
  case False
  let ?d = "unat (Depth cnt)" and ?w = "\<lambda>m. flip_last (unat index div 2 ^ m)"
  have iL: "unat index < 2 ^ L" "unat cnt \<le> 2 ^ L"
    using assms(1-3) Depth_fits [of limit] by (simp_all add: unat_less_u64 unat_le_u64)
  have dL: "?d \<le> L"
    using Depth_mono [OF assms(1)] assms(3) by simp
  obtain t1 b1 where 1: "foldR (\<lambda>i. proof_merge hash ?d cnt index (of_nat i) (to_array 32 (leaf (of_nat i)))) [0..<unat cnt]
      (replicate (L + 1) (replicate 32 0), map (ZeroHashes hash) [0..<L]) = Inr (t1, b1)"
    "tmp_ok hash xs (unat cnt) t1" "branch_ok hash xs (unat index) (unat cnt) b1" "length t1 = L + 1" "length b1 = L"
    using proof_merge_leaves [OF assms(4) iL(2,1), of "unat cnt" hash ?d] by auto
  obtain t2 b2 where 2: "(if push_bit ?d 1 \<noteq> cnt then proof_merge hash ?d cnt index cnt (ZeroHashes hash 0) (t1, b1) else Inr (t1, b1))
      = Inr (t2, b2)" "length t2 = L + 1" "length b2 = L" "t2 ! ?d = root_of hash ?d xs"
    "\<forall>m < L. m \<le> ?d \<or> ?w m \<noteq> 0 \<longrightarrow> b2 ! m = node hash xs m (?w m)"
    using proof_padded [OF _ refl dL 1(4,5,2,3) iL(1)] assms(4) by auto
  obtain t3 b3 where 3: "foldR (proof_extend hash index) [?d..<L] (t2, b2) = Inr (t3, b3)" "length b3 = L"
    "\<forall>m < L. b3 ! m = (if ?d \<le> m \<and> unat index div 2 ^ m = 1 then root_of hash m xs else b2 ! m)"
    using proof_extends [of xs ?d t2 L b2 hash "L - ?d" index] 2 dL Depth_fits [of cnt] assms(4) by auto
  have "b3 ! m = node hash xs m (?w m)" if "m < L" for m
    using 2(5) 3(3) that flip_last_eq_0 [of "unat index div 2 ^ m"] block_root [of "Combi hash" "ZeroHashes hash" xs m]
    by (auto simp: not_le)
  then have "b3 = map (\<lambda>m. node hash xs m (?w m)) [0..<L]"
    using 3(2) by (intro nth_equalityI) auto
  then show ?thesis
    using False assms(1-3) 1(1) 2(1) 3(1) by (simp add: ConstructProof_def Let_def not_le [symmetric] not_less)
qed

section \<open>Properties\<close>

text \<open>C28: A constructed proof verifies: for every index below the capacity, also one in the zero padding,
  \<open>ConstructProof\<close> returns a branch of the depth of the tree that leads from the leaf at the index to the
  root that \<open>Merkleize\<close> computes from the same leaves.\<close>

theorem ConstructProof_verifies:
  assumes "cnt \<le> limit" and "index < limit"
  shows "\<exists>branch. ConstructProof hash cnt limit leaf index = Inr branch \<and> length branch = unat (Depth limit)
    \<and> Merkleize hash cnt limit leaf =
        Inr (climb (Combi hash) (if index < cnt then to_array 32 (leaf index) else replicate 32 0) (unat index) branch)"
proof -
  let ?xs = "map (\<lambda>i. to_array 32 (leaf (of_nat i))) [0..<unat cnt]" and ?L = "unat (Depth limit)"
  have leaf: "(if index < cnt then to_array 32 (leaf index) else replicate 32 0) = node hash ?xs 0 (unat index)"
    by (simp add: block_0 unat_less_u64)
  have "unat index < 2 ^ ?L"
    using assms Depth_fits [of limit] by (simp add: unat_less_u64)
  then have "unat index div 2 ^ ?L = 0"
    by simp
  then show ?thesis
    using ConstructProof_siblings [OF assms refl refl, of hash leaf] climb_siblings [of "Combi hash" "ZeroHashes hash" ?xs "unat index" ?L]
      leaf Merkleize_root [OF assms(1), of hash leaf]
    by (auto simp: block_root simp del: mroot.simps)
qed

theorem ConstructProof_verifies_witness:
  "\<exists>branch. ConstructProof (\<lambda>x. take 32 (rev x)) 3 6 (\<lambda>i. [ucast i]) 4 = Inr branch \<and> length branch = unat (Depth 6)
    \<and> Merkleize (\<lambda>x. take 32 (rev x)) 3 6 (\<lambda>i. [ucast i]) = Inr (climb (Combi (\<lambda>x. take 32 (rev x))) (replicate 32 0) 4 branch)"
  using ConstructProof_verifies [of 3 6 4 "\<lambda>x. take 32 (rev x)" "\<lambda>i. [ucast i]"] by simp

end
