(* ===== verification/Sparse_Trie.thy ===== *)
theory Sparse_Trie
  imports Ssz_Merkle
begin

text \<open>
  \<open>container/trie/sparse_merkle.go\<close>: the deposit trie, kept as its layers. \<open>trie_ok\<close> says that every
  stored node is the node of the reference tree over the leaves and that what is not stored is
  zero; generation establishes it and insertion without a gap keeps it. Proofs taken from such a
  trie verify against its root. An insertion that leaves a gap breaks the layers.
\<close>

record SparseMerkleTrie =
  t_depth :: nat
  branches :: "bytes list list"
  originalItems :: "bytes list"

fun trie_layers :: "(bytes \<Rightarrow> bytes) \<Rightarrow> nat \<Rightarrow> nat \<Rightarrow> bytes list \<Rightarrow> bytes list list" where
  "trie_layers hash i 0 l = [l]"
| "trie_layers hash i (Suc n) l =
     (let l = (if length l mod 2 = 1 then l @ [ZeroHashes hash i] else l)
      in l # trie_layers hash (Suc i) n (hash_pairs hash l))"

definition GenerateTrieFromItems :: "(bytes \<Rightarrow> bytes) \<Rightarrow> bytes list \<Rightarrow> u64 \<Rightarrow> SparseMerkleTrie res" where
  "GenerateTrieFromItems hash items depth =
     (if items = [] then Inl (Err ''no items provided to generate Merkle trie'')
      else if depth \<ge> 63 then Inl (Err ''supported merkle trie depth exceeded'')
      else Inr \<lparr>t_depth = unat depth, branches = trie_layers hash 0 (unat depth) (map ToBytes32 items), originalItems = items\<rparr>)"

definition trie_validate :: "SparseMerkleTrie \<Rightarrow> unit res" where
  "trie_validate m =
     (if branches m = [] then Inl (Err ''no branches'')
      else if last (branches m) = [] then Inl (Err ''invalid branches provided'')
      else if t_depth m \<ge> length (branches m) then Inl (Err ''depth is greater than or equal to number of branches'')
      else if t_depth m \<ge> 63 then Inl (Err ''supported merkle trie depth exceeded'')
      else Inr ())"

text \<open>The protobuf message has the same three fields; \<open>Depth\<close> is a \<open>uint64\<close>.\<close>

definition CreateTrieFromProto :: "SparseMerkleTrie \<Rightarrow> SparseMerkleTrie res" where
  "CreateTrieFromProto obj = wrapR ''invalid sparse merkle trie'' (bindR (trie_validate obj) (\<lambda>_. Inr obj))"

definition trie_HashTreeRoot :: "(bytes \<Rightarrow> bytes) \<Rightarrow> SparseMerkleTrie \<Rightarrow> bytes res" where
  "trie_HashTreeRoot hash m =
     (let depositCount = (if length (originalItems m) = 1 \<and> originalItems m ! 0 = ZeroHashes hash 0 then 0
                          else of_nat (length (originalItems m))) :: u64
      in if branches m = [] then Inl (Panic ''index out of range'')
         else bindR (arr_get (last (branches m)) 0) (\<lambda>r. Inr (hash (r @ put_le 8 (unat depositCount) @ replicate 24 0))))"

definition pad_to :: "bytes \<Rightarrow> nat \<Rightarrow> bytes list \<Rightarrow> bytes list" where
  "pad_to z index xs = xs @ replicate (index + 1 - length xs) z"

text \<open>One turn of the loop of \<open>Insert\<close> on the branches, the current index and the new node.\<close>

definition insert_step ::
  "(bytes \<Rightarrow> bytes) \<Rightarrow> nat \<Rightarrow> bytes list list \<times> nat \<times> bytes \<Rightarrow> (bytes list list \<times> nat \<times> bytes) res" where
  "insert_step hash i a = (case a of (brs, currentIndex, root) \<Rightarrow>
     bindR (arr_get brs i) (\<lambda>level.
     bindR (arr_get brs (i + 1)) (\<lambda>above.
     let isLeft = (currentIndex mod 2 = 0);
         neighborIdx = flip_last currentIndex;
         neighbor = (if neighborIdx \<ge> length level then ZeroHashes hash i else level ! neighborIdx);
         root = (if isLeft then hash (root @ neighbor) else hash (neighbor @ root));
         parentIdx = currentIndex div 2;
         above = (if above = [] \<or> parentIdx \<ge> length above then above @ [root] else above[parentIdx := root])
     in Inr (brs[i + 1 := above], parentIdx, root))))"

definition trie_Insert :: "(bytes \<Rightarrow> bytes) \<Rightarrow> SparseMerkleTrie \<Rightarrow> bytes \<Rightarrow> int \<Rightarrow> SparseMerkleTrie res" where
  "trie_Insert hash m item index =
     (if index < 0 then Inl (Err ''negative index provided'')
      else let k = nat index; someItem = ToBytes32 item
           in bindR (arr_get (branches m) 0) (\<lambda>leaves.
              let brs = (branches m)[0 := (pad_to (ZeroHashes hash 0) k leaves)[k := someItem]];
                  items = (if k \<ge> length (originalItems m) then originalItems m @ [someItem]
                           else (originalItems m)[k := someItem])
              in bindR (foldR (insert_step hash) [0..<t_depth m] (brs, k, someItem)) (\<lambda>(brs, _, _).
                 Inr (m\<lparr>branches := brs, originalItems := items\<rparr>))))"

definition MerkleProof :: "(bytes \<Rightarrow> bytes) \<Rightarrow> SparseMerkleTrie \<Rightarrow> int \<Rightarrow> bytes list res" where
  "MerkleProof hash m index =
     (if index < 0 then Inl (Err ''merkle index is negative'')
      else bindR (arr_get (branches m) 0) (\<lambda>leaves.
      if nat index \<ge> length leaves then Inl (Err ''merkle index out of range in trie'')
      else bindR (mapR (\<lambda>i. bindR (arr_get (branches m) i) (\<lambda>level.
                  let subIndex = flip_last (nat index div 2 ^ i)
                  in Inr (if subIndex < length level then ToBytes32 (level ! subIndex) else ZeroHashes hash i)))
                  [0..<t_depth m]) (\<lambda>siblings.
           Inr (siblings @ [put_le 8 (length (originalItems m)) @ replicate 24 0]))))"

definition VerifyMerkleProofWithDepth :: "(bytes \<Rightarrow> bytes) \<Rightarrow> bytes \<Rightarrow> bytes \<Rightarrow> u64 \<Rightarrow> bytes list \<Rightarrow> u64 \<Rightarrow> bool" where
  "VerifyMerkleProofWithDepth hash root item merkleIndex pf depth =
     (if of_nat (length pf) \<noteq> depth + 1 then False
      else if depth \<ge> 64 then False
      else root = fold (\<lambda>i node. if (merkleIndex div push_bit i 1) mod 2 \<noteq> 0 then hash (pf ! i @ node) else hash (node @ pf ! i))
                    [0..<unat depth + 1] (ToBytes32 item))"

definition VerifyMerkleProof :: "(bytes \<Rightarrow> bytes) \<Rightarrow> bytes \<Rightarrow> bytes \<Rightarrow> u64 \<Rightarrow> bytes list \<Rightarrow> bool" where
  "VerifyMerkleProof hash root item merkleIndex pf =
     (if pf = [] then False
      else VerifyMerkleProofWithDepth hash root item merkleIndex pf (of_nat (length pf - 1)))"

section \<open>Well-formed tries\<close>

definition level_ok :: "(bytes \<Rightarrow> bytes) \<Rightarrow> bytes list \<Rightarrow> nat \<Rightarrow> bytes list \<Rightarrow> bool" where
  "level_ok hash leaves j level \<longleftrightarrow> level \<noteq> [] \<and> length leaves \<le> length level * 2 ^ j
     \<and> (\<forall>b < length level. level ! b = node hash leaves j b)"

definition trie_ok :: "(bytes \<Rightarrow> bytes) \<Rightarrow> SparseMerkleTrie \<Rightarrow> bool" where
  "trie_ok hash m \<longleftrightarrow> t_depth m < 63 \<and> length (branches m) = t_depth m + 1
     \<and> (\<forall>x \<in> set (branches m ! 0). length x = 32)
     \<and> (\<forall>j \<le> t_depth m. level_ok hash (branches m ! 0) j (branches m ! j))"

lemma level_ok_get:
  assumes "level_ok hash leaves j level"
  shows "(if b < length level then level ! b else ZeroHashes hash j) = node hash leaves j b"
proof (cases "b < length level")
  case False
  then have "length level * 2 ^ j \<le> b * 2 ^ j"
    by simp
  then have "length leaves \<le> b * 2 ^ j"
    using assms unfolding level_ok_def by linarith
  then show ?thesis
    using False by (simp add: mk.block_zero)
qed (use assms in \<open>simp add: level_ok_def\<close>)

text \<open>Zero leaves at the end change no node.\<close>

lemma node_pad: "node hash (leaves @ replicate k (ZeroHashes hash 0)) j b = node hash leaves j b"
proof (induction j arbitrary: b)
  case 0
  show ?case
    by (auto simp: block_0 nth_append)
next
  case (Suc j)
  then show ?case
    by (simp add: block_Suc)
qed

text \<open>A new leaf changes only the nodes above it.\<close>

lemma node_update: "b \<noteq> i div 2 ^ j \<Longrightarrow> node hash (leaves[i := x]) j b = node hash leaves j b"
proof (induction j arbitrary: b)
  case 0
  then show ?case
    by (auto simp: block_0)
next
  case (Suc j)
  have "b \<noteq> i div 2 ^ j div 2"
    using Suc.prems by (simp only: div_Suc_pow not_False_eq_True)
  then have "2 * b \<noteq> i div 2 ^ j" "2 * b + 1 \<noteq> i div 2 ^ j"
    by auto
  then show ?case
    using Suc.IH by (simp add: block_Suc)
qed

section \<open>Generation\<close>

lemma level_ok_pad:
  assumes "level_ok hash leaves j level"
  shows "level_ok hash leaves j (if length level mod 2 = 1 then level @ [ZeroHashes hash j] else level)"
proof (cases "length level mod 2 = 1")
  case True
  have "(level @ [ZeroHashes hash j]) ! b = node hash leaves j b" if "b < Suc (length level)" for b
    using level_ok_get [OF assms, of b] that by (auto simp: nth_append less_Suc_eq)
  moreover have "length leaves \<le> Suc (length level) * 2 ^ j"
    using assms by (simp add: level_ok_def)
  ultimately show ?thesis
    using True by (simp add: level_ok_def)
qed (use assms in simp)

lemma level_ok_pairs:
  assumes "level_ok hash leaves j l" and "even (length l)"
  shows "level_ok hash leaves (Suc j) (hash_pairs hash l)"
proof -
  obtain n where n: "length l = 2 * n"
    using assms(2) by (auto elim: evenE)
  have "hash_pairs hash l ! b = node hash leaves (Suc j) b" if "b < n" for b
    using layer_nth [of b "Combi hash" "[]" l] that assms(1) n by (simp add: hash_pairs_def block_Suc level_ok_def)
  moreover have "length leaves \<le> n * 2 ^ Suc j"
    using assms(1) n by (simp add: level_ok_def mult.assoc mult.left_commute)
  ultimately show ?thesis
    using assms(1) n by (simp add: level_ok_def hash_pairs_def)
qed

lemma layer_level_ok:
  assumes "level_ok hash leaves j level"
  shows "level_ok hash leaves (Suc j) (hash_pairs hash (if length level mod 2 = 1 then level @ [ZeroHashes hash j] else level))"
  by (rule level_ok_pairs [OF level_ok_pad [OF assms]]) (simp add: mod_2_eq_odd)

lemma trie_layers_ok:
  "level_ok hash leaves i l \<Longrightarrow> length (trie_layers hash i n l) = Suc n
     \<and> (\<forall>j \<le> n. level_ok hash leaves (i + j) (trie_layers hash i n l ! j))"
proof (induction n arbitrary: i l)
  case (Suc n)
  let ?l = "if length l mod 2 = 1 then l @ [ZeroHashes hash i] else l"
  note IH = Suc.IH [OF layer_level_ok [OF Suc.prems]]
  have "level_ok hash leaves (i + j) (trie_layers hash i (Suc n) l ! j)" if "j \<le> Suc n" for j
  proof (cases j)
    case 0
    then show ?thesis
      using level_ok_pad [OF Suc.prems] by (simp add: Let_def)
  next
    case (Suc j')
    then show ?thesis
      using IH that by (simp add: Let_def)
  qed
  then show ?case
    using IH by (simp add: Let_def)
qed simp

lemma length_ToBytes32 [simp]: "length (ToBytes32 x) = 32"
  by (simp add: ToBytes32_def)

lemma level_ok_self: "leaves \<noteq> [] \<Longrightarrow> level_ok hash leaves 0 leaves"
  by (simp add: level_ok_def block_0)

text \<open>The stored leaves may have one zero leaf more than the items.\<close>

lemma trie_layers_root:
  assumes "xs \<noteq> []" and "brs = trie_layers hash 0 n xs"
  shows "length brs = Suc n" and "\<exists>k. brs ! 0 = xs @ replicate k (ZeroHashes hash 0)"
    and "j \<le> n \<Longrightarrow> level_ok hash (brs ! 0) j (brs ! j)"
proof -
  have "length brs = Suc n \<and> (\<exists>k. brs ! 0 = xs @ replicate k (ZeroHashes hash 0)) \<and> (\<forall>j \<le> n. level_ok hash (brs ! 0) j (brs ! j))"
  proof (cases n)
    case 0
    then show ?thesis
      using assms level_ok_self by (auto intro: exI [of _ 0])
  next
    case (Suc n')
    define l where "l = (if length xs mod 2 = 1 then xs @ [ZeroHashes hash 0] else xs)"
    have brs: "brs = l # trie_layers hash 1 n' (hash_pairs hash l)"
      using assms(2) by (simp add: Suc l_def Let_def)
    have l: "l \<noteq> []" "even (length l)" "\<exists>k. l = xs @ replicate k (ZeroHashes hash 0)"
      using assms(1) by (auto simp: l_def mod_2_eq_odd intro: exI [of _ 0] exI [of _ "Suc 0"])
    have "level_ok hash l 1 (hash_pairs hash l)"
      using level_ok_pairs [OF level_ok_self [OF l(1), of hash]] l(2) by simp
    note up = trie_layers_ok [OF this, of n']
    have "level_ok hash l j (brs ! j)" if "j \<le> n" for j
      using up that level_ok_self [OF l(1)] by (cases j) (simp_all add: brs Suc)
    then show ?thesis
      using up l(3) by (auto simp: brs Suc)
  qed
  then show "length brs = Suc n" "\<exists>k. brs ! 0 = xs @ replicate k (ZeroHashes hash 0)"
    "j \<le> n \<Longrightarrow> level_ok hash (brs ! 0) j (brs ! j)"
    by auto
qed

lemma GenerateTrieFromItems_ok:
  assumes "items \<noteq> []" and "depth < 63"
  shows "\<exists>m. GenerateTrieFromItems hash items depth = Inr m \<and> trie_ok hash m \<and> originalItems m = items
    \<and> t_depth m = unat depth \<and> (\<exists>k. branches m ! 0 = map ToBytes32 items @ replicate k (ZeroHashes hash 0))"
proof -
  have ne: "map ToBytes32 items \<noteq> []"
    using assms(1) by simp
  obtain k where k: "trie_layers hash 0 (unat depth) (map ToBytes32 items) ! 0 = map ToBytes32 items @ replicate k (ZeroHashes hash 0)"
    using trie_layers_root(2) [OF ne refl] by blast
  have ok: "level_ok hash (map ToBytes32 items @ replicate k (ZeroHashes hash 0)) j
      (trie_layers hash 0 (unat depth) (map ToBytes32 items) ! j)" if "j \<le> unat depth" for j
    using trie_layers_root(3) [OF ne refl that, of hash] by (simp only: k)
  have "length (trie_layers hash 0 (unat depth) (map ToBytes32 items)) = unat depth + 1"
    using trie_layers_root(1) [OF ne refl, of hash "unat depth"] by simp
  then show ?thesis
    using ok k assms by (auto simp: GenerateTrieFromItems_def trie_ok_def unat_less_u64 not_less [symmetric])
qed

section \<open>Insertion\<close>

text \<open>Up to height \<open>i\<close> the layers are those of the new leaves, above they are those of the old ones.\<close>

definition insert_inv ::
  "(bytes \<Rightarrow> bytes) \<Rightarrow> bytes list \<Rightarrow> bytes list \<Rightarrow> nat \<Rightarrow> nat \<Rightarrow> nat \<Rightarrow> bytes list list \<times> nat \<times> bytes \<Rightarrow> bool" where
  "insert_inv hash old new k d i a \<longleftrightarrow> (case a of (brs, cur, root) \<Rightarrow>
     length brs = d + 1 \<and> cur = k div 2 ^ i \<and> root = node hash new i (k div 2 ^ i) \<and> brs ! 0 = new
     \<and> (\<forall>j \<le> i. level_ok hash new j (brs ! j)) \<and> (\<forall>j. i < j \<and> j \<le> d \<longrightarrow> level_ok hash old j (brs ! j)))"

lemma insert_level_ok:
  assumes "level_ok hash old j level" and "k \<le> length old" and "length new = max (length old) (k + 1)"
    and "\<And>b. b \<noteq> k div 2 ^ j \<Longrightarrow> node hash new j b = node hash old j b"
    and "root = node hash new j (k div 2 ^ j)"
  shows "level_ok hash new j (if level = [] \<or> k div 2 ^ j \<ge> length level then level @ [root] else level[k div 2 ^ j := root])"
proof -
  let ?p = "k div 2 ^ j" and ?l = "if level = [] \<or> k div 2 ^ j \<ge> length level then level @ [root] else level[k div 2 ^ j := root]"
  have "k \<le> length level * 2 ^ j"
    using assms(1,2) unfolding level_ok_def by linarith
  then have "?p \<le> length level"
    by (metis div_le_mono div_mult_self_is_m zero_less_numeral zero_less_power)
  moreover have "level \<noteq> []"
    using assms(1) by (simp add: level_ok_def)
  ultimately have len: "length ?l = max (length level) (?p + 1)"
    by (auto simp: max_def)
  have nth: "?l ! b = node hash new j b" if "b < length ?l" for b
    using that assms(1,4,5) \<open>?p \<le> length level\<close> \<open>level \<noteq> []\<close>
    by (cases "b = ?p") (auto simp: level_ok_def nth_append less_Suc_eq)
  have "k < (?p + 1) * 2 ^ j"
    using dividend_less_div_times [of "2 ^ j" k] by (simp add: algebra_simps)
  moreover have "(?p + 1) * 2 ^ j \<le> length ?l * 2 ^ j" "length level * 2 ^ j \<le> length ?l * 2 ^ j"
    unfolding len by (intro mult_le_mono1; simp)+
  ultimately have "length new \<le> length ?l * 2 ^ j"
    using assms(1,3) unfolding level_ok_def by linarith
  then show ?thesis
    using nth \<open>level \<noteq> []\<close> unfolding level_ok_def by auto
qed

lemma insert_step_inv:
  assumes "insert_inv hash old new k d i a" and "i < d" and "k \<le> length old" and "length new = max (length old) (k + 1)"
    and "\<And>j b. b \<noteq> k div 2 ^ j \<Longrightarrow> node hash new j b = node hash old j b"
  shows "\<exists>a'. insert_step hash i a = Inr a' \<and> insert_inv hash old new k d (Suc i) a'"
proof -
  obtain brs cur root where a: "a = (brs, cur, root)"
    by (cases a)
  note inv = assms(1) [unfolded insert_inv_def a, simplified]
  let ?level = "brs ! i" and ?above = "brs ! Suc i" and ?p = "k div 2 ^ Suc i"
  let ?root = "node hash new (Suc i) ?p"
  have len: "length brs = d + 1"
    using inv by simp
  have root: "(if cur mod 2 = 0 then hash (root @ (if flip_last cur \<ge> length ?level then ZeroHashes hash i else ?level ! flip_last cur))
      else hash ((if flip_last cur \<ge> length ?level then ZeroHashes hash i else ?level ! flip_last cur) @ root)) = ?root"
  proof -
    have "level_ok hash new i ?level"
      using inv by simp
    from level_ok_get [OF this, of "flip_last cur"]
    have "(if flip_last cur \<ge> length ?level then ZeroHashes hash i else ?level ! flip_last cur) = node hash new i (flip_last (k div 2 ^ i))"
      using inv by (auto split: if_splits)
    then show ?thesis
      using block_parent [of "Combi hash" "ZeroHashes hash" new i k] inv by (simp add: Combi_def even_iff_mod_2_eq_zero)
  qed
  let ?above' = "if ?above = [] \<or> ?p \<ge> length ?above then ?above @ [?root] else ?above[?p := ?root]"
  have up: "level_ok hash new (Suc i) ?above'"
    using inv assms(2-5) by (intro insert_level_ok [of hash old]) simp_all
  have half: "k div 2 ^ i div 2 = k div (2 * 2 ^ i)"
    using div_Suc_pow [of k i] by simp
  have step: "insert_step hash i a = Inr (brs[Suc i := ?above'], ?p, ?root)"
    using len assms(2) inv root unfolding a insert_step_def
    by (simp add: arr_get_def Let_def half cong: if_cong split del: if_split)
  have "insert_inv hash old new k d (Suc i) (brs[Suc i := ?above'], ?p, ?root)"
    using inv up assms(2) unfolding insert_inv_def by (auto simp: nth_list_update le_Suc_eq)
  then show ?thesis
    using step by blast
qed

lemma insert_steps:
  assumes "insert_inv hash old new k d 0 a" and "n \<le> d" and "k \<le> length old" and "length new = max (length old) (k + 1)"
    and "\<And>j b. b \<noteq> k div 2 ^ j \<Longrightarrow> node hash new j b = node hash old j b"
  shows "\<exists>a'. foldR (insert_step hash) [0..<n] a = Inr a' \<and> insert_inv hash old new k d n a'"
  using assms(2)
proof (induction n)
  case 0
  then show ?case using assms(1) by simp
next
  case (Suc n)
  then obtain b where b: "foldR (insert_step hash) [0..<n] a = Inr b" "insert_inv hash old new k d n b"
    by auto
  then show ?case
    using insert_step_inv [OF b(2) _ assms(3-5)] Suc.prems by (auto simp: foldR_append)
qed

lemma trie_Insert_ok:
  assumes "trie_ok hash m" and "0 \<le> index" and "nat index \<le> length (branches m ! 0)"
  shows "\<exists>m'. trie_Insert hash m item index = Inr m' \<and> trie_ok hash m' \<and> t_depth m' = t_depth m
    \<and> branches m' ! 0 = (pad_to (ZeroHashes hash 0) (nat index) (branches m ! 0))[nat index := ToBytes32 item]
    \<and> originalItems m' = (if nat index \<ge> length (originalItems m) then originalItems m @ [ToBytes32 item]
                          else (originalItems m)[nat index := ToBytes32 item])"
proof -
  let ?k = "nat index" and ?old = "branches m ! 0" and ?d = "t_depth m"
  let ?new = "(pad_to (ZeroHashes hash 0) ?k ?old)[?k := ToBytes32 item]"
  have len: "length ?new = max (length ?old) (?k + 1)"
    by (simp add: pad_to_def)
  have same: "node hash ?new j b = node hash ?old j b" if "b \<noteq> ?k div 2 ^ j" for j b
    by (simp only: node_update [OF that] pad_to_def node_pad)
  have nn: "?new ! ?k = ToBytes32 item" "?k < length ?new"
    using len by simp_all
  have "?new \<noteq> []"
    using nn(2) by (metis length_0_conv not_less_zero)
  then have self: "level_ok hash ?new 0 ?new"
    by (rule level_ok_self)
  have start: "insert_inv hash ?old ?new ?k ?d 0 ((branches m)[0 := ?new], ?k, ToBytes32 item)"
    using assms(1) nn self
    by (auto simp: insert_inv_def trie_ok_def block_0 nth_list_update)
  obtain brs c r where run: "foldR (insert_step hash) [0..<?d] ((branches m)[0 := ?new], ?k, ToBytes32 item) = Inr (brs, c, r)"
    and inv: "insert_inv hash ?old ?new ?k ?d ?d (brs, c, r)"
    using insert_steps [OF start order_refl assms(3) len same] by fastforce
  have "\<forall>x \<in> set ?new. length x = 32"
    using assms(1) by (auto simp: trie_ok_def pad_to_def dest!: set_update_subset_insert [THEN subsetD])
  then have "trie_ok hash (m\<lparr>branches := brs, originalItems := its\<rparr>)" for its
    using inv assms(1) by (simp add: insert_inv_def trie_ok_def)
  then show ?thesis
    using run inv assms(1,2) by (auto simp: trie_Insert_def arr_get_def trie_ok_def insert_inv_def Let_def)
qed

section \<open>Proofs\<close>

lemma fold_climb:
  "fold (\<lambda>i nd. if odd (k div 2 ^ i) then hash (pf ! i @ nd) else hash (nd @ pf ! i)) [0..<length pf] nd = climb (Combi hash) nd k pf"
proof (induction pf rule: rev_induct)
  case (snoc s pf)
  have "fold (\<lambda>i nd. if odd (k div 2 ^ i) then hash ((pf @ [s]) ! i @ nd) else hash (nd @ (pf @ [s]) ! i)) [0..<length pf] nd
      = fold (\<lambda>i nd. if odd (k div 2 ^ i) then hash (pf ! i @ nd) else hash (nd @ pf ! i)) [0..<length pf] nd"
    by (rule fold_cong) (auto simp: nth_append)
  then show ?case
    using snoc by (simp add: climb_append Combi_def)
qed simp

lemma index_bit: "i < 64 \<Longrightarrow> (k div push_bit i 1) mod 2 \<noteq> 0 \<longleftrightarrow> odd (unat (k :: u64) div 2 ^ i)"
proof -
  assume i: "i < 64"
  then have "unat (push_bit i 1 :: u64) = 2 ^ i"
    using power_strict_increasing [of i 64 "2 :: nat"] unat_of_nat_u64 [of "2 ^ i"] by simp
  then have "unat ((k div push_bit i 1) mod 2) = unat k div 2 ^ i mod 2"
    by (simp add: unat_div_u64 unat_mod_u64)
  then show ?thesis
    by (simp add: unat_eq_u64 odd_iff_mod_2_eq_one)
qed

lemma VerifyMerkleProof_climb:
  assumes "pf \<noteq> []" and "length pf \<le> 64"
  shows "VerifyMerkleProof hash root item k pf \<longleftrightarrow> root = climb (Combi hash) (ToBytes32 item) (unat k) pf"
proof -
  have len: "unat (of_nat (length pf - 1) :: u64) = length pf - 1" "Suc (length pf - 1) = length pf"
    using assms by (simp_all add: unat_of_nat_u64)
  have eq: "of_nat (length pf) = of_nat (length pf - 1) + (1 :: u64)"
    using len(2) by (metis of_nat_Suc add.commute)
  have small: "\<not> of_nat (length pf - 1) \<ge> (64 :: u64)"
    using assms len(2) unfolding unat_le_u64 len(1) by simp
  have range: "unat (of_nat (length pf - 1) :: u64) + 1 = length pf"
    using len by simp
  have "fold (\<lambda>i node. if (k div push_bit i 1) mod 2 \<noteq> 0 then hash (pf ! i @ node) else hash (node @ pf ! i)) [0..<length pf] (ToBytes32 item)
      = fold (\<lambda>i nd. if odd (unat k div 2 ^ i) then hash (pf ! i @ nd) else hash (nd @ pf ! i)) [0..<length pf] (ToBytes32 item)"
    by (rule fold_cong) (use assms(2) index_bit in \<open>auto simp del: push_bit_of_1\<close>)
  then show ?thesis
    unfolding VerifyMerkleProof_def VerifyMerkleProofWithDepth_def range fold_climb
    using assms(1) eq small by simp
qed

lemma mapR_siblings:
  assumes "trie_ok hash m" and "\<And>x. length (hash x) = 32"
  shows "mapR (\<lambda>i. bindR (arr_get (branches m) i) (\<lambda>level.
      let subIndex = flip_last (k div 2 ^ i)
      in Inr (if subIndex < length level then ToBytes32 (level ! subIndex) else ZeroHashes hash i))) [0..<t_depth m]
    = Inr (map (\<lambda>j. node hash (branches m ! 0) j (flip_last (k div 2 ^ j))) [0..<t_depth m])"
proof (rule mapR_total)
  fix i
  assume "i \<in> set [0..<t_depth m]"
  then have i: "i < length (branches m)" and ok: "level_ok hash (branches m ! 0) i (branches m ! i)"
    using assms(1) by (auto simp: trie_ok_def)
  let ?b = "flip_last (k div 2 ^ i)"
  have "length (node hash (branches m ! 0) i ?b) = 32" if "?b < length (branches m ! i)"
  proof (cases i)
    case 0
    then show ?thesis
      using assms(1) by (auto simp: block_0 trie_ok_def)
  next
    case (Suc i')
    then show ?thesis
      by (simp add: block_Suc Combi_def assms(2))
  qed
  then have "(if ?b < length (branches m ! i) then ToBytes32 (branches m ! i ! ?b) else ZeroHashes hash i) = node hash (branches m ! 0) i ?b"
    using level_ok_get [OF ok, of ?b] by (auto simp: ToBytes32_def to_array_id)
  then show "bindR (arr_get (branches m) i) (\<lambda>level.
      let subIndex = flip_last (k div 2 ^ i)
      in Inr (if subIndex < length level then ToBytes32 (level ! subIndex) else ZeroHashes hash i))
    = Inr (node hash (branches m ! 0) i ?b)"
    using i by (simp add: arr_get_def)
qed

section \<open>Properties\<close>

text \<open>C29: Inserting keeps the trie: from a well-formed trie, \<open>Insert\<close> at an existing index or right after the
  last leaf succeeds and gives a well-formed trie, that is, every stored node is the node of the
  reference tree over the updated leaves.\<close>

theorem Insert_keeps_trie:
  assumes "trie_ok hash m" and "0 \<le> index" and "nat index \<le> length (branches m ! 0)"
  shows "\<exists>m'. trie_Insert hash m item index = Inr m' \<and> trie_ok hash m'
    \<and> branches m' ! 0 = (pad_to (replicate 32 0) (nat index) (branches m ! 0))[nat index := ToBytes32 item]"
  using trie_Insert_ok [OF assms, of item] by auto

text \<open>C30: A proof taken from a trie verifies: for every stored leaf of a generated trie that is not
  the empty trie, \<open>MerkleProof\<close> succeeds and \<open>VerifyMerkleProof\<close> accepts it against \<open>HashTreeRoot\<close>.\<close>

theorem MerkleProof_verifies:
  assumes "\<And>x. length (hash x) = 32" and "items \<noteq> []" and "depth < 63" and "length items \<le> 2 ^ unat depth"
    and "items \<noteq> [replicate 32 0]" and "GenerateTrieFromItems hash items depth = Inr m"
    and "k < length items"
  shows "\<exists>pf root. MerkleProof hash m (int k) = Inr pf \<and> trie_HashTreeRoot hash m = Inr root
    \<and> VerifyMerkleProof hash root (items ! k) (of_nat k) pf"
proof -
  let ?d = "unat depth" and ?L = "branches m ! 0"
  obtain z where ok: "trie_ok hash m" and m: "originalItems m = items" "t_depth m = ?d"
    and leaves: "?L = map ToBytes32 items @ replicate z (ZeroHashes hash 0)"
    using GenerateTrieFromItems_ok [OF assms(2,3), of hash] assms(6) by auto
  let ?enc = "put_le 8 (length items) @ replicate 24 (0 :: u8)"
  let ?pf = "map (\<lambda>j. node hash ?L j (flip_last (k div 2 ^ j))) [0..<?d] @ [?enc]"
  have d: "?d < 63"
    using assms(3) by (simp add: unat_less_u64)
  have kd: "k < 2 ^ ?d"
    using assms(4,7) by linarith
  then have "k < 18446744073709551616"
    using d power_strict_increasing [of ?d 64 "2 :: nat"] by simp
  then have uk: "unat (of_nat k :: u64) = k"
    by (rule unat_of_nat_u64)
  have pf: "MerkleProof hash m (int k) = Inr ?pf"
    using mapR_siblings [OF ok assms(1), of k] assms(7) ok leaves m
    by (simp add: MerkleProof_def arr_get_def trie_ok_def)
  have len: "length (branches m) = Suc ?d"
    using ok m(2) by (simp add: trie_ok_def)
  then have last: "branches m \<noteq> []" "last (branches m) = branches m ! ?d"
    using last_conv_nth [of "branches m"] by (cases "branches m"; simp)+
  have top: "branches m ! ?d \<noteq> []" "branches m ! ?d ! 0 = node hash ?L ?d 0"
    using ok m(2) by (auto simp: trie_ok_def level_ok_def)
  have cnt: "length items < 18446744073709551616"
    using assms(4) d power_strict_increasing [of ?d 64 "2 :: nat"] by simp
  have root: "trie_HashTreeRoot hash m = Inr (hash (node hash ?L ?d 0 @ ?enc))"
    using top last m(1) assms(5) unat_of_nat_u64 [OF cnt]
    by (auto simp: trie_HashTreeRoot_def arr_get_def length_Suc_conv)
  have leaf: "ToBytes32 (items ! k) = node hash ?L 0 k"
    using assms(7) by (simp add: block_0 leaves nth_append)
  have "climb (Combi hash) (ToBytes32 (items ! k)) k ?pf = hash (node hash ?L ?d 0 @ ?enc)"
    using kd climb_siblings [of "Combi hash" "ZeroHashes hash" ?L k ?d] by (simp add: climb_append leaf Combi_def)
  then have "VerifyMerkleProof hash (hash (node hash ?L ?d 0 @ ?enc)) (items ! k) (of_nat k) ?pf"
    using d by (simp add: VerifyMerkleProof_climb uk)
  then show ?thesis
    using pf root by blast
qed

theorem Insert_keeps_trie_witness:
  "\<exists>m m'. GenerateTrieFromItems (\<lambda>x. take 32 (rev x)) [[1], [2]] 3 = Inr m \<and> trie_Insert (\<lambda>x. take 32 (rev x)) m [5] 2 = Inr m'
     \<and> trie_ok (\<lambda>x. take 32 (rev x)) m'"
proof -
  obtain m where m: "GenerateTrieFromItems (\<lambda>x. take 32 (rev x)) [[1], [2]] 3 = Inr m" "trie_ok (\<lambda>x. take 32 (rev x)) m"
    "length (branches m ! 0) \<ge> 2"
    using GenerateTrieFromItems_ok [of "[[1], [2]]" 3 "\<lambda>x. take 32 (rev x)"] by auto
  then show ?thesis
    using Insert_keeps_trie [OF m(2), of 2 "[5]"] by auto
qed

theorem MerkleProof_verifies_witness:
  "\<exists>m pf root. GenerateTrieFromItems (\<lambda>_. replicate 32 7) [[1], [2], [3]] 4 = Inr m \<and> MerkleProof (\<lambda>_. replicate 32 7) m 2 = Inr pf
     \<and> trie_HashTreeRoot (\<lambda>_. replicate 32 7) m = Inr root \<and> VerifyMerkleProof (\<lambda>_. replicate 32 7) root [3] 2 pf"
proof -
  obtain m where m: "GenerateTrieFromItems (\<lambda>_. replicate 32 7) [[1], [2], [3]] 4 = Inr m"
    using GenerateTrieFromItems_ok [of "[[1], [2], [3]]" 4 "\<lambda>_. replicate 32 7"] by auto
  show ?thesis
    using MerkleProof_verifies [OF _ _ _ _ _ m, of 2] m by auto
qed



end
