(* ===== verification/Trie_Layers.thy ===== *)
theory Trie_Layers
  imports Sparse_Trie
begin

text \<open>
  \<open>beacon-chain/state/stateutil\<close>: \<open>trie_helpers.go\<close> and \<open>field_root_vector.go\<close>, the layers that the
  state keeps of its fields and recomputes after changes. A layer of pointers is the list of the
  values. The incremental recomputation of a list field and the one of a vector field are
  proved to give the layers of the reference tree over the changed leaves.
\<close>

section \<open>Building the layers\<close>

text \<open>The layers above \<open>hashLayer\<close> (\<open>n\<close> are left to fill) and the top one.\<close>

fun trie_leaves_loop ::
  "(bytes list \<Rightarrow> bytes list res) \<Rightarrow> nat \<Rightarrow> bytes list \<Rightarrow> (bytes list list \<times> bytes list) res" where
  "trie_leaves_loop vec 0 hashLayer = Inr ([], hashLayer)"
| "trie_leaves_loop vec (Suc n) hashLayer =
     (if length hashLayer \<le> 1 then Inr (replicate (Suc n) [], hashLayer)
      else if \<not> IsPowerOf2 (of_nat (length hashLayer)) then Inl (Err ''hash layer is a non power of 2'')
      else bindR (vec hashLayer) (\<lambda>above. bindR (trie_leaves_loop vec n above) (\<lambda>(rest, top). Inr (above # rest, top))))"

text \<open>\<open>layers\<close> comes in with its first entry set and \<open>len(layers) = n + 1\<close>.\<close>

definition MerkleizeTrieLeaves ::
  "(bytes list \<Rightarrow> bytes list res) \<Rightarrow> nat \<Rightarrow> bytes list \<Rightarrow> (bytes list list \<times> bytes list) res" where
  "MerkleizeTrieLeaves vec n hashLayer =
     bindR (trie_leaves_loop vec n hashLayer) (\<lambda>(rest, top). Inr (hashLayer # rest, top))"

definition ReturnTrieLayer :: "(bytes list \<Rightarrow> bytes list res) \<Rightarrow> bytes list \<Rightarrow> u64 \<Rightarrow> bytes list list res" where
  "ReturnTrieLayer vec elements len =
     (if length elements = 1 then Inr [elements]
      else bindR (MerkleizeTrieLeaves vec (unat (Depth len)) elements) (\<lambda>(layers, _). Inr layers))"

definition field_merkleize :: "(bytes list \<Rightarrow> bytes list res) \<Rightarrow> bytes list \<Rightarrow> u64 \<Rightarrow> bytes res" where
  "field_merkleize vec leaves len =
     (if leaves = [] then Inl (Err ''zero leaves provided'')
      else if length leaves = 1 then Inr (leaves ! 0)
      else bindR (MerkleizeTrieLeaves vec (unat (Depth len)) leaves) (\<lambda>(_, top). arr_get top 0))"

definition ArraysRoot :: "(bytes list \<Rightarrow> bytes list res) \<Rightarrow> bytes list \<Rightarrow> u64 \<Rightarrow> bytes res" where
  "ArraysRoot vec input len =
     (if length input > unat len then Inl (Panic ''index out of range'')
      else field_merkleize vec (map (to_array 32) input @ replicate (unat len - length input) (replicate 32 0)) len)"

definition variable_step ::
  "(bytes \<Rightarrow> bytes) \<Rightarrow> (bytes list \<Rightarrow> bytes list res) \<Rightarrow> nat \<Rightarrow> bytes list list \<times> bytes list \<Rightarrow> (bytes list list \<times> bytes list) res" where
  "variable_step hash vec i a = (case a of (layers, elements) \<Rightarrow>
     bindR (vec (if length elements mod 2 = 1 then elements @ [ZeroHashes hash i] else elements)) (\<lambda>elements.
     Inr (layers @ [elements], elements)))"

definition ReturnTrieLayerVariable ::
  "(bytes \<Rightarrow> bytes) \<Rightarrow> (bytes list \<Rightarrow> bytes list res) \<Rightarrow> bytes list \<Rightarrow> u64 \<Rightarrow> bytes list list res" where
  "ReturnTrieLayerVariable hash vec elements len =
     (let depth = unat (Depth len)
      in if elements = [] then Inr (replicate depth [] @ [[ZeroHashes hash depth]])
         else bindR (foldR (variable_step hash vec) [0..<depth] ([elements], elements)) (\<lambda>(layers, _). Inr layers))"

section \<open>Recomputing after changes\<close>

definition recomputeRootFromLayerVariable ::
  "(bytes \<Rightarrow> bytes) \<Rightarrow> nat \<Rightarrow> bytes \<Rightarrow> bytes list list \<Rightarrow> (bytes \<times> bytes list list) res" where
  "recomputeRootFromLayerVariable hash idx item layers =
     bindR (arr_get layers 0) (\<lambda>leaves.
     bindR (foldR (insert_step hash) [0..<length layers - 1]
              (layers[0 := (pad_to (ZeroHashes hash 0) idx leaves)[idx := item]], idx, item)) (\<lambda>(layers, _, root).
     Inr (root, layers)))"

definition RecomputeFromLayerVariable ::
  "(bytes \<Rightarrow> bytes) \<Rightarrow> bytes list \<Rightarrow> u64 list \<Rightarrow> bytes list list \<Rightarrow> (bytes \<times> bytes list list) res" where
  "RecomputeFromLayerVariable hash changedLeaves changedIdx lay =
     (if changedIdx = [] then bindR (arr_get lay 0) (\<lambda>l. bindR (arr_get l 0) (\<lambda>r. Inr (r, lay)))
      else if lay = [] then Inl (Panic ''index out of range'')
      else bindR (arr_get (last lay) 0) (\<lambda>root.
           foldR (\<lambda>(i, idx) (root, lay).
                    bindR (Int_of idx) (\<lambda>ii.
                    bindR (arr_get changedLeaves i) (\<lambda>item.
                    recomputeRootFromLayerVariable hash (nat ii) item lay)))
             (enumerate 0 changedIdx) (root, lay)))"

text \<open>In a vector field a missing neighbour is 32 zero bytes at every height.\<close>

definition fixed_step ::
  "(bytes \<Rightarrow> bytes) \<Rightarrow> nat \<Rightarrow> bytes list list \<times> nat \<times> bytes \<Rightarrow> (bytes list list \<times> nat \<times> bytes) res" where
  "fixed_step hash i a = (case a of (layers, currentIndex, root) \<Rightarrow>
     bindR (arr_get layers i) (\<lambda>level.
     bindR (arr_get layers (i + 1)) (\<lambda>above.
     let isLeft = (currentIndex mod 2 = 0);
         neighborIdx = flip_last currentIndex;
         neighbor = (if neighborIdx < length level then level ! neighborIdx else replicate 32 0);
         root = (if isLeft then hash (root @ neighbor) else hash (neighbor @ root));
         parentIdx = currentIndex div 2
     in bindR (if above = [] then Inr (above @ [root]) else arr_set above parentIdx root) (\<lambda>above.
        Inr (layers[i + 1 := above], parentIdx, root)))))"

definition recomputeRootFromLayer ::
  "(bytes \<Rightarrow> bytes) \<Rightarrow> nat \<Rightarrow> bytes list list \<Rightarrow> bytes list \<Rightarrow> (bytes \<times> bytes list list) res" where
  "recomputeRootFromLayer hash idx layers chunks =
     bindR (arr_get chunks idx) (\<lambda>root.
     bindR (foldR (fixed_step hash) [0..<length layers - 1] (layers[0 := chunks], idx, root)) (\<lambda>(layers, _, root).
     Inr (if length (layers ! 0) = 1 then layers ! 0 ! 0 else root, layers)))"

definition RecomputeFromLayer ::
  "(bytes \<Rightarrow> bytes) \<Rightarrow> bytes list \<Rightarrow> u64 list \<Rightarrow> bytes list list \<Rightarrow> (bytes \<times> bytes list list) res" where
  "RecomputeFromLayer hash changedLeaves changedIdx lay =
     bindR (arr_get lay 0) (\<lambda>leaves.
     bindR (foldR (\<lambda>(i, idx) leaves. bindR (arr_get changedLeaves i) (arr_set leaves (unat idx)))
              (enumerate 0 changedIdx) leaves) (\<lambda>leaves.
     let lay = lay[0 := leaves]
     in bindR (arr_get leaves 0) (\<lambda>root.
        if changedIdx = [] then Inr (root, lay)
        else let maxChangedIndex = last changedIdx;
                 changedIdx = (if unat (maxChangedIndex + 2) = length leaves \<and> maxChangedIndex mod 2 \<noteq> 0
                               then changedIdx @ [maxChangedIndex + 1] else changedIdx)
             in foldR (\<lambda>idx (root, lay). bindR (Int_of idx) (\<lambda>ii. recomputeRootFromLayer hash (nat ii) lay leaves))
                  changedIdx (root, lay))))"

section \<open>List fields\<close>

definition layers_ok :: "(bytes \<Rightarrow> bytes) \<Rightarrow> bytes list list \<Rightarrow> bool" where
  "layers_ok hash L \<longleftrightarrow> L \<noteq> [] \<and> (\<forall>j < length L. level_ok hash (L ! 0) j (L ! j))"

text \<open>What the changes do to the leaves, and when they leave no gap.\<close>

definition set_leaf :: "nat \<times> bytes \<Rightarrow> bytes list \<Rightarrow> bytes list" where
  "set_leaf c leaves = (pad_to (replicate 32 0) (fst c) leaves)[fst c := snd c]"

fun no_gap :: "nat \<Rightarrow> nat list \<Rightarrow> bool" where
  "no_gap n [] \<longleftrightarrow> True"
| "no_gap n (i # is) \<longleftrightarrow> i \<le> n \<and> no_gap (max n (i + 1)) is"

lemma length_set_leaf: "length (set_leaf c leaves) = max (length leaves) (fst c + 1)"
  by (simp add: set_leaf_def pad_to_def)

lemma recompute_variable_one:
  assumes "layers_ok hash L" and "k \<le> length (L ! 0)" and "k < 2 ^ (length L - 1)"
  shows "\<exists>L'. recomputeRootFromLayerVariable hash k item L = Inr (root_of hash (length L - 1) (L' ! 0), L')
    \<and> layers_ok hash L' \<and> length L' = length L \<and> L' ! 0 = set_leaf (k, item) (L ! 0)"
proof -
  let ?d = "length L - 1" and ?old = "L ! 0" and ?new = "set_leaf (k, item) (L ! 0)"
  have d: "length L = ?d + 1" "0 < length L"
    using assms(1) by (auto simp: layers_ok_def)
  have len: "length ?new = max (length ?old) (k + 1)"
    by (simp add: length_set_leaf)
  have same: "node hash ?new j b = node hash ?old j b" if "b \<noteq> k div 2 ^ j" for j b
    using node_update [OF that, of hash "pad_to (replicate 32 0) k ?old" item] node_pad [of hash ?old "k + 1 - length ?old" j b]
    by (simp add: set_leaf_def pad_to_def)
  have nn: "?new ! k = item" "k < length ?new"
    by (simp_all add: set_leaf_def pad_to_def)
  then have self: "level_ok hash ?new 0 ?new"
    by (intro level_ok_self) (metis length_0_conv not_less_zero)
  have start: "insert_inv hash ?old ?new k ?d 0 (L[0 := ?new], k, item)"
    using assms(1) nn self d by (auto simp: insert_inv_def layers_ok_def block_0 nth_list_update)
  obtain brs c r where run: "foldR (insert_step hash) [0..<?d] (L[0 := ?new], k, item) = Inr (brs, c, r)"
    and inv: "insert_inv hash ?old ?new k ?d ?d (brs, c, r)"
    using insert_steps [OF start order_refl assms(2) len same] by fastforce
  have r: "r = root_of hash ?d ?new" "brs ! 0 = ?new" "length brs = length L"
    using inv assms(3) d by (auto simp: insert_inv_def block_root)
  moreover have "layers_ok hash brs"
    using inv d by (auto simp: insert_inv_def layers_ok_def)
  ultimately show ?thesis
    using run d(2) by (auto simp: recomputeRootFromLayerVariable_def arr_get_def set_leaf_def simp del: mroot.simps)
qed

lemma pow_le_62: "d \<le> 62 \<Longrightarrow> (2 :: nat) ^ d \<le> 2 ^ 62"
  by (intro power_increasing) simp_all

lemma Int_of_small:
  assumes "unat i < 2 ^ 62"
  shows "Int_of i = Inr (int (unat i))"
proof -
  have "int (unat i) < int (2 ^ 62)"
    using assms by (simp only: of_nat_less_iff)
  then show ?thesis
    by (simp add: Int_of_def MaxInt_def)
qed

abbreviation change_step where
  "change_step hash leaves \<equiv> \<lambda>(i, idx) (root, lay). bindR (Int_of idx) (\<lambda>ii. bindR (arr_get leaves i) (\<lambda>item.
     recomputeRootFromLayerVariable hash (nat ii) item lay))"

lemma recompute_variable_many:
  assumes "d \<le> 62" and "layers_ok hash L" and "length L = d + 1"
    and "no_gap (length (L ! 0)) (map unat idxs)" and "\<forall>i \<in> set idxs. unat i < 2 ^ d"
    and "length leaves = k + length idxs" and "idxs \<noteq> [] \<or> r = root_of hash d (L ! 0)"
  shows "\<exists>L'. foldR (change_step hash leaves) (enumerate k idxs) (r, L) = Inr (root_of hash d (L' ! 0), L')
    \<and> layers_ok hash L' \<and> length L' = d + 1
    \<and> L' ! 0 = fold set_leaf (zip (map unat idxs) (drop k leaves)) (L ! 0)"
  using assms(2-)
proof (induction idxs arbitrary: k r L)
  case (Cons idx idxs)
  have small: "unat idx < 2 ^ 62"
    using Cons.prems(4) pow_le_62 [OF assms(1)] by (meson less_le_trans list.set_intros(1))
  have k: "k < length leaves"
    using Cons.prems(5) by simp
  obtain L' where L': "recomputeRootFromLayerVariable hash (unat idx) (leaves ! k) L = Inr (root_of hash d (L' ! 0), L')"
      "layers_ok hash L'" "length L' = d + 1" "L' ! 0 = set_leaf (unat idx, leaves ! k) (L ! 0)"
    using recompute_variable_one [OF Cons.prems(1), of "unat idx" "leaves ! k"] Cons.prems(2,3,4) by auto
  have gap: "no_gap (length (L' ! 0)) (map unat idxs)"
    using Cons.prems(3) by (simp add: L'(4) length_set_leaf)
  obtain L'' where "foldR (change_step hash leaves) (enumerate (Suc k) idxs) (root_of hash d (L' ! 0), L')
      = Inr (root_of hash d (L'' ! 0), L'')" "layers_ok hash L''" "length L'' = d + 1"
      "L'' ! 0 = fold set_leaf (zip (map unat idxs) (drop (Suc k) leaves)) (L' ! 0)"
    using Cons.IH [OF L'(2,3) gap _ _ disjI2, of "Suc k"] Cons.prems(4,5) by auto
  then show ?case
    using Int_of_small [OF small] L' k
    by (auto simp: arr_get_def Cons_nth_drop_Suc [symmetric] simp del: mroot.simps)
qed simp

section \<open>Vector fields\<close>

definition full_ok :: "(bytes \<Rightarrow> bytes) \<Rightarrow> nat \<Rightarrow> nat set \<Rightarrow> bytes list \<Rightarrow> bytes list list \<Rightarrow> bool" where
  "full_ok hash d pend leaves L \<longleftrightarrow> length L = d + 1 \<and> L ! 0 = leaves
     \<and> (\<forall>j \<le> d. length (L ! j) = 2 ^ (d - j)
          \<and> (\<forall>b < 2 ^ (d - j). (\<forall>p \<in> pend. p div 2 ^ j \<noteq> b) \<longrightarrow> L ! j ! b = node hash leaves j b))"

definition fixed_inv where
  "fixed_inv hash d pend leaves idx i a \<longleftrightarrow> (case a of (L, cur, root) \<Rightarrow>
     length L = d + 1 \<and> L ! 0 = leaves \<and> cur = idx div 2 ^ i \<and> root = L ! i ! cur
     \<and> (\<forall>j \<le> d. length (L ! j) = 2 ^ (d - j)
          \<and> (\<forall>b < 2 ^ (d - j). (\<forall>p \<in> (if j \<le> i then pend else insert idx pend). p div 2 ^ j \<noteq> b)
               \<longrightarrow> L ! j ! b = node hash leaves j b)))"

lemma div_pow_less:
  assumes "(idx :: nat) < 2 ^ d" and "i \<le> d"
  shows "idx div 2 ^ i < 2 ^ (d - i)"
  using assms by (intro less_mult_imp_div_less) (simp flip: power_add)

lemma foldR_upt_inv:
  assumes "P 0 a" and "\<And>i a. i < n \<Longrightarrow> P i a \<Longrightarrow> \<exists>a'. f i a = Inr a' \<and> P (Suc i) a'"
  shows "\<exists>a'. foldR f [0..<n] a = Inr a' \<and> P n a'"
  using assms(2)
proof (induction n)
  case (Suc n)
  then obtain b where "foldR f [0..<n] a = Inr b" "P n b"
    by (meson less_SucI)
  then show ?case
    using Suc.prems [of n b] by (auto simp: foldR_append)
qed (simp add: assms(1))

lemma fixed_step_inv:
  assumes inv: "fixed_inv hash d pend leaves idx i (L, cur, root)" and i: "i < d" and idx: "idx < 2 ^ d"
  shows "\<exists>a'. fixed_step hash i (L, cur, root) = Inr a' \<and> fixed_inv hash d pend leaves idx (Suc i) a'"
proof -
  let ?b = "idx div 2 ^ Suc i"
  have L: "length L = d + 1" "L ! 0 = leaves" "cur = idx div 2 ^ i" "root = L ! i ! cur"
    and len: "j \<le> d \<Longrightarrow> length (L ! j) = 2 ^ (d - j)"
    and ok: "j \<le> d \<Longrightarrow> b < 2 ^ (d - j) \<Longrightarrow> \<forall>p \<in> (if j \<le> i then pend else insert idx pend). p div 2 ^ j \<noteq> b
      \<Longrightarrow> L ! j ! b = node hash leaves j b" for j b
    using inv by (auto simp: fixed_inv_def)
  have pow: "(2 :: nat) ^ (d - i) = 2 * 2 ^ (d - Suc i)"
    using i by (metis Suc_diff_Suc power_Suc)
  have b: "?b < 2 ^ (d - Suc i)"
    using idx i by (intro div_pow_less) simp_all
  have cur: "cur div 2 = ?b"
    using div_Suc_pow [of idx i] L(3) by simp
  let ?r = "hash (L ! i ! (2 * ?b) @ L ! i ! (2 * ?b + 1))"
  have two: "2 * ?b + 1 < 2 ^ (d - i)"
    using b pow by linarith
  have flip: "flip_last cur < 2 ^ (d - i)"
    using two cur by (auto simp: flip_last_def)
  have "(if cur mod 2 = 0 then hash (root @ L ! i ! flip_last cur) else hash (L ! i ! flip_last cur @ root)) = ?r"
    using cur by (auto simp: flip_last_def L(4) even_iff_mod_2_eq_zero [symmetric] elim!: evenE oddE)
  then have step: "fixed_step hash i (L, cur, root) = Inr (L[Suc i := (L ! Suc i)[?b := ?r]], ?b, ?r)"
    using i L(1) len [of i] len [of "Suc i"] b flip cur by (auto simp: fixed_step_def arr_get_def arr_set_def Let_def)
  have right: "?r = node hash leaves (Suc i) ?b" if *: "\<forall>p \<in> pend. p div 2 ^ Suc i \<noteq> ?b"
  proof -
    have "p div 2 ^ i \<noteq> 2 * ?b \<and> p div 2 ^ i \<noteq> 2 * ?b + 1" if "p \<in> pend" for p
      using * that div_Suc_pow [of p i] by auto
    then show ?thesis
      using ok [of i "2 * ?b"] ok [of i "2 * ?b + 1"] two i by (simp add: block_Suc Combi_def)
  qed
  define r where "r = ?r"
  define M where "M = L[Suc i := (L ! Suc i)[?b := r]]"
  have at: "M ! j = (if j = Suc i then (L ! Suc i)[?b := r] else L ! j)" if "j \<le> d" for j
    using that L(1) by (simp add: M_def nth_list_update)
  have "M ! j ! b = node hash leaves j b"
    if "j \<le> d" "b < 2 ^ (d - j)" "\<forall>p \<in> (if j \<le> Suc i then pend else insert idx pend). p div 2 ^ j \<noteq> b" for j b
  proof (cases "j = Suc i")
    case True
    then show ?thesis
      using that right [folded r_def] len [of j] ok [of j b] by (cases "b = ?b") (simp_all add: at del: power_Suc)
  next
    case False
    then have "(j \<le> Suc i) = (j \<le> i)"
      by linarith
    then show ?thesis
      using that ok [of j b] False by (simp add: at)
  qed
  moreover have "length (M ! j) = 2 ^ (d - j)" if "j \<le> d" for j
    using len that by (simp add: at)
  moreover have "length M = d + 1" "M ! 0 = leaves" "M ! Suc i ! ?b = r"
    using L at [of "Suc i"] at [of 0] len [of "Suc i"] b i by (simp_all add: M_def del: power_Suc)
  ultimately have "fixed_inv hash d pend leaves idx (Suc i) (M, ?b, r)"
    by (simp add: fixed_inv_def del: power_Suc)
  then show ?thesis
    using step by (simp only: M_def r_def) blast
qed

lemma recompute_fixed_one:
  assumes "full_ok hash d (insert idx pend) leaves L" and "idx < 2 ^ d"
  shows "\<exists>L'. recomputeRootFromLayer hash idx L leaves = Inr (L' ! d ! (idx div 2 ^ d), L') \<and> full_ok hash d pend leaves L'"
proof -
  have L: "length L = d + 1" "L ! 0 = leaves" "length leaves = 2 ^ d" "L[0 := leaves] = L"
    using assms(1) by (auto simp: full_ok_def)
  have "fixed_inv hash d pend leaves idx 0 (L, idx, leaves ! idx)"
    using assms(1) by (auto simp: fixed_inv_def full_ok_def block_0)
  then obtain a where run: "foldR (fixed_step hash) [0..<d] (L, idx, leaves ! idx) = Inr a"
    and inv: "fixed_inv hash d pend leaves idx d a"
    using foldR_upt_inv [of "fixed_inv hash d pend leaves idx" "(L, idx, leaves ! idx)" d "fixed_step hash"]
      fixed_step_inv [of hash d pend leaves idx] assms(2) by (auto simp: split_paired_all)
  obtain L' c r where a: "a = (L', c, r)"
    by (cases a)
  have inv': "length L' = d + 1" "L' ! 0 = leaves" "r = L' ! d ! (idx div 2 ^ d)" "full_ok hash d pend leaves L'"
    using inv unfolding a by (auto simp: fixed_inv_def full_ok_def)
  have "d = 0" if "length leaves = 1"
    using that L(3) by simp
  then show ?thesis
    using run inv' L assms(2) unfolding a
    by (auto simp: recomputeRootFromLayer_def arr_get_def)
qed

lemma recompute_fixed_many:
  assumes "d \<le> 62" and "full_ok hash d (set (map unat idxs)) leaves L" and "\<forall>i \<in> set idxs. unat i < 2 ^ d"
    and "idxs = [] \<Longrightarrow> r = L ! d ! 0"
  shows "\<exists>L'. foldR (\<lambda>idx (root, lay). bindR (Int_of idx) (\<lambda>ii. recomputeRootFromLayer hash (nat ii) lay leaves)) idxs (r, L)
      = Inr (L' ! d ! 0, L') \<and> full_ok hash d {} leaves L'"
  using assms(2-)
proof (induction idxs arbitrary: r L)
  case (Cons idx idxs)
  have small: "unat idx < 2 ^ 62"
    using Cons.prems(2) pow_le_62 [OF assms(1)] by (meson less_le_trans list.set_intros(1))
  have ok: "full_ok hash d (insert (unat idx) (set (map unat idxs))) leaves L" and idx: "unat idx < 2 ^ d"
    using Cons.prems(1,2) by simp_all
  obtain L' where L': "recomputeRootFromLayer hash (unat idx) L leaves = Inr (L' ! d ! 0, L')"
      "full_ok hash d (set (map unat idxs)) leaves L'"
    using recompute_fixed_one [OF ok idx] idx by auto
  show ?case
    using Cons.IH [OF L'(2), of "L' ! d ! 0"] Cons.prems(2) L'(1) Int_of_small [OF small] by auto
qed auto

lemma full_ok_changed:
  assumes "full_ok hash d {} old L" and "length new = length old"
    and "\<And>i. i < length old \<Longrightarrow> i \<notin> pend \<Longrightarrow> new ! i = old ! i"
  shows "full_ok hash d pend new (L[0 := new])"
proof -
  have same: "node hash new j b = node hash old j b" if "\<forall>p \<in> pend. p div 2 ^ j \<noteq> b" for j b
    using that
  proof (induction j arbitrary: b)
    case (Suc j)
    have "p div 2 ^ j \<noteq> 2 * b \<and> p div 2 ^ j \<noteq> 2 * b + 1" if "p \<in> pend" for p
      using Suc.prems that div_Suc_pow [of p j] by auto
    then show ?case
      using Suc.IH [of "2 * b"] Suc.IH [of "2 * b + 1"] by (simp add: block_Suc)
  qed (use assms(2,3) in \<open>auto simp: block_0\<close>)
  have L: "length L = d + 1" "L ! 0 = old" and len: "j \<le> d \<Longrightarrow> length (L ! j) = 2 ^ (d - j)"
    and ok: "j \<le> d \<Longrightarrow> b < 2 ^ (d - j) \<Longrightarrow> L ! j ! b = node hash old j b" for j b
    using assms(1) by (simp_all add: full_ok_def)
  define M where "M = L[0 := new]"
  have at: "M ! j = (if j = 0 then new else L ! j)" for j
    using L(1) by (cases j) (simp_all add: M_def)
  have "length (M ! j) = 2 ^ (d - j)" if "j \<le> d" for j
    using len [OF that] len [of 0] that assms(2) L(2) by (simp add: at)
  moreover have "M ! j ! b = node hash new j b" if "j \<le> d" "b < 2 ^ (d - j)" "\<forall>p \<in> pend. p div 2 ^ j \<noteq> b" for j b
    using ok [OF that(1,2)] same [OF that(3)] that assms(2) len [of 0] L(2) by (cases j) (simp_all add: at block_0)
  moreover have "length M = d + 1" "M ! 0 = new"
    using L(1) at [of 0] by (simp_all add: M_def)
  ultimately show ?thesis
    by (simp add: full_ok_def flip: M_def)
qed

lemma change_leaves:
  assumes "length cl = k + length idxs" and "\<forall>i \<in> set idxs. unat i < length leaves"
  shows "foldR (\<lambda>(i, idx) leaves. bindR (arr_get cl i) (arr_set leaves (unat idx))) (enumerate k idxs) leaves
    = Inr (fold (\<lambda>(i, x) l. l[i := x]) (zip (map unat idxs) (drop k cl)) leaves)"
  using assms
proof (induction idxs arbitrary: k leaves)
  case (Cons idx idxs)
  then show ?case
    by (simp add: arr_get_def arr_set_def Cons_nth_drop_Suc [symmetric])
qed simp

lemma length_fold_updates [simp]: "length (fold (\<lambda>(i, x) l. l[i := x]) cs l) = length l"
  by (induction cs arbitrary: l) auto

lemma nth_fold_updates: "i \<notin> fst ` set cs \<Longrightarrow> fold (\<lambda>(i, x) l. l[i := x]) cs l ! i = l ! i"
  by (induction cs arbitrary: l) auto

section \<open>The built layers\<close>

lemma IsPowerOf2_pow:
  assumes "n < 64"
  shows "IsPowerOf2 (of_nat (2 ^ n))"
proof -
  have "(2 ^ n :: u64) AND (2 ^ n - 1) = take_bit n (2 ^ n)"
    by (simp only: mask_eq_exp_minus_1 [symmetric] take_bit_eq_mask)
  also have "\<dots> = 0"
    by (rule bit_word_eqI) (auto simp: bit_take_bit_iff bit_exp_iff)
  finally show ?thesis
    using assms by (simp add: IsPowerOf2_def)
qed

lemma trie_leaves_loop_ok:
  assumes "\<And>xs. even (length xs) \<Longrightarrow> vec xs = Inr (hash_pairs hash xs)" and "n < 64"
    and "level_ok hash leaves j l" and "length l = 2 ^ n"
  shows "\<exists>rest. trie_leaves_loop vec n l = Inr (rest, [node hash leaves (j + n) 0]) \<and> length rest = n
    \<and> (\<forall>i < n. level_ok hash leaves (j + Suc i) (rest ! i) \<and> length (rest ! i) = 2 ^ (n - Suc i))"
  using assms(2-)
proof (induction n arbitrary: j l)
  case 0
  then have "l = [node hash leaves j 0]"
    by (auto simp: level_ok_def length_Suc_conv)
  then show ?case
    by simp
next
  case (Suc n)
  have "(1 :: nat) \<le> 2 ^ n"
    by simp
  with Suc.prems(3) have "\<not> length l \<le> 1"
    unfolding power_Suc by linarith
  moreover have "even (length l)"
    using Suc.prems(3) by simp
  ultimately have two: "\<not> length l \<le> 1" "even (length l)" .
  obtain rest where r: "trie_leaves_loop vec n (hash_pairs hash l) = Inr (rest, [node hash leaves (Suc j + n) 0])" "length rest = n"
      "\<forall>i < n. level_ok hash leaves (Suc j + Suc i) (rest ! i) \<and> length (rest ! i) = 2 ^ (n - Suc i)"
    using Suc.IH [OF _ level_ok_pairs [OF Suc.prems(2) two(2)]] Suc.prems(1,3) by (auto simp: hash_pairs_def)
  have "level_ok hash leaves (j + Suc i) ((hash_pairs hash l # rest) ! i) \<and> length ((hash_pairs hash l # rest) ! i) = 2 ^ (Suc n - Suc i)"
    if "i < Suc n" for i
    using r(3) that level_ok_pairs [OF Suc.prems(2) two(2)] Suc.prems(3) by (cases i) (auto simp: hash_pairs_def)
  then show ?case
    using r(1,2) two assms(1) [OF two(2)] IsPowerOf2_pow [OF Suc.prems(1)] Suc.prems(3)
    by (auto simp del: power_Suc of_nat_power)
qed

lemma Depth_pow: "unat len = 2 ^ d \<Longrightarrow> unat (Depth len) = d"
  using Depth_minimal [of len d] Depth_fits [of len] by simp

lemma pow_u64_less: "unat (len :: u64) = 2 ^ d \<Longrightarrow> d < 64"
  using unat_lt_2_64 [of len] power_less_imp_less_exp [of "2 :: nat" d 64] by simp

lemma ReturnTrieLayer_ok:
  assumes "\<And>xs. even (length xs) \<Longrightarrow> vec xs = Inr (hash_pairs hash xs)" and "unat len = 2 ^ d" and "length elements = unat len"
  shows "\<exists>lay. ReturnTrieLayer vec elements len = Inr lay \<and> lay ! 0 = elements \<and> full_ok hash d {} elements lay"
proof (cases "d = 0")
  case True
  then show ?thesis
    using assms(2,3) by (auto simp: ReturnTrieLayer_def full_ok_def block_0)
next
  case False
  then have ne: "length elements \<noteq> 1" "elements \<noteq> []"
    using assms(2,3) by auto
  obtain rest top where r: "trie_leaves_loop vec d elements = Inr (rest, top)" "length rest = d"
      "\<forall>i < d. level_ok hash elements (Suc i) (rest ! i) \<and> length (rest ! i) = 2 ^ (d - Suc i)"
    using trie_leaves_loop_ok [where vec = vec and hash = hash, OF assms(1) pow_u64_less [OF assms(2)] level_ok_self [OF ne(2)]]
      assms(2,3) by auto
  have "length ((elements # rest) ! j) = 2 ^ (d - j) \<and> (\<forall>b < 2 ^ (d - j). (elements # rest) ! j ! b = node hash elements j b)"
    if "j \<le> d" for j
    using r(3) that assms(2,3) by (cases j) (auto simp: block_0 level_ok_def)
  then show ?thesis
    using r(1,2) ne(1) by (auto simp: ReturnTrieLayer_def MerkleizeTrieLeaves_def Depth_pow [OF assms(2)] full_ok_def)
qed

lemma field_merkleize_root:
  assumes "\<And>xs. even (length xs) \<Longrightarrow> vec xs = Inr (hash_pairs hash xs)" and "unat len = 2 ^ d" and "length leaves = unat len"
  shows "field_merkleize vec leaves len = Inr (root_of hash d leaves)"
proof (cases "d = 0")
  case True
  then show ?thesis
    using assms(2,3) by (auto simp: field_merkleize_def length_Suc_conv)
next
  case False
  then have ne: "length leaves \<noteq> 1" "leaves \<noteq> []"
    using assms(2,3) by auto
  obtain rest where "trie_leaves_loop vec d leaves = Inr (rest, [node hash leaves d 0])"
    using trie_leaves_loop_ok [where vec = vec and hash = hash, OF assms(1) pow_u64_less [OF assms(2)] level_ok_self [OF ne(2)]]
      assms(2,3) by auto
  then show ?thesis
    using ne by (simp add: field_merkleize_def MerkleizeTrieLeaves_def Depth_pow [OF assms(2)] arr_get_def block_root)
qed

lemma ArraysRoot_root:
  assumes "\<And>xs. even (length xs) \<Longrightarrow> vec xs = Inr (hash_pairs hash xs)" and "unat len = 2 ^ d" and "length input \<le> unat len"
  shows "ArraysRoot vec input len = Inr (root_of hash d (map (to_array 32) input))"
proof -
  let ?leaves = "map (to_array 32) input @ replicate (unat len - length input) (ZeroHashes hash 0)"
  have "field_merkleize vec ?leaves len = Inr (root_of hash d ?leaves)"
    using assms(3) by (intro field_merkleize_root [where vec = vec and hash = hash, OF assms(1,2)]) simp_all
  moreover have "root_of hash d ?leaves = root_of hash d (map (to_array 32) input)"
    using node_pad [of hash _ _ d 0] by (simp only: block_root)
  ultimately show ?thesis
    using assms(3) by (simp add: ArraysRoot_def not_less)
qed

lemma ReturnTrieLayerVariable_ok:
  assumes "\<And>xs. even (length xs) \<Longrightarrow> vec xs = Inr (hash_pairs hash xs)" and "elements \<noteq> []"
  shows "\<exists>lay. ReturnTrieLayerVariable hash vec elements len = Inr lay \<and> lay ! 0 = elements
    \<and> length lay = unat (Depth len) + 1 \<and> layers_ok hash lay"
proof -
  define P where "P n a \<longleftrightarrow> (case a of (lay, l) \<Rightarrow> length lay = n + 1 \<and> lay ! 0 = elements \<and> l = lay ! n
    \<and> (\<forall>j \<le> n. level_ok hash elements j (lay ! j)))" for n a
  have "P 0 ([elements], elements)"
    using level_ok_self [OF assms(2)] by (simp add: P_def)
  moreover have "\<exists>a'. variable_step hash vec i a = Inr a' \<and> P (Suc i) a'" if "P i a" for i a
  proof -
    obtain lay l where a: "a = (lay, l)"
      by (cases a)
    let ?l = "if length l mod 2 = 1 then l @ [ZeroHashes hash i] else l"
    have "even (length ?l)"
      by (simp add: mod_2_eq_odd)
    moreover have "level_ok hash elements (Suc i) (hash_pairs hash ?l)"
      using that by (intro layer_level_ok) (simp add: P_def a)
    ultimately show ?thesis
      using that assms(1) [of ?l] by (auto simp: variable_step_def a P_def nth_append le_Suc_eq)
  qed
  ultimately obtain a where "foldR (variable_step hash vec) [0..<unat (Depth len)] ([elements], elements) = Inr a"
      "P (unat (Depth len)) a"
    using foldR_upt_inv [of P "([elements], elements)" "unat (Depth len)" "variable_step hash vec"] by blast
  then show ?thesis
    using assms(2) by (cases a) (auto simp: ReturnTrieLayerVariable_def Let_def P_def layers_ok_def less_Suc_eq_le)
qed

section \<open>Properties\<close>

text \<open>C31: After changes to a list field that leave no gap, \<open>RecomputeFromLayerVariable\<close> rehashes only the
  changed branches and still returns the root of the whole tree over the new leaves; the layers it
  keeps are again the layers of that tree, so the next incremental update starts from a right cache.\<close>

theorem RecomputeFromLayerVariable_correct:
  assumes "layers_ok hash lay" and "length lay = d + 1" and "d \<le> 62" and "changedIdx \<noteq> []"
    and "length changedLeaves = length changedIdx"
    and "no_gap (length (lay ! 0)) (map unat changedIdx)" and "\<forall>i \<in> set changedIdx. unat i < 2 ^ d"
    and "last lay \<noteq> []"
  shows "\<exists>lay'. RecomputeFromLayerVariable hash changedLeaves changedIdx lay = Inr (root_of hash d (lay' ! 0), lay')
    \<and> layers_ok hash lay' \<and> length lay' = d + 1
    \<and> lay' ! 0 = fold set_leaf (zip (map unat changedIdx) changedLeaves) (lay ! 0)"
  using recompute_variable_many [OF assms(3,1,2,6,7), of changedLeaves 0 "hd (last lay)"] assms
  by (auto simp: RecomputeFromLayerVariable_def arr_get_def hd_conv_nth)

text \<open>C32: After changes to a vector field of \<open>2 ^ d\<close> leaves, \<open>RecomputeFromLayer\<close> rehashes the changed branches one
  after the other, reading neighbours that later branches are still to repair, and ends with the
  root and with all the layers of the tree over the new leaves.\<close>

theorem RecomputeFromLayer_correct:
  assumes "full_ok hash d {} (lay ! 0) lay" and "d \<le> 62" and "changedIdx \<noteq> []"
    and "length changedLeaves = length changedIdx" and "\<forall>i \<in> set changedIdx. unat i < 2 ^ d"
  defines "leaves \<equiv> fold (\<lambda>(i, x) l. l[i := x]) (zip (map unat changedIdx) changedLeaves) (lay ! 0)"
  shows "\<exists>lay'. RecomputeFromLayer hash changedLeaves changedIdx lay = Inr (root_of hash d leaves, lay')
    \<and> full_ok hash d {} leaves lay'"
proof -
  have len: "length lay = d + 1" "length (lay ! 0) = 2 ^ d" "length leaves = 2 ^ d"
    using assms(1) by (simp_all add: full_ok_def leaves_def)
  then have ne: "leaves \<noteq> []"
    by (metis length_0_conv power_not_zero zero_neq_numeral)
  let ?m = "last changedIdx"
  let ?extra = "unat (?m + 2) = length leaves \<and> ?m mod 2 \<noteq> 0"
  define idxs where "idxs = (if ?extra then changedIdx @ [?m + 1] else changedIdx)"
  have "unat ?m < 2 ^ d"
    using assms(3,5) by simp
  with pow_le_62 [OF assms(2)] have "unat (?m + 1) = unat ?m + 1" "unat (?m + 2) = unat ?m + 2"
    by (simp_all add: unat_word_ariths)
  then have idxs: "unat i < 2 ^ d" if "i \<in> set idxs" for i
    using that assms(5) len(3) by (auto simp: idxs_def split: if_splits)
  have set: "set (map unat changedIdx) \<subseteq> set (map unat idxs)" "idxs \<noteq> []"
    using assms(3) by (auto simp: idxs_def)
  have ok: "full_ok hash d (set (map unat idxs)) leaves (lay[0 := leaves])"
    unfolding leaves_def
  proof (rule full_ok_changed [OF assms(1) length_fold_updates])
    fix i assume "i \<notin> set (map unat idxs)"
    then have "i \<notin> fst ` set (zip (map unat changedIdx) changedLeaves)"
      using set(1) set_zip_leftD by fastforce
    then show "fold (\<lambda>(i, x) l. l[i := x]) (zip (map unat changedIdx) changedLeaves) (lay ! 0) ! i = lay ! 0 ! i"
      by (rule nth_fold_updates)
  qed
  obtain lay' where run: "foldR (\<lambda>idx (root, lay). bindR (Int_of idx) (\<lambda>ii. recomputeRootFromLayer hash (nat ii) lay leaves)) idxs
      (leaves ! 0, lay[0 := leaves]) = Inr (lay' ! d ! 0, lay')" and ok': "full_ok hash d {} leaves lay'"
    using recompute_fixed_many [OF assms(2) ok] idxs set(2) by blast
  have "lay' ! d ! 0 = root_of hash d leaves"
    using ok' by (simp add: full_ok_def block_root)
  then show ?thesis
    using run ok' change_leaves [of changedLeaves 0 changedIdx "lay ! 0"] assms(3-5) len ne
    by (simp add: RecomputeFromLayer_def arr_get_def Let_def idxs_def flip: leaves_def)
qed

section \<open>Witnesses\<close>

theorem RecomputeFromLayerVariable_correct_witness:
  "\<exists>lay lay'. ReturnTrieLayerVariable (take 32) (\<lambda>xs. Inr (hash_pairs (take 32) xs)) [[1], [2], [3]] 8 = Inr lay
     \<and> RecomputeFromLayerVariable (take 32) [[9], [7]] [3, 0] lay = Inr (root_of (take 32) 3 [[7], [2], [3], [9]], lay')"
proof -
  have d: "unat (Depth 8) = 3"
    by (rule Depth_pow) simp
  obtain lay where lay: "ReturnTrieLayerVariable (take 32) (\<lambda>xs. Inr (hash_pairs (take 32) xs)) [[1], [2], [3]] 8 = Inr lay"
      "lay ! 0 = [[1], [2], [3]]" "length lay = 3 + 1" "layers_ok (take 32) lay"
    using ReturnTrieLayerVariable_ok [of "\<lambda>xs. Inr (hash_pairs (take 32) xs)" "take 32" "[[1], [2], [3]]" 8] d by auto
  moreover have "last lay \<noteq> []"
    using lay(3,4) by (auto simp: layers_ok_def level_ok_def last_conv_nth)
  ultimately show ?thesis
    using RecomputeFromLayerVariable_correct [of "take 32" lay 3 "[3, 0]" "[[9], [7]]"]
    by (auto simp: set_leaf_def pad_to_def)
qed

theorem RecomputeFromLayer_correct_witness:
  "\<exists>lay lay'. ReturnTrieLayer (\<lambda>xs. Inr (hash_pairs (take 32) xs)) [[1], [2], [3], [4]] 4 = Inr lay
     \<and> RecomputeFromLayer (take 32) [[9], [7]] [2, 3] lay = Inr (root_of (take 32) 2 [[1], [2], [9], [7]], lay')"
proof -
  obtain lay where lay: "ReturnTrieLayer (\<lambda>xs. Inr (hash_pairs (take 32) xs)) [[1], [2], [3], [4]] 4 = Inr lay"
      "lay ! 0 = [[1], [2], [3], [4]]" "full_ok (take 32) 2 {} (lay ! 0) lay"
    using ReturnTrieLayer_ok [of "\<lambda>xs. Inr (hash_pairs (take 32) xs)" "take 32" 4 2 "[[1], [2], [3], [4]]"] by auto
  then show ?thesis
    using RecomputeFromLayer_correct [OF lay(3), of "[2, 3]" "[[9], [7]]"] by auto
qed

end
