(* ===== verification/State_Roots.thy ===== *)
theory State_Roots
  imports Trie_Layers Beacon_State
begin

text \<open>
  Hash tree roots of the parts of the state: \<open>encoding/ssz\<close> (\<open>helpers.go\<close>, \<open>htrutils.go\<close>) and the root
  helpers of \<open>beacon-chain/state/stateutil\<close>. Generated \<open>HashTreeRoot\<close> methods are the parameter \<open>htr\<close>;
  a \<open>nil\<close> pointer is \<open>None\<close>. Packing into chunks is shown to lose nothing, and the vectorised roots
  of the validators to be the roots computed one by one.
\<close>

section \<open>Packing\<close>

function chunk32 :: "bytes \<Rightarrow> bytes list" where
  "chunk32 xs = (if xs = [] then [] else to_array 32 (take 32 xs) # chunk32 (drop 32 xs))"
  by pat_completeness auto
termination by (relation "measure length") auto

declare chunk32.simps [simp del]

definition PackByChunk :: "bytes list \<Rightarrow> bytes list" where
  "PackByChunk serializedItems =
     (if serializedItems = [] then [replicate 32 0]
      else if list_all (\<lambda>item. length item = 32) serializedItems then map ToBytes32 serializedItems
      else let orderedItems = concat serializedItems
           in if orderedItems = [] then [replicate 32 0] else chunk32 orderedItems)"

definition packParticipationBits :: "bytes \<Rightarrow> bytes list" where
  "packParticipationBits bits = chunk32 bits"

definition pack_step :: "nat \<times> u64 \<Rightarrow> bytes list \<Rightarrow> bytes list" where
  "pack_step a chunkList = (case a of (idx, b) \<Rightarrow>
     chunkList[idx div 4 := write_at (chunkList ! (idx div 4)) (idx mod 4 * 8) (put_le 8 (unat b))])"

definition PackUint64IntoChunks :: "u64 list \<Rightarrow> bytes list" where
  "PackUint64IntoChunks vals =
     fold pack_step (enumerate 0 vals)
       (replicate (length vals div 4 + (if length vals mod 4 \<noteq> 0 then 1 else 0)) (replicate 32 0))"

section \<open>Roots of basic values and containers\<close>

text \<open>A length in the first 8 bytes of a 32-byte chunk.\<close>

definition length_chunk :: "nat \<Rightarrow> bytes" where
  "length_chunk n = to_array 32 (put_le 8 (unat (of_nat n :: u64)))"

record Fork =
  PreviousVersion :: bytes
  CurrentVersion :: bytes
  fork_Epoch :: Epoch

text \<open>A container is the vector of the roots of its fields.\<close>

definition container_root :: "(bytes \<Rightarrow> bytes) \<Rightarrow> (bytes list \<Rightarrow> bytes list res) \<Rightarrow> bytes list \<Rightarrow> bytes res" where
  "container_root hash vec fieldRoots =
     BitwiseMerkleize hash vec fieldRoots (of_nat (length fieldRoots)) (of_nat (length fieldRoots))"

definition ForkRoot :: "(bytes \<Rightarrow> bytes) \<Rightarrow> (bytes list \<Rightarrow> bytes list res) \<Rightarrow> Fork option \<Rightarrow> bytes res" where
  "ForkRoot hash vec fork = container_root hash vec (case fork of None \<Rightarrow> replicate 3 (replicate 32 0)
     | Some f \<Rightarrow> [ToBytes32 (PreviousVersion f), ToBytes32 (CurrentVersion f), ToBytes32 (put_le 8 (unat (fork_Epoch f)))])"

definition CheckpointRoot :: "(bytes \<Rightarrow> bytes) \<Rightarrow> (bytes list \<Rightarrow> bytes list res) \<Rightarrow> Checkpoint option \<Rightarrow> bytes res" where
  "CheckpointRoot hash vec checkpoint = container_root hash vec (case checkpoint of None \<Rightarrow> replicate 2 (replicate 32 0)
     | Some c \<Rightarrow> [ToBytes32 (put_le 8 (unat (cp_Epoch c))), ToBytes32 (cp_Root c)])"

definition BlockHeaderRoot :: "(bytes \<Rightarrow> bytes) \<Rightarrow> (bytes list \<Rightarrow> bytes list res) \<Rightarrow> BeaconBlockHeader option \<Rightarrow> bytes res" where
  "BlockHeaderRoot hash vec header = container_root hash vec (case header of None \<Rightarrow> replicate 5 (replicate 32 0)
     | Some h \<Rightarrow> [ToBytes32 (put_le 8 (unat (hdr_Slot h))), ToBytes32 (put_le 8 (unat (hdr_ProposerIndex h))),
                 ToBytes32 (hdr_ParentRoot h), ToBytes32 (hdr_StateRoot h), ToBytes32 (hdr_BodyRoot h)])"

definition ByteArrayRootWithLimit :: "(bytes \<Rightarrow> bytes) \<Rightarrow> (bytes list \<Rightarrow> bytes list res) \<Rightarrow> bytes list \<Rightarrow> u64 \<Rightarrow> bytes res" where
  "ByteArrayRootWithLimit hash vec roots limit =
     (let newRoots = map (to_array 32) roots
      in bindR (wrapR ''could not compute byte array merkleization'' (BitwiseMerkleize hash vec newRoots (of_nat (length newRoots)) limit))
           (\<lambda>result. Inr (MixInLength hash result (length_chunk (length newRoots)))))"

definition fp_SlashingsLength :: nat where "fp_SlashingsLength = 512"
definition fp_MaxTxsPerPayloadLength :: u64 where "fp_MaxTxsPerPayloadLength = 1048576"
definition fp_MaxBytesPerTxLength :: u64 where "fp_MaxBytesPerTxLength = 1073741824"
definition fp_HistoricalRootsLength :: nat where "fp_HistoricalRootsLength = 16777216"
definition fp_ValidatorRegistryLimit :: u64 where "fp_ValidatorRegistryLimit = 1099511627776"

definition SlashingsRoot :: "(bytes \<Rightarrow> bytes) \<Rightarrow> (bytes list \<Rightarrow> bytes list res) \<Rightarrow> u64 list \<Rightarrow> bytes res" where
  "SlashingsRoot hash vec slashings =
     (if length slashings > fp_SlashingsLength then Inl (Err ''slashings length exceeds vector length'')
      else container_root hash vec (PackByChunk (map (\<lambda>s. put_le 8 (unat s)) slashings)))"

definition transactionRoot :: "(bytes \<Rightarrow> bytes) \<Rightarrow> (bytes list \<Rightarrow> bytes list res) \<Rightarrow> bytes \<Rightarrow> bytes res" where
  "transactionRoot hash vec tx =
     (let chunkedRoots = PackByChunk [tx]; maxLength = (fp_MaxBytesPerTxLength + 31) div 32
      in bindR (wrapR ''could not compute merkleization'' (BitwiseMerkleize hash vec chunkedRoots (of_nat (length chunkedRoots)) maxLength))
           (\<lambda>bytesRoot. Inr (MixInLength hash bytesRoot (length_chunk (length tx)))))"

definition TransactionsRoot :: "(bytes \<Rightarrow> bytes) \<Rightarrow> (bytes list \<Rightarrow> bytes list res) \<Rightarrow> bytes list \<Rightarrow> bytes res" where
  "TransactionsRoot hash vec txs =
     bindR (mapR (transactionRoot hash vec) txs) (\<lambda>txRoots.
     bindR (wrapR ''could not compute  merkleization'' (BitwiseMerkleize hash vec txRoots (of_nat (length txRoots)) fp_MaxTxsPerPayloadLength))
       (\<lambda>bytesRoot. Inr (MixInLength hash bytesRoot (length_chunk (length txs)))))"

definition withdrawalRoot ::
  "(bytes \<Rightarrow> bytes) \<Rightarrow> (bytes list \<Rightarrow> bytes list res) \<Rightarrow> ('w \<Rightarrow> bytes res) \<Rightarrow> 'w option \<Rightarrow> bytes res" where
  "withdrawalRoot hash vec htr w = (case w of None \<Rightarrow> BitwiseMerkleize hash vec (replicate 4 (replicate 32 0)) 4 4 | Some w \<Rightarrow> htr w)"

definition WithdrawalSliceRoot ::
  "(bytes \<Rightarrow> bytes) \<Rightarrow> (bytes list \<Rightarrow> bytes list res) \<Rightarrow> ('w \<Rightarrow> bytes res) \<Rightarrow> 'w option list \<Rightarrow> u64 \<Rightarrow> bytes res" where
  "WithdrawalSliceRoot hash vec htr withdrawals limit =
     bindR (mapR (withdrawalRoot hash vec htr) withdrawals) (\<lambda>roots.
     bindR (wrapR ''could not compute  merkleization'' (BitwiseMerkleize hash vec roots (of_nat (length roots)) limit))
       (\<lambda>bytesRoot. Inr (MixInLength hash bytesRoot (length_chunk (length withdrawals)))))"

text \<open>A bit field as \<open>go-bitfield\<close> presents it: the raw bytes when it is a \<open>Bitlist\<close>, and what its
  methods \<open>Len\<close> and \<open>Bytes\<close> return.\<close>

record Bitfield =
  bf_list :: "bytes option"
  bf_Len :: u64
  bf_Bytes :: bytes

definition BitlistRoot :: "(bytes \<Rightarrow> bytes) \<Rightarrow> (bytes list \<Rightarrow> bytes list res) \<Rightarrow> Bitfield option \<Rightarrow> u64 \<Rightarrow> bytes res" where
  "BitlistRoot hash vec bfield maxCapacity = (case bfield of None \<Rightarrow> Inl (Err ''bitlist is nil'') | Some b \<Rightarrow>
     if (case bf_list b of None \<Rightarrow> False | Some bl \<Rightarrow> bl = [] \<or> last bl = 0) then Inl (Err ''bitlist has no length bit'')
     else if bf_Len b > maxCapacity then Inl (Err ''bitlist exceeds maximum capacity'')
     else let limit = maxCapacity div 256 + (if maxCapacity mod 256 \<noteq> 0 then 1 else 0)
          in if bf_Len b = 0
             then bindR (BitwiseMerkleize hash vec [] 0 limit) (\<lambda>root. Inr (MixInLength hash root (replicate 32 0)))
             else let chunks = PackByChunk [bf_Bytes b]
                  in bindR (BitwiseMerkleize hash vec chunks (of_nat (length chunks)) limit)
                       (\<lambda>root. Inr (MixInLength hash root (to_array 32 (put_le 8 (unat (bf_Len b)))))))"

definition ExecutionDataRootWithHasher :: "(bytes \<Rightarrow> bytes) \<Rightarrow> (bytes list \<Rightarrow> bytes list res) \<Rightarrow> ExecutionData option \<Rightarrow> bytes res" where
  "ExecutionDataRootWithHasher hash vec executionData = (case executionData of None \<Rightarrow> Inl (Err ''nil execution data'')
     | Some d \<Rightarrow> container_root hash vec
         [if length (DepositRoot d) > 0 then ToBytes32 (DepositRoot d) else replicate 32 0,
          ToBytes32 (put_le 8 (unat (DepositCount d))),
          if length (BlockHash d) > 0 then ToBytes32 (BlockHash d) else replicate 32 0])"

definition ExecutionDatasRoot ::
  "(bytes \<Rightarrow> bytes) \<Rightarrow> (bytes list \<Rightarrow> bytes list res) \<Rightarrow> u64 \<Rightarrow> ExecutionData option list \<Rightarrow> bytes res" where
  "ExecutionDatasRoot hash vec votesLength executionDatas =
     bindR (mapR (\<lambda>d. wrapR ''could not compute executiondata merkleization'' (ExecutionDataRootWithHasher hash vec d)) executionDatas) (\<lambda>roots.
     bindR (wrapR ''could not compute executiondata votes merkleization'' (BitwiseMerkleize hash vec roots (of_nat (length roots)) votesLength))
       (\<lambda>root. Inr (MixInLength hash root (length_chunk (length executionDatas)))))"

definition HistoricalSummariesRoot ::
  "(bytes \<Rightarrow> bytes) \<Rightarrow> (bytes list \<Rightarrow> bytes list res) \<Rightarrow> (HistoricalSummary \<Rightarrow> bytes res) \<Rightarrow> HistoricalSummary list \<Rightarrow> bytes res" where
  "HistoricalSummariesRoot hash vec htr summaries =
     (if length summaries > fp_HistoricalRootsLength then Inl (Err ''historical summary exceeds max length'')
      else bindR (mapR (\<lambda>s. wrapR ''could not merkleize historical summary'' (htr s)) summaries) (\<lambda>roots.
           bindR (wrapR ''could not compute historical summaries merkleization''
                    (BitwiseMerkleize hash vec roots (of_nat (length roots)) (of_nat fp_HistoricalRootsLength)))
             (\<lambda>root. Inr (MixInLength hash root (length_chunk (length summaries))))))"

definition ParticipationBitsRoot :: "(bytes \<Rightarrow> bytes) \<Rightarrow> (bytes list \<Rightarrow> bytes list res) \<Rightarrow> bytes \<Rightarrow> bytes res" where
  "ParticipationBitsRoot hash vec bits =
     (let chunkedRoots = packParticipationBits bits; limit = (fp_ValidatorRegistryLimit + 31) div 32
      in bindR (wrapR ''could not compute merkleization'' (BitwiseMerkleize hash vec chunkedRoots (of_nat (length chunkedRoots)) limit))
           (\<lambda>bytesRoot. Inr (MixInLength hash bytesRoot (length_chunk (length bits)))))"

definition ValidatorLimitForBalancesChunks :: u64 where
  "ValidatorLimitForBalancesChunks = (fp_ValidatorRegistryLimit * 8 + 31) div 32"

definition Uint64ListRootWithRegistryLimit :: "(bytes \<Rightarrow> bytes) \<Rightarrow> (bytes list \<Rightarrow> bytes list res) \<Rightarrow> u64 list \<Rightarrow> bytes res" where
  "Uint64ListRootWithRegistryLimit hash vec balances =
     (let balancesChunks = PackUint64IntoChunks balances
      in bindR (wrapR ''could not compute balances merkleization''
                  (BitwiseMerkleize hash vec balancesChunks (of_nat (length balancesChunks)) ValidatorLimitForBalancesChunks))
           (\<lambda>root. Inr (MixInLength hash root (length_chunk (length balances)))))"

section \<open>Keys, committees and validators\<close>

definition merkleizePubkey :: "(bytes \<Rightarrow> bytes) \<Rightarrow> (bytes list \<Rightarrow> bytes list res) \<Rightarrow> bytes \<Rightarrow> bytes res" where
  "merkleizePubkey hash vec pubkey =
     (if pubkey = [] then Inl (Err ''zero length pubkey provided'')
      else let chunks = PackByChunk [pubkey]; depth = unat (Depth (of_nat (length chunks)))
           in bindR (foldR (vector_step hash vec) [0..<depth] chunks) (\<lambda>chunks. arr_get chunks 0))"

definition SyncCommitteeRoot :: "(bytes \<Rightarrow> bytes) \<Rightarrow> (bytes list \<Rightarrow> bytes list res) \<Rightarrow> SyncCommittee option \<Rightarrow> bytes res" where
  "SyncCommitteeRoot hash vec committee = (case committee of None \<Rightarrow> Inr (replicate 32 0)
     | Some c \<Rightarrow> bindR (mapR (merkleizePubkey hash vec) (Pubkeys c)) (\<lambda>pubKeyRoots.
         bindR (container_root hash vec pubKeyRoots) (\<lambda>pubkeyRoot. container_root hash vec [pubkeyRoot])))"

definition ValidatorFieldRoots :: "(bytes \<Rightarrow> bytes) \<Rightarrow> (bytes list \<Rightarrow> bytes list res) \<Rightarrow> Validator option \<Rightarrow> bytes list res" where
  "ValidatorFieldRoots hash vec validator = (case validator of None \<Rightarrow> Inr [] | Some v \<Rightarrow>
     let pubkey = ToBytes2592 (PublicKey v); recipientBuf = ToBytes64 (WithdrawalRecipient v);
         word = (\<lambda>x. to_array 32 (put_le 8 (unat x)))
     in bindR (merkleizePubkey hash vec pubkey) (\<lambda>pubKeyRoot.
        bindR (BitwiseMerkleize hash vec [take 32 recipientBuf, drop 32 recipientBuf] 2 2) (\<lambda>recipientRoot.
        Inr ([pubKeyRoot, recipientRoot, word (EffectiveBalance v), to_array 32 [if Slashed v then 1 else 0],
              word (ActivationEligibilityEpoch v), word (ActivationEpoch v), word (ExitEpoch v), word (WithdrawableEpoch v),
              ToBytes32 (RandaoCommitment v)] @ replicate 7 (replicate 32 0)))))"

definition ValidatorRootWithHasher :: "(bytes \<Rightarrow> bytes) \<Rightarrow> (bytes list \<Rightarrow> bytes list res) \<Rightarrow> Validator option \<Rightarrow> bytes res" where
  "ValidatorRootWithHasher hash vec validator =
     bindR (ValidatorFieldRoots hash vec validator) (container_root hash vec)"

text \<open>The goroutine of group \<open>j\<close> logs an error and stops; group \<open>n - 1\<close> is the main loop, which returns it.
  \<open>order\<close> is the order in which they finish.\<close>

definition write_fields ::
  "(Validator option \<Rightarrow> bytes list res) \<Rightarrow> Validator option list \<Rightarrow> nat \<Rightarrow> bytes list \<Rightarrow> bytes list res" where
  "write_fields froots validators i roots =
     bindR (arr_get validators i) (\<lambda>v. bindR (froots v) (\<lambda>fRoots. Inr (write_at roots (i * 16) fRoots)))"

fun hashValidatorHelper ::
  "(Validator option \<Rightarrow> bytes list res) \<Rightarrow> Validator option list \<Rightarrow> nat list \<Rightarrow> bytes list \<Rightarrow> bytes list res" where
  "hashValidatorHelper froots validators [] roots = Inr roots"
| "hashValidatorHelper froots validators (i # is) roots =
     (case write_fields froots validators i roots of
        Inl (Err _) \<Rightarrow> Inr roots
      | Inl (Panic p) \<Rightarrow> Inl (Panic p)
      | Inr roots \<Rightarrow> hashValidatorHelper froots validators is roots)"

definition validator_task ::
  "(Validator option \<Rightarrow> bytes list res) \<Rightarrow> Validator option list \<Rightarrow> nat \<Rightarrow> nat \<Rightarrow> bytes list \<Rightarrow> bytes list res" where
  "validator_task froots validators n j roots =
     (let groupSize = length validators div n
      in if j < n - 1 then hashValidatorHelper froots validators (map (\<lambda>i. j * groupSize + i) [0..<groupSize]) roots
         else foldR (\<lambda>i roots. wrapR ''could not compute validators merkleization'' (write_fields froots validators i roots))
                [(n - 1) * groupSize..<length validators] roots)"

definition OptimizedValidatorRoots ::
  "nat \<Rightarrow> nat list \<Rightarrow> (bytes list \<Rightarrow> bytes list res) \<Rightarrow> (Validator option \<Rightarrow> bytes list res) \<Rightarrow> Validator option list \<Rightarrow> bytes list res" where
  "OptimizedValidatorRoots n order vec froots validators =
     (if validators = [] then Inr []
      else bindR (foldR (validator_task froots validators n) order (replicate (length validators * 16) (replicate 32 0)))
             (\<lambda>roots. foldR (\<lambda>_ roots. vec roots) [0..<4] roots))"

definition validatorRegistryRoot ::
  "nat \<Rightarrow> nat list \<Rightarrow> (bytes \<Rightarrow> bytes) \<Rightarrow> (bytes list \<Rightarrow> bytes list res) \<Rightarrow> Validator option list \<Rightarrow> bytes res" where
  "validatorRegistryRoot n order hash vec validators =
     bindR (OptimizedValidatorRoots n order vec (ValidatorFieldRoots hash vec) validators) (\<lambda>roots.
     bindR (wrapR ''could not compute validator registry merkleization'' (BitwiseMerkleize hash vec roots (of_nat (length roots)) fp_ValidatorRegistryLimit))
       (\<lambda>root. Inr (MixInLength hash root (length_chunk (length validators)))))"

section \<open>Packing loses nothing\<close>

lemma to_array_pad: "length x \<le> n \<Longrightarrow> to_array n x = x @ replicate (n - length x) 0"
  by (simp add: to_array_def)

lemma chunk32_spec:
  "(\<forall>c \<in> set (chunk32 xs). length c = 32) \<and> length (chunk32 xs) = (length xs + 31) div 32
   \<and> concat (chunk32 xs) = xs @ replicate (32 * ((length xs + 31) div 32) - length xs) 0"
proof (induction xs rule: chunk32.induct)
  case (1 xs)
  show ?case
  proof (cases "xs = []")
    case False
    then have step: "chunk32 xs = to_array 32 (take 32 xs) # chunk32 (drop 32 xs)" and pos: "0 < length xs"
      by (simp_all add: chunk32.simps [of xs])
    show ?thesis
    proof (cases "length xs \<le> 32")
      case True
      then have "(length xs + 31) div 32 = 1"
        using pos by linarith
      then show ?thesis
        using True by (simp add: step chunk32.simps [of "[]"] to_array_pad)
    next
      case len: False
      then have "(length xs + 31) div 32 = Suc ((length (drop 32 xs) + 31) div 32)"
        by (simp add: le_div_geq)
      moreover have "32 * Suc k - length xs = 32 * k - length (drop 32 xs)" for k
        using len by simp
      moreover have "to_array 32 (take 32 xs) = take 32 xs"
        using len by (simp add: to_array_pad)
      ultimately show ?thesis
        using 1 [OF False] len by (simp add: step)
    qed
  qed (simp add: chunk32.simps)
qed

lemma nth_concat_same:
  assumes "\<forall>xs \<in> set xss. length xs = k" and "p < length xss * k"
  shows "concat xss ! p = xss ! (p div k) ! (p mod k)"
  using assms
proof (induction xss arbitrary: p)
  case (Cons xs xss)
  show ?case
  proof (cases "p < k")
    case False
    then have "0 < k"
      using Cons.prems(2) by (cases k) auto
    then have "p div k = Suc ((p - k) div k)" "p mod k = (p - k) mod k"
      using False by (simp_all add: le_div_geq le_mod_geq)
    then show ?thesis
      using Cons.IH [of "p - k"] Cons.prems False by (simp add: nth_append)
  qed (use Cons.prems in \<open>simp add: nth_append\<close>)
qed simp

lemma length_concat_same: "\<forall>xs \<in> set xss. length xs = k \<Longrightarrow> length (concat xss) = length xss * k"
  by (induction xss) auto

lemma write_at_middle: "pos + length e \<le> length c \<Longrightarrow> write_at (A @ c @ B) (length A + pos) e = A @ write_at c pos e @ B"
  by (simp add: write_at_def)

lemma write_at_twice: "k + length d + length e \<le> length X \<Longrightarrow> write_at (write_at X k d) (k + length d) e = write_at X k (d @ e)"
  by (simp add: write_at_def add.commute add.left_commute)

lemma concat_write:
  assumes "\<forall>c \<in> set cl. length c = 32" and "i < length cl" and "pos + length e \<le> 32"
  shows "concat (cl[i := write_at (cl ! i) pos e]) = write_at (concat cl) (i * 32 + pos) e"
    and "\<forall>c \<in> set (cl[i := write_at (cl ! i) pos e]). length c = 32"
proof -
  have len: "length (cl ! i) = 32"
    using assms by simp
  show "\<forall>c \<in> set (cl[i := write_at (cl ! i) pos e]). length c = 32"
    using assms(1) len length_write_at [of pos e "cl ! i"] assms(3) set_update_subset_insert [of cl i "write_at (cl ! i) pos e"] by auto
  have A: "length (concat (take i cl)) = i * 32"
    using length_concat_same [of "take i cl" 32] assms(1,2) by (auto dest: in_set_takeD)
  have "concat cl = concat (take i cl) @ cl ! i @ concat (drop (Suc i) cl)"
    using arg_cong [OF id_take_nth_drop [OF assms(2)], of concat] by simp
  then show "concat (cl[i := write_at (cl ! i) pos e]) = write_at (concat cl) (i * 32 + pos) e"
    using write_at_middle [of pos e "cl ! i" "concat (take i cl)" "concat (drop (Suc i) cl)"] A len assms(2,3)
    by (simp add: upd_conv_take_nth_drop)
qed

abbreviation enc8 :: "u64 \<Rightarrow> bytes" where
  "enc8 v \<equiv> put_le 8 (unat v)"

lemma pack_fold:
  assumes "\<forall>c \<in> set cl. length c = 32" and "8 * (k + length vals) \<le> 32 * length cl"
  shows "(\<forall>c \<in> set (fold pack_step (enumerate k vals) cl). length c = 32)
    \<and> length (fold pack_step (enumerate k vals) cl) = length cl
    \<and> concat (fold pack_step (enumerate k vals) cl) = write_at (concat cl) (8 * k) (concat (map enc8 vals))"
  using assms
proof (induction vals arbitrary: k cl)
  case (Cons v vals)
  have i: "k div 4 < length cl" "k mod 4 * 8 + length (enc8 v) \<le> 32" "k div 4 * 32 + k mod 4 * 8 = 8 * k"
    using Cons.prems(2) by simp_all presburger
  note w = concat_write [OF Cons.prems(1) i(1,2), unfolded i(3)]
  have len: "length (concat (map enc8 vals)) = 8 * length vals"
    using length_concat_same [of "map enc8 vals" 8] by simp
  have "length (concat cl) = 32 * length cl"
    using length_concat_same [OF Cons.prems(1)] by simp
  then show ?case
    using Cons.IH [OF w(2), of "Suc k"] Cons.prems(2) w(1) len write_at_twice [of "8 * k" "enc8 v" "concat (map enc8 vals)" "concat cl"]
    by (simp add: pack_step_def add.commute)
qed (simp_all add: write_at_def)

lemma concat_same_inj:
  assumes "concat xs = concat ys" and "\<forall>x \<in> set xs. length x = 32" and "\<forall>y \<in> set ys. length y = 32" and "length xs = length ys"
  shows "xs = ys"
  using assms by (intro concat_injective) (fastforce dest: set_zip_leftD set_zip_rightD)+

lemma chunks_of_words:
  "(l :: nat) div 4 + (if l mod 4 \<noteq> 0 then 1 else 0) = (8 * l + 31) div 32"
  "8 * l \<le> 32 * (l div 4 + (if l mod 4 \<noteq> 0 then 1 else 0))"
proof -
  define q r where "q = l div 4" and "r = l mod 4"
  have l: "l = 4 * q + r" "r < 4"
    by (simp_all add: q_def r_def)
  have "q + (if r \<noteq> 0 then 1 else 0) = (8 * (4 * q + r) + 31) div 32"
    using l(2) by (cases "r = 0") auto
  then show "l div 4 + (if l mod 4 \<noteq> 0 then 1 else 0) = (8 * l + 31) div 32"
    unfolding q_def r_def by (simp only: mult_div_mod_eq)
  have "8 * (4 * q + r) \<le> 32 * (q + (if r \<noteq> 0 then 1 else 0))"
    using l(2) by simp
  then show "8 * l \<le> 32 * (l div 4 + (if l mod 4 \<noteq> 0 then 1 else 0))"
    unfolding q_def r_def by (simp only: mult_div_mod_eq)
qed

lemma PackUint64IntoChunks_chunk32: "PackUint64IntoChunks vals = chunk32 (concat (map enc8 vals))"
proof -
  let ?n = "length vals div 4 + (if length vals mod 4 \<noteq> 0 then 1 else 0)" and ?bytes = "concat (map enc8 vals)"
  have n: "?n = (8 * length vals + 31) div 32" "8 * (0 + length vals) \<le> 32 * ?n"
    using chunks_of_words [of "length vals"] by (simp_all only: add_0)
  have len: "length ?bytes = 8 * length vals"
    using length_concat_same [of "map enc8 vals" 8] by simp
  have z: "concat (replicate m (replicate 32 0)) = (replicate (32 * m) 0 :: bytes)" for m
    by (induction m) (simp_all add: replicate_add)
  show ?thesis
    using pack_fold [of "replicate ?n (replicate 32 0)" 0 vals] chunk32_spec [of ?bytes] n len z
    by (intro concat_same_inj) (auto simp: PackUint64IntoChunks_def write_at_def)
qed

section \<open>Vectorised validator roots\<close>

lemma hash_pairs_concat:
  "\<forall>xs \<in> set xss. even (length xs) \<Longrightarrow> hash_pairs hash (concat xss) = concat (map (hash_pairs hash) xss)"
  by (induction xss) (auto simp: hash_pairs_def layer_append_even)

text \<open>What the tasks write, validator by validator.\<close>

definition filled :: "bytes list list \<Rightarrow> nat set \<Rightarrow> bytes list \<Rightarrow> bool" where
  "filled F I roots \<longleftrightarrow> length roots = length F * 16
     \<and> (\<forall>p < length F * 16. p div 16 \<in> I \<longrightarrow> roots ! p = F ! (p div 16) ! (p mod 16))"

definition field_table :: "(Validator option \<Rightarrow> bytes list res) \<Rightarrow> Validator option list \<Rightarrow> bytes list list \<Rightarrow> bool" where
  "field_table froots validators F \<longleftrightarrow> length F = length validators
     \<and> (\<forall>i < length F. froots (validators ! i) = Inr (F ! i) \<and> length (F ! i) = 16)"

lemma div_16: "(p :: nat) div 16 = i \<longleftrightarrow> i * 16 \<le> p \<and> p < i * 16 + 16"
  by auto

lemma write_fields_filled:
  assumes "field_table froots validators F" and "filled F I roots" and "i < length F"
  shows "\<exists>r. write_fields froots validators i roots = Inr r \<and> filled F (insert i I) r"
proof -
  have len: "length (F ! i) = 16" "i * 16 + 16 \<le> length roots"
    using assms by (auto simp: filled_def field_table_def)
  have "write_at roots (i * 16) (F ! i) ! p = F ! (p div 16) ! (p mod 16)"
    if p: "p < length F * 16" "p div 16 \<in> insert i I" for p
  proof (cases "p div 16 = i")
    case True
    then have "p - i * 16 = p mod 16"
      by (simp add: minus_div_mult_eq_mod [symmetric])
    then show ?thesis
      using nth_write_at [of "i * 16" "F ! i" roots p] p(1) len assms(2) True div_16 [of p i] by (simp add: filled_def)
  next
    case False
    then have "write_at roots (i * 16) (F ! i) ! p = roots ! p" and "p div 16 \<in> I"
      using nth_write_at [of "i * 16" "F ! i" roots p] p len assms(2) div_16 [of p i] by (auto simp: filled_def)
    then show ?thesis
      using p(1) assms(2) by (simp add: filled_def)
  qed
  then have "filled F (insert i I) (write_at roots (i * 16) (F ! i))"
    using assms(2) len length_write_at [of "i * 16" "F ! i" roots] by (simp add: filled_def)
  then show ?thesis
    using assms(1,3) by (simp add: write_fields_def arr_get_def field_table_def)
qed

lemma helper_filled:
  assumes "field_table froots validators F"
  shows "filled F I roots \<Longrightarrow> set is \<subseteq> {..<length F} \<Longrightarrow>
     \<exists>r. hashValidatorHelper froots validators is roots = Inr r \<and> filled F (I \<union> set is) r"
proof (induction "is" arbitrary: I roots)
  case (Cons i "is")
  obtain r where r: "write_fields froots validators i roots = Inr r" "filled F (insert i I) r"
    using write_fields_filled [OF assms Cons.prems(1), of i] Cons.prems(2) by auto
  then show ?case
    using Cons.IH [OF r(2)] Cons.prems(2) by auto
qed auto

lemma main_filled:
  assumes "field_table froots validators F"
  shows "filled F I roots \<Longrightarrow> set is \<subseteq> {..<length F} \<Longrightarrow>
     \<exists>r. foldR (\<lambda>i roots. wrapR msg (write_fields froots validators i roots)) is roots = Inr r \<and> filled F (I \<union> set is) r"
proof (induction "is" arbitrary: I roots)
  case (Cons i "is")
  obtain r where r: "write_fields froots validators i roots = Inr r" "filled F (insert i I) r"
    using write_fields_filled [OF assms Cons.prems(1), of i] Cons.prems(2) by auto
  then show ?case
    using Cons.IH [OF r(2)] Cons.prems(2) by auto
qed auto

definition task_indices :: "nat \<Rightarrow> nat \<Rightarrow> nat \<Rightarrow> nat set" where
  "task_indices len n j = (let g = len div n in if j < n - 1 then {j * g..<j * g + g} else {(n - 1) * g..<len})"

lemma task_filled:
  assumes "field_table froots validators F" and "filled F I roots" and "0 < n"
  shows "\<exists>r. validator_task froots validators n j roots = Inr r \<and> filled F (I \<union> task_indices (length F) n j) r"
proof -
  let ?g = "length F div n"
  have len: "length F = length validators"
    using assms(1) by (simp add: field_table_def)
  show ?thesis
  proof (cases "j < n - 1")
    case True
    have "j * ?g + ?g \<le> n * ?g"
      using True mult_le_mono1 [of "j + 1" n ?g] by (simp add: add.commute)
    also have "\<dots> \<le> length F"
      by simp
    finally have "set (map (\<lambda>i. j * ?g + i) [0..<?g]) \<subseteq> {..<length F}"
      by auto
    moreover have "(\<lambda>i. j * ?g + i) ` {0..<?g} = {j * ?g..<j * ?g + ?g}"
      by (simp add: image_add_atLeastLessThan add.commute)
    ultimately show ?thesis
      using helper_filled [OF assms(1,2), of "map (\<lambda>i. j * ?g + i) [0..<?g]"] True len
      by (simp add: validator_task_def Let_def task_indices_def)
  next
    case False
    then show ?thesis
      using main_filled [OF assms(1,2), of "[(n - 1) * ?g..<length F]"] len
      by (simp add: validator_task_def Let_def task_indices_def subset_iff)
  qed
qed

lemma tasks_filled:
  assumes "field_table froots validators F" and "0 < n"
  shows "filled F I roots \<Longrightarrow> \<exists>r. foldR (validator_task froots validators n) order roots = Inr r
    \<and> filled F (I \<union> (\<Union>j \<in> set order. task_indices (length F) n j)) r"
proof (induction order arbitrary: I roots)
  case (Cons j order)
  obtain r where r: "validator_task froots validators n j roots = Inr r" "filled F (I \<union> task_indices (length F) n j) r"
    using task_filled [OF assms(1) Cons.prems assms(2)] by blast
  then show ?case
    using Cons.IH [OF r(2)] by (simp add: Un_assoc)
qed simp

lemma tasks_cover:
  assumes "0 < n" and "i < len"
  shows "\<exists>j < n. i \<in> task_indices len n j"
proof (cases "i < (n - 1) * (len div n)")
  case True
  let ?g = "len div n"
  have "0 < ?g"
    using True by (cases ?g) auto
  then have "i div ?g < n - 1" "i \<in> {i div ?g * ?g..<i div ?g * ?g + ?g}"
    using True dividend_less_div_times [of ?g i] by (auto simp: less_mult_imp_div_less add.commute)
  then show ?thesis
    by (intro exI [of _ "i div ?g"]) (simp add: task_indices_def Let_def)
next
  case False
  then show ?thesis
    using assms by (intro exI [of _ "n - 1"]) (simp add: task_indices_def Let_def)
qed

lemma filled_all:
  assumes "filled F {..<length F} roots" and "\<forall>i < length F. length (F ! i) = 16"
  shows "roots = concat F"
proof (rule nth_equalityI)
  have same: "\<forall>xs \<in> set F. length xs = 16"
    using assms(2) by (auto simp: in_set_conv_nth)
  then show len: "length roots = length (concat F)"
    using assms(1) length_concat_same [OF same] by (simp add: filled_def)
  fix p assume p: "p < length roots"
  then have "p < length F * 16" "p div 16 < length F"
    using assms(1) by (auto simp: filled_def)
  then show "roots ! p = concat F ! p"
    using assms(1) nth_concat_same [OF same] by (simp add: filled_def)
qed

lemma hash_pairs_tower:
  "length xs = 2 ^ n \<Longrightarrow> (hash_pairs hash ^^ n) xs = [mroot (Combi hash) (ZeroHashes hash) k n xs]"
proof (induction n arbitrary: xs k)
  case 0
  then show ?case
    by (auto simp: length_Suc_conv)
next
  case (Suc n)
  have "even (length xs)"
    using Suc.prems by simp
  then have "layer (Combi hash) (ZeroHashes hash k) xs = hash_pairs hash xs"
    by (simp add: hash_pairs_def layer_even_pad [of xs _ "ZeroHashes hash k" "[]"])
  then show ?case
    using Suc.IH [of "hash_pairs hash xs" "Suc k"] Suc.prems mk.mroot_layer [of hash k n xs]
    by (simp add: funpow_swap1 del: mroot.simps)
qed

lemma hash_pairs_concat_tower:
  "\<forall>xs \<in> set xss. 2 ^ n dvd length xs \<Longrightarrow> (hash_pairs hash ^^ n) (concat xss) = concat (map (hash_pairs hash ^^ n) xss)"
proof (induction n arbitrary: xss)
  case (Suc n)
  have "\<forall>xs \<in> set (map (hash_pairs hash) xss). 2 ^ n dvd length xs" "\<forall>xs \<in> set xss. even (length xs)"
    using Suc.prems by (auto elim!: dvdE)
  then show ?case
    using Suc.IH [of "map (hash_pairs hash) xss"] by (simp add: funpow_swap1 hash_pairs_concat comp_def)
qed simp

lemma four_layers:
  assumes "\<forall>xs \<in> set xss. length xs = 16"
  shows "(hash_pairs hash ^^ 4) (concat xss) = map (root_of hash 4) xss"
proof -
  have "(hash_pairs hash ^^ 4) (concat xss) = concat (map (hash_pairs hash ^^ 4) xss)"
    using assms by (intro hash_pairs_concat_tower) auto
  also have "map (hash_pairs hash ^^ 4) xss = map (\<lambda>xs. [root_of hash 4 xs]) xss"
    using assms hash_pairs_tower [of _ 4 hash 0] by (intro map_cong) auto
  finally show ?thesis
    by (simp del: mroot.simps)
qed

lemma foldR_vec:
  assumes "\<And>xs. even (length xs) \<Longrightarrow> vec xs = Inr (hash_pairs hash xs)"
  shows "2 ^ n dvd length xs \<Longrightarrow> foldR (\<lambda>_. vec) [m..<m + n] xs = Inr ((hash_pairs hash ^^ n) xs)"
proof (induction n arbitrary: m xs)
  case (Suc n)
  then have "even (length xs)" "2 ^ n dvd length (hash_pairs hash xs)"
    by (auto elim!: dvdE)
  then show ?case
    using Suc.IH [of "hash_pairs hash xs" "Suc m"] assms by (simp add: upt_conv_Cons funpow_swap1 del: upt_Suc)
qed simp

lemma merkleizePubkey_total:
  assumes "\<And>xs. even (length xs) \<Longrightarrow> vec xs = Inr (hash_pairs hash xs)" and "pubkey \<noteq> []"
  shows "\<exists>r. merkleizePubkey hash vec pubkey = Inr r"
proof -
  let ?chunks = "PackByChunk [pubkey]"
  have "?chunks \<noteq> []"
    using assms(2) by (simp add: PackByChunk_def chunk32.simps)
  then have "merkleizePubkey hash vec pubkey = MerkleizeVector hash vec ?chunks (of_nat (length ?chunks))"
    using assms(2) by (simp add: merkleizePubkey_def MerkleizeVector_def Let_def)
  then show ?thesis
    using MerkleizeVector_root [where vec = vec and hash = hash, OF assms(1)] by auto
qed

lemma ValidatorFieldRoots_total:
  assumes "\<And>xs. even (length xs) \<Longrightarrow> vec xs = Inr (hash_pairs hash xs)"
  shows "\<exists>F. ValidatorFieldRoots hash vec (Some v) = Inr F \<and> length F = 16"
proof -
  have "length (ToBytes2592 (PublicKey v)) = 2592"
    by (simp add: ToBytes2592_def)
  then have "ToBytes2592 (PublicKey v) \<noteq> []"
    by auto
  then obtain r where "merkleizePubkey hash vec (ToBytes2592 (PublicKey v)) = Inr r"
    using merkleizePubkey_total [where vec = vec and hash = hash, OF assms] by blast
  then show ?thesis
    using MerkleizeVector_root [where vec = vec and hash = hash, OF assms]
    by (simp add: ValidatorFieldRoots_def Let_def BitwiseMerkleize_def)
qed

lemma container_root_16:
  assumes "\<And>xs. even (length xs) \<Longrightarrow> vec xs = Inr (hash_pairs hash xs)" and "length F = 16"
  shows "container_root hash vec F = Inr (root_of hash 4 F)"
proof -
  have "unat (Depth 16) = 4"
    by (rule Depth_pow) simp
  then show ?thesis
    using MerkleizeVector_root [where vec = vec and hash = hash, OF assms(1), of F 16] assms(2)
    by (simp add: container_root_def BitwiseMerkleize_def)
qed

section \<open>Properties\<close>

text \<open>C33: The vectorised computation of the validator roots, in which goroutines lay out the field roots of
  their groups in one flat array that is then hashed four levels up, gives the root of each validator
  in order, for any number of processors and any order in which the goroutines finish.\<close>

theorem OptimizedValidatorRoots_pointwise:
  assumes "\<And>xs. even (length xs) \<Longrightarrow> vec xs = Inr (hash_pairs hash xs)" and "0 < n" and "set order = {..<n}"
  shows "OptimizedValidatorRoots n order vec (ValidatorFieldRoots hash vec) (map Some vs)
    = mapR (ValidatorRootWithHasher hash vec) (map Some vs)"
proof (cases "vs = []")
  case False
  define FR where "FR v = (THE F. ValidatorFieldRoots hash vec (Some v) = Inr F)" for v
  have FR: "ValidatorFieldRoots hash vec (Some v) = Inr (FR v)" "length (FR v) = 16" for v
    using ValidatorFieldRoots_total [where vec = vec and hash = hash, OF assms(1), of v] by (auto simp: FR_def)
  let ?F = "map FR vs" and ?z = "replicate (length (map Some vs) * 16) (replicate 32 0)"
  have table: "field_table (ValidatorFieldRoots hash vec) (map Some vs) ?F"
    by (simp add: field_table_def FR)
  obtain r where r: "foldR (validator_task (ValidatorFieldRoots hash vec) (map Some vs) n) order ?z = Inr r"
      "filled ?F (\<Union>j \<in> set order. task_indices (length ?F) n j) r"
    using tasks_filled [OF table assms(2), of "{}" ?z order] by (auto simp: filled_def)
  have "{..<length ?F} \<subseteq> (\<Union>j \<in> set order. task_indices (length ?F) n j)"
    using tasks_cover [OF assms(2)] assms(3) by fastforce
  then have "r = concat ?F"
    using r(2) FR(2) by (intro filled_all) (auto simp: filled_def)
  moreover have "(hash_pairs hash ^^ 4) (concat ?F) = map (root_of hash 4) ?F"
    by (rule four_layers) (simp add: FR)
  moreover have "foldR (\<lambda>_. vec) [0..<4] (concat ?F) = Inr ((hash_pairs hash ^^ 4) (concat ?F))"
    using foldR_vec [where vec = vec and hash = hash and n = 4 and m = 0, OF assms(1), of "concat ?F"] length_concat_same [of ?F 16] FR(2)
    by simp
  moreover have "mapR (ValidatorRootWithHasher hash vec) (map Some vs) = Inr (map (root_of hash 4) ?F)"
    using container_root_16 [where vec = vec and hash = hash, OF assms(1) FR(2)]
    by (induction vs) (simp_all add: ValidatorRootWithHasher_def FR)
  ultimately show ?thesis
    using False r(1) by (simp add: OptimizedValidatorRoots_def)
qed (simp add: OptimizedValidatorRoots_def)

text \<open>C35: The direct packing of balances, eight bytes at a computed place of a computed chunk, gives the chunks
  of the generic packing of their serialisations (and none at all for an empty list).\<close>

theorem PackUint64IntoChunks_generic:
  "PackUint64IntoChunks vals = (if vals = [] then [] else PackByChunk (map (\<lambda>v. put_le 8 (unat v)) vals))"
proof -
  have "put_le 8 x \<noteq> []" for x
    by (metis length_put_le list.size(3) zero_neq_numeral)
  then show ?thesis
    by (cases vals) (simp_all add: PackUint64IntoChunks_chunk32 PackByChunk_def chunk32.simps [of "[]"])
qed

theorem OptimizedValidatorRoots_pointwise_witness:
  "OptimizedValidatorRoots 3 [2, 0, 1] (\<lambda>xs. Inr (hash_pairs (take 32) xs)) (ValidatorFieldRoots (take 32) (\<lambda>xs. Inr (hash_pairs (take 32) xs)))
     (map Some [zero_validator, zero_validator\<lparr>EffectiveBalance := 7\<rparr>])
   = mapR (ValidatorRootWithHasher (take 32) (\<lambda>xs. Inr (hash_pairs (take 32) xs)))
     (map Some [zero_validator, zero_validator\<lparr>EffectiveBalance := 7\<rparr>])"
proof (rule OptimizedValidatorRoots_pointwise)
  show "set [2, 0, 1] = {..<3 :: nat}"
    by (auto simp: lessThan_nat_numeral)
qed simp_all

end
