(* ===== verification/Epoch_Processing.thy ===== *)
theory Epoch_Processing
  imports Validator_Lifecycle Committees State_Roots
begin

text \<open>
  The end-of-epoch updates of \<open>beacon-chain/core/epoch/epoch_processing.go\<close> (the registry updates are
  in \<open>Validator_Lifecycle\<close>) and the total active balance with its cache
  (\<open>core/helpers/rewards_penalties.go\<close>, \<open>cache/active_balance.go\<close>).
\<close>

section \<open>Total active balance\<close>

definition balanceCacheKey :: "config \<Rightarrow> BeaconState \<Rightarrow> bytes res" where
  "balanceCacheKey cfg s =
     bindR (Slot_DivSlot (b_slot s) (SlotsPerEpoch (raw cfg))) (\<lambda>currentEpoch.
     bindR (wrapR ''start slot calculation overflows'' (Slot_SafeMul (SlotsPerEpoch (raw cfg)) currentEpoch)) (\<lambda>epochStartSlot.
     let prevSlot = (if epochStartSlot > 1 then epochStartSlot - 1 else 0)
     in bindR (BlockRootAtIndex s (prevSlot mod SlotsPerHistoricalRoot (raw cfg))) (\<lambda>r.
        Inr (r @ put_le 8 (unat currentEpoch) @ put_le 8 (unat (of_nat (NumValidators s) :: u64))))))"

definition sum_active :: "BeaconState \<Rightarrow> Epoch \<Rightarrow> u64 res" where
  "sum_active s epoch = ReadFromEveryValidator s (\<lambda>_ val total.
     if IsActiveValidator val epoch then Add64 total (EffectiveBalance val) else Inr total) 0"

text \<open>\<open>TotalActiveBalance\<close> on an empty cache and with the cache.\<close>

definition TotalActiveBalance :: "config \<Rightarrow> BeaconState \<Rightarrow> u64 res" where
  "TotalActiveBalance cfg s =
     bindR (balanceCacheKey cfg s) (\<lambda>_.
     bindR (sum_active s (ToEpoch cfg (b_slot s))) (\<lambda>total.
     Inr (max (EffectiveBalanceIncrement (raw cfg)) total)))"




section \<open>Slashings\<close>

definition slashing_callback ::
  "config \<Rightarrow> Epoch \<Rightarrow> u64 \<Rightarrow> u64 \<Rightarrow> nat \<Rightarrow> Validator \<Rightarrow> BeaconState \<Rightarrow> (bool \<times> Validator \<times> BeaconState) res" where
  "slashing_callback cfg currentEpoch totalBalance minSlashing idx val s =
     (let increment = EffectiveBalanceIncrement (raw cfg);
          correctEpoch = (currentEpoch + EpochsPerSlashingsVector (raw cfg) div 2 = WithdrawableEpoch val)
      in if Slashed val \<and> correctEpoch
         then case bits_Mul64 (EffectiveBalance val div increment) minSlashing of (hi, lo) \<Rightarrow>
              bindR (bits_Div64 hi lo totalBalance) (\<lambda>(quotient, _).
              bindR (DecreaseBalance s (of_nat idx) (quotient * increment)) (\<lambda>s. Inr (True, val, s)))
         else Inr (False, val, s))"

definition ProcessSlashings :: "config \<Rightarrow> BeaconState \<Rightarrow> u64 \<Rightarrow> BeaconState res" where
  "ProcessSlashings cfg s slashingMultiplier =
     bindR (wrapR ''could not get total active balance'' (TotalActiveBalance cfg s)) (\<lambda>totalBalance.
     bindR (foldR (\<lambda>slashing total. Add64 total slashing) (b_slashings s) 0) (\<lambda>totalSlashing.
     let minSlashing = (case Mul64 totalSlashing slashingMultiplier of
                          Inl _ \<Rightarrow> totalBalance | Inr adjusted \<Rightarrow> min adjusted totalBalance)
     in ApplyToEveryValidator s (slashing_callback cfg (CurrentEpoch cfg s) totalBalance minSlashing)))"

section \<open>Effective balances\<close>

definition effective_balance_callback ::
  "config \<Rightarrow> u64 list \<Rightarrow> nat \<Rightarrow> Validator \<Rightarrow> BeaconState \<Rightarrow> (bool \<times> Validator \<times> BeaconState) res" where
  "effective_balance_callback cfg bals idx val s =
     (let effBalanceInc = EffectiveBalanceIncrement (raw cfg); maxEffBalance = MaxEffectiveBalance (raw cfg);
          hysteresisInc = effBalanceInc div HysteresisQuotient (raw cfg);
          downwardThreshold = hysteresisInc * HysteresisDownwardMultiplier (raw cfg);
          upwardThreshold = hysteresisInc * HysteresisUpwardMultiplier (raw cfg)
      in if idx \<ge> length bals then Inl (Err ''validator index exceeds validator length in state'')
         else let balance = bals ! idx
              in if balance + downwardThreshold < EffectiveBalance val \<or> EffectiveBalance val + upwardThreshold < balance
                 then let effectiveBal = min maxEffBalance (balance - balance mod effBalanceInc)
                      in if effectiveBal \<noteq> EffectiveBalance val
                         then Inr (True, val\<lparr>EffectiveBalance := effectiveBal\<rparr>, s)
                         else Inr (False, val, s)
                 else Inr (False, val, s))"

definition ProcessEffectiveBalanceUpdates :: "config \<Rightarrow> BeaconState \<Rightarrow> BeaconState res" where
  "ProcessEffectiveBalanceUpdates cfg s = ApplyToEveryValidator s (effective_balance_callback cfg (b_balances s))"

section \<open>Resets and history\<close>

definition ProcessExecutionDataReset :: "config \<Rightarrow> BeaconState \<Rightarrow> BeaconState res" where
  "ProcessExecutionDataReset cfg s =
     (let nextEpoch = CurrentEpoch cfg s + 1
      in if nextEpoch mod EpochsPerExecutionVotingPeriod (raw cfg) = 0 then SetExecutionDataVotes s [] else Inr s)"

definition ProcessSlashingsReset :: "config \<Rightarrow> BeaconState \<Rightarrow> BeaconState res" where
  "ProcessSlashingsReset cfg s =
     (let nextEpoch = CurrentEpoch cfg s + 1; slashedExitLength = EpochsPerSlashingsVector (raw cfg);
          slashedEpoch = nextEpoch mod slashedExitLength
      in if of_nat (length (b_slashings s)) \<noteq> slashedExitLength
         then Inl (Err ''state slashing length different than EpochsPerHistoricalVector'')
         else UpdateSlashingsAtIndex s slashedEpoch 0)"

definition ProcessRandaoMixesReset :: "config \<Rightarrow> BeaconState \<Rightarrow> BeaconState res" where
  "ProcessRandaoMixesReset cfg s =
     (let currentEpoch = CurrentEpoch cfg s; nextEpoch = currentEpoch + 1; randaoMixLength = EpochsPerHistoricalVector (raw cfg)
      in if of_nat (length (b_randaoMixes s)) \<noteq> randaoMixLength
         then Inl (Err ''state randao length different than EpochsPerHistoricalVector'')
         else bindR (RandaoMix cfg s currentEpoch) (\<lambda>mix.
              if length mix < 32 then Inl (Panic ''cannot convert slice to array'')
              else UpdateRandaoMixesAtIndex s (nextEpoch mod randaoMixLength) (take 32 mix)))"

definition fp_BlockRootsLength :: u64 where "fp_BlockRootsLength = 1024"
definition fp_StateRootsLength :: u64 where "fp_StateRootsLength = 1024"

definition ProcessHistoricalDataUpdate ::
  "config \<Rightarrow> (bytes list \<Rightarrow> bytes list res) \<Rightarrow> BeaconState \<Rightarrow> BeaconState res" where
  "ProcessHistoricalDataUpdate cfg vec s =
     (let nextEpoch = CurrentEpoch cfg s + 1
      in bindR (Slot_DivSlot (SlotsPerHistoricalRoot (raw cfg)) (SlotsPerEpoch (raw cfg))) (\<lambda>epochsPerHistoricalRoot.
         bindR (Epoch_Mod nextEpoch epochsPerHistoricalRoot) (\<lambda>m.
         if m = 0
         then bindR (ArraysRoot vec (b_blockRoots s) fp_BlockRootsLength) (\<lambda>br.
              bindR (ArraysRoot vec (b_stateRoots s) fp_StateRootsLength) (\<lambda>sr.
              AppendHistoricalSummaries s \<lparr>BlockSummaryRoot = br, StateSummaryRoot = sr\<rparr>))
         else Inr s)))"

section \<open>Lemmas\<close>

lemma balanceCacheKey_total:
  assumes "unat (SlotsPerHistoricalRoot (raw cfg)) \<le> length (b_blockRoots s)"
  shows "\<exists>k. balanceCacheKey cfg s = Inr k"
proof -
  let ?e = "b_slot s div SlotsPerEpoch (raw cfg)"
  have "unat (SlotsPerEpoch (raw cfg)) * unat ?e \<le> unat (b_slot s)"
    by (simp add: unat_div_u64)
  then have mul: "Slot_SafeMul (SlotsPerEpoch (raw cfg)) ?e = Inr (SlotsPerEpoch (raw cfg) * ?e)"
    using unat_lt_2_64 [of "b_slot s"] by (simp add: Slot_SafeMul_def Mul64_cases)
  have "unat (x mod SlotsPerHistoricalRoot (raw cfg)) < length (b_blockRoots s)" for x
    by (rule less_le_trans [OF _ assms]) (simp add: unat_mod_u64)
  then have "\<exists>r. BlockRootAtIndex s (x mod SlotsPerHistoricalRoot (raw cfg)) = Inr r" for x
    by (simp add: BlockRootAtIndex_def not_le)
  then obtain r where "BlockRootAtIndex s ((if SlotsPerEpoch (raw cfg) * ?e > 1 then SlotsPerEpoch (raw cfg) * ?e - 1 else 0)
      mod SlotsPerHistoricalRoot (raw cfg)) = Inr r"
    by blast
  then show ?thesis
    using mul by (simp add: balanceCacheKey_def Slot_DivSlot_def Slot_Div_def Slot_SafeDiv_def Div64_cases Let_def split del: if_split)
qed

text \<open>A callback that changes the balance of its own validator.\<close>

lemma ApplyToEveryValidator_balances:
  assumes num: "NumValidators b < 18446744073709551616" and len: "length (b_balances b) = NumValidators b"
    and f: "\<And>i v c. i < NumValidators b \<Longrightarrow> length (b_balances c) = NumValidators b \<Longrightarrow>
      f i v c = Inr (if P v then (True, v, c\<lparr>b_balances := (b_balances c)[i := g v (b_balances c ! i)]\<rparr>) else (False, v, c))"
  shows "ApplyToEveryValidator b f = Inr (b\<lparr>
    b_validators := map (\<lambda>v. if P v then normalizeRandaoCommitment v else v) (b_validators b),
    b_balances := map2 (\<lambda>v bal. if P v then g v bal else bal) (b_validators b) (b_balances b)\<rparr>)"
proof -
  let ?body = "\<lambda>i b. bindR (ValidatorAtIndex b (of_nat i)) (\<lambda>val.
                  bindR (f i val b) (\<lambda>(changed, newVal, b).
                  if changed then wrapR ''could not update validator'' (UpdateValidatorAtIndex b (of_nat i) newVal)
                  else Inr b))"
  let ?n = "NumValidators b" and ?V = "b_validators b" and ?B = "b_balances b"
  define vs where "vs k = map (\<lambda>i. if i < k \<and> P (?V ! i) then normalizeRandaoCommitment (?V ! i) else ?V ! i) [0..<?n]" for k
  define bs where "bs k = map (\<lambda>i. if i < k \<and> P (?V ! i) then g (?V ! i) (?B ! i) else ?B ! i) [0..<?n]" for k
  have "foldR ?body [0..<k] b = Inr (b\<lparr>b_validators := vs k, b_balances := bs k\<rparr>)" if "k \<le> ?n" for k
    using that
  proof (induction k)
    case 0
    have "vs 0 = ?V" "bs 0 = ?B"
      using len by (auto simp: vs_def bs_def NumValidators_def intro!: nth_equalityI)
    then show ?case by simp
  next
    case (Suc k)
    have k: "unat (of_nat k :: u64) = k" "k < ?n"
      using Suc.prems num by (simp_all add: unat_of_nat_u64)
    have at: "length (vs k) = ?n" "length (bs k) = ?n" "vs k ! k = ?V ! k" "bs k ! k = ?B ! k"
      using k by (simp_all add: vs_def bs_def)
    have up: "vs (Suc k) = (if P (?V ! k) then (vs k)[k := normalizeRandaoCommitment (?V ! k)] else vs k)"
      "bs (Suc k) = (if P (?V ! k) then (bs k)[k := g (?V ! k) (?B ! k)] else bs k)"
      using k by (auto simp: vs_def bs_def nth_list_update less_Suc_eq intro!: nth_equalityI)
    have "?body k (b\<lparr>b_validators := vs k, b_balances := bs k\<rparr>) = Inr (b\<lparr>b_validators := vs (Suc k), b_balances := bs (Suc k)\<rparr>)"
      using k f [of k "b\<lparr>b_validators := vs k, b_balances := bs k\<rparr>"] at up
      by (simp add: ValidatorAtIndex_def UpdateValidatorAtIndex_def Let_def)
    then show ?case
      using Suc by (simp add: foldR_append)
  qed
  moreover have "vs ?n = map (\<lambda>v. if P v then normalizeRandaoCommitment v else v) ?V"
    "bs ?n = map2 (\<lambda>v bal. if P v then g v bal else bal) ?V ?B"
    using len by (auto simp: vs_def bs_def NumValidators_def intro!: nth_equalityI)
  ultimately show ?thesis
    by (simp add: ApplyToEveryValidator_def)
qed

lemma TotalActiveBalance_pos:
  assumes "TotalActiveBalance cfg s = Inr t"
  shows "t \<noteq> 0"
proof -
  have "0 < unat (EffectiveBalanceIncrement (raw cfg))"
    by simp
  also have "\<dots> \<le> unat t"
    using assms by (auto simp: TotalActiveBalance_def bindR_eq_Inr unat_max_u64)
  finally show ?thesis
    by auto
qed

text \<open>A 128-bit product divided by a bound of one of its factors.\<close>

lemma muldiv128:
  fixes a m t :: u64
  assumes "t \<noteq> 0" and "m \<le> t" and hl: "bits_Mul64 a m = (hi, lo)"
  shows "\<exists>q r. bits_Div64 hi lo t = Inr (q, r) \<and> unat q = unat a * unat m div unat t"
proof -
  have hi: "unat hi = unat a * unat m div 2 ^ 64" and lo: "lo = a * m"
    using fst_bits_Mul64 [of a m] snd_bits_Mul64 [of a m] by (simp_all add: hl)
  have "unat a * unat m \<le> unat a * unat t"
    using assms(2) by (simp add: unat_le_u64)
  also have "\<dots> < 2 ^ 64 * unat t"
    using unat_lt_2_64 [of a] assms(1) by (simp add: unat_pos_u64)
  finally have "hi < t"
    unfolding unat_less_u64 hi by (simp add: less_mult_imp_div_less mult.commute)
  moreover have "unat hi * 2 ^ 64 + unat lo = unat a * unat m"
    unfolding hi lo by (simp add: unat_word_ariths)
  ultimately show ?thesis
    using bits_Div64_Inr [OF assms(1), of hi lo] by auto
qed

lemma foldR_Add64:
  "unat acc + sum_list (map unat xs) < 18446744073709551616 \<Longrightarrow>
     \<exists>t. foldR (\<lambda>x tot. Add64 tot x) xs acc = Inr t \<and> unat t = unat acc + sum_list (map unat xs)"
proof (induction xs arbitrary: acc)
  case (Cons x xs)
  then have "Add64 acc x = Inr (acc + x)" "unat (acc + x) = unat acc + unat x"
    by (simp_all add: Add64_cases unat_add_u64)
  then show ?case
    using Cons.IH [of "acc + x"] Cons.prems by auto
qed simp

text \<open>The penalty of the specification, in unbounded integers.\<close>

definition spec_penalty :: "nat \<Rightarrow> nat \<Rightarrow> nat \<Rightarrow> nat \<Rightarrow> nat \<Rightarrow> nat" where
  "spec_penalty increment multiplier slashed tot effective =
     effective div increment * min (slashed * multiplier) tot div tot * increment"

lemma slashing_callback_exact:
  fixes cfg and v :: Validator
  assumes "tot \<noteq> 0" and "minSlashing \<le> tot" and "idx < length (b_balances s)" and "length (b_balances s) < 18446744073709551616"
  defines "pen \<equiv> unat (EffectiveBalance v) div unat (EffectiveBalanceIncrement (raw cfg)) * unat minSlashing div unat tot
             * unat (EffectiveBalanceIncrement (raw cfg))"
  shows "pen < 18446744073709551616" and
    "slashing_callback cfg e tot minSlashing idx v s =
      Inr (if Slashed v \<and> e + EpochsPerSlashingsVector (raw cfg) div 2 = WithdrawableEpoch v
           then (True, v, s\<lparr>b_balances := (b_balances s)[idx := DecreaseBalanceWithVal (b_balances s ! idx) (of_nat pen)]\<rparr>)
           else (False, v, s))"
proof -
  let ?inc = "EffectiveBalanceIncrement (raw cfg)" and ?a = "EffectiveBalance v div EffectiveBalanceIncrement (raw cfg)"
  obtain hi lo where hl: "bits_Mul64 ?a minSlashing = (hi, lo)"
    by (cases "bits_Mul64 ?a minSlashing")
  obtain q r where q: "bits_Div64 hi lo tot = Inr (q, r)" "unat q = unat ?a * unat minSlashing div unat tot"
    using muldiv128 [OF assms(1,2) hl] by blast
  have "unat ?a * unat minSlashing \<le> unat ?a * unat tot"
    using assms(2) by (simp add: unat_le_u64)
  from div_le_mono [OF this, of "unat tot"] have "unat q \<le> unat ?a"
    using assms(1) by (simp add: q(2) unat_eq_zero)
  from mult_le_mono1 [OF this, of "unat ?inc"] have "unat q * unat ?inc \<le> unat (EffectiveBalance v)"
    by (rule order_trans) (simp add: unat_div_u64)
  moreover have pen: "unat q * unat ?inc = pen"
    by (simp add: q(2) pen_def unat_div_u64)
  ultimately show "pen < 18446744073709551616"
    using unat_lt_2_64 [of "EffectiveBalance v"] by linarith
  have "q * ?inc = of_nat pen"
    unfolding pen [symmetric] by simp
  moreover have "unat (of_nat idx :: u64) = idx"
    using assms(3,4) by (simp add: unat_of_nat_u64)
  ultimately have "DecreaseBalance s (of_nat idx) (q * ?inc)
      = Inr (s\<lparr>b_balances := (b_balances s)[idx := DecreaseBalanceWithVal (b_balances s ! idx) (of_nat pen)]\<rparr>)"
    using assms(3) by (simp add: DecreaseBalance_Inr)
  then show "slashing_callback cfg e tot minSlashing idx v s =
      Inr (if Slashed v \<and> e + EpochsPerSlashingsVector (raw cfg) div 2 = WithdrawableEpoch v
           then (True, v, s\<lparr>b_balances := (b_balances s)[idx := DecreaseBalanceWithVal (b_balances s ! idx) (of_nat pen)]\<rparr>)
           else (False, v, s))"
    using q by (auto simp: slashing_callback_def Let_def hl)
qed

text \<open>The hysteresis rule of the specification, in unbounded integers.\<close>

definition spec_effective :: "BeaconChainConfig \<Rightarrow> nat \<Rightarrow> nat \<Rightarrow> nat" where
  "spec_effective c balance effective =
     (let increment = unat (EffectiveBalanceIncrement c); h = increment div unat (HysteresisQuotient c);
          down = h * unat (HysteresisDownwardMultiplier c); up = h * unat (HysteresisUpwardMultiplier c)
      in if balance + down < effective \<or> effective + up < balance
         then min (balance - balance mod increment) (unat (MaxEffectiveBalance c)) else effective)"

definition hysteresis_room :: "BeaconChainConfig \<Rightarrow> bool" where
  "hysteresis_room c \<longleftrightarrow>
     unat (MaxEffectiveBalance c)
     + unat (EffectiveBalanceIncrement c) div unat (HysteresisQuotient c) * unat (HysteresisDownwardMultiplier c)
     + unat (EffectiveBalanceIncrement c) div unat (HysteresisQuotient c) * unat (HysteresisUpwardMultiplier c) < 18446744073709551616"

lemma effective_balance_callback_spec:
  assumes "hysteresis_room (raw cfg)" and "idx < length bals" and "EffectiveBalance v \<le> MaxEffectiveBalance (raw cfg)"
  defines "eb \<equiv> spec_effective (raw cfg) (unat (bals ! idx)) (unat (EffectiveBalance v))"
  shows "eb \<le> unat (MaxEffectiveBalance (raw cfg))"
    and "effective_balance_callback cfg bals idx v c
      = Inr (of_nat eb \<noteq> EffectiveBalance v, if of_nat eb \<noteq> EffectiveBalance v then v\<lparr>EffectiveBalance := of_nat eb\<rparr> else v, c)"
proof -
  let ?c = "raw cfg"
  define h where "h = EffectiveBalanceIncrement ?c div HysteresisQuotient ?c"
  define D where "D = unat h * unat (HysteresisDownwardMultiplier ?c)"
  define U where "U = unat h * unat (HysteresisUpwardMultiplier ?c)"
  define b where "b = bals ! idx"
  have du: "unat (h * HysteresisDownwardMultiplier ?c) = D" "unat (h * HysteresisUpwardMultiplier ?c) = U"
    using raw_arith(5,6) [of cfg] by (simp_all add: mulOverflows_iff D_def U_def h_def unat_mult_u64)
  have room: "unat (MaxEffectiveBalance ?c) + D + U < 18446744073709551616"
    using assms(1) by (simp add: hysteresis_room_def D_def U_def h_def unat_div_u64)
  have e: "unat (EffectiveBalance v) \<le> unat (MaxEffectiveBalance ?c)"
    using assms(3) by (simp add: unat_le_u64)
  show "eb \<le> unat (MaxEffectiveBalance ?c)"
    using e by (simp add: eb_def spec_effective_def Let_def)
  have up: "EffectiveBalance v + h * HysteresisUpwardMultiplier ?c < b \<longleftrightarrow> unat (EffectiveBalance v) + U < unat b"
    using room e du by (simp add: unat_less_u64 unat_add_u64)
  have down: "b + h * HysteresisDownwardMultiplier ?c < EffectiveBalance v \<or> unat (EffectiveBalance v) + U < unat b
      \<longleftrightarrow> unat b + D < unat (EffectiveBalance v) \<or> unat (EffectiveBalance v) + U < unat b"
  proof (cases "unat b + D < 18446744073709551616")
    case True
    then show ?thesis
      using du by (simp add: unat_less_u64 unat_add_u64)
  next
    case False
    then have "unat (EffectiveBalance v) + U < unat b"
      using room e by linarith
    then show ?thesis
      by simp
  qed
  have m: "min (MaxEffectiveBalance ?c) (b - b mod EffectiveBalanceIncrement ?c)
      = of_nat (min (unat b - unat b mod unat (EffectiveBalanceIncrement ?c)) (unat (MaxEffectiveBalance ?c)))"
  proof -
    have "b mod EffectiveBalanceIncrement ?c \<le> b"
      by (simp add: unat_le_u64 unat_mod_u64)
    then have "unat (min (MaxEffectiveBalance ?c) (b - b mod EffectiveBalanceIncrement ?c))
        = min (unat b - unat b mod unat (EffectiveBalanceIncrement ?c)) (unat (MaxEffectiveBalance ?c))"
      by (simp add: unat_min_u64 unat_sub_u64 unat_mod_u64 min.commute)
    from arg_cong [OF this, of "of_nat :: nat \<Rightarrow> u64"] show ?thesis
      by (simp only: of_nat_unat ucast_id)
  qed
  have "eb = (if unat b + D < unat (EffectiveBalance v) \<or> unat (EffectiveBalance v) + U < unat b
      then min (unat b - unat b mod unat (EffectiveBalanceIncrement ?c)) (unat (MaxEffectiveBalance ?c)) else unat (EffectiveBalance v))"
    by (simp add: eb_def spec_effective_def Let_def b_def D_def U_def h_def unat_div_u64)
  then show "effective_balance_callback cfg bals idx v c
      = Inr (of_nat eb \<noteq> EffectiveBalance v, if of_nat eb \<noteq> EffectiveBalance v then v\<lparr>EffectiveBalance := of_nat eb\<rparr> else v, c)"
    using assms(2) up down m
    by (simp add: effective_balance_callback_def Let_def flip: h_def b_def)
qed

lemma spec_effective_idem: "spec_effective c b (spec_effective c b e) = spec_effective c b e"
  by (simp add: spec_effective_def Let_def)

definition new_validator :: "config \<Rightarrow> u64 \<Rightarrow> Validator \<Rightarrow> Validator" where
  "new_validator cfg bal v =
     (let eb = of_nat (spec_effective (raw cfg) (unat bal) (unat (EffectiveBalance v)))
      in if eb \<noteq> EffectiveBalance v then normalizeRandaoCommitment (v\<lparr>EffectiveBalance := eb\<rparr>) else v)"

lemma spec_effective_le:
  "e \<le> unat (MaxEffectiveBalance c) \<Longrightarrow> spec_effective c b e \<le> unat (MaxEffectiveBalance c)"
  by (simp add: spec_effective_def Let_def)

lemma EffectiveBalance_new_validator:
  assumes "EffectiveBalance v \<le> MaxEffectiveBalance (raw cfg)"
  shows "unat (EffectiveBalance (new_validator cfg bal v)) = spec_effective (raw cfg) (unat bal) (unat (EffectiveBalance v))"
proof -
  have "spec_effective (raw cfg) (unat bal) (unat (EffectiveBalance v)) < 18446744073709551616"
    using spec_effective_le [of "unat (EffectiveBalance v)" "raw cfg" "unat bal"] assms unat_lt_2_64 [of "MaxEffectiveBalance (raw cfg)"]
    by (simp add: unat_le_u64)
  then have "unat (of_nat (spec_effective (raw cfg) (unat bal) (unat (EffectiveBalance v))) :: u64)
      = spec_effective (raw cfg) (unat bal) (unat (EffectiveBalance v))"
    by (simp add: unat_of_nat_u64)
  then show ?thesis
    by (auto simp: new_validator_def Let_def normalizeRandaoCommitment_def)
qed

lemma new_validator_idem:
  assumes "EffectiveBalance v \<le> MaxEffectiveBalance (raw cfg)"
  shows "new_validator cfg bal (new_validator cfg bal v) = new_validator cfg bal v"
proof -
  let ?w = "new_validator cfg bal v"
  have "of_nat (spec_effective (raw cfg) (unat bal) (unat (EffectiveBalance ?w))) = EffectiveBalance ?w"
    using EffectiveBalance_new_validator [OF assms, of bal] spec_effective_idem [of "raw cfg" "unat bal" "unat (EffectiveBalance v)"]
    by (metis of_nat_unat ucast_id)
  then show ?thesis
    by (simp add: new_validator_def [of cfg bal ?w])
qed

lemma effective_updates_run:
  assumes "hysteresis_room (raw cfg)" and "length (b_balances s) = length (b_validators s)"
    and "length (b_validators s) < 18446744073709551616"
    and "\<forall>v \<in> set (b_validators s). EffectiveBalance v \<le> MaxEffectiveBalance (raw cfg)"
  shows "ProcessEffectiveBalanceUpdates cfg s
    = Inr (s\<lparr>b_validators := map2 (new_validator cfg) (b_balances s) (b_validators s)\<rparr>)"
proof -
  let ?eb = "\<lambda>i v. of_nat (spec_effective (raw cfg) (unat (b_balances s ! i)) (unat (EffectiveBalance v))) :: u64"
  have "effective_balance_callback cfg (b_balances s) i (b_validators s ! i) c
      = Inr (?eb i (b_validators s ! i) \<noteq> EffectiveBalance (b_validators s ! i),
             if ?eb i (b_validators s ! i) \<noteq> EffectiveBalance (b_validators s ! i)
             then (b_validators s ! i)\<lparr>EffectiveBalance := ?eb i (b_validators s ! i)\<rparr> else b_validators s ! i, c)"
    if "i < NumValidators s" for i c
    using that assms by (intro effective_balance_callback_spec(2)) (auto simp: NumValidators_def)
  from ApplyToEveryValidator_map [of s "effective_balance_callback cfg (b_balances s)" "\<lambda>i v. ?eb i v \<noteq> EffectiveBalance v"
      "\<lambda>i v. if ?eb i v \<noteq> EffectiveBalance v then v\<lparr>EffectiveBalance := ?eb i v\<rparr> else v", OF _ this]
  have "ProcessEffectiveBalanceUpdates cfg s = Inr (s\<lparr>b_validators :=
      map (\<lambda>(i, v). new_validator cfg (b_balances s ! i) v) (enumerate 0 (b_validators s))\<rparr>)"
    using assms(3) by (simp add: ProcessEffectiveBalanceUpdates_def NumValidators_def new_validator_def Let_def cong: if_cong)
  moreover have "map (\<lambda>(i, v). new_validator cfg (b_balances s ! i) v) (enumerate 0 (b_validators s))
      = map2 (new_validator cfg) (b_balances s) (b_validators s)"
    using assms(2) by (intro nth_equalityI) (simp_all add: nth_enumerate_eq)
  ultimately show ?thesis
    by simp
qed


section \<open>Properties\<close>

text \<open>C19: \<open>ProcessSlashings\<close> never panics and takes from every slashed validator that is half-way to its withdrawal
  exactly the penalty of the specification in unbounded integers, stopping at a zero balance: the
  128-bit product is exact and an overflow of the multiplied sum is the cap of the total balance.
  Nothing else in the state changes.\<close>

theorem ProcessSlashings_exact:
  assumes "TotalActiveBalance cfg s = Inr tot" and "sum_list (map unat (b_slashings s)) < 18446744073709551616"
    and "length (b_balances s) = length (b_validators s)" and "length (b_validators s) < 18446744073709551616"
  defines "hit v \<equiv> Slashed v \<and> CurrentEpoch cfg s + EpochsPerSlashingsVector (raw cfg) div 2 = WithdrawableEpoch v"
  shows "\<exists>bals. ProcessSlashings cfg s mult = Inr (s\<lparr>
        b_validators := map (\<lambda>v. if hit v then normalizeRandaoCommitment v else v) (b_validators s), b_balances := bals\<rparr>)
    \<and> length bals = length (b_balances s)
    \<and> (\<forall>i < length bals. unat (bals ! i) = unat (b_balances s ! i)
         - (if hit (b_validators s ! i)
            then spec_penalty (unat (EffectiveBalanceIncrement (raw cfg))) (unat mult) (sum_list (map unat (b_slashings s)))
                   (unat tot) (unat (EffectiveBalance (b_validators s ! i)))
            else 0))"
proof -
  obtain sl where sl: "foldR (\<lambda>x tot. Add64 tot x) (b_slashings s) 0 = Inr sl" "unat sl = sum_list (map unat (b_slashings s))"
    using foldR_Add64 [of 0 "b_slashings s"] assms(2) by auto
  define m where "m = (case Mul64 sl mult of Inl _ \<Rightarrow> tot | Inr adjusted \<Rightarrow> min adjusted tot)"
  have m: "m \<le> tot" "unat m = min (unat sl * unat mult) (unat tot)"
    using unat_lt_2_64 [of tot] by (auto simp: m_def Mul64_cases unat_min_u64 unat_mult_u64)
  have tot: "tot \<noteq> 0"
    using TotalActiveBalance_pos [OF assms(1)] .
  define pen where "pen v = spec_penalty (unat (EffectiveBalanceIncrement (raw cfg))) (unat mult) (unat sl) (unat tot) (unat (EffectiveBalance v))" for v :: Validator
  define g where "g v b = DecreaseBalanceWithVal b (of_nat (pen v))" for v b
  have cb: "pen v < 18446744073709551616"
      "slashing_callback cfg (CurrentEpoch cfg s) tot m i v c =
        Inr (if hit v then (True, v, c\<lparr>b_balances := (b_balances c)[i := g v (b_balances c ! i)]\<rparr>) else (False, v, c))"
    if "i < NumValidators s" "length (b_balances c) = NumValidators s" for i v c
    using slashing_callback_exact(1) [OF tot m(1), of i c, where v = v and cfg = cfg]
      slashing_callback_exact(2) [OF tot m(1), of i c, where v = v and cfg = cfg and e = "CurrentEpoch cfg s"] that assms(4)
    by (auto simp: hit_def g_def pen_def spec_penalty_def m(2) NumValidators_def)
  have run: "ProcessSlashings cfg s mult = Inr (s\<lparr>
      b_validators := map (\<lambda>v. if hit v then normalizeRandaoCommitment v else v) (b_validators s),
      b_balances := map2 (\<lambda>v bal. if hit v then g v bal else bal) (b_validators s) (b_balances s)\<rparr>)"
    using ApplyToEveryValidator_balances [of s "slashing_callback cfg (CurrentEpoch cfg s) tot m" hit g] cb(2) assms(1,3,4) sl(1)
    by (simp add: ProcessSlashings_def NumValidators_def m_def Let_def)
  have "pen v < 18446744073709551616" if "v \<in> set (b_validators s)" for v
    using cb(1) [of 0 s v] that assms(3) by (cases "b_validators s") (auto simp: NumValidators_def)
  then have "unat (g (b_validators s ! i) b) = unat b - pen (b_validators s ! i)" if "i < length (b_validators s)" for i b
    using that by (simp add: g_def DecreaseBalanceWithVal_unat unat_of_nat_u64)
  then show ?thesis
    using run assms(3) by (auto simp: pen_def sl(2) intro!: exI [of _ "map2 (\<lambda>v bal. if hit v then g v bal else bal) (b_validators s) (b_balances s)"])
qed

text \<open>C20: \<open>ProcessEffectiveBalanceUpdates\<close> gives every validator the effective balance of the hysteresis rule in
  unbounded integers, although its 64-bit comparisons may wrap: never above the maximum, and a
  second pass changes nothing.\<close>

theorem ProcessEffectiveBalanceUpdates_spec:
  assumes "hysteresis_room (raw cfg)" and "length (b_balances s) = length (b_validators s)"
    and "length (b_validators s) < 18446744073709551616"
    and "\<forall>v \<in> set (b_validators s). EffectiveBalance v \<le> MaxEffectiveBalance (raw cfg)"
  shows "\<exists>vs. ProcessEffectiveBalanceUpdates cfg s = Inr (s\<lparr>b_validators := vs\<rparr>)
    \<and> length vs = length (b_validators s)
    \<and> (\<forall>i < length vs. unat (EffectiveBalance (vs ! i))
         = spec_effective (raw cfg) (unat (b_balances s ! i)) (unat (EffectiveBalance (b_validators s ! i)))
         \<and> EffectiveBalance (vs ! i) \<le> MaxEffectiveBalance (raw cfg))
    \<and> ProcessEffectiveBalanceUpdates cfg (s\<lparr>b_validators := vs\<rparr>) = Inr (s\<lparr>b_validators := vs\<rparr>)"
proof -
  let ?vs = "map2 (new_validator cfg) (b_balances s) (b_validators s)"
  have eb: "unat (EffectiveBalance (?vs ! i)) = spec_effective (raw cfg) (unat (b_balances s ! i)) (unat (EffectiveBalance (b_validators s ! i)))"
    if "i < length (b_validators s)" for i
    using that assms(2,4) EffectiveBalance_new_validator by simp
  then have le: "EffectiveBalance (?vs ! i) \<le> MaxEffectiveBalance (raw cfg)" if "i < length (b_validators s)" for i
    using that spec_effective_le assms(4) by (simp add: unat_le_u64)
  then have all: "\<forall>v \<in> set ?vs. EffectiveBalance v \<le> MaxEffectiveBalance (raw cfg)"
    using assms(2) unfolding all_set_conv_all_nth by simp
  have "map2 (new_validator cfg) (b_balances s) ?vs = ?vs"
    using assms(2,4) new_validator_idem by (intro nth_equalityI) auto
  then have "ProcessEffectiveBalanceUpdates cfg (s\<lparr>b_validators := ?vs\<rparr>) = Inr (s\<lparr>b_validators := ?vs\<rparr>)"
    using effective_updates_run [of cfg "s\<lparr>b_validators := ?vs\<rparr>"] assms(1-3) all by simp
  then show ?thesis
    using effective_updates_run [OF assms] eb le assms(2) by (intro exI [of _ ?vs]) simp
qed


section \<open>Witnesses\<close>

text \<open>A state of the small configuration with a slashed validator half-way to its withdrawal.\<close>

definition slashed_state :: BeaconState where
  "slashed_state = small_registry\<lparr>b_blockRoots := replicate 8 (replicate 32 1),
     b_validators := (b_validators small_registry)[1 := zero_validator\<lparr>ExitEpoch := max_u64,
       EffectiveBalance := 40000000000000, Slashed := True, WithdrawableEpoch := 4\<rparr>]\<rparr>"

lemma slashed_key: "\<exists>k. balanceCacheKey tiny slashed_state = Inr k"
  by (rule balanceCacheKey_total) (simp add: slashed_state_def small_defs)

lemma slashed_sum: "sum_active slashed_state 2 = Inr 80000000000000"
  by (simp add: sum_active_def ReadFromEveryValidator_def slashed_state_def small_defs Add64_cases
      IsActiveValidator_def checkValidatorActiveStatus_def)

lemma slashed_total: "TotalActiveBalance tiny slashed_state = Inr 80000000000000"
proof -
  have "ToEpoch tiny (b_slot slashed_state) = 2"
    by (simp add: ToEpoch_def slashed_state_def small_defs)
  then show ?thesis
    using slashed_key slashed_sum by (auto simp: TotalActiveBalance_def max_def small_defs)
qed

theorem ProcessSlashings_exact_witness:
  "\<exists>bals. ProcessSlashings tiny slashed_state 3 = Inr (slashed_state\<lparr>
      b_validators := map (\<lambda>v. if Slashed v \<and> CurrentEpoch tiny slashed_state + EpochsPerSlashingsVector (raw tiny) div 2 = WithdrawableEpoch v
        then normalizeRandaoCommitment v else v) (b_validators slashed_state), b_balances := bals\<rparr>)"
proof -
  have "sum_list (map unat (b_slashings slashed_state)) < 18446744073709551616"
    "length (b_balances slashed_state) = length (b_validators slashed_state)" "length (b_validators slashed_state) < 18446744073709551616"
    by (simp_all add: slashed_state_def small_registry_def)
  from ProcessSlashings_exact [OF slashed_total this, of 3] show ?thesis
    by (elim exE conjE) (rule exI)
qed

theorem ProcessEffectiveBalanceUpdates_spec_witness:
  "\<exists>vs. ProcessEffectiveBalanceUpdates tiny (slashed_state\<lparr>b_balances := [0, max_u64, 38000000000007]\<rparr>)
       = Inr (slashed_state\<lparr>b_balances := [0, max_u64, 38000000000007], b_validators := vs\<rparr>)
     \<and> map EffectiveBalance vs = [0, 40000000000000, 38000000000000]"
proof -
  let ?s = "slashed_state\<lparr>b_balances := [0, max_u64, 38000000000007]\<rparr>"
  obtain vs where vs: "ProcessEffectiveBalanceUpdates tiny ?s = Inr (?s\<lparr>b_validators := vs\<rparr>)" "length vs = 3"
    "\<forall>i < 3. unat (EffectiveBalance (vs ! i)) = spec_effective (raw tiny) (unat (b_balances ?s ! i)) (unat (EffectiveBalance (b_validators ?s ! i)))"
    using ProcessEffectiveBalanceUpdates_spec [of tiny ?s] by (auto simp: hysteresis_room_def slashed_state_def small_defs)
  have "EffectiveBalance (vs ! 0) = 0" "EffectiveBalance (vs ! 1) = 40000000000000" "EffectiveBalance (vs ! 2) = 38000000000000"
    using vs(3) by (simp_all add: unat_eq_u64 spec_effective_def Let_def slashed_state_def small_defs)
  moreover have "vs = [vs ! 0, vs ! 1, vs ! 2]"
    using vs(2) by (intro nth_equalityI) (auto simp: less_Suc_eq numeral_3_eq_3 numeral_2_eq_2)
  ultimately have "map EffectiveBalance vs = [0, 40000000000000, 38000000000000]"
    by (metis list.simps(8,9))
  then show ?thesis
    using vs(1) by auto
qed


end
