(* ===== verification/Justification.thy ===== *)
theory Justification
  imports Epoch_Processing
begin

text \<open>
  Justification and finalization: \<open>beacon-chain/core/epoch/precompute\<close> (\<open>type.go\<close>, \<open>attestation.go\<close>,
  \<open>reward_penalty.go\<close>, \<open>justification_finalization.go\<close>) and the balances of
  \<open>stateutil/unrealized_justification.go\<close>. \<open>bitfield.Bitvector4\<close> is a parameter; \<open>bv4_law\<close> is what its
  documentation promises for a vector of one byte.
\<close>

section \<open>Precomputed records\<close>

record PValidator =
  IsSlashed :: bool
  IsWithdrawableCurrentEpoch :: bool
  IsActiveCurrentEpoch :: bool
  IsActivePrevEpoch :: bool
  IsCurrentEpochAttester :: bool
  IsCurrentEpochTargetAttester :: bool
  IsPrevEpochAttester :: bool
  IsPrevEpochSourceAttester :: bool
  IsPrevEpochTargetAttester :: bool
  IsPrevEpochHeadAttester :: bool
  CurrentEpochEffectiveBalance :: u64
  InclusionSlot :: Slot
  InclusionDistance :: Slot
  pv_ProposerIndex :: ValidatorIndex
  BeforeEpochTransitionBalance :: u64
  AfterEpochTransitionBalance :: u64
  InactivityScore :: u64

record Balance =
  ActiveCurrentEpoch :: u64
  ActivePrevEpoch :: u64
  CurrentEpochAttested :: u64
  CurrentEpochTargetAttested :: u64
  PrevEpochAttested :: u64
  PrevEpochTargetAttested :: u64
  PrevEpochHeadAttested :: u64

definition EnsureBalancesLowerBound :: "config \<Rightarrow> Balance \<Rightarrow> Balance" where
  "EnsureBalancesLowerBound cfg bBal =
     (let ebi = EffectiveBalanceIncrement (raw cfg); low = (\<lambda>x. if ebi > x then ebi else x)
      in \<lparr>ActiveCurrentEpoch = low (ActiveCurrentEpoch bBal), ActivePrevEpoch = low (ActivePrevEpoch bBal),
          CurrentEpochAttested = low (CurrentEpochAttested bBal),
          CurrentEpochTargetAttested = low (CurrentEpochTargetAttested bBal),
          PrevEpochAttested = low (PrevEpochAttested bBal), PrevEpochTargetAttested = low (PrevEpochTargetAttested bBal),
          PrevEpochHeadAttested = low (PrevEpochHeadAttested bBal)\<rparr>)"

definition update_balance_step :: "PValidator \<Rightarrow> Balance \<Rightarrow> Balance" where
  "update_balance_step v b =
     (if IsSlashed v then b
      else let e = CurrentEpochEffectiveBalance v; add = (\<lambda>c x. if c then x + e else x)
           in b\<lparr>CurrentEpochAttested := add (IsCurrentEpochAttester v) (CurrentEpochAttested b),
                CurrentEpochTargetAttested := add (IsCurrentEpochTargetAttester v) (CurrentEpochTargetAttested b),
                PrevEpochAttested := add (IsPrevEpochSourceAttester v) (PrevEpochAttested b),
                PrevEpochTargetAttested := add (IsPrevEpochTargetAttester v) (PrevEpochTargetAttested b),
                PrevEpochHeadAttested := add (IsPrevEpochHeadAttester v) (PrevEpochHeadAttested b)\<rparr>)"

definition UpdateBalance :: "config \<Rightarrow> PValidator list \<Rightarrow> Balance \<Rightarrow> Balance" where
  "UpdateBalance cfg vp bBal = EnsureBalancesLowerBound cfg (fold update_balance_step vp bBal)"

definition EligibleForRewards :: "PValidator \<Rightarrow> bool" where
  "EligibleForRewards v \<longleftrightarrow> IsActivePrevEpoch v \<or> (IsSlashed v \<and> \<not> IsWithdrawableCurrentEpoch v)"

section \<open>Justification bits and checkpoints\<close>

record bv4 =
  bv_Shift :: "bytes \<Rightarrow> nat \<Rightarrow> bytes"
  bv_SetBitAt :: "bytes \<Rightarrow> nat \<Rightarrow> bool \<Rightarrow> bytes"
  bv_BitAt :: "bytes \<Rightarrow> nat \<Rightarrow> bool"
  bv_Bytes :: "bytes \<Rightarrow> bytes"

definition bv4_law :: "bv4 \<Rightarrow> bool" where
  "bv4_law bv \<longleftrightarrow> (\<forall>v.
     bv_Shift bv [v] 1 = [push_bit 1 v AND 15] \<and> bv_Bytes bv [v] = [v AND 15]
     \<and> (\<forall>i < 4. bv_SetBitAt bv [v] i True = [v OR push_bit i 1] \<and> bv_BitAt bv [v] i = bit v i))"

definition processJustificationBits :: "bv4 \<Rightarrow> BeaconState \<Rightarrow> u64 \<Rightarrow> u64 \<Rightarrow> u64 \<Rightarrow> bytes" where
  "processJustificationBits bv s totalActiveBalance prevEpochTargetBalance currEpochTargetBalance =
     (let newBits = bv_Shift bv (b_justificationBits s) 1;
          newBits = (if 3 * prevEpochTargetBalance \<ge> 2 * totalActiveBalance then bv_SetBitAt bv newBits 1 True else newBits)
      in if 3 * currEpochTargetBalance \<ge> 2 * totalActiveBalance then bv_SetBitAt bv newBits 0 True else newBits)"

definition computeCheckpoints :: "config \<Rightarrow> bv4 \<Rightarrow> BeaconState \<Rightarrow> bytes \<Rightarrow> (Checkpoint \<times> Checkpoint) res" where
  "computeCheckpoints cfg bv s newBits =
     (let prevEpoch = PrevEpoch cfg s; currentEpoch = CurrentEpoch cfg s;
          oldPrev = b_previousJustifiedCheckpoint s; oldCurr = b_currentJustifiedCheckpoint s
      in bindR (if bv_BitAt bv newBits 0 \<and> currentEpoch \<ge> cp_Epoch oldCurr
                then bindR (wrapR ''could not get block root for current epoch'' (BlockRoot cfg s currentEpoch)) (\<lambda>blockRoot.
                     Inr \<lparr>cp_Epoch = currentEpoch, cp_Root = blockRoot\<rparr>)
                else if bv_BitAt bv newBits 1 \<and> prevEpoch \<ge> cp_Epoch oldCurr
                then bindR (wrapR ''could not get block root for previous epoch'' (BlockRoot cfg s prevEpoch)) (\<lambda>blockRoot.
                     Inr \<lparr>cp_Epoch = prevEpoch, cp_Root = blockRoot\<rparr>)
                else Inr oldCurr) (\<lambda>justifiedCheckpoint.
         if newBits = [] then Inl (Err ''empty justification bits'')
         else bindR (arr_get (bv_Bytes bv newBits) 0) (\<lambda>justification.
              let fin = b_finalizedCheckpoint s;
                  fin = (if justification AND 14 = 14 \<and> cp_Epoch oldPrev + 3 = currentEpoch then oldPrev else fin);
                  fin = (if justification AND 6 = 6 \<and> cp_Epoch oldPrev + 2 = currentEpoch then oldPrev else fin);
                  fin = (if justification AND 7 = 7 \<and> cp_Epoch oldCurr + 2 = currentEpoch then oldCurr else fin);
                  fin = (if justification AND 3 = 3 \<and> cp_Epoch oldCurr + 1 = currentEpoch then oldCurr else fin)
              in Inr (justifiedCheckpoint, fin))))"

definition weighJustificationAndFinalization :: "config \<Rightarrow> bv4 \<Rightarrow> BeaconState \<Rightarrow> bytes \<Rightarrow> BeaconState res" where
  "weighJustificationAndFinalization cfg bv s newBits =
     bindR (computeCheckpoints cfg bv s newBits) (\<lambda>(jc, fc).
     bindR (SetPreviousJustifiedCheckpoint s (b_currentJustifiedCheckpoint s)) (\<lambda>s.
     bindR (SetCurrentJustifiedCheckpoint s jc) (\<lambda>s.
     bindR (SetJustificationBits s newBits) (\<lambda>s.
     SetFinalizedCheckpoint s fc))))"

definition ProcessJustificationAndFinalizationPreCompute :: "config \<Rightarrow> bv4 \<Rightarrow> BeaconState \<Rightarrow> Balance \<Rightarrow> BeaconState res" where
  "ProcessJustificationAndFinalizationPreCompute cfg bv s pBal =
     bindR (EpochStart cfg 2) (\<lambda>canProcessSlot.
     if b_slot s \<le> canProcessSlot then Inr s
     else weighJustificationAndFinalization cfg bv s
            (processJustificationBits bv s (ActiveCurrentEpoch pBal) (PrevEpochTargetAttested pBal) (CurrentEpochTargetAttested pBal)))"

section \<open>Unrealized justification\<close>

definition unrealized_step ::
  "config \<Rightarrow> bytes \<Rightarrow> bytes \<Rightarrow> Epoch \<Rightarrow> nat \<times> Validator \<Rightarrow> u64 \<times> u64 \<times> u64 \<Rightarrow> (u64 \<times> u64 \<times> u64) res" where
  "unrealized_step cfg cp pp currentEpoch iv acc = (case iv of (i, v) \<Rightarrow> case acc of (activeBalance, prevTarget, currentTarget) \<Rightarrow>
     let targetIdx = unat (TimelyTargetFlagIndex (raw cfg));
         activeCurrent = (ActivationEpoch v \<le> currentEpoch \<and> currentEpoch < ExitEpoch v)
     in bindR (if activeCurrent then Add64 activeBalance (EffectiveBalance v) else Inr activeBalance) (\<lambda>activeBalance.
        if Slashed v then Inr (activeBalance, prevTarget, currentTarget)
        else bindR (if activeCurrent \<and> (drop_bit targetIdx (cp ! i)) AND 1 = 1
                    then Add64 currentTarget (EffectiveBalance v) else Inr currentTarget) (\<lambda>currentTarget.
             let activePrevious = (ActivationEpoch v < currentEpoch \<and> currentEpoch \<le> ExitEpoch v)
             in bindR (if activePrevious \<and> (drop_bit targetIdx (pp ! i)) AND 1 = 1
                       then Add64 prevTarget (EffectiveBalance v) else Inr prevTarget) (\<lambda>prevTarget.
                Inr (activeBalance, prevTarget, currentTarget)))))"

definition ensureLowerBound :: "config \<Rightarrow> u64 \<Rightarrow> u64 \<Rightarrow> u64 \<Rightarrow> u64 \<times> u64 \<times> u64" where
  "ensureLowerBound cfg a p c =
     (let ebi = EffectiveBalanceIncrement (raw cfg); low = (\<lambda>x. if ebi > x then ebi else x) in (low a, low p, low c))"

definition UnrealizedCheckpointBalances :: "config \<Rightarrow> bytes \<Rightarrow> bytes \<Rightarrow> Validator list \<Rightarrow> Epoch \<Rightarrow> (u64 \<times> u64 \<times> u64) res" where
  "UnrealizedCheckpointBalances cfg cp pp validators currentEpoch =
     (if length cp < length validators \<or> length pp < length validators
      then Inl (Err ''participation does not match validator set'')
      else bindR (foldR (unrealized_step cfg cp pp currentEpoch) (enumerate 0 validators) (0, 0, 0)) (\<lambda>(a, p, c).
           Inr (ensureLowerBound cfg a p c)))"

definition UnrealizedCheckpoints :: "config \<Rightarrow> bv4 \<Rightarrow> BeaconState \<Rightarrow> (Checkpoint \<times> Checkpoint) res" where
  "UnrealizedCheckpoints cfg bv st =
     (if ToEpoch cfg (b_slot st) \<le> GenesisEpoch (raw cfg) + 1
      then Inr (b_currentJustifiedCheckpoint st, b_finalizedCheckpoint st)
      else bindR (UnrealizedCheckpointBalances cfg (b_currentEpochParticipation st) (b_previousEpochParticipation st)
                    (b_validators st) (CurrentEpoch cfg st)) (\<lambda>(activeBalance, prevTarget, currentTarget).
           computeCheckpoints cfg bv st (processJustificationBits bv st activeBalance prevTarget currentTarget)))"

section \<open>Bits\<close>

lemma u8_bits: "(x :: u8) = y \<longleftrightarrow> (\<forall>n \<in> {0, 1, 2, 3, 4, 5, 6, 7}. bit x n = bit y n)"
proof
  assume *: "\<forall>n \<in> {0, 1, 2, 3, 4, 5, 6, 7}. bit x n = bit y n"
  show "x = y"
  proof (rule bit_word_eqI)
    fix n assume "n < LENGTH(8)"
    then have "n = 0 \<or> n = 1 \<or> n = 2 \<or> n = 3 \<or> n = 4 \<or> n = 5 \<or> n = 6 \<or> n = 7"
      by simp linarith
    then show "bit x n = bit y n"
      using * by auto
  qed
qed simp

lemma mask_bits:
  "(x :: u8) AND 3 = 3 \<longleftrightarrow> bit x 0 \<and> bit x 1"
  "(x :: u8) AND 6 = 6 \<longleftrightarrow> bit x 1 \<and> bit x 2"
  "(x :: u8) AND 7 = 7 \<longleftrightarrow> bit x 0 \<and> bit x 1 \<and> bit x 2"
  "(x :: u8) AND 14 = 14 \<longleftrightarrow> bit x 1 \<and> bit x 2 \<and> bit x 3"
  unfolding u8_bits by (auto simp: bit_and_iff bit_numeral_rec)

lemma processJustificationBits_bits:
  assumes "bv4_law bv" and "b_justificationBits s = [v]"
  shows "\<exists>w. processJustificationBits bv s tot prev cur = [w] \<and> bit w 0 = (3 * cur \<ge> 2 * tot)
    \<and> bit w 1 = (bit v 0 \<or> 3 * prev \<ge> 2 * tot) \<and> bit w 2 = bit v 1 \<and> bit w 3 = bit v 2"
proof -
  define p where "p = push_bit 1 v"
  have p: "bit p 0 = False" "bit p 1 = bit v 0" "bit p 2 = bit v 1" "bit p 3 = bit v 2"
    unfolding p_def by (simp_all only: bit_push_bit_iff) simp_all
  let ?w0 = "p AND 15"
  let ?w1 = "if 3 * prev \<ge> 2 * tot then ?w0 OR push_bit 1 1 else ?w0"
  let ?w2 = "if 3 * cur \<ge> 2 * tot then ?w1 OR push_bit 0 1 else ?w1"
  have "processJustificationBits bv s tot prev cur = [?w2]"
    using assms by (simp add: processJustificationBits_def bv4_law_def Let_def p_def)
  moreover have "bit ?w2 0 = (3 * cur \<ge> 2 * tot)" "bit ?w2 1 = (bit v 0 \<or> 3 * prev \<ge> 2 * tot)"
      "bit ?w2 2 = bit v 1" "bit ?w2 3 = bit v 2"
    using p by (auto simp: bit_and_iff bit_or_iff bit_numeral_rec bit_1_iff)
  ultimately show ?thesis
    by blast
qed

definition new_justified :: "config \<Rightarrow> BeaconState \<Rightarrow> u8 \<Rightarrow> Checkpoint res" where
  "new_justified cfg s w =
     (if bit w 0 \<and> CurrentEpoch cfg s \<ge> cp_Epoch (b_currentJustifiedCheckpoint s)
      then bindR (wrapR ''could not get block root for current epoch'' (BlockRoot cfg s (CurrentEpoch cfg s))) (\<lambda>blockRoot.
           Inr \<lparr>cp_Epoch = CurrentEpoch cfg s, cp_Root = blockRoot\<rparr>)
      else if bit w 1 \<and> PrevEpoch cfg s \<ge> cp_Epoch (b_currentJustifiedCheckpoint s)
      then bindR (wrapR ''could not get block root for previous epoch'' (BlockRoot cfg s (PrevEpoch cfg s))) (\<lambda>blockRoot.
           Inr \<lparr>cp_Epoch = PrevEpoch cfg s, cp_Root = blockRoot\<rparr>)
      else Inr (b_currentJustifiedCheckpoint s))"

definition new_finalized :: "config \<Rightarrow> BeaconState \<Rightarrow> u8 \<Rightarrow> Checkpoint" where
  "new_finalized cfg s w =
     (let e = CurrentEpoch cfg s; p = b_previousJustifiedCheckpoint s; c = b_currentJustifiedCheckpoint s
      in if bit w 0 \<and> bit w 1 \<and> cp_Epoch c + 1 = e then c
         else if bit w 0 \<and> bit w 1 \<and> bit w 2 \<and> cp_Epoch c + 2 = e then c
         else if bit w 1 \<and> bit w 2 \<and> cp_Epoch p + 2 = e then p
         else if bit w 1 \<and> bit w 2 \<and> bit w 3 \<and> cp_Epoch p + 3 = e then p
         else b_finalizedCheckpoint s)"

lemma computeCheckpoints_bits:
  assumes "bv4_law bv"
  shows "computeCheckpoints cfg bv s [w] = bindR (new_justified cfg s w) (\<lambda>j. Inr (j, new_finalized cfg s w))"
proof -
  have "bit (w AND 15) n = bit w n" if "n < 4" for n
    using that by (auto simp: bit_and_iff bit_numeral_rec less_Suc_eq eval_nat_numeral)
  then have "(w AND 15) AND 3 = 3 \<longleftrightarrow> bit w 0 \<and> bit w 1" "(w AND 15) AND 6 = 6 \<longleftrightarrow> bit w 1 \<and> bit w 2"
    "(w AND 15) AND 7 = 7 \<longleftrightarrow> bit w 0 \<and> bit w 1 \<and> bit w 2" "(w AND 15) AND 14 = 14 \<longleftrightarrow> bit w 1 \<and> bit w 2 \<and> bit w 3"
    unfolding mask_bits by simp_all
  note masks = this
  have law: "bv_Bytes bv [w] = [w AND 15]" "bv_BitAt bv [w] 0 = bit w 0" "bv_BitAt bv [w] 1 = bit w 1"
    using assms by (simp_all add: bv4_law_def)
  show ?thesis
    unfolding computeCheckpoints_def law arr_get_def new_justified_def
    by (simp add: masks new_finalized_def Let_def)
qed

lemma weigh_bits:
  assumes "bv4_law bv"
  shows "weighJustificationAndFinalization cfg bv s [w] = bindR (new_justified cfg s w) (\<lambda>j.
     Inr (s\<lparr>b_previousJustifiedCheckpoint := b_currentJustifiedCheckpoint s, b_currentJustifiedCheckpoint := j,
            b_justificationBits := [w], b_finalizedCheckpoint := new_finalized cfg s w\<rparr>))"
  by (simp add: weighJustificationAndFinalization_def computeCheckpoints_bits [OF assms] SetPreviousJustifiedCheckpoint_def
      SetCurrentJustifiedCheckpoint_def SetJustificationBits_def SetFinalizedCheckpoint_def bindR_assoc)

section \<open>The specification\<close>

text \<open>\<open>weigh_justification_and_finalization\<close> of the consensus specification, over the epoch \<open>e\<close>, the block roots of
  its start and of the start of the epoch before, the four bits, the three checkpoints and the
  balances in unbounded integers. The result is the previous and the current justified checkpoint,
  the bits and the finalized checkpoint.\<close>

definition spec_weigh ::
  "Epoch \<Rightarrow> bytes \<Rightarrow> bytes \<Rightarrow> bool list \<Rightarrow> Checkpoint \<Rightarrow> Checkpoint \<Rightarrow> Checkpoint \<Rightarrow> nat \<Rightarrow> nat \<Rightarrow> nat
     \<Rightarrow> Checkpoint \<times> Checkpoint \<times> bool list \<times> Checkpoint" where
  "spec_weigh e prevRoot curRoot bits pj cj fin tot prev cur =
     (let bits = False # butlast bits;
          (justified, bits) = (if prev * 3 \<ge> tot * 2 then (\<lparr>cp_Epoch = e - 1, cp_Root = prevRoot\<rparr>, bits[1 := True]) else (cj, bits));
          (justified, bits) = (if cur * 3 \<ge> tot * 2 then (\<lparr>cp_Epoch = e, cp_Root = curRoot\<rparr>, bits[0 := True]) else (justified, bits));
          fin = (if bits ! 1 \<and> bits ! 2 \<and> bits ! 3 \<and> unat (cp_Epoch pj) + 3 = unat e then pj else fin);
          fin = (if bits ! 1 \<and> bits ! 2 \<and> unat (cp_Epoch pj) + 2 = unat e then pj else fin);
          fin = (if bits ! 0 \<and> bits ! 1 \<and> bits ! 2 \<and> unat (cp_Epoch cj) + 2 = unat e then cj else fin);
          fin = (if bits ! 0 \<and> bits ! 1 \<and> unat (cp_Epoch cj) + 1 = unat e then cj else fin)
      in (cj, justified, bits, fin))"

text \<open>The order of the checkpoints, and that a set first bit stands for the justified previous epoch.\<close>

definition finality_order :: "config \<Rightarrow> BeaconState \<Rightarrow> bool" where
  "finality_order cfg s \<longleftrightarrow>
     cp_Epoch (b_finalizedCheckpoint s) \<le> cp_Epoch (b_previousJustifiedCheckpoint s)
     \<and> cp_Epoch (b_previousJustifiedCheckpoint s) \<le> cp_Epoch (b_currentJustifiedCheckpoint s)
     \<and> cp_Epoch (b_currentJustifiedCheckpoint s) < CurrentEpoch cfg s"

definition first_bit_ok :: "config \<Rightarrow> BeaconState \<Rightarrow> bool" where
  "first_bit_ok cfg s \<longleftrightarrow> (\<forall>v r. b_justificationBits s = [v] \<longrightarrow> bit v 0 \<longrightarrow> BlockRoot cfg s (PrevEpoch cfg s) = Inr r \<longrightarrow>
     b_currentJustifiedCheckpoint s = \<lparr>cp_Epoch = PrevEpoch cfg s, cp_Root = r\<rparr>)"

lemma PrevEpoch_pos:
  assumes "c < CurrentEpoch cfg s"
  shows "PrevEpoch cfg s = CurrentEpoch cfg s - 1" and "c \<le> PrevEpoch cfg s"
    and "unat (PrevEpoch cfg s) = unat (CurrentEpoch cfg s) - 1"
proof -
  have ne: "CurrentEpoch cfg s \<noteq> 0"
    using assms by auto
  then show p: "PrevEpoch cfg s = CurrentEpoch cfg s - 1"
    by (simp add: PrevEpoch_def Let_def)
  then show u: "unat (PrevEpoch cfg s) = unat (CurrentEpoch cfg s) - 1"
    using ne by (simp add: unat_minus_one)
  show "c \<le> PrevEpoch cfg s"
    using assms by (simp add: unat_le_u64 unat_less_u64 u)
qed

lemma new_justified_spec:
  assumes "finality_order cfg s" and "first_bit_ok cfg s" and "b_justificationBits s = [v]"
    and "BlockRoot cfg s (CurrentEpoch cfg s) = Inr rc" and "BlockRoot cfg s (PrevEpoch cfg s) = Inr rp"
    and "bit w 0 = C" and "bit w 1 = (bit v 0 \<or> P)"
  shows "new_justified cfg s w = Inr (if C then \<lparr>cp_Epoch = CurrentEpoch cfg s, cp_Root = rc\<rparr>
     else if P then \<lparr>cp_Epoch = CurrentEpoch cfg s - 1, cp_Root = rp\<rparr> else b_currentJustifiedCheckpoint s)"
proof -
  have lt: "cp_Epoch (b_currentJustifiedCheckpoint s) < CurrentEpoch cfg s"
    using assms(1) by (simp add: finality_order_def)
  note pos = PrevEpoch_pos [OF lt]
  have "b_currentJustifiedCheckpoint s = \<lparr>cp_Epoch = PrevEpoch cfg s, cp_Root = rp\<rparr>" if "bit v 0"
    using assms(2,3,5) that by (simp add: first_bit_ok_def)
  then show ?thesis
    using lt pos assms(4-7) by (auto simp: new_justified_def)
qed

lemma two_thirds:
  fixes a t :: u64
  assumes "3 * unat a < 18446744073709551616" and "2 * unat t < 18446744073709551616"
  shows "3 * a \<ge> 2 * t \<longleftrightarrow> unat a * 3 \<ge> unat t * 2"
  using assms by (simp add: unat_le_u64 unat_mult_u64 mult.commute)

lemma epoch_plus:
  fixes c e :: u64
  assumes "c < e" and "unat e + 3 < 18446744073709551616" and "k \<in> {1, 2, 3}"
  shows "c + of_nat k = e \<longleftrightarrow> unat c + k = unat e"
proof -
  have "unat (c + of_nat k) = unat c + k"
    using assms by (auto simp: unat_less_u64 unat_add_u64)
  then show ?thesis
    by (simp add: unat_eq_u64)
qed

definition spec_finalize :: "nat \<Rightarrow> bool list \<Rightarrow> Checkpoint \<Rightarrow> Checkpoint \<Rightarrow> Checkpoint \<Rightarrow> Checkpoint" where
  "spec_finalize e bits pj cj fin =
    (let fin = (if bits ! 1 \<and> bits ! 2 \<and> bits ! 3 \<and> unat (cp_Epoch pj) + 3 = e then pj else fin);
         fin = (if bits ! 1 \<and> bits ! 2 \<and> unat (cp_Epoch pj) + 2 = e then pj else fin);
         fin = (if bits ! 0 \<and> bits ! 1 \<and> bits ! 2 \<and> unat (cp_Epoch cj) + 2 = e then cj else fin)
     in if bits ! 0 \<and> bits ! 1 \<and> unat (cp_Epoch cj) + 1 = e then cj else fin)"

lemma spec_weigh_bits:
  "spec_weigh e rp rc [b0, b1, b2, b3] pj cj fin tot prev cur =
     (cj, if cur * 3 \<ge> tot * 2 then \<lparr>cp_Epoch = e, cp_Root = rc\<rparr>
          else if prev * 3 \<ge> tot * 2 then \<lparr>cp_Epoch = e - 1, cp_Root = rp\<rparr> else cj,
      [cur * 3 \<ge> tot * 2, b0 \<or> prev * 3 \<ge> tot * 2, b1, b2],
      spec_finalize (unat e) [cur * 3 \<ge> tot * 2, b0 \<or> prev * 3 \<ge> tot * 2, b1, b2] pj cj fin)"
  by (cases "cur * 3 \<ge> tot * 2"; cases "prev * 3 \<ge> tot * 2") (simp_all add: spec_weigh_def spec_finalize_def Let_def)

lemma new_finalized_spec:
  assumes "finality_order cfg s" and "unat (CurrentEpoch cfg s) + 3 < 18446744073709551616"
    and "bits = map (bit w) [0, 1, 2, 3]"
  shows "new_finalized cfg s w = spec_finalize (unat (CurrentEpoch cfg s)) bits
    (b_previousJustifiedCheckpoint s) (b_currentJustifiedCheckpoint s) (b_finalizedCheckpoint s)"
proof -
  let ?e = "CurrentEpoch cfg s" and ?p = "cp_Epoch (b_previousJustifiedCheckpoint s)" and ?c = "cp_Epoch (b_currentJustifiedCheckpoint s)"
  have "?c < ?e" "?p < ?e"
    using assms(1) by (auto simp: finality_order_def unat_less_u64 unat_le_u64)
  then have "?p + 3 = ?e \<longleftrightarrow> unat ?p + 3 = unat ?e" "?p + 2 = ?e \<longleftrightarrow> unat ?p + 2 = unat ?e"
    "?c + 2 = ?e \<longleftrightarrow> unat ?c + 2 = unat ?e" "?c + 1 = ?e \<longleftrightarrow> unat ?c + 1 = unat ?e"
    using epoch_plus [of ?p ?e 3] epoch_plus [of ?p ?e 2] epoch_plus [of ?c ?e 2] epoch_plus [of ?c ?e 1] assms(2) by simp_all
  then show ?thesis
    by (simp add: new_finalized_def spec_finalize_def Let_def assms(3) numeral_2_eq_2 numeral_3_eq_3)
qed

section \<open>Properties\<close>

text \<open>C16: Justification and finalization at the end of an epoch compute what the consensus specification
  prescribes in unbounded integers, although the code reads the justified epoch off the shifted bits
  and not off the balances: this is right because a set first bit always stands for the justified
  checkpoint of the previous epoch.\<close>

theorem justification_refines_spec:
  assumes "bv4_law bv" and "b_justificationBits s = [v]" and "EpochStart cfg 2 = Inr start" and "start < b_slot s"
    and "finality_order cfg s" and "first_bit_ok cfg s" and "unat (CurrentEpoch cfg s) + 3 < 18446744073709551616"
    and "BlockRoot cfg s (CurrentEpoch cfg s) = Inr rc" and "BlockRoot cfg s (PrevEpoch cfg s) = Inr rp"
    and "3 * unat (PrevEpochTargetAttested bal) < 18446744073709551616"
    and "3 * unat (CurrentEpochTargetAttested bal) < 18446744073709551616"
    and "2 * unat (ActiveCurrentEpoch bal) < 18446744073709551616"
  shows "\<exists>w jc fc. ProcessJustificationAndFinalizationPreCompute cfg bv s bal
      = Inr (s\<lparr>b_previousJustifiedCheckpoint := b_currentJustifiedCheckpoint s, b_currentJustifiedCheckpoint := jc,
               b_justificationBits := [w], b_finalizedCheckpoint := fc\<rparr>)
    \<and> spec_weigh (CurrentEpoch cfg s) rp rc (map (bit v) [0, 1, 2, 3]) (b_previousJustifiedCheckpoint s)
        (b_currentJustifiedCheckpoint s) (b_finalizedCheckpoint s)
        (unat (ActiveCurrentEpoch bal)) (unat (PrevEpochTargetAttested bal)) (unat (CurrentEpochTargetAttested bal))
      = (b_currentJustifiedCheckpoint s, jc, map (bit w) [0, 1, 2, 3], fc)"
proof -
  let ?t = "ActiveCurrentEpoch bal" and ?p = "PrevEpochTargetAttested bal" and ?c = "CurrentEpochTargetAttested bal"
  obtain w where w: "processJustificationBits bv s ?t ?p ?c = [w]" "bit w 0 = (3 * ?c \<ge> 2 * ?t)"
      "bit w 1 = (bit v 0 \<or> 3 * ?p \<ge> 2 * ?t)" "bit w 2 = bit v 1" "bit w 3 = bit v 2"
    using processJustificationBits_bits [OF assms(1,2)] by blast
  note th = two_thirds [OF assms(10,12)] two_thirds [OF assms(11,12)]
  note jc = new_justified_spec [OF assms(5,6,2,8,9) w(2,3)]
  note fc = new_finalized_spec [OF assms(5,7) refl, of w]
  have bits: "map (bit v) [0, 1, 2, 3] = [bit v 0, bit v 1, bit v 2, bit v 3]"
    "[3 * ?c \<ge> 2 * ?t, bit v 0 \<or> 3 * ?p \<ge> 2 * ?t, bit v 1, bit v 2] = map (bit w) [0, 1, 2, 3]"
    by (simp_all only: w list.map)
  have "ProcessJustificationAndFinalizationPreCompute cfg bv s bal = weighJustificationAndFinalization cfg bv s [w]"
    using assms(3,4) w(1) by (simp add: ProcessJustificationAndFinalizationPreCompute_def not_le [symmetric])
  then show ?thesis
    unfolding weigh_bits [OF assms(1)] jc bindR_simps bits(1) spec_weigh_bits th [symmetric] bits(2) fc by blast
qed

text \<open>C17: Finality only moves forward: an epoch transition keeps the order finalized, previous justified,
  current justified, current epoch; the finalized checkpoint is the old one or one of the two
  checkpoints that were justified before, and its epoch never decreases.\<close>

theorem finality_monotone:
  assumes "bv4_law bv" and "b_justificationBits s = [v]" and "finality_order cfg s"
    and "ProcessJustificationAndFinalizationPreCompute cfg bv s bal = Inr t"
  shows "cp_Epoch (b_finalizedCheckpoint s) \<le> cp_Epoch (b_finalizedCheckpoint t)
    \<and> b_finalizedCheckpoint t \<in> {b_finalizedCheckpoint s, b_previousJustifiedCheckpoint s, b_currentJustifiedCheckpoint s}
    \<and> cp_Epoch (b_finalizedCheckpoint t) \<le> cp_Epoch (b_previousJustifiedCheckpoint t)
    \<and> cp_Epoch (b_previousJustifiedCheckpoint t) \<le> cp_Epoch (b_currentJustifiedCheckpoint t)
    \<and> cp_Epoch (b_currentJustifiedCheckpoint t) \<le> CurrentEpoch cfg t
    \<and> (\<exists>w. b_justificationBits t = [w])"
proof (cases "t = s")
  case True
  then show ?thesis
    using assms(2,3) by (auto simp: finality_order_def)
next
  case False
  let ?t = "ActiveCurrentEpoch bal" and ?p = "PrevEpochTargetAttested bal" and ?c = "CurrentEpochTargetAttested bal"
  obtain w where w: "processJustificationBits bv s ?t ?p ?c = [w]"
    using processJustificationBits_bits [OF assms(1,2)] by blast
  obtain j where j: "new_justified cfg s w = Inr j"
    and t: "t = s\<lparr>b_previousJustifiedCheckpoint := b_currentJustifiedCheckpoint s, b_currentJustifiedCheckpoint := j,
             b_justificationBits := [w], b_finalizedCheckpoint := new_finalized cfg s w\<rparr>"
    using assms(4) False w weigh_bits [OF assms(1), of cfg s w]
    by (auto simp: ProcessJustificationAndFinalizationPreCompute_def bindR_eq_Inr split: if_splits)
  have ord: "cp_Epoch (b_finalizedCheckpoint s) \<le> cp_Epoch (b_previousJustifiedCheckpoint s)"
    "cp_Epoch (b_previousJustifiedCheckpoint s) \<le> cp_Epoch (b_currentJustifiedCheckpoint s)"
    and lt: "cp_Epoch (b_currentJustifiedCheckpoint s) < CurrentEpoch cfg s"
    using assms(3) by (simp_all add: finality_order_def)
  have j': "cp_Epoch (b_currentJustifiedCheckpoint s) \<le> cp_Epoch j" "cp_Epoch j \<le> CurrentEpoch cfg s"
    using j lt PrevEpoch_pos [OF lt] by (auto simp: new_justified_def bindR_eq_Inr unat_le_u64 split: if_splits)
  have f: "new_finalized cfg s w \<in> {b_finalizedCheckpoint s, b_previousJustifiedCheckpoint s, b_currentJustifiedCheckpoint s}"
    by (simp add: new_finalized_def Let_def)
  then have "cp_Epoch (b_finalizedCheckpoint s) \<le> cp_Epoch (new_finalized cfg s w)"
    "cp_Epoch (new_finalized cfg s w) \<le> cp_Epoch (b_currentJustifiedCheckpoint s)"
    using ord by auto
  then show ?thesis
    using j' f by (simp add: t CurrentEpoch_def)
qed

text \<open>C18: Two supermajorities in a row finalize: if two thirds of the active balance attest the target of an
  epoch and two thirds attest the target of the next one, the checkpoint of the first epoch is
  finalized at the end of the second.\<close>

theorem two_supermajorities_finalize:
  assumes "bv4_law bv" and "b_justificationBits s = [v]" and "finality_order cfg s"
    and "EpochStart cfg 2 = Inr start" and "start < b_slot s" and "start < b_slot u"
    and "BlockRoot cfg s (CurrentEpoch cfg s) = Inr r"
    and "3 * CurrentEpochTargetAttested bal \<ge> 2 * ActiveCurrentEpoch bal"
    and "ProcessJustificationAndFinalizationPreCompute cfg bv s bal = Inr t"
    and "b_justificationBits u = b_justificationBits t" and "b_currentJustifiedCheckpoint u = b_currentJustifiedCheckpoint t"
    and "CurrentEpoch cfg s < CurrentEpoch cfg u" and "CurrentEpoch cfg u = CurrentEpoch cfg s + 1"
    and "BlockRoot cfg u (CurrentEpoch cfg u) = Inr r'"
    and "3 * CurrentEpochTargetAttested bal' \<ge> 2 * ActiveCurrentEpoch bal'"
  shows "\<exists>z. ProcessJustificationAndFinalizationPreCompute cfg bv u bal' = Inr z
    \<and> b_currentJustifiedCheckpoint z = \<lparr>cp_Epoch = CurrentEpoch cfg u, cp_Root = r'\<rparr>
    \<and> b_finalizedCheckpoint z = \<lparr>cp_Epoch = CurrentEpoch cfg s, cp_Root = r\<rparr>"
proof -
  obtain w where w: "processJustificationBits bv s (ActiveCurrentEpoch bal) (PrevEpochTargetAttested bal) (CurrentEpochTargetAttested bal) = [w]"
      "bit w 0 = (3 * CurrentEpochTargetAttested bal \<ge> 2 * ActiveCurrentEpoch bal)"
    using processJustificationBits_bits [OF assms(1,2)] by blast
  have lt: "cp_Epoch (b_currentJustifiedCheckpoint s) < CurrentEpoch cfg s"
    using assms(3) by (simp add: finality_order_def)
  have "new_justified cfg s w = Inr \<lparr>cp_Epoch = CurrentEpoch cfg s, cp_Root = r\<rparr>"
    using w(2) assms(7,8) lt by (simp add: new_justified_def order_less_imp_le)
  then have t: "b_justificationBits t = [w]" "b_currentJustifiedCheckpoint t = \<lparr>cp_Epoch = CurrentEpoch cfg s, cp_Root = r\<rparr>"
    using assms(4,5,9) w(1) by (auto simp: ProcessJustificationAndFinalizationPreCompute_def weigh_bits [OF assms(1)] not_le [symmetric])
  obtain w' where w': "processJustificationBits bv u (ActiveCurrentEpoch bal') (PrevEpochTargetAttested bal') (CurrentEpochTargetAttested bal') = [w']"
      "bit w' 0 = (3 * CurrentEpochTargetAttested bal' \<ge> 2 * ActiveCurrentEpoch bal')"
      "bit w' 1 = (bit w 0 \<or> 3 * PrevEpochTargetAttested bal' \<ge> 2 * ActiveCurrentEpoch bal')"
    using processJustificationBits_bits [OF assms(1) assms(10) [unfolded t(1)]] by blast
  have bits: "bit w' 0" "bit w' 1"
    using w'(2,3) w(2) assms(8,15) by simp_all
  have "new_justified cfg u w' = Inr \<lparr>cp_Epoch = CurrentEpoch cfg u, cp_Root = r'\<rparr>"
    using bits(1) assms(11,12,14) t(2) by (simp add: new_justified_def order_less_imp_le)
  moreover have "new_finalized cfg u w' = \<lparr>cp_Epoch = CurrentEpoch cfg s, cp_Root = r\<rparr>"
    using bits assms(11,13) t(2) by (simp add: new_finalized_def Let_def)
  moreover have "ProcessJustificationAndFinalizationPreCompute cfg bv u bal' = weighJustificationAndFinalization cfg bv u [w']"
    using assms(4,6) w'(1) by (simp add: ProcessJustificationAndFinalizationPreCompute_def not_le [symmetric])
  ultimately show ?thesis
    by (simp add: weigh_bits [OF assms(1)])
qed

section \<open>Witnesses\<close>

text \<open>A bit vector library that satisfies its documentation, and states at the end of epochs 2 and 3.\<close>

definition std_bv4 :: bv4 where
  "std_bv4 = \<lparr>bv_Shift = (\<lambda>b i. map (\<lambda>v. push_bit i v AND 15) b), bv_SetBitAt = (\<lambda>b i x. map (\<lambda>v. if x then v OR push_bit i 1 else v) b),
     bv_BitAt = (\<lambda>b i. bit (hd b) i), bv_Bytes = map (\<lambda>v. v AND 15)\<rparr>"

lemma std_bv4_law: "bv4_law std_bv4"
  by (simp add: bv4_law_def std_bv4_def)

definition epoch_end :: "Slot \<Rightarrow> u8 \<Rightarrow> Checkpoint \<Rightarrow> Checkpoint \<Rightarrow> Checkpoint \<Rightarrow> BeaconState" where
  "epoch_end slot bits pj cj fin = slashed_state\<lparr>b_slot := slot, b_previousJustifiedCheckpoint := pj,
     b_currentJustifiedCheckpoint := cj, b_justificationBits := [bits], b_finalizedCheckpoint := fin\<rparr>"

abbreviation cp_one :: Checkpoint where "cp_one \<equiv> \<lparr>cp_Epoch = 1, cp_Root = replicate 32 1\<rparr>"
abbreviation cp_two :: Checkpoint where "cp_two \<equiv> \<lparr>cp_Epoch = 2, cp_Root = replicate 32 1\<rparr>"
abbreviation cp_none :: Checkpoint where "cp_none \<equiv> \<lparr>cp_Epoch = 0, cp_Root = replicate 32 0\<rparr>"

definition two_of_three :: Balance where
  "two_of_three = \<lparr>ActiveCurrentEpoch = 3000000000, ActivePrevEpoch = 3000000000, CurrentEpochAttested = 2000000000,
     CurrentEpochTargetAttested = 2000000000, PrevEpochAttested = 1000000000, PrevEpochTargetAttested = 1000000000,
     PrevEpochHeadAttested = 1000000000\<rparr>"

lemma tiny_epochs:
  "CurrentEpoch tiny (epoch_end 11 b p c f) = 2" "PrevEpoch tiny (epoch_end 11 b p c f) = 1"
  "CurrentEpoch tiny (epoch_end 15 b p c f) = 3" "PrevEpoch tiny (epoch_end 15 b p c f) = 2"
  "EpochStart tiny 2 = Inr 8"
  by (simp_all add: CurrentEpoch_def PrevEpoch_def Let_def ToEpoch_def EpochStart_def Slot_SafeMul_def Mul64_cases epoch_end_def small_defs)

lemma tiny_roots:
  "BlockRoot tiny (epoch_end 11 b p c f) 2 = Inr (replicate 32 1)" "BlockRoot tiny (epoch_end 11 b p c f) 1 = Inr (replicate 32 1)"
  "BlockRoot tiny (epoch_end 15 b p c f) 3 = Inr (replicate 32 1)"
  by (simp_all add: BlockRoot_def BlockRootAtSlot_def BlockRootAtIndex_def EpochStart_def Slot_SafeMul_def Mul64_cases
      epoch_end_def slashed_state_def small_defs)

lemma epoch_end_run:
  "\<exists>w j f. ProcessJustificationAndFinalizationPreCompute tiny std_bv4 (epoch_end 11 b p c k) bal = Inr (epoch_end 11 w c j f)"
proof -
  let ?s = "epoch_end 11 b p c k"
  have "b_justificationBits ?s = [b]"
    by (simp add: epoch_end_def)
  then obtain w where w: "processJustificationBits std_bv4 ?s (ActiveCurrentEpoch bal) (PrevEpochTargetAttested bal) (CurrentEpochTargetAttested bal) = [w]"
    using processJustificationBits_bits [OF std_bv4_law] by blast
  have "\<exists>j. new_justified tiny ?s w = Inr j"
    unfolding new_justified_def tiny_epochs tiny_roots by simp
  then obtain j where "new_justified tiny ?s w = Inr j" ..
  then show ?thesis
    using w by (auto simp: ProcessJustificationAndFinalizationPreCompute_def tiny_epochs weigh_bits [OF std_bv4_law] epoch_end_def)
qed

lemma epoch_end_order: "finality_order tiny (epoch_end 11 b cp_none cp_one cp_none)"
  by (simp add: finality_order_def tiny_epochs) (simp add: epoch_end_def)

theorem justification_refines_spec_witness:
  "\<exists>t. ProcessJustificationAndFinalizationPreCompute tiny std_bv4 (epoch_end 11 1 cp_none cp_one cp_none) two_of_three = Inr t
     \<and> b_finalizedCheckpoint t = cp_one \<and> b_currentJustifiedCheckpoint t = cp_two"
proof -
  let ?s = "epoch_end 11 1 cp_none cp_one cp_none"
  have bits: "b_justificationBits ?s = [1]" and lt: "8 < b_slot ?s"
    and cps: "b_previousJustifiedCheckpoint ?s = cp_none" "b_currentJustifiedCheckpoint ?s = cp_one" "b_finalizedCheckpoint ?s = cp_none"
    by (simp_all add: epoch_end_def)
  have fb: "first_bit_ok tiny ?s"
    unfolding first_bit_ok_def tiny_epochs tiny_roots cps by simp
  have sp: "spec_weigh 2 r (replicate 32 1) [True, False, False, False] cp_none cp_one cp_none 3000000000 1000000000 2000000000
      = (cp_one, cp_two, [True, True, False, False], cp_one)" for r
    by (simp add: spec_weigh_def)
  show ?thesis
    using justification_refines_spec [OF std_bv4_law bits tiny_epochs(5) lt epoch_end_order fb, of "replicate 32 1" "replicate 32 1" two_of_three]
    by (auto simp: tiny_epochs tiny_roots cps sp two_of_three_def)
qed

theorem finality_monotone_witness:
  "\<exists>t. ProcessJustificationAndFinalizationPreCompute tiny std_bv4 (epoch_end 11 1 cp_none cp_one cp_none) two_of_three = Inr t
     \<and> cp_Epoch cp_none \<le> cp_Epoch (b_finalizedCheckpoint t) \<and> cp_Epoch (b_currentJustifiedCheckpoint t) \<le> CurrentEpoch tiny t"
proof -
  obtain t where t: "ProcessJustificationAndFinalizationPreCompute tiny std_bv4 (epoch_end 11 1 cp_none cp_one cp_none) two_of_three = Inr t"
    using epoch_end_run by blast
  have bits: "b_justificationBits (epoch_end 11 1 cp_none cp_one cp_none) = [1]"
    by (simp add: epoch_end_def)
  show ?thesis
    using finality_monotone [OF std_bv4_law bits epoch_end_order t] t by auto
qed

theorem two_supermajorities_finalize_witness:
  "\<exists>t z. ProcessJustificationAndFinalizationPreCompute tiny std_bv4 (epoch_end 11 0 cp_none cp_one cp_none) two_of_three = Inr t
     \<and> ProcessJustificationAndFinalizationPreCompute tiny std_bv4 (t\<lparr>b_slot := 15\<rparr>) two_of_three = Inr z
     \<and> b_finalizedCheckpoint z = cp_two"
proof -
  let ?s = "epoch_end 11 0 cp_none cp_one cp_none"
  obtain w j f where t: "ProcessJustificationAndFinalizationPreCompute tiny std_bv4 ?s two_of_three = Inr (epoch_end 11 w cp_one j f)"
    using epoch_end_run by blast
  let ?u = "epoch_end 15 w cp_one j f"
  have u: "(epoch_end 11 w cp_one j f)\<lparr>b_slot := 15\<rparr> = ?u" "8 < b_slot ?s" "8 < b_slot ?u" "b_justificationBits ?s = [0]"
    "b_justificationBits ?u = b_justificationBits (epoch_end 11 w cp_one j f)"
    "b_currentJustifiedCheckpoint ?u = b_currentJustifiedCheckpoint (epoch_end 11 w cp_one j f)"
    by (simp_all add: epoch_end_def)
  have "\<exists>z. ProcessJustificationAndFinalizationPreCompute tiny std_bv4 ?u two_of_three = Inr z
      \<and> b_currentJustifiedCheckpoint z = \<lparr>cp_Epoch = CurrentEpoch tiny ?u, cp_Root = replicate 32 1\<rparr>
      \<and> b_finalizedCheckpoint z = \<lparr>cp_Epoch = CurrentEpoch tiny ?s, cp_Root = replicate 32 1\<rparr>"
    by (rule two_supermajorities_finalize [OF std_bv4_law u(4) epoch_end_order tiny_epochs(5) u(2,3) _ _ t u(5,6)])
      (simp_all add: tiny_epochs tiny_roots two_of_three_def)
  then show ?thesis
    using t u(1) by (auto simp: tiny_epochs)
qed

end
