(* ===== verification/Altair_Epoch.thy ===== *)
theory Altair_Epoch
  imports Justification
begin

text \<open>
  The precomputation, inactivity scores, rewards and penalties of an epoch:
  \<open>beacon-chain/core/altair/epoch_precompute.go\<close>, \<open>reward.go\<close> and the flags of \<open>attestation.go\<close>. The
  package variable behind \<open>math.CachedSquareRoot\<close> is passed along.
\<close>

section \<open>Participation flags\<close>

definition HasValidatorFlag :: "u8 \<Rightarrow> u8 \<Rightarrow> bool res" where
  "HasValidatorFlag flag flagPosition =
     (if flagPosition > 7 then Inl (Err ''flag position exceeds length'')
      else Inr ((drop_bit (unat flagPosition) flag) AND 1 = 1))"

definition AddValidatorFlag :: "u8 \<Rightarrow> u8 \<Rightarrow> u8 res" where
  "AddValidatorFlag flag flagPosition =
     (if flagPosition > 7 then Inl (Err ''flag position exceeds length'')
      else Inr (flag OR push_bit (unat flagPosition) 1))"

section \<open>Precomputation\<close>

definition zero_balance :: Balance where
  "zero_balance = \<lparr>ActiveCurrentEpoch = 0, ActivePrevEpoch = 0, CurrentEpochAttested = 0, CurrentEpochTargetAttested = 0,
     PrevEpochAttested = 0, PrevEpochTargetAttested = 0, PrevEpochHeadAttested = 0\<rparr>"

definition new_PValidator :: "Validator \<Rightarrow> u64 \<Rightarrow> Epoch \<Rightarrow> PValidator" where
  "new_PValidator val score currentEpoch =
     \<lparr>IsSlashed = Slashed val, IsWithdrawableCurrentEpoch = (currentEpoch \<ge> WithdrawableEpoch val),
      IsActiveCurrentEpoch = False, IsActivePrevEpoch = False, IsCurrentEpochAttester = False,
      IsCurrentEpochTargetAttester = False, IsPrevEpochAttester = False, IsPrevEpochSourceAttester = False,
      IsPrevEpochTargetAttester = False, IsPrevEpochHeadAttester = False,
      CurrentEpochEffectiveBalance = EffectiveBalance val, InclusionSlot = 0, InclusionDistance = 0, pv_ProposerIndex = 0,
      BeforeEpochTransitionBalance = 0, AfterEpochTransitionBalance = 0, InactivityScore = score\<rparr>"

definition precompute_step ::
  "u64 list \<Rightarrow> Epoch \<Rightarrow> Epoch \<Rightarrow> nat \<Rightarrow> Validator \<Rightarrow> PValidator list \<times> Balance \<Rightarrow> (PValidator list \<times> Balance) res" where
  "precompute_step inactivityScores prevEpoch currentEpoch idx val acc = (case acc of (vals, bal) \<Rightarrow>
     bindR (arr_get inactivityScores idx) (\<lambda>score.
     let v = new_PValidator val score currentEpoch
     in bindR (if IsActiveValidator val currentEpoch
               then bindR (Add64 (ActiveCurrentEpoch bal) (EffectiveBalance val)) (\<lambda>a.
                    Inr (v\<lparr>IsActiveCurrentEpoch := True\<rparr>, bal\<lparr>ActiveCurrentEpoch := a\<rparr>))
               else Inr (v, bal)) (\<lambda>(v, bal).
        bindR (if IsActiveValidator val prevEpoch
               then bindR (Add64 (ActivePrevEpoch bal) (EffectiveBalance val)) (\<lambda>a.
                    Inr (v\<lparr>IsActivePrevEpoch := True\<rparr>, bal\<lparr>ActivePrevEpoch := a\<rparr>))
               else Inr (v, bal)) (\<lambda>(v, bal).
        Inr (vals @ [v], bal)))))"

definition InitializePrecomputeValidators :: "config \<Rightarrow> BeaconState \<Rightarrow> (PValidator list \<times> Balance) res" where
  "InitializePrecomputeValidators cfg s =
     (if NumValidators s \<noteq> length (b_inactivityScores s)
      then Inl (Err ''num of validators is different than num of inactivity scores'')
      else wrapR ''could not read every validator''
             (ReadFromEveryValidator s (precompute_step (b_inactivityScores s) (PrevEpoch cfg s) (CurrentEpoch cfg s)) ([], zero_balance)))"

text \<open>\<open>mark\<close> is \<open>if has && cond(vals[i])\<close> with its body.\<close>

definition mark :: "bool \<Rightarrow> nat \<Rightarrow> (PValidator \<Rightarrow> bool) \<Rightarrow> (PValidator \<Rightarrow> PValidator) \<Rightarrow> PValidator list \<Rightarrow> PValidator list res" where
  "mark has i cond upd vals =
     (if has then bindR (arr_get vals i) (\<lambda>v. Inr (if cond v then vals[i := upd v] else vals)) else Inr vals)"

definition current_participation_step :: "config \<Rightarrow> nat \<times> u8 \<Rightarrow> PValidator list \<Rightarrow> PValidator list res" where
  "current_participation_step cfg ib vals = (case ib of (i, b) \<Rightarrow>
     bindR (HasValidatorFlag b (TimelySourceFlagIndex (raw cfg))) (\<lambda>has.
     bindR (mark has i IsActiveCurrentEpoch (\<lambda>v. v\<lparr>IsCurrentEpochAttester := True\<rparr>) vals) (\<lambda>vals.
     bindR (HasValidatorFlag b (TimelyTargetFlagIndex (raw cfg))) (\<lambda>has.
     mark has i IsActiveCurrentEpoch (\<lambda>v. v\<lparr>IsCurrentEpochAttester := True, IsCurrentEpochTargetAttester := True\<rparr>) vals))))"

definition previous_participation_step :: "config \<Rightarrow> nat \<times> u8 \<Rightarrow> PValidator list \<Rightarrow> PValidator list res" where
  "previous_participation_step cfg ib vals = (case ib of (i, b) \<Rightarrow>
     bindR (HasValidatorFlag b (TimelySourceFlagIndex (raw cfg))) (\<lambda>has.
     bindR (mark has i IsActivePrevEpoch (\<lambda>v. v\<lparr>IsPrevEpochAttester := True, IsPrevEpochSourceAttester := True\<rparr>) vals) (\<lambda>vals.
     bindR (HasValidatorFlag b (TimelyTargetFlagIndex (raw cfg))) (\<lambda>has.
     bindR (mark has i IsActivePrevEpoch (\<lambda>v. v\<lparr>IsPrevEpochAttester := True, IsPrevEpochTargetAttester := True\<rparr>) vals) (\<lambda>vals.
     bindR (HasValidatorFlag b (TimelyHeadFlagIndex (raw cfg))) (\<lambda>has.
     mark has i IsActivePrevEpoch (\<lambda>v. v\<lparr>IsPrevEpochHeadAttester := True\<rparr>) vals))))))"

definition ProcessEpochParticipation ::
  "config \<Rightarrow> BeaconState \<Rightarrow> Balance \<Rightarrow> PValidator list \<Rightarrow> (PValidator list \<times> Balance) res" where
  "ProcessEpochParticipation cfg s bal vals =
     bindR (foldR (current_participation_step cfg) (enumerate 0 (b_currentEpochParticipation s)) vals) (\<lambda>vals.
     bindR (foldR (previous_participation_step cfg) (enumerate 0 (b_previousEpochParticipation s)) vals) (\<lambda>vals.
     Inr (vals, UpdateBalance cfg vals bal)))"

section \<open>Inactivity scores\<close>

definition new_score :: "config \<Rightarrow> bool \<Rightarrow> PValidator \<Rightarrow> u64 res" where
  "new_score cfg leak v =
     bindR (if IsPrevEpochTargetAttester v \<and> \<not> IsSlashed v
            then Inr (if InactivityScore v > 0 then InactivityScore v - 1 else InactivityScore v)
            else Add64 (InactivityScore v) (InactivityScoreBias (raw cfg))) (\<lambda>score.
     Inr (if \<not> leak then score - min (InactivityScoreRecoveryRate (raw cfg)) score else score))"

definition inactivity_step ::
  "config \<Rightarrow> bool \<Rightarrow> nat \<Rightarrow> PValidator list \<times> u64 list \<Rightarrow> (PValidator list \<times> u64 list) res" where
  "inactivity_step cfg leak i acc = (case acc of (vals, scores) \<Rightarrow>
     let v = vals ! i
     in if \<not> EligibleForRewards v then Inr (vals, scores)
        else bindR (new_score cfg leak v) (\<lambda>score.
             bindR (arr_set scores i score) (\<lambda>scores.
             Inr (vals[i := v\<lparr>InactivityScore := score\<rparr>], scores))))"

definition ProcessInactivityScores :: "config \<Rightarrow> BeaconState \<Rightarrow> PValidator list \<Rightarrow> (BeaconState \<times> PValidator list) res" where
  "ProcessInactivityScores cfg s vals =
     (if CurrentEpoch cfg s = GenesisEpoch (raw cfg) then Inr (s, vals)
      else let leak = IsInInactivityLeak cfg (PrevEpoch cfg s) (cp_Epoch (b_finalizedCheckpoint s))
           in bindR (foldR (inactivity_step cfg leak) [0..<length vals] (vals, b_inactivityScores s)) (\<lambda>(vals, scores).
              bindR (SetInactivityScores s scores) (\<lambda>s. Inr (s, vals))))"

section \<open>Rewards and penalties\<close>

record AttDelta =
  HeadReward :: u64
  SourceReward :: u64
  SourcePenalty :: u64
  TargetReward :: u64
  TargetPenalty :: u64

definition zero_delta :: AttDelta where
  "zero_delta = \<lparr>HeadReward = 0, SourceReward = 0, SourcePenalty = 0, TargetReward = 0, TargetPenalty = 0\<rparr>"

definition attestationDelta :: "config \<Rightarrow> Balance \<Rightarrow> PValidator \<Rightarrow> u64 \<Rightarrow> u64 \<Rightarrow> bool \<Rightarrow> AttDelta res" where
  "attestationDelta cfg bal val baseRewardMultiplier inactivityDenominator inactivityLeak =
     (let eligible = (IsActivePrevEpoch val \<or> (IsSlashed val \<and> \<not> IsWithdrawableCurrentEpoch val))
      in if \<not> eligible \<or> ActiveCurrentEpoch bal = 0 then Inr zero_delta
         else let c = raw cfg; increment = EffectiveBalanceIncrement c;
                  effectiveBalance = CurrentEpochEffectiveBalance val;
                  baseReward = effectiveBalance div increment * baseRewardMultiplier;
                  activeIncrement = ActiveCurrentEpoch bal div increment;
                  weightDenominator = WeightDenominator c
              in bindR (wrapR ''could not compute attestation reward denominator'' (Mul64 activeIncrement weightDenominator)) (\<lambda>rewardDenominator.
                 if rewardDenominator = 0 then Inl (Err ''attestation reward denominator must be non-zero'')
                 else let reward = (\<lambda>w attested. baseReward * w * (attested div increment) div rewardDenominator);
                          penalty = (\<lambda>w. baseReward * w div weightDenominator);
                          d = zero_delta;
                          d = (if IsPrevEpochSourceAttester val \<and> \<not> IsSlashed val
                               then if \<not> inactivityLeak then d\<lparr>SourceReward := SourceReward d + reward (TimelySourceWeight c) (PrevEpochAttested bal)\<rparr> else d
                               else d\<lparr>SourcePenalty := SourcePenalty d + penalty (TimelySourceWeight c)\<rparr>);
                          d = (if IsPrevEpochTargetAttester val \<and> \<not> IsSlashed val
                               then if \<not> inactivityLeak then d\<lparr>TargetReward := TargetReward d + reward (TimelyTargetWeight c) (PrevEpochTargetAttested bal)\<rparr> else d
                               else d\<lparr>TargetPenalty := TargetPenalty d + penalty (TimelyTargetWeight c)\<rparr>);
                          d = (if IsPrevEpochHeadAttester val \<and> \<not> IsSlashed val \<and> \<not> inactivityLeak
                               then d\<lparr>HeadReward := HeadReward d + reward (TimelyHeadWeight c) (PrevEpochHeadAttested bal)\<rparr> else d)
                      in if \<not> IsPrevEpochTargetAttester val \<or> IsSlashed val
                         then bindR (Mul64 effectiveBalance (InactivityScore val)) (\<lambda>n.
                              Inr (d\<lparr>TargetPenalty := TargetPenalty d + n div inactivityDenominator\<rparr>))
                         else Inr d))"

definition AttestationsDelta ::
  "config \<Rightarrow> sqrt_cache \<Rightarrow> BeaconState \<Rightarrow> Balance \<Rightarrow> PValidator list \<Rightarrow> (AttDelta list \<times> sqrt_cache) res" where
  "AttestationsDelta cfg sc s bal vals =
     (let c = raw cfg
      in bindR (CachedSquareRoot (ActiveCurrentEpoch bal) sc) (\<lambda>(root, sc).
         if root = 0 then Inl (Panic ''integer divide by zero'')
         else let baseRewardMultiplier = EffectiveBalanceIncrement c * BaseRewardFactor c div root;
                  leak = IsInInactivityLeak cfg (PrevEpoch cfg s) (cp_Epoch (b_finalizedCheckpoint s));
                  inactivityDenominator = InactivityScoreBias c * InactivityPenaltyQuotient c
              in bindR (mapR (\<lambda>v. attestationDelta cfg bal v baseRewardMultiplier inactivityDenominator leak) vals) (\<lambda>deltas.
                 Inr (deltas, sc))))"

definition apply_delta :: "AttDelta \<Rightarrow> u64 \<Rightarrow> u64 res" where
  "apply_delta d balance =
     bindR (IncreaseBalanceWithVal balance (SourceReward d)) (\<lambda>b.
     let b = DecreaseBalanceWithVal b (SourcePenalty d)
     in bindR (IncreaseBalanceWithVal b (TargetReward d)) (\<lambda>b.
        let b = DecreaseBalanceWithVal b (TargetPenalty d)
        in IncreaseBalanceWithVal b (HeadReward d)))"

definition reward_step :: "AttDelta list \<Rightarrow> nat \<Rightarrow> u64 list \<times> PValidator list \<Rightarrow> (u64 list \<times> PValidator list) res" where
  "reward_step attDeltas i acc = (case acc of (balances, vals) \<Rightarrow>
     bindR (apply_delta (attDeltas ! i) (balances ! i)) (\<lambda>b.
     Inr (balances[i := b], vals[i := (vals ! i)\<lparr>BeforeEpochTransitionBalance := balances ! i, AfterEpochTransitionBalance := b\<rparr>])))"

definition ProcessRewardsAndPenaltiesPrecompute ::
  "config \<Rightarrow> sqrt_cache \<Rightarrow> BeaconState \<Rightarrow> Balance \<Rightarrow> PValidator list \<Rightarrow> (BeaconState \<times> PValidator list \<times> sqrt_cache) res" where
  "ProcessRewardsAndPenaltiesPrecompute cfg sc s bal vals =
     (if CurrentEpoch cfg s = GenesisEpoch (raw cfg) then Inr (s, vals, sc)
      else let numOfVals = NumValidators s
           in if length vals \<noteq> numOfVals \<or> length vals \<noteq> length (b_balances s)
              then Inl (Err ''validator registries not the same length as state's validator registries'')
              else bindR (wrapR ''could not get attestation delta'' (AttestationsDelta cfg sc s bal vals)) (\<lambda>(attDeltas, sc).
                   bindR (foldR (reward_step attDeltas) [0..<numOfVals] (b_balances s, vals)) (\<lambda>(balances, vals).
                   bindR (wrapR ''could not set validator balances'' (SetBalances s balances)) (\<lambda>s.
                   Inr (s, vals, sc)))))"

definition BaseRewardPerIncrement :: "config \<Rightarrow> sqrt_cache \<Rightarrow> u64 \<Rightarrow> (u64 \<times> sqrt_cache) res" where
  "BaseRewardPerIncrement cfg sc activeBalance =
     (if activeBalance = 0 then Inl (Err ''active balance can't be 0'')
      else bindR (CachedSquareRoot activeBalance sc) (\<lambda>(root, sc).
           if root = 0 then Inl (Panic ''integer divide by zero'')
           else Inr (EffectiveBalanceIncrement (raw cfg) * BaseRewardFactor (raw cfg) div root, sc)))"

definition BaseRewardWithTotalBalance ::
  "config \<Rightarrow> sqrt_cache \<Rightarrow> BeaconState \<Rightarrow> ValidatorIndex \<Rightarrow> u64 \<Rightarrow> (u64 \<times> sqrt_cache) res" where
  "BaseRewardWithTotalBalance cfg sc s index totalBalance =
     bindR (ValidatorAtIndexReadOnly s index) (\<lambda>val.
     bindR (BaseRewardPerIncrement cfg sc totalBalance) (\<lambda>(baseRewardPerInc, sc).
     Inr (EffectiveBalance val div EffectiveBalanceIncrement (raw cfg) * baseRewardPerInc, sc)))"

end
