(* ===== verification/Sync_Committee.thy ===== *)
theory Sync_Committee
  imports Committees Validator_Lifecycle Ssz_Merkle
begin

text \<open>
  Sync committees: their selection in \<open>beacon-chain/core/altair/sync_committee.go\<close> and
  \<open>epoch_spec.go\<close>, the aggregator lottery of \<open>core/helpers/aggregator.go\<close>, the readers of
  \<open>core/helpers/sync_committee.go\<close> and the positions cache of \<open>beacon-chain/cache/sync_committee.go\<close>.
  The FIFO store of the cache and the generated \<open>HashTreeRoot\<close> of a block header are parameters.
  The caller's context is never cancelled, and the readers' background fill of the cache is the
  separate operation \<open>UpdatePositionsInCommittee\<close>.
\<close>

section \<open>Selection of the next committee\<close>

definition maxRandomByte :: u64 where
  "maxRandomByte = 255"

text \<open>One turn of the loop: the candidate when it is accepted. The loop may run forever.\<close>

definition sync_step ::
  "config \<Rightarrow> (bytes \<Rightarrow> bytes) \<Rightarrow> BeaconState \<Rightarrow> ValidatorIndex list \<Rightarrow> bytes \<Rightarrow> u64 \<Rightarrow> ValidatorIndex option res" where
  "sync_step cfg hash s indices seed i =
     (let count = of_nat (length indices)
      in bindR (ValidatorIndex_Mod i count) (\<lambda>m.
         bindR (ComputeShuffledIndex cfg hash m count seed True) (\<lambda>sIndex.
         bindR (ValidatorIndex_Div i 32) (\<lambda>d.
         let randomByte = hash (seed @ Bytes8 d) ! unat (i mod 32)
         in bindR (arr_get indices (unat sIndex)) (\<lambda>cIndex.
            bindR (ValidatorAtIndexReadOnly s cIndex) (\<lambda>v.
            Inr (if EffectiveBalance v * maxRandomByte \<ge> MaxEffectiveBalance (raw cfg) * ucast randomByte
                 then Some cIndex else None)))))))"

partial_function (option) sync_loop ::
  "config \<Rightarrow> (bytes \<Rightarrow> bytes) \<Rightarrow> BeaconState \<Rightarrow> ValidatorIndex list \<Rightarrow> bytes \<Rightarrow> u64 \<Rightarrow> ValidatorIndex list
     \<Rightarrow> ValidatorIndex list res option" where
  "sync_loop cfg hash s indices seed i cIndices =
     (if of_nat (length cIndices) < SyncCommitteeSize (raw cfg)
      then case sync_step cfg hash s indices seed i of
             Inl e \<Rightarrow> Some (Inl e)
           | Inr c \<Rightarrow> sync_loop cfg hash s indices seed (i + 1) (cIndices @ (case c of None \<Rightarrow> [] | Some x \<Rightarrow> [x]))
      else Some (Inr cIndices))"

definition NextSyncCommitteeIndices ::
  "config \<Rightarrow> (bytes \<Rightarrow> bytes) \<Rightarrow> BeaconState \<Rightarrow> ValidatorIndex list res option" where
  "NextSyncCommitteeIndices cfg hash s =
     (let epoch = NextEpoch cfg s
      in case bindR (ActiveValidatorIndices cfg hash s epoch) (\<lambda>indices.
              bindR (Seed cfg hash s epoch (DomainSyncCommittee (raw cfg))) (\<lambda>seed. Inr (indices, seed))) of
           Inl e \<Rightarrow> Some (Inl e)
         | Inr (indices, seed) \<Rightarrow> sync_loop cfg hash s indices seed 0 [])"

definition NextSyncCommittee :: "config \<Rightarrow> (bytes \<Rightarrow> bytes) \<Rightarrow> BeaconState \<Rightarrow> SyncCommittee res option" where
  "NextSyncCommittee cfg hash s =
     map_option (\<lambda>r. bindR r (\<lambda>indices. Inr \<lparr>Pubkeys = map (PubkeyAtIndex s) indices\<rparr>))
       (NextSyncCommitteeIndices cfg hash s)"

definition ProcessSyncCommitteeUpdates :: "config \<Rightarrow> (bytes \<Rightarrow> bytes) \<Rightarrow> BeaconState \<Rightarrow> BeaconState res option" where
  "ProcessSyncCommitteeUpdates cfg hash s =
     (if NextEpoch cfg s mod EpochsPerSyncCommitteePeriod (raw cfg) = 0
      then case SetCurrentSyncCommittee s (b_nextSyncCommittee s) of Inl e \<Rightarrow> Some (Inl e)
           | Inr s \<Rightarrow> map_option (\<lambda>r. bindR r (SetNextSyncCommittee s)) (NextSyncCommittee cfg hash s)
      else Some (Inr s))"

definition SyncSubCommitteePubkeys :: "config \<Rightarrow> SyncCommittee \<Rightarrow> CommitteeIndex \<Rightarrow> bytes list res" where
  "SyncSubCommitteePubkeys cfg syncCommittee subComIdx =
     (let subCommSize = SyncCommitteeSize (raw cfg) div SyncCommitteeSubnetCount (raw cfg);
          i = subComIdx * subCommSize; endOfSubCom = i + subCommSize
      in if endOfSubCom > of_nat (length (Pubkeys syncCommittee)) then Inl (Err ''end index is larger than array length'')
         else go_slice (Pubkeys syncCommittee) (unat i) (unat endOfSubCom))"

section \<open>Aggregators\<close>

definition AggregatorSelectionSeed :: "config \<Rightarrow> (bytes \<Rightarrow> bytes) \<Rightarrow> BeaconState \<Rightarrow> Epoch \<Rightarrow> bytes res" where
  "AggregatorSelectionSeed cfg hash st epoch =
     bindR (Seed cfg hash st epoch (DomainSelectionProof (raw cfg))) (\<lambda>seed.
     if length (b_genesisValidatorsRoot st) \<noteq> 32 then Inl (Err ''genesis validators root must be 32 bytes'')
     else Inr (hash (map (\<lambda>ch. of_nat (of_char ch)) ''qrysm/aggregator-selection/v1'' @ b_genesisValidatorsRoot st @ seed)))"

definition IsAggregatorSelected ::
  "(bytes \<Rightarrow> bytes) \<Rightarrow> bytes \<Rightarrow> bytes \<Rightarrow> Slot \<Rightarrow> u64 \<Rightarrow> ValidatorIndex \<Rightarrow> u64 \<Rightarrow> u64 \<Rightarrow> bool res" where
  "IsAggregatorSelected hash seed role slot committeeIndex validatorIndex committeeSize targetAggregators =
     (if length seed \<noteq> 32 then Inl (Err ''aggregator selection seed must be 32 bytes'')
      else if committeeSize = 0 \<or> targetAggregators = 0
      then Inl (Err ''committee size and target aggregators must be nonzero'')
      else let input = seed @ to_array 4 role @ put_le 8 (unat slot) @ put_le 8 (unat committeeIndex) @ put_le 8 (unat validatorIndex);
               draw = hash input; modulo = max 1 (committeeSize div targetAggregators)
           in Inr (FromBytes8 (take 8 draw) mod modulo = 0))"

section \<open>The positions cache\<close>

text \<open>
  The store of \<open>k8s.io/client-go/tools/cache\<close>: an added value is found under its key, and \<open>Pop\<close>
  only forgets.
\<close>

record ('c, 'v) fifo =
  fifo_GetByKey :: "'c \<Rightarrow> bytes \<Rightarrow> 'v option"
  fifo_Add :: "'c \<Rightarrow> bytes \<Rightarrow> 'v \<Rightarrow> 'c"
  fifo_Len :: "'c \<Rightarrow> nat"
  fifo_Pop :: "'c \<Rightarrow> 'c"

definition fifo_law :: "('c, 'v) fifo \<Rightarrow> bool" where
  "fifo_law ops \<longleftrightarrow> (\<forall>c k v. fifo_GetByKey ops (fifo_Add ops c k v) = (fifo_GetByKey ops c)(k \<mapsto> v)) \<and>
     (\<forall>c. fifo_GetByKey ops (fifo_Pop ops c) \<subseteq>\<^sub>m fifo_GetByKey ops c)"

text \<open>\<open>for s := len(keys); s > maxSize; s--\<close>\<close>

fun trim_loop :: "('c, 'v) fifo \<Rightarrow> nat \<Rightarrow> nat \<Rightarrow> 'c \<Rightarrow> 'c" where
  "trim_loop ops 0 maxSize c = c"
| "trim_loop ops (Suc s) maxSize c = (if Suc s > maxSize then trim_loop ops s maxSize (fifo_Pop ops c) else c)"

definition trim :: "('c, 'v) fifo \<Rightarrow> nat \<Rightarrow> 'c \<Rightarrow> 'c" where
  "trim ops maxSize c = trim_loop ops (fifo_Len ops c) maxSize c"

record positionInCommittee =
  currentPeriod :: "CommitteeIndex list"
  nextPeriod :: "CommitteeIndex list"

type_synonym positions = "ValidatorIndex \<rightharpoonup> positionInCommittee"

record 'c SyncCommitteeCache =
  sc_cache :: 'c
  cleared :: u64

definition maxSyncCommitteeSize :: nat where
  "maxSyncCommitteeSize = 3"

definition SyncCommitteeCache_Clear :: "'c \<Rightarrow> 'c SyncCommitteeCache \<Rightarrow> 'c SyncCommitteeCache" where
  "SyncCommitteeCache_Clear fresh_fifo c = c\<lparr>cleared := cleared c + 1, sc_cache := fresh_fifo\<rparr>"

definition positionsInCommittee ::
  "('c, positions) fifo \<Rightarrow> 'c SyncCommitteeCache \<Rightarrow> bytes \<Rightarrow> ValidatorIndex list \<Rightarrow> positionInCommittee option list option" where
  "positionsInCommittee ops c root indices =
     (case fifo_GetByKey ops (sc_cache c) root of None \<Rightarrow> None | Some m \<Rightarrow> Some (map m indices))"

definition idxPositionInCommittee ::
  "('c, positions) fifo \<Rightarrow> 'c SyncCommitteeCache \<Rightarrow> bytes \<Rightarrow> ValidatorIndex \<Rightarrow> positionInCommittee option option" where
  "idxPositionInCommittee ops c root valIdx =
     (case positionsInCommittee ops c root [valIdx] of None \<Rightarrow> None
      | Some ps \<Rightarrow> Some (if length ps = 0 then None else ps ! 0))"

text \<open>\<open>None\<close> is \<open>ErrNonExistingSyncCommitteeKey\<close>.\<close>

definition cache_CurrentPeriodPositions ::
  "('c, positions) fifo \<Rightarrow> 'c SyncCommitteeCache \<Rightarrow> bytes \<Rightarrow> ValidatorIndex list \<Rightarrow> CommitteeIndex list list option" where
  "cache_CurrentPeriodPositions ops c root indices =
     map_option (map (\<lambda>p. case p of None \<Rightarrow> [] | Some p \<Rightarrow> currentPeriod p)) (positionsInCommittee ops c root indices)"

definition CurrentPeriodIndexPosition ::
  "('c, positions) fifo \<Rightarrow> 'c SyncCommitteeCache \<Rightarrow> bytes \<Rightarrow> ValidatorIndex \<Rightarrow> CommitteeIndex list option" where
  "CurrentPeriodIndexPosition ops c root valIdx =
     map_option (\<lambda>p. case p of None \<Rightarrow> [] | Some p \<Rightarrow> currentPeriod p) (idxPositionInCommittee ops c root valIdx)"

definition NextPeriodIndexPosition ::
  "('c, positions) fifo \<Rightarrow> 'c SyncCommitteeCache \<Rightarrow> bytes \<Rightarrow> ValidatorIndex \<Rightarrow> CommitteeIndex list option" where
  "NextPeriodIndexPosition ops c root valIdx =
     map_option (\<lambda>p. case p of None \<Rightarrow> [] | Some p \<Rightarrow> nextPeriod p) (idxPositionInCommittee ops c root valIdx)"

text \<open>The two loops over the committees of the state.\<close>

definition current_position_step :: "BeaconState \<Rightarrow> nat \<times> bytes \<Rightarrow> positions \<Rightarrow> positions" where
  "current_position_step st ik m = (case ik of (i, pubkey) \<Rightarrow>
     (case ValidatorIndexByPubkey st (ToBytes2592 pubkey) of (validatorIndex, ok) \<Rightarrow>
        if \<not> ok then m
        else (case m validatorIndex of
                None \<Rightarrow> m(validatorIndex \<mapsto> \<lparr>currentPeriod = [of_nat i], nextPeriod = []\<rparr>)
              | Some p \<Rightarrow> m(validatorIndex \<mapsto> p\<lparr>currentPeriod := currentPeriod p @ [of_nat i]\<rparr>))))"

definition next_position_step :: "BeaconState \<Rightarrow> nat \<times> bytes \<Rightarrow> positions \<Rightarrow> positions" where
  "next_position_step st ik m = (case ik of (i, pubkey) \<Rightarrow>
     (case ValidatorIndexByPubkey st (ToBytes2592 pubkey) of (validatorIndex, ok) \<Rightarrow>
        if \<not> ok then m
        else (case m validatorIndex of
                None \<Rightarrow> m(validatorIndex \<mapsto> \<lparr>currentPeriod = [], nextPeriod = [of_nat i]\<rparr>)
              | Some p \<Rightarrow> m(validatorIndex \<mapsto> p\<lparr>nextPeriod := nextPeriod p @ [of_nat i]\<rparr>))))"

definition positionsMap :: "BeaconState \<Rightarrow> positions" where
  "positionsMap st =
     fold (next_position_step st) (enumerate 0 (Pubkeys (b_nextSyncCommittee st)))
       (fold (current_position_step st) (enumerate 0 (Pubkeys (b_currentSyncCommittee st))) Map.empty)"

text \<open>\<open>clearCount\<close> is the counter as it was read when the call began.\<close>

definition UpdatePositionsInCommittee ::
  "('c, positions) fifo \<Rightarrow> u64 \<Rightarrow> bytes \<Rightarrow> BeaconState \<Rightarrow> 'c SyncCommitteeCache \<Rightarrow> 'c SyncCommitteeCache" where
  "UpdatePositionsInCommittee ops clearCount root st c =
     (if clearCount \<noteq> cleared c then c
      else c\<lparr>sc_cache := trim ops maxSyncCommitteeSize (fifo_Add ops (sc_cache c) root (positionsMap st))\<rparr>)"

section \<open>The readers\<close>

definition findSubCommitteeIndices :: "bytes \<Rightarrow> bytes list \<Rightarrow> CommitteeIndex list" where
  "findSubCommitteeIndices pubKey pubKeys =
     fold (\<lambda>(i, k) indices. if k = pubKey then indices @ [of_nat i] else indices) (enumerate 0 pubKeys) []"

definition combineRootAndSlot :: "(bytes \<Rightarrow> bytes) \<Rightarrow> bytes \<Rightarrow> u64 \<Rightarrow> bytes" where
  "combineRootAndSlot hash root slot = hash (root @ Uint64ToBytesLittleEndian slot)"

definition syncPeriodBoundaryRoot :: "config \<Rightarrow> (bytes \<Rightarrow> bytes) \<Rightarrow> BeaconState \<Rightarrow> bytes res" where
  "syncPeriodBoundaryRoot cfg hash st =
     (if b_slot st = GenesisSlot (raw cfg) then Inr (replicate 32 0)
      else bindR (SyncCommitteePeriodStartEpoch cfg (CurrentEpoch cfg st)) (\<lambda>startEpoch.
           bindR (EpochStart cfg startEpoch) (\<lambda>startEpochSlot.
           let startEpochSlot = (if startEpochSlot \<ge> 1 then startEpochSlot - 1 else startEpochSlot)
           in bindR (BlockRootAtSlot cfg st startEpochSlot) (\<lambda>root.
              Inr (combineRootAndSlot hash root startEpochSlot)))))"

definition CurrentPeriodPositions ::
  "config \<Rightarrow> (bytes \<Rightarrow> bytes) \<Rightarrow> ('c, positions) fifo \<Rightarrow> 'c SyncCommitteeCache \<Rightarrow> BeaconState \<Rightarrow> ValidatorIndex list
     \<Rightarrow> CommitteeIndex list list res" where
  "CurrentPeriodPositions cfg hash ops c st indices =
     bindR (syncPeriodBoundaryRoot cfg hash st) (\<lambda>root.
     case cache_CurrentPeriodPositions ops c root indices of
       None \<Rightarrow> Inr (map (\<lambda>idx. findSubCommitteeIndices (PubkeyAtIndex st idx) (Pubkeys (b_currentSyncCommittee st))) indices)
     | Some pos \<Rightarrow> Inr pos)"

definition CurrentPeriodSyncSubcommitteeIndices ::
  "config \<Rightarrow> (bytes \<Rightarrow> bytes) \<Rightarrow> ('c, positions) fifo \<Rightarrow> 'c SyncCommitteeCache \<Rightarrow> BeaconState \<Rightarrow> ValidatorIndex
     \<Rightarrow> CommitteeIndex list res" where
  "CurrentPeriodSyncSubcommitteeIndices cfg hash ops c st valIdx =
     bindR (ValidatorAtIndexReadOnly st valIdx) (\<lambda>_.
     bindR (syncPeriodBoundaryRoot cfg hash st) (\<lambda>root.
     case CurrentPeriodIndexPosition ops c root valIdx of
       None \<Rightarrow> bindR (ValidatorAtIndex st valIdx) (\<lambda>val.
               Inr (findSubCommitteeIndices (PublicKey val) (Pubkeys (b_currentSyncCommittee st))))
     | Some indices \<Rightarrow> Inr indices))"

definition NextPeriodSyncSubcommitteeIndices ::
  "config \<Rightarrow> (bytes \<Rightarrow> bytes) \<Rightarrow> ('c, positions) fifo \<Rightarrow> 'c SyncCommitteeCache \<Rightarrow> BeaconState \<Rightarrow> ValidatorIndex
     \<Rightarrow> CommitteeIndex list res" where
  "NextPeriodSyncSubcommitteeIndices cfg hash ops c st valIdx =
     bindR (ValidatorAtIndexReadOnly st valIdx) (\<lambda>_.
     bindR (syncPeriodBoundaryRoot cfg hash st) (\<lambda>root.
     case NextPeriodIndexPosition ops c root valIdx of
       None \<Rightarrow> bindR (ValidatorAtIndex st valIdx) (\<lambda>val.
               Inr (findSubCommitteeIndices (PublicKey val) (Pubkeys (b_nextSyncCommittee st))))
     | Some indices \<Rightarrow> Inr indices))"

definition IsCurrentPeriodSyncCommittee ::
  "config \<Rightarrow> (bytes \<Rightarrow> bytes) \<Rightarrow> ('c, positions) fifo \<Rightarrow> 'c SyncCommitteeCache \<Rightarrow> BeaconState \<Rightarrow> ValidatorIndex \<Rightarrow> bool res" where
  "IsCurrentPeriodSyncCommittee cfg hash ops c st valIdx =
     bindR (ValidatorAtIndexReadOnly st valIdx) (\<lambda>_.
     bindR (syncPeriodBoundaryRoot cfg hash st) (\<lambda>root.
     case CurrentPeriodIndexPosition ops c root valIdx of
       None \<Rightarrow> bindR (ValidatorAtIndex st valIdx) (\<lambda>val.
               Inr (length (findSubCommitteeIndices (PublicKey val) (Pubkeys (b_currentSyncCommittee st))) > 0))
     | Some indices \<Rightarrow> Inr (length indices > 0)))"

definition IsNextPeriodSyncCommittee ::
  "config \<Rightarrow> (bytes \<Rightarrow> bytes) \<Rightarrow> ('c, positions) fifo \<Rightarrow> 'c SyncCommitteeCache \<Rightarrow> BeaconState \<Rightarrow> ValidatorIndex \<Rightarrow> bool res" where
  "IsNextPeriodSyncCommittee cfg hash ops c st valIdx =
     bindR (ValidatorAtIndexReadOnly st valIdx) (\<lambda>_.
     bindR (syncPeriodBoundaryRoot cfg hash st) (\<lambda>root.
     case NextPeriodIndexPosition ops c root valIdx of
       None \<Rightarrow> bindR (ValidatorAtIndex st valIdx) (\<lambda>val.
               Inr (length (findSubCommitteeIndices (PublicKey val) (Pubkeys (b_nextSyncCommittee st))) > 0))
     | Some indices \<Rightarrow> Inr (length indices > 0)))"

text \<open>\<open>htr\<close> is the generated \<open>HashTreeRoot\<close> of a block header.\<close>

definition UpdateSyncCommitteeCache ::
  "config \<Rightarrow> (bytes \<Rightarrow> bytes) \<Rightarrow> (BeaconBlockHeader \<Rightarrow> bytes res) \<Rightarrow> ('c, positions) fifo \<Rightarrow> BeaconState
     \<Rightarrow> 'c SyncCommitteeCache \<Rightarrow> 'c SyncCommitteeCache res" where
  "UpdateSyncCommitteeCache cfg hash htr ops st c =
     (let nextSlot = b_slot st + 1
      in if nextSlot mod SlotsPerEpoch (raw cfg) \<noteq> 0 then Inl (Err ''not at the end of the epoch to update cache'')
         else if ToEpoch cfg nextSlot mod EpochsPerSyncCommitteePeriod (raw cfg) \<noteq> 0
         then Inl (Err ''not at sync committee period boundary to update cache'')
         else let header = b_latestBlockHeader st
              in if hdr_StateRoot header = replicate 32 0 then Inl (Err ''zero hash state root can't be used to update cache'')
                 else bindR (htr header) (\<lambda>prevBlockRoot.
                      Inr (UpdatePositionsInCommittee ops (cleared c) (combineRootAndSlot hash prevBlockRoot (b_slot st)) st c)))"

section \<open>The selection loop ends\<close>

lemma sync_step_eq:
  assumes "k < length act" and "length act \<le> unat maxShuffleListSize"
    and "ComputeShuffledIndex cfg hash (i mod of_nat (length act)) (of_nat (length act)) seed True = Inr (of_nat k)"
    and "unat (act ! k) < NumValidators s"
  shows "sync_step cfg hash s act seed i =
    Inr (if EffectiveBalance (b_validators s ! unat (act ! k)) * 255
              \<ge> MaxEffectiveBalance (raw cfg) * ucast (hash (seed @ Bytes8 (i div 32)) ! unat (i mod 32))
         then Some (act ! k) else None)"
proof -
  have n: "(of_nat (length act) :: u64) \<noteq> 0" "unat (of_nat k :: u64) = k"
    using assms(1,2) by (auto simp: unat_eq_u64 unat_of_nat_u64 maxShuffleListSize_def)
  then show ?thesis
    using assms by (simp add: sync_step_def Let_def ValidatorIndex_Mod_def ValidatorIndex_Div_def arr_get_def
        ValidatorAtIndexReadOnly_def NumValidators_def maxRandomByte_def)
qed

lemma sync_step_member:
  assumes "0 < length act" and "length act \<le> unat maxShuffleListSize" and "\<forall>k \<in> set act. unat k < NumValidators s"
  shows "\<exists>c. sync_step cfg hash s act seed i = Inr c \<and> (\<forall>x. c = Some x \<longrightarrow> x \<in> set act)"
proof -
  obtain k where k: "k < length act"
    "ComputeShuffledIndex cfg hash (i mod of_nat (length act)) (of_nat (length act)) seed True = Inr (of_nat k)"
    using shuffled_in_range [OF assms(1,2)] by blast
  then show ?thesis
    using sync_step_eq [OF k(1) assms(2) k(2), of s] assms(3) by simp
qed

text \<open>From any turn on, a later turn meets the validator with the maximum effective balance.\<close>

lemma sync_step_hit:
  assumes "length act \<le> unat maxShuffleListSize" and "\<forall>k \<in> set act. unat k < NumValidators s"
    and "m \<in> set act" and "EffectiveBalance (b_validators s ! unat m) = MaxEffectiveBalance (raw cfg)"
    and "unat (MaxEffectiveBalance (raw cfg)) * 255 < 18446744073709551616"
  shows "\<exists>d. sync_step cfg hash s act seed (i + of_nat d) = Inr (Some m)"
proof -
  obtain k where k: "k < length act" "act ! k = m"
    using assms(3) by (auto simp: in_set_conv_nth)
  obtain j where j: "j < length act"
    "ComputeShuffledIndex cfg hash (of_nat j) (of_nat (length act)) seed True = Inr (of_nat k)"
    using shuffled_preimage [OF k(1) assms(1)] by blast
  have "unat (of_nat (length act) :: u64) = length act" "unat (of_nat j :: u64) = j"
    using j(1) assms(1) by (auto simp: unat_of_nat_u64 maxShuffleListSize_def)
  then have mod: "(of_nat j :: u64) mod of_nat (length act) = of_nat j"
    using j by (simp add: unat_eq_u64 unat_mod_u64)
  have "sync_step cfg hash s act seed (of_nat j) = Inr (Some m)"
    using sync_step_eq [OF k(1) assms(1), of cfg hash "of_nat j" seed s] j(2) mod k(2) assms(2,3,4)
      max_balance_accepted [OF assms(5)] by simp
  then show ?thesis
    by (intro exI [of _ "unat (of_nat j - i)"]) (simp add: of_nat_unat_word)
qed

lemma sync_loop_next:
  assumes "of_nat (length acc) < SyncCommitteeSize (raw cfg)"
    and "\<And>i. \<exists>c. sync_step cfg hash s act seed i = Inr c \<and> (\<forall>x. c = Some x \<longrightarrow> x \<in> set act)"
    and "sync_step cfg hash s act seed (i + of_nat d) = Inr (Some m)"
  shows "\<exists>j x. x \<in> set act \<and> sync_loop cfg hash s act seed i acc = sync_loop cfg hash s act seed j (acc @ [x])"
  using assms(3)
proof (induction d arbitrary: i)
  case 0
  then have "sync_loop cfg hash s act seed i acc = sync_loop cfg hash s act seed (i + 1) (acc @ [m])"
    using assms(1) by (subst sync_loop.simps) simp
  moreover have "m \<in> set act"
    using assms(2) [of i] 0 by auto
  ultimately show ?case by blast
next
  case (Suc d)
  obtain c where c: "sync_step cfg hash s act seed i = Inr c" "\<And>x. c = Some x \<Longrightarrow> x \<in> set act"
    using assms(2) [of i] by blast
  have "sync_step cfg hash s act seed ((i + 1) + of_nat d) = Inr (Some m)"
    using Suc.prems by (simp add: algebra_simps)
  note IH = Suc.IH [OF this]
  show ?case
  proof (cases c)
    case None
    then have "sync_loop cfg hash s act seed i acc = sync_loop cfg hash s act seed (i + 1) acc"
      using assms(1) c by (subst sync_loop.simps) simp
    then show ?thesis
      using IH by simp
  next
    case (Some x)
    then have "sync_loop cfg hash s act seed i acc = sync_loop cfg hash s act seed (i + 1) (acc @ [x])"
      using assms(1) c by (subst sync_loop.simps) simp
    then show ?thesis
      using c(2) [OF Some] by blast
  qed
qed

lemma sync_loop_returns:
  assumes "length acc \<le> unat (SyncCommitteeSize (raw cfg))" and "set acc \<subseteq> set act"
    and "\<And>i. \<exists>c. sync_step cfg hash s act seed i = Inr c \<and> (\<forall>x. c = Some x \<longrightarrow> x \<in> set act)"
    and "\<And>i. \<exists>d. sync_step cfg hash s act seed (i + of_nat d) = Inr (Some m)"
  shows "\<exists>xs. sync_loop cfg hash s act seed i acc = Some (Inr xs) \<and> length xs = unat (SyncCommitteeSize (raw cfg))
    \<and> set xs \<subseteq> set act"
  using assms(1,2)
proof (induction "unat (SyncCommitteeSize (raw cfg)) - length acc" arbitrary: acc i)
  case 0
  then have "length acc = unat (SyncCommitteeSize (raw cfg))"
    by simp
  moreover from this have "\<not> of_nat (length acc) < SyncCommitteeSize (raw cfg)"
    by (simp add: of_nat_unat_word)
  ultimately show ?case
    using 0(3) by (subst sync_loop.simps) simp
next
  case (Suc n)
  have lt: "of_nat (length acc) < SyncCommitteeSize (raw cfg)"
    using Suc(2) unat_lt_2_64 [of "SyncCommitteeSize (raw cfg)"] by (simp add: unat_less_u64 unat_of_nat_u64)
  obtain d where "sync_step cfg hash s act seed (i + of_nat d) = Inr (Some m)"
    using assms(4) by blast
  from sync_loop_next [OF lt assms(3) this] obtain j x where
    x: "x \<in> set act" "sync_loop cfg hash s act seed i acc = sync_loop cfg hash s act seed j (acc @ [x])"
    by blast
  have "n = unat (SyncCommitteeSize (raw cfg)) - length (acc @ [x])" "length (acc @ [x]) \<le> unat (SyncCommitteeSize (raw cfg))"
    "set (acc @ [x]) \<subseteq> set act"
    using Suc(2,4) x(1) by auto
  from Suc(1) [OF this, of j] x(2) show ?case by simp
qed

section \<open>The positions map\<close>

definition current_of :: "positions \<Rightarrow> ValidatorIndex \<Rightarrow> CommitteeIndex list" where
  "current_of m v = (case m v of None \<Rightarrow> [] | Some p \<Rightarrow> currentPeriod p)"

definition next_of :: "positions \<Rightarrow> ValidatorIndex \<Rightarrow> CommitteeIndex list" where
  "next_of m v = (case m v of None \<Rightarrow> [] | Some p \<Rightarrow> nextPeriod p)"

abbreviation resolved :: "BeaconState \<Rightarrow> ValidatorIndex \<Rightarrow> nat \<times> bytes \<Rightarrow> bool" where
  "resolved st v ik \<equiv> ValidatorIndexByPubkey st (ToBytes2592 (snd ik)) = (v, True)"

lemma current_step:
  "current_of (current_position_step st ik m) v = current_of m v @ (if resolved st v ik then [of_nat (fst ik)] else [])"
  "next_of (current_position_step st ik m) v = next_of m v"
  by (auto simp: current_position_step_def current_of_def next_of_def split: prod.splits option.splits)

lemma next_step:
  "next_of (next_position_step st ik m) v = next_of m v @ (if resolved st v ik then [of_nat (fst ik)] else [])"
  "current_of (next_position_step st ik m) v = current_of m v"
  by (auto simp: next_position_step_def current_of_def next_of_def split: prod.splits option.splits)

lemma current_fold:
  "current_of (fold (current_position_step st) iks m) v = current_of m v @ map (of_nat \<circ> fst) (filter (resolved st v) iks)"
  "next_of (fold (current_position_step st) iks m) v = next_of m v"
  by (induction iks arbitrary: m) (simp_all add: current_step)

lemma next_fold:
  "next_of (fold (next_position_step st) iks m) v = next_of m v @ map (of_nat \<circ> fst) (filter (resolved st v) iks)"
  "current_of (fold (next_position_step st) iks m) v = current_of m v"
  by (induction iks arbitrary: m) (simp_all add: next_step)

lemma positionsMap_lists:
  "current_of (positionsMap st) v =
     map (of_nat \<circ> fst) (filter (resolved st v) (enumerate 0 (Pubkeys (b_currentSyncCommittee st))))"
  "next_of (positionsMap st) v =
     map (of_nat \<circ> fst) (filter (resolved st v) (enumerate 0 (Pubkeys (b_nextSyncCommittee st))))"
  by (simp_all add: positionsMap_def current_fold next_fold) (simp_all add: current_of_def next_of_def)

lemma find_fold:
  "fold (\<lambda>(i, k) indices. if k = pubKey then indices @ [of_nat i] else indices) iks acc =
     acc @ map (of_nat \<circ> fst) (filter (\<lambda>ik. snd ik = pubKey) iks)"
  by (induction iks arbitrary: acc) auto

lemma findSubCommitteeIndices_filter:
  "findSubCommitteeIndices pubKey pubKeys = map (of_nat \<circ> fst) (filter (\<lambda>ik. snd ik = pubKey) (enumerate 0 pubKeys))"
  by (simp add: findSubCommitteeIndices_def find_fold)

text \<open>A registry in which the map of public keys is exact, and committees of full-length keys.\<close>

definition keys_ok :: "BeaconState \<Rightarrow> bool" where
  "keys_ok st \<longleftrightarrow> valmap_ok st \<and> NumValidators st < 18446744073709551616 \<and> distinct (map PublicKey (b_validators st))
     \<and> (\<forall>v \<in> set (b_validators st). length (PublicKey v) = 2592)
     \<and> (\<forall>k \<in> set (Pubkeys (b_currentSyncCommittee st)). length k = 2592)
     \<and> (\<forall>k \<in> set (Pubkeys (b_nextSyncCommittee st)). length k = 2592)"

lemma resolved_iff:
  assumes "keys_ok st" and "unat v < NumValidators st" and "length k = 2592"
  shows "ValidatorIndexByPubkey st (ToBytes2592 k) = (v, True) \<longleftrightarrow> k = PublicKey (b_validators st ! unat v)"
proof
  have vm: "\<And>k i. b_valMap st k = Some i \<Longrightarrow>
      unat i < length (b_validators st) \<and> ToBytes2592 (PublicKey (b_validators st ! unat i)) = k"
    "\<And>v. v \<in> set (b_validators st) \<Longrightarrow> b_valMap st (ToBytes2592 (PublicKey v)) \<noteq> None"
    using assms(1) by (auto simp: keys_ok_def valmap_ok_def)
  have len: "ToBytes2592 (PublicKey (b_validators st ! i)) = PublicKey (b_validators st ! i)" if "i < NumValidators st" for i
    using assms(1) that by (simp add: keys_ok_def NumValidators_def ToBytes2592_def to_array_id)
  have k: "ToBytes2592 k = k"
    using assms(3) by (simp add: ToBytes2592_def to_array_id)
  {
    assume "ValidatorIndexByPubkey st (ToBytes2592 k) = (v, True)"
    then have "b_valMap st k = Some v"
      by (auto simp: ValidatorIndexByPubkey_def k split: option.splits if_splits)
    then show "k = PublicKey (b_validators st ! unat v)"
      using vm(1) len assms(2) by auto
  next
    assume eq: "k = PublicKey (b_validators st ! unat v)"
    have "b_validators st ! unat v \<in> set (b_validators st)"
      using assms(2) by (simp add: NumValidators_def)
    then obtain i where i: "b_valMap st k = Some i"
      using vm(2) len assms(2) eq by fastforce
    then have "unat i < length (b_validators st)" "PublicKey (b_validators st ! unat i) = k"
      using vm(1) [OF i] len by (auto simp: NumValidators_def)
    then have "unat i = unat v"
      using assms(1,2) eq by (auto simp: keys_ok_def NumValidators_def distinct_conv_nth)
    then have "i = v"
      by (simp add: unat_eq_u64)
    moreover have "\<not> of_nat (length (b_validators st)) \<le> v"
      using assms(1,2) by (simp add: keys_ok_def NumValidators_def unat_le_u64 unat_of_nat_u64)
    ultimately show "ValidatorIndexByPubkey st (ToBytes2592 k) = (v, True)"
      by (simp add: ValidatorIndexByPubkey_def k i)
  }
qed

lemma positionsMap_exact:
  assumes "keys_ok st" and "unat v < NumValidators st"
  shows "current_of (positionsMap st) v
      = findSubCommitteeIndices (PublicKey (b_validators st ! unat v)) (Pubkeys (b_currentSyncCommittee st))"
    and "next_of (positionsMap st) v
      = findSubCommitteeIndices (PublicKey (b_validators st ! unat v)) (Pubkeys (b_nextSyncCommittee st))"
proof -
  have eq: "filter (resolved st v) (enumerate 0 ks) = filter (\<lambda>ik. snd ik = PublicKey (b_validators st ! unat v)) (enumerate 0 ks)"
    if "\<forall>k \<in> set ks. length k = 2592" for ks
  proof (rule filter_cong [OF refl])
    fix ik assume "ik \<in> set (enumerate 0 ks)"
    then have "length (snd ik) = 2592"
      using that by (auto simp: in_set_enumerate_eq dest: nth_mem)
    then show "resolved st v ik = (snd ik = PublicKey (b_validators st ! unat v))"
      by (rule resolved_iff [OF assms])
  qed
  have "\<forall>k \<in> set (Pubkeys (b_currentSyncCommittee st)). length k = 2592" "\<forall>k \<in> set (Pubkeys (b_nextSyncCommittee st)). length k = 2592"
    using assms(1) by (auto simp: keys_ok_def)
  then show "current_of (positionsMap st) v
      = findSubCommitteeIndices (PublicKey (b_validators st ! unat v)) (Pubkeys (b_currentSyncCommittee st))"
    and "next_of (positionsMap st) v
      = findSubCommitteeIndices (PublicKey (b_validators st ! unat v)) (Pubkeys (b_nextSyncCommittee st))"
    by (simp_all only: positionsMap_lists findSubCommitteeIndices_filter eq)
qed

text \<open>The entry of a period is absent or the map of the state at its boundary.\<close>

definition positions_sound :: "('c, positions) fifo \<Rightarrow> 'c SyncCommitteeCache \<Rightarrow> bytes \<Rightarrow> positions \<Rightarrow> bool" where
  "positions_sound ops c root m \<longleftrightarrow> fifo_GetByKey ops (sc_cache c) root \<in> {None, Some m}"

lemma trim_loop_le:
  assumes "fifo_law ops"
  shows "fifo_GetByKey ops (trim_loop ops s maxSize c) \<subseteq>\<^sub>m fifo_GetByKey ops c"
proof (induction s arbitrary: c)
  case (Suc s)
  then show ?case
    using assms map_le_trans [OF Suc] by (auto simp: fifo_law_def)
qed simp

lemma update_positions_sound:
  assumes "fifo_law ops" and "positions_sound ops c root m" and "root' \<noteq> root \<or> positionsMap st = m"
  shows "positions_sound ops (UpdatePositionsInCommittee ops n root' st c) root m"
proof (cases "n = cleared c")
  case True
  let ?c = "fifo_Add ops (sc_cache c) root' (positionsMap st)"
  have "fifo_GetByKey ops ?c root \<in> {None, Some m}"
    using assms by (auto simp: fifo_law_def positions_sound_def)
  moreover have "fifo_GetByKey ops (trim ops maxSyncCommitteeSize ?c) \<subseteq>\<^sub>m fifo_GetByKey ops ?c"
    unfolding trim_def by (rule trim_loop_le [OF assms(1)])
  ultimately show ?thesis
    using True by (auto simp: UpdatePositionsInCommittee_def positions_sound_def map_le_def dom_def)
qed (use assms in \<open>simp add: UpdatePositionsInCommittee_def\<close>)

section \<open>Properties\<close>

text \<open>C22: At the boundary of a sync committee period the rotation returns: the old next committee becomes the
  current one, and the sampling loop ends with a full next committee, all of whose members are
  active in the next epoch, when one active validator holds the maximum effective balance.\<close>

theorem ProcessSyncCommitteeUpdates_rotates:
  assumes "NextEpoch cfg s mod EpochsPerSyncCommitteePeriod (raw cfg) = 0"
    and "NumValidators s \<le> unat maxShuffleListSize" and "Seed cfg hash s (NextEpoch cfg s) (DomainSyncCommittee (raw cfg)) = Inr seed"
    and "ActiveValidatorIndices cfg hash s (NextEpoch cfg s) = Inr act"
    and "m < NumValidators s" and "IsActiveValidator (b_validators s ! m) (NextEpoch cfg s)"
    and "EffectiveBalance (b_validators s ! m) = MaxEffectiveBalance (raw cfg)"
    and "unat (MaxEffectiveBalance (raw cfg)) * 255 < 18446744073709551616"
  shows "\<exists>xs. ProcessSyncCommitteeUpdates cfg hash s = Some (Inr (s\<lparr>b_currentSyncCommittee := b_nextSyncCommittee s,
        b_nextSyncCommittee := \<lparr>Pubkeys = map (PubkeyAtIndex s) xs\<rparr>\<rparr>))
    \<and> length xs = unat (SyncCommitteeSize (raw cfg))
    \<and> (\<forall>x \<in> set xs. unat x < NumValidators s \<and> IsActiveValidator (b_validators s ! unat x) (NextEpoch cfg s))"
proof -
  let ?t = "s\<lparr>b_currentSyncCommittee := b_nextSyncCommittee s\<rparr>"
  have n: "NumValidators s < 18446744073709551616"
    using assms(2) by (simp add: maxShuffleListSize_def)
  have act: "act = active_set s (NextEpoch cfg s)"
    using assms(4) by (auto simp: ActiveValidatorIndices_def activeValidatorIndices_eq active_set_def bindR_eq_Inr split: if_splits)
  note mem = active_set_iff [OF n, of _ "NextEpoch cfg s", folded act]
  have m: "of_nat m \<in> set act" "unat (of_nat m :: u64) = m"
    using assms(5,6) n mem by (simp_all add: unat_of_nat_u64)
  have len: "length act \<le> unat maxShuffleListSize" "0 < length act"
    using length_active_set [of s "NextEpoch cfg s"] assms(2) m act by auto
  have all: "\<forall>k \<in> set act. unat k < NumValidators ?t"
    using mem by (simp add: NumValidators_def)
  have bal: "EffectiveBalance (b_validators ?t ! unat (of_nat m :: u64)) = MaxEffectiveBalance (raw cfg)"
    using assms(7) m by simp
  obtain xs where xs: "sync_loop cfg hash ?t act seed 0 [] = Some (Inr xs)" "length xs = unat (SyncCommitteeSize (raw cfg))"
      "set xs \<subseteq> set act"
  proof -
    have "\<exists>xs. sync_loop cfg hash ?t act seed 0 [] = Some (Inr xs) \<and> length xs = unat (SyncCommitteeSize (raw cfg)) \<and> set xs \<subseteq> set act"
      by (rule sync_loop_returns [OF _ _ sync_step_member [OF len(2,1) all] sync_step_hit [OF len(1) all m(1) bal assms(8)]]) simp_all
    then show ?thesis using that by blast
  qed
  have seed: "Seed cfg hash ?t e dom = Seed cfg hash s e dom" for e dom
    by (simp add: Seed_def RandaoMix_def RandaoMixAtIndex_def cong: if_cong)
  have idx: "activeValidatorIndices ?t e = activeValidatorIndices s e" for e
    by (simp add: activeValidatorIndices_def ReadFromEveryValidator_def)
  have same: "NextEpoch cfg ?t = NextEpoch cfg s" "ActiveValidatorIndices cfg hash ?t e = ActiveValidatorIndices cfg hash s e"
      "PubkeyAtIndex ?t = PubkeyAtIndex s" for e
    by (simp_all add: NextEpoch_def ActiveValidatorIndices_def seed idx PubkeyAtIndex_def fun_eq_iff cong: if_cong)
  have "ProcessSyncCommitteeUpdates cfg hash s = Some (Inr (?t\<lparr>b_nextSyncCommittee := \<lparr>Pubkeys = map (PubkeyAtIndex s) xs\<rparr>\<rparr>))"
    using xs(1) assms(1,3,4) by (simp add: ProcessSyncCommitteeUpdates_def SetCurrentSyncCommittee_def SetNextSyncCommittee_def
        NextSyncCommittee_def NextSyncCommitteeIndices_def Let_def same seed)
  then show ?thesis
    using xs(2,3) mem by auto
qed

theorem ProcessSyncCommitteeUpdates_rotates_witness:
  "\<exists>xs. ProcessSyncCommitteeUpdates tiny (\<lambda>_. replicate 32 200) (small_registry\<lparr>b_slot := 31\<rparr>) = Some (Inr (small_registry\<lparr>b_slot := 31,
        b_nextSyncCommittee := \<lparr>Pubkeys = map (PubkeyAtIndex small_registry) xs\<rparr>\<rparr>))
    \<and> length xs = unat (SyncCommitteeSize (raw tiny))"
proof -
  let ?s = "small_registry\<lparr>b_slot := 31\<rparr>"
  have e: "NextEpoch tiny ?s = 8"
    by (simp add: NextEpoch_def ToEpoch_def small_defs)
  have seed: "Seed tiny (\<lambda>_. replicate 32 200) ?s 8 dom = Inr (replicate 32 200)" for dom
    by (simp add: Seed_def RandaoMix_def RandaoMixAtIndex_def small_defs)
  have act: "ActiveValidatorIndices tiny (\<lambda>_. replicate 32 200) ?s 8 = Inr [0, 1]"
    using seed by (simp add: ActiveValidatorIndices_def activeValidatorIndices_eq IsActiveValidator_def checkValidatorActiveStatus_def small_defs)
  have k: "PubkeyAtIndex ?s = PubkeyAtIndex small_registry"
    by (simp add: PubkeyAtIndex_def fun_eq_iff)
  have "\<exists>xs. ProcessSyncCommitteeUpdates tiny (\<lambda>_. replicate 32 200) ?s = Some (Inr (?s\<lparr>b_currentSyncCommittee := b_nextSyncCommittee ?s,
        b_nextSyncCommittee := \<lparr>Pubkeys = map (PubkeyAtIndex ?s) xs\<rparr>\<rparr>))
      \<and> length xs = unat (SyncCommitteeSize (raw tiny))
      \<and> (\<forall>x \<in> set xs. unat x < NumValidators ?s \<and> IsActiveValidator (b_validators ?s ! unat x) (NextEpoch tiny ?s))"
    by (rule ProcessSyncCommitteeUpdates_rotates [where m = 0 and seed = "replicate 32 200" and act = "[0, 1]"])
       (use e seed act in \<open>simp_all add: small_defs NumValidators_def maxShuffleListSize_def IsActiveValidator_def
          checkValidatorActiveStatus_def\<close>)
  moreover have "?s\<lparr>b_currentSyncCommittee := b_nextSyncCommittee ?s, b_nextSyncCommittee := x\<rparr> = small_registry\<lparr>b_slot := 31, b_nextSyncCommittee := x\<rparr>" for x
    by (simp add: small_registry_def zero_state_def)
  ultimately show ?thesis
    unfolding k by auto
qed

text \<open>C23: The positions cache is exact: as long as the entry of a period was stored for a state with the same
  committees, whatever the store has evicted, every reader returns the positions that a search of
  the committee for the validator's public key gives, and storing entries keeps this so.\<close>

theorem sync_positions_exact:
  assumes "fifo_law ops" and "keys_ok st" and "syncPeriodBoundaryRoot cfg hash st = Inr root"
    and "positions_sound ops c root (positionsMap st)" and "unat v < NumValidators st"
    and "cur = findSubCommitteeIndices (PublicKey (b_validators st ! unat v)) (Pubkeys (b_currentSyncCommittee st))"
    and "nxt = findSubCommitteeIndices (PublicKey (b_validators st ! unat v)) (Pubkeys (b_nextSyncCommittee st))"
  shows "CurrentPeriodSyncSubcommitteeIndices cfg hash ops c st v = Inr cur
    \<and> NextPeriodSyncSubcommitteeIndices cfg hash ops c st v = Inr nxt
    \<and> IsCurrentPeriodSyncCommittee cfg hash ops c st v = Inr (cur \<noteq> [])
    \<and> IsNextPeriodSyncCommittee cfg hash ops c st v = Inr (nxt \<noteq> [])
    \<and> CurrentPeriodPositions cfg hash ops c st [v] = Inr [cur]
    \<and> (root' \<noteq> root \<or> positionsMap st' = positionsMap st \<longrightarrow>
         positions_sound ops (UpdatePositionsInCommittee ops n root' st' c) root (positionsMap st))"
proof -
  have key: "PubkeyAtIndex st v = PublicKey (b_validators st ! unat v)"
    using assms(2,5) by (simp add: PubkeyAtIndex_def keys_ok_def NumValidators_def ToBytes2592_def to_array_id)
  note ex = positionsMap_exact [OF assms(2,5), folded assms(6,7), unfolded current_of_def next_of_def]
  note readers = CurrentPeriodSyncSubcommitteeIndices_def NextPeriodSyncSubcommitteeIndices_def IsCurrentPeriodSyncCommittee_def
    IsNextPeriodSyncCommittee_def CurrentPeriodPositions_def CurrentPeriodIndexPosition_def NextPeriodIndexPosition_def
    cache_CurrentPeriodPositions_def idxPositionInCommittee_def positionsInCommittee_def ValidatorAtIndex_def ValidatorAtIndexReadOnly_def
  show ?thesis
  proof (cases "fifo_GetByKey ops (sc_cache c) root")
    case None
    then show ?thesis
      using assms key update_positions_sound [OF assms(1,4), of root' st' n] by (simp add: readers NumValidators_def)
  next
    case (Some m)
    then have "m = positionsMap st"
      using assms(4) by (simp add: positions_sound_def)
    then show ?thesis
      using assms(3,5) ex Some update_positions_sound [OF assms(1,4), of root' st' n] by (simp add: readers NumValidators_def)
  qed
qed

definition list_fifo :: "((bytes \<times> 'v) list, 'v) fifo" where
  "list_fifo = \<lparr>fifo_GetByKey = map_of, fifo_Add = (\<lambda>c k v. (k, v) # c), fifo_Len = length, fifo_Pop = butlast\<rparr>"

lemma list_fifo_law: "fifo_law list_fifo"
proof -
  have "map_of (butlast xs) \<subseteq>\<^sub>m map_of xs" for xs :: "(bytes \<times> 'v) list"
    by (induction xs) (auto simp: map_le_def)
  then show ?thesis
    by (auto simp: fifo_law_def list_fifo_def)
qed

definition a_key :: bytes where
  "a_key = replicate 2592 1"

definition one_member :: BeaconState where
  "one_member = zero_state\<lparr>b_validators := [zero_validator\<lparr>PublicKey := a_key\<rparr>], b_currentSyncCommittee := \<lparr>Pubkeys = [a_key, a_key]\<rparr>,
     b_valMap := [a_key \<mapsto> 0]\<rparr>"

lemma one_member_keys: "keys_ok one_member"
proof -
  have "length a_key = 2592"
    by (simp only: a_key_def length_replicate)
  then show ?thesis
    by (simp add: keys_ok_def valmap_ok_def one_member_def zero_state_def NumValidators_def ToBytes2592_def to_array_id)
qed

theorem sync_positions_exact_witness:
  "CurrentPeriodSyncSubcommitteeIndices tiny (\<lambda>x. x) list_fifo
     (UpdatePositionsInCommittee list_fifo 0 (replicate 32 0) one_member \<lparr>sc_cache = [], cleared = 0\<rparr>) one_member 0 = Inr [0, 1]"
proof -
  let ?r = "replicate 32 (0 :: u8)" and ?c = "\<lparr>sc_cache = [] :: (bytes \<times> positions) list, cleared = 0\<rparr>"
  have root: "syncPeriodBoundaryRoot tiny (\<lambda>x. x) one_member = Inr ?r"
    by (simp add: syncPeriodBoundaryRoot_def one_member_def zero_state_def small_defs)
  have empty: "positions_sound list_fifo ?c ?r (positionsMap one_member)"
    by (simp add: positions_sound_def list_fifo_def)
  have v: "unat (0 :: u64) < NumValidators one_member"
    by (simp add: NumValidators_def one_member_def)
  have "positions_sound list_fifo (UpdatePositionsInCommittee list_fifo 0 ?r one_member ?c) ?r (positionsMap one_member)"
    using sync_positions_exact [OF list_fifo_law one_member_keys root empty v refl refl] by blast
  from sync_positions_exact [OF list_fifo_law one_member_keys root this v refl refl]
  have "CurrentPeriodSyncSubcommitteeIndices tiny (\<lambda>x. x) list_fifo
     (UpdatePositionsInCommittee list_fifo 0 ?r one_member ?c) one_member 0 = Inr (findSubCommitteeIndices a_key [a_key, a_key])"
    by (simp add: one_member_def)
  then show ?thesis
    by (simp add: findSubCommitteeIndices_def)
qed

end
