(* ===== verification/Epoch_Transition.thy ===== *)
theory Epoch_Transition
  imports Altair_Epoch Sync_Committee
begin

text \<open>
  The epoch transition of \<open>beacon-chain/core/altair/transition.go\<close> as the composition of its
  fourteen steps, with the rotation of the participation flags of \<open>epoch_spec.go\<close>, and its type
  safety: a well-formed state is taken to a well-formed state or to a returned error, never to a
  panic. The transition reads the total active balance and the active set without their caches,
  which are transparent; the update of the sync committee cache at the end of a period only logs
  its errors and is left out here.
\<close>

section \<open>The transition\<close>

definition ProcessParticipationFlagUpdates :: "BeaconState \<Rightarrow> BeaconState res" where
  "ProcessParticipationFlagUpdates s =
     bindR (SetPreviousParticipationBits s (b_currentEpochParticipation s)) (\<lambda>s.
     SetCurrentParticipationBits s (replicate (NumValidators s) 0))"

text \<open>The steps before the sync committee update, which may run forever.\<close>

definition epoch_steps ::
  "config \<Rightarrow> (bytes \<Rightarrow> bytes) \<Rightarrow> bv4 \<Rightarrow> (bytes list \<Rightarrow> bytes list res) \<Rightarrow> sqrt_cache \<Rightarrow> BeaconState
     \<Rightarrow> (BeaconState \<times> sqrt_cache) res" where
  "epoch_steps cfg hash bv vec sc s =
     bindR (InitializePrecomputeValidators cfg s) (\<lambda>(vp, bp).
     bindR (ProcessEpochParticipation cfg s bp vp) (\<lambda>(vp, bp).
     bindR (wrapR ''could not process justification'' (ProcessJustificationAndFinalizationPreCompute cfg bv s bp)) (\<lambda>s.
     bindR (wrapR ''could not process inactivity updates'' (ProcessInactivityScores cfg s vp)) (\<lambda>(s, vp).
     bindR (wrapR ''could not process rewards and penalties'' (ProcessRewardsAndPenaltiesPrecompute cfg sc s bp vp)) (\<lambda>(s, vp, sc).
     bindR (wrapR ''could not process registry updates'' (ProcessRegistryUpdates cfg hash s)) (\<lambda>s.
     bindR (ProcessSlashings cfg s (ProportionalSlashingMultiplier (raw cfg))) (\<lambda>s.
     bindR (ProcessExecutionDataReset cfg s) (\<lambda>s.
     bindR (ProcessEffectiveBalanceUpdates cfg s) (\<lambda>s.
     bindR (ProcessSlashingsReset cfg s) (\<lambda>s.
     bindR (ProcessRandaoMixesReset cfg s) (\<lambda>s.
     bindR (ProcessHistoricalDataUpdate cfg vec s) (\<lambda>s.
     bindR (ProcessParticipationFlagUpdates s) (\<lambda>s.
     Inr (s, sc))))))))))))))"

definition ProcessEpoch ::
  "config \<Rightarrow> (bytes \<Rightarrow> bytes) \<Rightarrow> bv4 \<Rightarrow> (bytes list \<Rightarrow> bytes list res) \<Rightarrow> sqrt_cache \<Rightarrow> BeaconState option
     \<Rightarrow> (BeaconState \<times> sqrt_cache) res option" where
  "ProcessEpoch cfg hash bv vec sc state =
     (case state of None \<Rightarrow> Some (Inl (Err ''nil state''))
      | Some s \<Rightarrow> (case epoch_steps cfg hash bv vec sc s of
            Inl e \<Rightarrow> Some (Inl e)
          | Inr (s, sc) \<Rightarrow> map_option (\<lambda>r. bindR r (\<lambda>s. Inr (s, sc))) (ProcessSyncCommitteeUpdates cfg hash s)))"

section \<open>Well-formed states\<close>

text \<open>\<open>same_shape s t\<close>: \<open>t\<close> has lists of the lengths of those of \<open>s\<close>.\<close>

definition list_shape :: "BeaconState \<Rightarrow> nat list" where
  "list_shape s = [length (b_validators s), length (b_balances s), length (b_inactivityScores s),
     length (b_previousEpochParticipation s), length (b_currentEpochParticipation s), length (b_blockRoots s),
     length (b_stateRoots s), length (b_slashings s), length (b_randaoMixes s), length (b_justificationBits s)]"

definition expected_shape :: "config \<Rightarrow> nat \<Rightarrow> nat list" where
  "expected_shape cfg n = [n, n, n, n, n, unat (SlotsPerHistoricalRoot (raw cfg)), unat (SlotsPerHistoricalRoot (raw cfg)),
     unat (EpochsPerSlashingsVector (raw cfg)), unat (EpochsPerHistoricalVector (raw cfg)), 1]"

text \<open>\<open>n\<close> validators, at most the registry limit of \<open>2^40\<close>, at slot \<open>sl\<close>.\<close>

definition state_ok :: "config \<Rightarrow> nat \<Rightarrow> Slot \<Rightarrow> BeaconState \<Rightarrow> bool" where
  "state_ok cfg n sl s \<longleftrightarrow> list_shape s = expected_shape cfg n \<and> n \<le> unat maxShuffleListSize \<and> b_slot s = sl
     \<and> (\<forall>m \<in> set (b_randaoMixes s). length m = 32)"

lemmas shape_defs = state_ok_def list_shape_def expected_shape_def

lemma state_okD:
  assumes "state_ok cfg n sl s"
  shows "NumValidators s = n" "length (b_validators s) = n" "length (b_balances s) = n" "length (b_inactivityScores s) = n"
    "length (b_previousEpochParticipation s) = n" "length (b_currentEpochParticipation s) = n"
    "length (b_blockRoots s) = unat (SlotsPerHistoricalRoot (raw cfg))" "length (b_stateRoots s) = unat (SlotsPerHistoricalRoot (raw cfg))"
    "length (b_slashings s) = unat (EpochsPerSlashingsVector (raw cfg))"
    "length (b_randaoMixes s) = unat (EpochsPerHistoricalVector (raw cfg))" "length (b_justificationBits s) = 1"
    "n \<le> 1099511627776" "n < 18446744073709551616"
  using assms by (simp_all add: shape_defs NumValidators_def maxShuffleListSize_def)

lemma state_ok_updates [simp]:
  "state_ok cfg n sl (s\<lparr>b_previousJustifiedCheckpoint := a\<rparr>) = state_ok cfg n sl s"
  "state_ok cfg n sl (s\<lparr>b_currentJustifiedCheckpoint := a\<rparr>) = state_ok cfg n sl s"
  "state_ok cfg n sl (s\<lparr>b_finalizedCheckpoint := a\<rparr>) = state_ok cfg n sl s"
  "state_ok cfg n sl (s\<lparr>b_executionDataVotes := b\<rparr>) = state_ok cfg n sl s"
  "state_ok cfg n sl (s\<lparr>b_historicalSummaries := d\<rparr>) = state_ok cfg n sl s"
  "state_ok cfg n sl (s\<lparr>b_currentSyncCommittee := e\<rparr>) = state_ok cfg n sl s"
  "state_ok cfg n sl (s\<lparr>b_nextSyncCommittee := e\<rparr>) = state_ok cfg n sl s"
  by (simp_all add: shape_defs)

lemma state_ok_lists:
  assumes "state_ok cfg n sl s"
  shows "length vs = n \<Longrightarrow> state_ok cfg n sl (s\<lparr>b_validators := vs\<rparr>)"
    "length bs = n \<Longrightarrow> state_ok cfg n sl (s\<lparr>b_balances := bs\<rparr>)"
    "length bs = n \<Longrightarrow> state_ok cfg n sl (s\<lparr>b_inactivityScores := bs\<rparr>)"
    "length ps = n \<Longrightarrow> state_ok cfg n sl (s\<lparr>b_previousEpochParticipation := ps\<rparr>)"
    "length ps = n \<Longrightarrow> state_ok cfg n sl (s\<lparr>b_currentEpochParticipation := ps\<rparr>)"
    "length ps = 1 \<Longrightarrow> state_ok cfg n sl (s\<lparr>b_justificationBits := ps\<rparr>)"
    "length bs = length (b_slashings s) \<Longrightarrow> state_ok cfg n sl (s\<lparr>b_slashings := bs\<rparr>)"
    "length ms = length (b_randaoMixes s) \<Longrightarrow> (\<forall>m \<in> set ms. length m = 32) \<Longrightarrow> state_ok cfg n sl (s\<lparr>b_randaoMixes := ms\<rparr>)"
  using assms by (simp_all add: shape_defs)

section \<open>Safety of the state operations\<close>

text \<open>Results that are tuples.\<close>

lemma safeR_bind2:
  assumes "safeR (\<lambda>(a, b). P a b) m" and "\<And>a b. P a b \<Longrightarrow> m = Inr (a, b) \<Longrightarrow> safeR Q (f a b)"
  shows "safeR Q (bindR m (\<lambda>(a, b). f a b))"
  using assms by (auto intro!: safeR_bind [OF assms(1)])

lemma safeR_bind3:
  assumes "safeR (\<lambda>(a, b, c). P a b c) m" and "\<And>a b c. P a b c \<Longrightarrow> m = Inr (a, b, c) \<Longrightarrow> safeR Q (f a b c)"
  shows "safeR Q (bindR m (\<lambda>(a, b, c). f a b c))"
  using assms by (auto intro!: safeR_bind [OF assms(1)])

named_theorems safe_ops \<open>operations that keep a well-formed state\<close>

lemma safe_arith [simp]:
  "safeR (\<lambda>_. True) (Add64 a b)" "safeR (\<lambda>_. True) (Mul64 a b)"
  by (simp_all add: Add64_cases Mul64_cases)

lemma UpdateValidatorAtIndex_safe [safe_ops]:
  "state_ok cfg n sl s \<Longrightarrow> safeR (state_ok cfg n sl) (UpdateValidatorAtIndex s i v)"
  by (simp add: UpdateValidatorAtIndex_def Let_def state_ok_lists state_okD)

lemma UpdateBalancesAtIndex_safe [safe_ops]:
  "state_ok cfg n sl s \<Longrightarrow> safeR (state_ok cfg n sl) (UpdateBalancesAtIndex s i v)"
  by (simp add: UpdateBalancesAtIndex_def state_ok_lists state_okD)

lemma DecreaseBalance_safe [safe_ops]:
  "state_ok cfg n sl s \<Longrightarrow> safeR (state_ok cfg n sl) (DecreaseBalance s i v)"
  unfolding DecreaseBalance_def
  by (rule safeR_bind [of "\<lambda>_. True"]) (simp_all add: BalanceAtIndex_def UpdateBalancesAtIndex_safe)

lemma ValidatorAtIndex_safe [simp]:
  "safeR (\<lambda>_. True) (ValidatorAtIndex s i)"
  by (simp add: ValidatorAtIndex_def)

lemma ApplyToEveryValidator_safe:
  assumes "state_ok cfg n sl s"
    and "\<And>i v s. i < n \<Longrightarrow> state_ok cfg n sl s \<Longrightarrow> safeR (\<lambda>(_, _, s). state_ok cfg n sl s) (f i v s)"
  shows "safeR (state_ok cfg n sl) (ApplyToEveryValidator s f)"
  unfolding ApplyToEveryValidator_def
proof (rule safeR_fold [where P = "state_ok cfg n sl"])
  fix i t assume i: "i \<in> set [0..<NumValidators s]" and t: "state_ok cfg n sl t"
  have "safeR (state_ok cfg n sl) (bindR (f i v t) (\<lambda>(changed, newVal, b).
      if changed then wrapR ''could not update validator'' (UpdateValidatorAtIndex b (of_nat i) newVal) else Inr b))" for v
    using i by (intro safeR_bind [OF assms(2) [OF _ t]]) (auto simp: state_okD(1) [OF assms(1)] UpdateValidatorAtIndex_safe)
  then show "safeR (state_ok cfg n sl) (bindR (ValidatorAtIndex t (of_nat i)) (\<lambda>val.
      bindR (f i val t) (\<lambda>(changed, newVal, b).
      if changed then wrapR ''could not update validator'' (UpdateValidatorAtIndex b (of_nat i) newVal) else Inr b)))"
    by (intro safeR_bind [OF ValidatorAtIndex_safe])
qed (rule assms(1))

section \<open>Safety of the precomputation\<close>

lemma safeR_fold_nth:
  assumes "P 0 s" and "\<And>i s. i < length xs \<Longrightarrow> P i s \<Longrightarrow> safeR (P (Suc i)) (f (xs ! i) s)"
  shows "safeR (P (length xs)) (foldR f xs s)"
  using assms(2)
proof (induction xs rule: rev_induct)
  case (snoc x xs)
  have "safeR (P (length xs)) (foldR f xs s)"
    using snoc.prems by (intro snoc.IH) (metis length_append_singleton less_SucI nth_append)
  moreover have "foldR f [] = Inr"
    by (rule ext) simp
  ultimately have "safeR (P (Suc (length xs))) (bindR (foldR f xs s) (foldR f [x]))"
    using snoc.prems [of "length xs"] by (elim safeR_bind) simp
  then show ?case
    by (simp add: foldR_append)
qed (use assms(1) in simp)

lemma precompute_step_safe:
  assumes "i < length scores"
  shows "safeR (\<lambda>(vals', bal'). length vals' = Suc (length vals)) (precompute_step scores pe ce i v (vals, bal))"
  using assms by (auto simp: precompute_step_def arr_get_def Let_def Add64_cases split: if_splits)

lemma InitializePrecomputeValidators_safe:
  assumes "state_ok cfg n sl s"
  shows "safeR (\<lambda>(vals, bal). length vals = n) (InitializePrecomputeValidators cfg s)"
proof -
  let ?step = "precompute_step (b_inactivityScores s) (PrevEpoch cfg s) (CurrentEpoch cfg s)"
  have "safeR ((\<lambda>k (vals, bal). length vals = k) (length (enumerate 0 (b_validators s))))
      (foldR (\<lambda>(i, v). ?step i v) (enumerate 0 (b_validators s)) ([], zero_balance))"
  proof (rule safeR_fold_nth)
    fix i and acc :: "PValidator list \<times> Balance"
    assume i: "i < length (enumerate 0 (b_validators s))" and acc: "(\<lambda>(vals, bal). length vals = i) acc"
    obtain vals bal where a: "acc = (vals, bal)"
      by (cases acc)
    have "i < length (b_inactivityScores s)"
      using i state_okD [OF assms] by simp
    from precompute_step_safe [OF this, where vals = vals and v = "b_validators s ! i" and bal = bal] show "safeR (\<lambda>(vals, bal). length vals = Suc i)
        ((\<lambda>(i, v). ?step i v) (enumerate 0 (b_validators s) ! i) acc)"
      using i acc by (simp add: a nth_enumerate_eq)
  qed simp
  then show ?thesis
    by (simp add: InitializePrecomputeValidators_def ReadFromEveryValidator_def state_okD [OF assms])
qed

lemma mark_safe: "i < length vals \<Longrightarrow> safeR (\<lambda>vals'. length vals' = length vals) (mark has i c u vals)"
  by (simp add: mark_def arr_get_def)

lemma HasValidatorFlag_safe [simp]: "safeR (\<lambda>_. True) (HasValidatorFlag b i)"
  by (simp add: HasValidatorFlag_def)

lemma participation_step_safe:
  assumes "i < n" and "length vals = n"
  shows "safeR (\<lambda>vals'. length vals' = n) (current_participation_step cfg (i, b) vals)"
    and "safeR (\<lambda>vals'. length vals' = n) (previous_participation_step cfg (i, b) vals)"
proof -
  have m: "safeR (\<lambda>vals'. length vals' = n) (mark has i c u vals)" if "length vals = n" for has c u vals
    using mark_safe [of i vals has c u] assms(1) that by simp
  note b = safeR_bind [OF HasValidatorFlag_safe] and b' = safeR_bind [OF m]
  show "safeR (\<lambda>vals'. length vals' = n) (current_participation_step cfg (i, b) vals)"
    unfolding current_participation_step_def prod.case by (intro b b' m assms(2))
  show "safeR (\<lambda>vals'. length vals' = n) (previous_participation_step cfg (i, b) vals)"
    unfolding previous_participation_step_def prod.case by (intro b b' m assms(2))
qed

lemma participation_fold_safe:
  assumes "length bs = n" and "length vals = n"
    and "\<And>i b vals. i < n \<Longrightarrow> length vals = n \<Longrightarrow> safeR (\<lambda>vals'. length vals' = n) (f (i, b) vals)"
  shows "safeR (\<lambda>vals'. length vals' = n) (foldR f (enumerate 0 bs) vals)"
  using assms by (intro safeR_fold) (auto simp: in_set_enumerate_eq)

lemma UpdateBalance_active: "EffectiveBalanceIncrement (raw cfg) \<le> ActiveCurrentEpoch (UpdateBalance cfg vals bal)"
  by (simp add: UpdateBalance_def EnsureBalancesLowerBound_def Let_def not_less)

lemma ProcessEpochParticipation_safe:
  assumes "state_ok cfg n sl s" and "length vals = n"
  shows "safeR (\<lambda>(vals, bal). length vals = n \<and> EffectiveBalanceIncrement (raw cfg) \<le> ActiveCurrentEpoch bal)
    (ProcessEpochParticipation cfg s bal vals)"
  unfolding ProcessEpochParticipation_def
  by (intro safeR_bind [OF participation_fold_safe [where n = n]])
     (simp_all add: state_okD [OF assms(1)] assms(2) participation_step_safe UpdateBalance_active)

section \<open>Safety of justification, scores and rewards\<close>

lemma ProcessJustification_safe [safe_ops]:
  assumes "bv4_law bv" and "state_ok cfg n sl s"
  shows "safeR (state_ok cfg n sl) (ProcessJustificationAndFinalizationPreCompute cfg bv s bal)"
proof -
  obtain v where v: "b_justificationBits s = [v]"
    using state_okD(11) [OF assms(2)] by (auto simp: length_Suc_conv)
  obtain w where w: "processJustificationBits bv s (ActiveCurrentEpoch bal) (PrevEpochTargetAttested bal)
      (CurrentEpochTargetAttested bal) = [w]"
    using processJustificationBits_bits [OF assms(1) v] by blast
  have root: "safeR (\<lambda>_. True) (BlockRoot cfg s e)" for e
    unfolding BlockRoot_def by (rule safeR_bind [of "\<lambda>_. True"])
       (simp_all add: EpochStart_def Slot_SafeMul_def BlockRootAtSlot_def BlockRootAtIndex_def)
  have "safeR (\<lambda>_. True) (computeCheckpoints cfg bv s [w])"
    unfolding computeCheckpoints_def Let_def
    by (intro safeR_bind [of "\<lambda>_. True"])
       (use assms(1) root in \<open>auto simp: bv4_law_def arr_get_def intro!: safeR_bind [of "\<lambda>_. True"]\<close>)
  then have "safeR (state_ok cfg n sl) (weighJustificationAndFinalization cfg bv s [w])"
    unfolding weighJustificationAndFinalization_def
    by (rule safeR_bind) (auto simp: state_defs state_ok_lists(6) assms(2))
  then show ?thesis
    unfolding ProcessJustificationAndFinalizationPreCompute_def
    by (intro safeR_bind [of "\<lambda>_. True"]) (simp_all add: EpochStart_def Slot_SafeMul_def w assms(2))
qed

lemma inactivity_step_safe:
  assumes "i < n" and "length vals = n" and "length scores = n"
  shows "safeR (\<lambda>(vals, scores). length vals = n \<and> length scores = n) (inactivity_step cfg leak i (vals, scores))"
  using assms by (auto simp: inactivity_step_def Let_def new_score_def arr_set_def Add64_cases split: if_splits)

lemma ProcessInactivityScores_safe:
  assumes "state_ok cfg n sl s" and "length vals = n"
  shows "safeR (\<lambda>(s, vals). state_ok cfg n sl s \<and> length vals = n) (ProcessInactivityScores cfg s vals)"
proof -
  have fold: "safeR (\<lambda>(vals, scores). length vals = n \<and> length scores = n)
      (foldR (inactivity_step cfg leak) [0..<length vals] (vals, b_inactivityScores s))" for leak
    using assms by (intro safeR_fold) (auto simp: state_okD intro!: inactivity_step_safe)
  show ?thesis
    unfolding ProcessInactivityScores_def Let_def using assms
    by (auto simp: state_defs state_ok_lists intro!: safeR_bind [OF fold])
qed

lemma attestationDelta_safe [simp]:
  "safeR (\<lambda>_. True) (attestationDelta cfg bal v mult den leak)"
  unfolding attestationDelta_def Let_def
  by (auto intro!: safeR_bind [of "\<lambda>_. True"] simp: Mul64_cases)

text \<open>The cached square root is exact, and never the root 1 that makes Newton's iteration wrap.\<close>

definition sqrt_ok :: "sqrt_cache \<Rightarrow> bool" where
  "sqrt_ok sc \<longleftrightarrow> sqrt_cache_ok sc \<and> squareRoot sc \<noteq> 1"

lemma CachedSquareRoot_safe:
  assumes "sqrt_ok sc" and "4 \<le> balance"
  shows "\<exists>r sc'. CachedSquareRoot balance sc = Inr (r, sc') \<and> r \<noteq> 0 \<and> sqrt_ok sc'"
proof -
  have "balance \<noteq> 0"
    using assms(2) by auto
  then obtain r sc' where r: "CachedSquareRoot balance sc = Inr (r, sc')" "is_isqrt (unat r) (unat balance)" "r \<noteq> 0" "sqrt_cache_ok sc'"
    using CachedSquareRoot_isqrt [of sc balance] assms(1) unfolding sqrt_ok_def by metis
  have "4 \<le> unat balance"
    using assms(2) by (simp add: unat_le_u64)
  then have "unat r \<noteq> 1"
    using r(2) by (auto simp: is_isqrt_def)
  moreover have "squareRoot sc' = r \<or> sc' = sc"
    using r(1) by (auto simp: CachedSquareRoot_def bindR_eq_Inr split: if_splits)
  ultimately have "sqrt_ok sc'"
    using r(4) assms(1) by (auto simp: sqrt_ok_def)
  then show ?thesis
    using r by blast
qed

lemma reward_step_safe:
  "length balances = n \<Longrightarrow> length vals = n \<Longrightarrow>
     safeR (\<lambda>(balances, vals). length balances = n \<and> length vals = n) (reward_step ds i (balances, vals))"
  by (auto simp: reward_step_def apply_delta_def Let_def IncreaseBalanceWithVal_def intro!: safeR_bind [of "\<lambda>_. True"])

lemma ProcessRewards_safe:
  assumes "state_ok cfg n sl s" and "length vals = n" and "sqrt_ok sc" and "4 \<le> ActiveCurrentEpoch bal"
  shows "safeR (\<lambda>(s, vals, sc). state_ok cfg n sl s \<and> sqrt_ok sc) (ProcessRewardsAndPenaltiesPrecompute cfg sc s bal vals)"
proof -
  obtain r sc' where r: "CachedSquareRoot (ActiveCurrentEpoch bal) sc = Inr (r, sc')" "r \<noteq> 0" "sqrt_ok sc'"
    using CachedSquareRoot_safe [OF assms(3,4)] by blast
  have m: "safeR (\<lambda>_. True) (mapR (\<lambda>v. attestationDelta cfg bal v mult den leak) vals)" for mult den leak
    using safeR_map [of vals "\<lambda>_. True" "\<lambda>v. attestationDelta cfg bal v mult den leak"] by (auto elim: safeR_mono)
  have delta: "safeR (\<lambda>(_, sc). sqrt_ok sc) (AttestationsDelta cfg sc s bal vals)"
    unfolding AttestationsDelta_def Let_def using r by (auto intro!: safeR_bind [OF m])
  have fold: "safeR (\<lambda>(balances, vals). length balances = n \<and> length vals = n) (foldR (reward_step ds) [0..<n] (b_balances s, vals))" for ds
    using assms(1,2) by (intro safeR_fold) (auto simp: state_okD intro!: reward_step_safe)
  have wr: "safeR (\<lambda>(s, vals, sc). state_ok cfg n sl s \<and> sqrt_ok sc) (bindR (foldR (reward_step ds) [0..<n] (b_balances s, vals))
      (\<lambda>(balances, vals). bindR (wrapR msg (SetBalances s balances)) (\<lambda>s. Inr (s, vals, c))))" if "sqrt_ok c" for ds c msg
    by (rule safeR_bind [OF fold]) (simp add: state_defs state_ok_lists(2) [OF assms(1)] that split: prod.splits)
  have body: "safeR (\<lambda>(s, vals, sc). state_ok cfg n sl s \<and> sqrt_ok sc) (bindR (wrapR m1 (AttestationsDelta cfg sc s bal vals))
      (\<lambda>(ds, sc). bindR (foldR (reward_step ds) [0..<n] (b_balances s, vals))
      (\<lambda>(balances, vals). bindR (wrapR m2 (SetBalances s balances)) (\<lambda>s. Inr (s, vals, sc)))))" for m1 m2
    using delta by (intro safeR_bind2 [where P = "\<lambda>_. sqrt_ok"] wr) simp_all
  show ?thesis
    unfolding ProcessRewardsAndPenaltiesPrecompute_def Let_def state_okD(1,3) [OF assms(1)] using assms(1-3) body by simp
qed

section \<open>Safety of the registry, slashings and resets\<close>

lemma ActiveValidatorCount_safe [simp]: "safeR (\<lambda>_. True) (ActiveValidatorCount cfg hash s e)"
  unfolding ActiveValidatorCount_def Seed_def Let_def
  by (intro safeR_bind [of "\<lambda>_. True"]) (auto simp: activeValidatorIndices_eq RandaoMix_def RandaoMixAtIndex_def intro!: safeR_bind [of "\<lambda>_. True"])

lemma InitiateValidatorExit_safe [safe_ops]:
  assumes "state_ok cfg n sl s"
  shows "safeR (\<lambda>(s, _, _). state_ok cfg n sl s) (InitiateValidatorExit cfg hash s i q c)"
proof -
  have add: "safeR (\<lambda>_. True) (Epoch_SafeAdd a b)" "safeR (\<lambda>_. True) (Epoch_SafeAddEpoch a b)" for a b
    by (simp_all add: Epoch_SafeAdd_def Epoch_SafeAddEpoch_def)
  have upd: "safeR (\<lambda>(s, _, _). state_ok cfg n sl s) (bindR (UpdateValidatorAtIndex s i v) (\<lambda>s. Inr (s, e, False)))" for v e
    by (rule safeR_bind [OF UpdateValidatorAtIndex_safe [OF assms]]) simp
  show ?thesis
    unfolding InitiateValidatorExit_def Let_def
    by (auto simp: assms add split: prod.splits intro!: safeR_bind [of "\<lambda>_. True"] upd)
qed

lemma registry_step_safe:
  assumes "state_ok cfg n sl s"
  shows "safeR (\<lambda>(s, _). state_ok cfg n sl s) (registry_step cfg hash ce ee (i, v) (s, vals))"
proof -
  have first: "safeR (\<lambda>(v, s). state_ok cfg n sl s) (if IsEligibleForActivationQueue cfg v
      then let v = normalizeRandaoCommitment (v\<lparr>ActivationEligibilityEpoch := ee\<rparr>)
           in bindR (UpdateValidatorAtIndex s (of_nat i) v) (\<lambda>st. Inr (v, st)) else Inr (v, s))"
    using assms by (auto simp: Let_def intro!: safeR_bind [OF UpdateValidatorAtIndex_safe])
  have exit: "safeR (state_ok cfg n sl) (if IsActiveValidator v ce \<and> EffectiveBalance v \<le> EjectionBalance (raw cfg)
      then let (m, c) = ValidatorsMaxExitEpochAndChurn cfg s
           in bindR (wrapR msg (InitiateValidatorExit cfg hash s (of_nat i) m c)) (\<lambda>(st, _, _). Inr st) else Inr s)"
    if "state_ok cfg n sl s" for v s msg
    using that by (auto simp: Let_def split: prod.splits intro!: safeR_bind [of "\<lambda>(s, _, _). state_ok cfg n sl s"] InitiateValidatorExit_safe)
  show ?thesis
    unfolding registry_step_def prod.case
    by (rule safeR_bind [OF first]) (auto intro!: safeR_bind [OF exit])
qed

lemma ProcessRegistryUpdates_safe [safe_ops]:
  assumes "state_ok cfg n sl s"
  shows "safeR (state_ok cfg n sl) (ProcessRegistryUpdates cfg hash s)"
proof -
  have walk: "safeR (\<lambda>(s, _). state_ok cfg n sl s) (foldR (registry_step cfg hash ce ee) (enumerate 0 (b_validators s)) (s, []))" for ce ee
    by (rule safeR_fold) (auto simp: assms intro!: registry_step_safe)
  have act: "safeR (state_ok cfg n sl) (foldR (activate e) is t)" if "state_ok cfg n sl t" for e "is" t
    by (rule safeR_fold)
       (auto simp: that activate_def intro!: safeR_bind [OF ValidatorAtIndex_safe] UpdateValidatorAtIndex_safe)
  have cap: "safeR (\<lambda>_. True) (MaxActiveValidators (raw cfg))"
    using raw_arith(11) [of cfg] by auto
  have count: "safeR (\<lambda>_. True) (activeValidatorCountAtEpoch t e)" for t e
    unfolding activeValidatorCountAtEpoch_def ReadFromEveryValidator_def by (rule safeR_fold) auto
  show ?thesis
    unfolding ProcessRegistryUpdates_def Let_def
    by (rule safeR_bind2 [OF walk]) (intro safeR_bind [of "\<lambda>_. True"]; simp add: cap count act)
qed

lemma TotalActiveBalance_safe:
  assumes "state_ok cfg n sl s"
  shows "safeR (\<lambda>t. t \<noteq> 0) (TotalActiveBalance cfg s)"
proof -
  obtain k where k: "balanceCacheKey cfg s = Inr k"
    using balanceCacheKey_total [of cfg s] state_okD(7) [OF assms] by auto
  have "safeR (\<lambda>_. True) (sum_active s e)" for e
    unfolding sum_active_def ReadFromEveryValidator_def by (rule safeR_fold) auto
  then have "safeR (\<lambda>_. True) (TotalActiveBalance cfg s)"
    unfolding TotalActiveBalance_def k by (auto intro!: safeR_bind [of "\<lambda>_. True"])
  then show ?thesis
    using TotalActiveBalance_pos by (auto simp: safeR_def split: sum.splits)
qed

lemma ProcessSlashings_safe [safe_ops]:
  assumes "state_ok cfg n sl s"
  shows "safeR (state_ok cfg n sl) (ProcessSlashings cfg s m)"
proof -
  have sums: "safeR (\<lambda>_. True) (foldR (\<lambda>slashing tot. Add64 tot slashing) xs a)" for xs a
    by (rule safeR_fold) auto
  have cb: "safeR (\<lambda>(_, _, s). state_ok cfg n sl s) (slashing_callback cfg e t ms i v u)"
    if "t \<noteq> 0" "ms \<le> t" "i < n" "state_ok cfg n sl u" for e t ms i v u
    using slashing_callback_exact(2) [OF that(1,2), of i u cfg e v] that(3,4) state_okD(3,13) [OF that(4)]
    by (simp add: state_ok_lists state_okD)
  have tot: "safeR (\<lambda>t. t \<noteq> 0) (wrapR msg (TotalActiveBalance cfg s))" for msg
    using TotalActiveBalance_safe [OF assms] by simp
  show ?thesis
    unfolding ProcessSlashings_def Let_def
  proof (rule safeR_bind [OF tot], rule safeR_bind [OF sums])
    fix t x :: u64 assume "t \<noteq> 0"
    moreover have "(case Mul64 x m of Inl _ \<Rightarrow> t | Inr adjusted \<Rightarrow> min adjusted t) \<le> t"
      by (simp split: sum.splits)
    ultimately show "safeR (state_ok cfg n sl) (ApplyToEveryValidator s (slashing_callback cfg (CurrentEpoch cfg s) t
        (case Mul64 x m of Inl _ \<Rightarrow> t | Inr adjusted \<Rightarrow> min adjusted t)))"
      by (intro ApplyToEveryValidator_safe [OF assms] cb)
  qed
qed

lemma ProcessEffectiveBalanceUpdates_safe [safe_ops]:
  "state_ok cfg n sl s \<Longrightarrow> safeR (state_ok cfg n sl) (ProcessEffectiveBalanceUpdates cfg s)"
  unfolding ProcessEffectiveBalanceUpdates_def
  by (rule ApplyToEveryValidator_safe) (auto simp: effective_balance_callback_def Let_def)

lemma resets_safe [safe_ops]:
  assumes "state_ok cfg n sl s"
  shows "safeR (state_ok cfg n sl) (ProcessExecutionDataReset cfg s)"
    and "safeR (state_ok cfg n sl) (ProcessSlashingsReset cfg s)"
    and "safeR (state_ok cfg n sl) (ProcessParticipationFlagUpdates s)"
  using assms
  by (simp_all add: ProcessExecutionDataReset_def ProcessSlashingsReset_def ProcessParticipationFlagUpdates_def Let_def state_defs
      state_ok_lists state_okD)

lemma ProcessRandaoMixesReset_safe [safe_ops]:
  assumes "state_ok cfg n sl s"
  shows "safeR (state_ok cfg n sl) (ProcessRandaoMixesReset cfg s)"
proof -
  have mixes: "\<forall>m \<in> set (b_randaoMixes s). length m = 32"
    using assms by (simp add: state_ok_def)
  have mix: "safeR (\<lambda>mix. length mix = 32) (RandaoMix cfg s e)" for e
    using mixes by (simp add: RandaoMix_def RandaoMixAtIndex_def)
  have "state_ok cfg n sl (s\<lparr>b_randaoMixes := (b_randaoMixes s)[i := m]\<rparr>)" if "length m = 32" for i m
    using mixes that set_update_subset_insert [of "b_randaoMixes s" i m] by (intro state_ok_lists(8) [OF assms]) auto
  then show ?thesis
    unfolding ProcessRandaoMixesReset_def Let_def
    by (auto intro!: safeR_bind [OF mix] simp: UpdateRandaoMixesAtIndex_def)
qed

text \<open>What the transition needs of the configuration beyond its validation.\<close>

definition epoch_config :: "config \<Rightarrow> bool" where
  "epoch_config cfg \<longleftrightarrow> SlotsPerEpoch (raw cfg) \<le> SlotsPerHistoricalRoot (raw cfg)
     \<and> SlotsPerHistoricalRoot (raw cfg) \<le> fp_BlockRootsLength \<and> 4 \<le> EffectiveBalanceIncrement (raw cfg)"

lemma ProcessHistoricalDataUpdate_safe:
  assumes "state_ok cfg n sl s" and "epoch_config cfg" and "\<And>xs. even (length xs) \<Longrightarrow> vec xs = Inr (hash_pairs hash xs)"
  shows "safeR (state_ok cfg n sl) (ProcessHistoricalDataUpdate cfg vec s)"
proof -
  have root: "safeR (\<lambda>_. True) (ArraysRoot vec xs 1024)" if "length xs = unat (SlotsPerHistoricalRoot (raw cfg))" for xs
  proof -
    have "unat (SlotsPerHistoricalRoot (raw cfg)) \<le> 1024"
      using assms(2) by (simp add: epoch_config_def fp_BlockRootsLength_def unat_le_u64)
    then show ?thesis
      using ArraysRoot_root [of vec hash 1024 10 xs, OF assms(3)] that by simp
  qed
  let ?q = "SlotsPerHistoricalRoot (raw cfg) div SlotsPerEpoch (raw cfg)"
  have q: "?q \<noteq> 0"
    using assms(2) config_unat_pos(1) [of cfg] by (simp add: epoch_config_def unat_eq_u64 unat_div_u64 unat_le_u64 div_eq_0_iff)
  have "safeR (state_ok cfg n sl) (bindR (ArraysRoot vec (b_blockRoots s) fp_BlockRootsLength) (\<lambda>br.
      bindR (ArraysRoot vec (b_stateRoots s) fp_StateRootsLength) (\<lambda>sr.
      AppendHistoricalSummaries s \<lparr>BlockSummaryRoot = br, StateSummaryRoot = sr\<rparr>)))"
    using root state_okD(7,8) [OF assms(1)] assms(1)
    by (auto intro!: safeR_bind [of "\<lambda>_. True"] simp: fp_BlockRootsLength_def fp_StateRootsLength_def AppendHistoricalSummaries_def)
  then show ?thesis
    using q assms(1) by (simp add: ProcessHistoricalDataUpdate_def Let_def Slot_DivSlot_def Slot_Div_def Slot_SafeDiv_def
        Epoch_Mod_def Epoch_SafeMod_def Div64_cases Mod64_cases)
qed

section \<open>Safety of the sync committee update\<close>

lemma sync_loop_safe:
  assumes "sync_loop cfg hash s act seed i acc = Some r" and "\<forall>i. \<exists>c. sync_step cfg hash s act seed i = Inr c"
  shows "\<exists>xs. r = Inr xs"
  using assms
proof (induction rule: sync_loop.raw_induct [rotated, consumes 1, case_names step])
  case (step rec cfg hash s act seed i acc r)
  obtain c where "sync_step cfg hash s act seed i = Inr c"
    using step.prems by blast
  then show ?case
    using step by (auto split: if_splits)
qed

lemma ActiveValidatorIndices_set:
  assumes "ActiveValidatorIndices cfg hash s e = Inr act"
  shows "act = active_set s e" "0 < length act"
  using assms by (auto simp: ActiveValidatorIndices_def activeValidatorIndices_eq active_set_def bindR_eq_Inr split: if_splits)

lemma NextSyncCommittee_safe:
  assumes "state_ok cfg n sl s" and "NextSyncCommittee cfg hash s = Some r"
  shows "safeR (\<lambda>_. True) r"
proof (cases "ActiveValidatorIndices cfg hash s (NextEpoch cfg s)")
  case (Inl e)
  have "safeR (\<lambda>_. True) (ActiveValidatorIndices cfg hash s (NextEpoch cfg s))"
    unfolding ActiveValidatorIndices_def Seed_def Let_def
    by (auto simp: activeValidatorIndices_eq RandaoMix_def RandaoMixAtIndex_def intro!: safeR_bind [of "\<lambda>_. True"])
  then show ?thesis
    using Inl assms(2) by (cases e) (auto simp: NextSyncCommittee_def NextSyncCommitteeIndices_def Let_def)
next
  case (Inr act)
  note act = ActiveValidatorIndices_set [OF Inr]
  have "\<forall>k \<in> set act. unat k < NumValidators s"
    using active_set_iff state_okD(1,13) [OF assms(1)] act(1) by simp
  moreover have "length act \<le> unat maxShuffleListSize"
    using length_active_set [of s "NextEpoch cfg s"] state_okD(1,12) [OF assms(1)] act(1) by (simp add: maxShuffleListSize_def)
  ultimately have step: "\<forall>i. \<exists>c. sync_step cfg hash s act seed i = Inr c" for seed
    using sync_step_member [OF act(2)] by blast
  show ?thesis
  proof (cases "Seed cfg hash s (NextEpoch cfg s) (DomainSyncCommittee (raw cfg))")
    case (Inl e)
    have "safeR (\<lambda>_. True) (Seed cfg hash s (NextEpoch cfg s) (DomainSyncCommittee (raw cfg)))"
      unfolding Seed_def Let_def by (auto simp: RandaoMix_def RandaoMixAtIndex_def intro!: safeR_bind [of "\<lambda>_. True"])
    then show ?thesis
      using Inl Inr assms(2) by (cases e) (auto simp: NextSyncCommittee_def NextSyncCommitteeIndices_def Let_def)
  next
    case (Inr seed)
    then obtain q where "sync_loop cfg hash s act seed 0 [] = Some q" "r = bindR q (\<lambda>is. Inr \<lparr>Pubkeys = map (PubkeyAtIndex s) is\<rparr>)"
      using assms(2) \<open>ActiveValidatorIndices cfg hash s (NextEpoch cfg s) = Inr act\<close>
      by (auto simp: NextSyncCommittee_def NextSyncCommitteeIndices_def Let_def)
    then show ?thesis
      using sync_loop_safe [OF _ step] by fastforce
  qed
qed

lemma ProcessSyncCommitteeUpdates_safe:
  assumes "state_ok cfg n sl s" and "ProcessSyncCommitteeUpdates cfg hash s = Some r"
  shows "safeR (state_ok cfg n sl) r"
proof (cases "NextEpoch cfg s mod EpochsPerSyncCommitteePeriod (raw cfg) = 0")
  case True
  let ?t = "s\<lparr>b_currentSyncCommittee := b_nextSyncCommittee s\<rparr>"
  obtain q where q: "NextSyncCommittee cfg hash ?t = Some q" "r = bindR q (SetNextSyncCommittee ?t)"
    using True assms(2) by (auto simp: ProcessSyncCommitteeUpdates_def SetCurrentSyncCommittee_def)
  have "safeR (\<lambda>_. True) q"
    using NextSyncCommittee_safe [OF _ q(1)] assms(1) by simp
  then show ?thesis
    unfolding q(2) by (rule safeR_bind) (simp add: SetNextSyncCommittee_def assms(1))
qed (use assms in \<open>auto simp: ProcessSyncCommitteeUpdates_def\<close>)

section \<open>Properties\<close>

text \<open>C15: The epoch transition is type safe: from a well-formed state (one balance, score and pair of
  participation bytes per validator, full root, mix and slashing vectors, 32-byte mixes) and an
  exact square root cache it never panics: whenever it returns, it returns an error or a well-formed
  state of the same slot and number of validators, with an exact cache.\<close>

theorem ProcessEpoch_type_safe:
  assumes "state_ok cfg n sl s" and "sqrt_ok sc" and "epoch_config cfg" and "bv4_law bv"
    and "\<And>xs. even (length xs) \<Longrightarrow> vec xs = Inr (hash_pairs hash' xs)"
    and "ProcessEpoch cfg hash bv vec sc (Some s) = Some r"
  shows "(\<exists>msg. r = Inl (Err msg)) \<or> (\<exists>t sc'. r = Inr (t, sc') \<and> state_ok cfg n sl t \<and> sqrt_ok sc')"
proof -
  note bs = safeR_bind [where P = "state_ok cfg n sl"] and ops = safe_ops
  have active: "4 \<le> x" if "EffectiveBalanceIncrement (raw cfg) \<le> x" for x
    using that assms(3) by (auto simp: epoch_config_def intro: order_trans)
  have tail: "safeR (\<lambda>(t, sc). state_ok cfg n sl t \<and> sqrt_ok sc)
     (bindR (wrapR msg (ProcessRegistryUpdates cfg hash s)) (\<lambda>s.
      bindR (ProcessSlashings cfg s (ProportionalSlashingMultiplier (raw cfg))) (\<lambda>s.
      bindR (ProcessExecutionDataReset cfg s) (\<lambda>s.
      bindR (ProcessEffectiveBalanceUpdates cfg s) (\<lambda>s.
      bindR (ProcessSlashingsReset cfg s) (\<lambda>s.
      bindR (ProcessRandaoMixesReset cfg s) (\<lambda>s.
      bindR (ProcessHistoricalDataUpdate cfg vec s) (\<lambda>s.
      bindR (ProcessParticipationFlagUpdates s) (\<lambda>s. Inr (s, sc))))))))))"
    if "state_ok cfg n sl s" "sqrt_ok sc" for s sc msg
    using that by (intro bs ops ProcessHistoricalDataUpdate_safe [OF _ assms(3,5)]) (simp_all add: ops)
  have just: "safeR (state_ok cfg n sl) (wrapR msg (ProcessJustificationAndFinalizationPreCompute cfg bv s bp))" for msg bp
    using ProcessJustification_safe [OF assms(4,1)] by simp
  have inact: "safeR (\<lambda>(s, vp). state_ok cfg n sl s \<and> length vp = n) (wrapR msg (ProcessInactivityScores cfg s vp))"
    if "state_ok cfg n sl s" "length vp = n" for msg s vp
    using ProcessInactivityScores_safe [OF that] by simp
  have reward: "safeR (\<lambda>(s, vp, sc). state_ok cfg n sl s \<and> sqrt_ok sc) (wrapR msg (ProcessRewardsAndPenaltiesPrecompute cfg sc s bp vp))"
    if "state_ok cfg n sl s" "length vp = n" "EffectiveBalanceIncrement (raw cfg) \<le> ActiveCurrentEpoch bp" for msg s vp bp
    using ProcessRewards_safe [OF that(1,2) assms(2) active [OF that(3)]] by simp
  have steps: "safeR (\<lambda>(t, sc). state_ok cfg n sl t \<and> sqrt_ok sc) (epoch_steps cfg hash bv vec sc s)"
    unfolding epoch_steps_def
    by (rule safeR_bind2 [OF InitializePrecomputeValidators_safe [OF assms(1)]],
        rule safeR_bind2 [OF ProcessEpochParticipation_safe [OF assms(1)]], assumption, erule conjE,
        rule safeR_bind [OF just], rule safeR_bind2 [OF inact], assumption, assumption, erule conjE,
        rule safeR_bind3 [OF reward], assumption, assumption, assumption, erule conjE, rule tail)
  show ?thesis
  proof (cases "epoch_steps cfg hash bv vec sc s")
    case (Inl e)
    then have "r = Inl e"
      using assms(6) by (simp add: ProcessEpoch_def)
    then show ?thesis
      using steps Inl by (cases e) simp_all
  next
    case (Inr q)
    then obtain t c where t: "epoch_steps cfg hash bv vec sc s = Inr (t, c)" "state_ok cfg n sl t" "sqrt_ok c"
      using steps by (cases q) auto
    then obtain u where u: "ProcessSyncCommitteeUpdates cfg hash t = Some u" "r = bindR u (\<lambda>s. Inr (s, c))"
      using assms(6) by (auto simp: ProcessEpoch_def)
    from ProcessSyncCommitteeUpdates_safe [OF t(2) u(1)] show ?thesis
      using t(3) u(2) by (cases u) (auto simp: safeR_def split: fail.splits)
  qed
qed

text \<open>One validator at the end of the genesis epoch.\<close>

definition genesis_end :: BeaconState where
  "genesis_end = zero_state\<lparr>b_slot := 3, b_blockRoots := replicate 8 (replicate 32 0), b_stateRoots := replicate 8 (replicate 32 0),
     b_validators := [zero_validator\<lparr>EffectiveBalance := 40000000000000, ExitEpoch := max_u64\<rparr>], b_balances := [40000000000000],
     b_randaoMixes := [replicate 32 0, replicate 32 0, replicate 32 0, replicate 32 0], b_slashings := [0, 0, 0, 0],
     b_previousEpochParticipation := [0], b_currentEpochParticipation := [7], b_inactivityScores := [0]\<rparr>"

lemma genesis_end_epoch: "CurrentEpoch tiny genesis_end = 0" "PrevEpoch tiny genesis_end = 0" "NextEpoch tiny genesis_end = 1"
  by (simp_all add: CurrentEpoch_def PrevEpoch_def NextEpoch_def ToEpoch_def genesis_end_def small_defs)

lemma genesis_end_ok: "state_ok tiny 1 3 genesis_end"
  by (simp add: shape_defs genesis_end_def zero_state_def small_defs maxShuffleListSize_def)

lemma genesis_end_precompute: "\<exists>vp bp. InitializePrecomputeValidators tiny genesis_end = Inr (vp, bp) \<and> length vp = 1"
  by (simp add: InitializePrecomputeValidators_def ReadFromEveryValidator_def genesis_end_epoch NumValidators_def)
     (simp add: genesis_end_def zero_validator_def precompute_step_def arr_get_def Let_def IsActiveValidator_def
      checkValidatorActiveStatus_def Add64_cases zero_balance_def)

lemma genesis_end_participation:
  assumes "length vp = 1"
  shows "\<exists>vp' bp'. ProcessEpochParticipation tiny genesis_end bp vp = Inr (vp', bp')"
  using assms
  by (auto simp: ProcessEpochParticipation_def genesis_end_def current_participation_step_def previous_participation_step_def
      HasValidatorFlag_def mark_def arr_get_def small_defs)

lemma genesis_end_skipped:
  "ProcessJustificationAndFinalizationPreCompute tiny bv genesis_end bal = Inr genesis_end"
  "ProcessInactivityScores tiny genesis_end vp = Inr (genesis_end, vp)"
  "ProcessRewardsAndPenaltiesPrecompute tiny sc genesis_end bal vp = Inr (genesis_end, vp, sc)"
  by (simp_all add: ProcessJustificationAndFinalizationPreCompute_def ProcessInactivityScores_def
      ProcessRewardsAndPenaltiesPrecompute_def genesis_end_epoch EpochStart_def Slot_SafeMul_def Mul64_cases)
     (simp_all add: genesis_end_def small_defs)

lemma genesis_end_count: "ActiveValidatorCount tiny (\<lambda>_. replicate 32 3) genesis_end 0 = Inr 1"
  by (simp add: ActiveValidatorCount_def activeValidatorIndices_eq Seed_def RandaoMix_def RandaoMixAtIndex_def genesis_end_def small_defs
      IsActiveValidator_def checkValidatorActiveStatus_def)

lemma genesis_end_registry: "ProcessRegistryUpdates tiny (\<lambda>_. replicate 32 3) genesis_end = Inr genesis_end"
proof -
  have v: "b_validators genesis_end = [zero_validator\<lparr>EffectiveBalance := 40000000000000, ExitEpoch := max_u64\<rparr>]"
    by (simp add: genesis_end_def)
  have step: "registry_step tiny h 0 1 (0, b_validators genesis_end ! 0) (genesis_end, []) = Inr (genesis_end, b_validators genesis_end)" for h
    by (simp add: registry_step_def v IsEligibleForActivationQueue_def isEligibileForActivationQueue_def small_defs)
  have queue: "activation_queue tiny genesis_end (b_validators genesis_end) = []"
    by (simp add: activation_queue_def v IsEligibleForActivation_def isEligibleForActivation_def small_defs)
  have count: "activeValidatorCountAtEpoch genesis_end e = Inr c" if "c = (if e < max_u64 then 1 else 0)" for e c
    using that by (simp add: activeValidatorCountAtEpoch_def ReadFromEveryValidator_def v IsActiveValidator_def
        checkValidatorActiveStatus_def small_defs)
  obtain cap where cap: "MaxActiveValidators (raw tiny) = Inr cap"
    using raw_arith(11) [of tiny] by blast
  show ?thesis
    unfolding ProcessRegistryUpdates_def Let_def
    using cap by (simp add: genesis_end_epoch v step [unfolded v, simplified] queue [unfolded v] genesis_end_count count)
qed

lemma genesis_end_slashings: "ProcessSlashings tiny genesis_end m = Inr genesis_end"
proof -
  have v: "b_validators genesis_end = [zero_validator\<lparr>EffectiveBalance := 40000000000000, ExitEpoch := max_u64\<rparr>]"
    by (simp add: genesis_end_def)
  have "safeR (\<lambda>t. t \<noteq> 0) (TotalActiveBalance tiny genesis_end)"
    by (rule TotalActiveBalance_safe [OF genesis_end_ok])
  moreover have "sum_active genesis_end 0 = Inr 40000000000000"
    by (simp add: sum_active_def ReadFromEveryValidator_def v IsActiveValidator_def checkValidatorActiveStatus_def zero_validator_def Add64_cases)
  moreover obtain k where "balanceCacheKey tiny genesis_end = Inr k"
    using balanceCacheKey_total [of tiny genesis_end] state_okD(7) [OF genesis_end_ok] by auto
  moreover have "ToEpoch tiny (b_slot genesis_end) = 0"
    using genesis_end_epoch by (simp add: CurrentEpoch_def)
  ultimately obtain t where "TotalActiveBalance tiny genesis_end = Inr t"
    by (simp add: TotalActiveBalance_def)
  moreover have "ApplyToEveryValidator genesis_end (slashing_callback tiny 0 t x) = Inr genesis_end" for t x
    by (simp add: ApplyToEveryValidator_def NumValidators_def v ValidatorAtIndex_def slashing_callback_def zero_validator_def)
  moreover have "b_slashings genesis_end = [0, 0, 0, 0]"
    by (simp add: genesis_end_def)
  ultimately show ?thesis
    by (simp add: ProcessSlashings_def genesis_end_epoch Add64_cases)
qed

lemma genesis_end_effective: "ProcessEffectiveBalanceUpdates tiny genesis_end = Inr genesis_end"
  by (simp add: ProcessEffectiveBalanceUpdates_def ApplyToEveryValidator_def NumValidators_def ValidatorAtIndex_def
      effective_balance_callback_def genesis_end_def small_defs)

lemma genesis_end_resets:
  "ProcessExecutionDataReset tiny genesis_end = Inr genesis_end"
  "ProcessSlashingsReset tiny genesis_end = Inr genesis_end"
  "ProcessRandaoMixesReset tiny genesis_end = Inr genesis_end"
  "ProcessHistoricalDataUpdate tiny vec genesis_end = Inr genesis_end"
  by (simp_all add: ProcessExecutionDataReset_def ProcessSlashingsReset_def ProcessRandaoMixesReset_def ProcessHistoricalDataUpdate_def
      genesis_end_epoch RandaoMix_def state_defs Slot_DivSlot_def Slot_Div_def Slot_SafeDiv_def Div64_cases Epoch_Mod_def
      Epoch_SafeMod_def Mod64_cases)
     (simp_all add: genesis_end_def zero_state_def small_defs RandaoMix_def state_defs)

theorem ProcessEpoch_type_safe_witness:
  "\<exists>t sc. ProcessEpoch tiny (\<lambda>_. replicate 32 3) std_bv4 (\<lambda>xs. Inr (hash_pairs (\<lambda>_. []) xs)) cachedSquareRoot_init (Some genesis_end)
      = Some (Inr (t, sc)) \<and> state_ok tiny 1 3 t"
proof -
  let ?vec = "\<lambda>xs. Inr (hash_pairs (\<lambda>_. []) xs)" and ?h = "\<lambda>_ :: bytes. replicate 32 (3 :: u8)"
  let ?t = "genesis_end\<lparr>b_previousEpochParticipation := [7], b_currentEpochParticipation := [0]\<rparr>"
  obtain vp bp vp' bp' where p: "InitializePrecomputeValidators tiny genesis_end = Inr (vp, bp)" "length vp = 1"
      "ProcessEpochParticipation tiny genesis_end bp vp = Inr (vp', bp')"
    using genesis_end_precompute genesis_end_participation by blast
  have flags: "ProcessParticipationFlagUpdates genesis_end = Inr ?t"
    by (simp add: ProcessParticipationFlagUpdates_def state_defs) (simp add: genesis_end_def)
  have "NextEpoch tiny ?t = 1"
    using genesis_end_epoch by (simp add: NextEpoch_def)
  then have sync: "ProcessSyncCommitteeUpdates tiny ?h ?t = Some (Inr ?t)"
    by (simp add: ProcessSyncCommitteeUpdates_def small_defs)
  have run: "ProcessEpoch tiny ?h std_bv4 ?vec cachedSquareRoot_init (Some genesis_end) = Some (Inr (?t, cachedSquareRoot_init))"
    by (simp add: ProcessEpoch_def epoch_steps_def p genesis_end_skipped genesis_end_registry genesis_end_slashings genesis_end_effective
        genesis_end_resets flags sync)
  have "sqrt_ok cachedSquareRoot_init" "epoch_config tiny"
    using cachedSquareRoot_init_ok by (simp_all add: sqrt_ok_def cachedSquareRoot_init_def epoch_config_def small_defs fp_BlockRootsLength_def)
  from ProcessEpoch_type_safe [OF genesis_end_ok this std_bv4_law _ run] run show ?thesis
    by auto
qed

end
