(* ===== verification/Slice_Utils.thy ===== *)
theory Slice_Utils
  imports Primitives_Types "HOL-Library.Multiset"
begin

text \<open>
  Set operations on slices (\<open>container/slice/slice.go\<close>). The Go functions keep their bookkeeping in a
  map; here it is a map from elements to counts or a set-valued predicate, passed through the loops. The
  variadic functions take the list of their arguments. The \<open>uint64\<close>, \<open>int64\<close> and \<open>Slot\<close>
  variants have the same text, so that they are instances of one polymorphic definition.
\<close>

section \<open>The loops\<close>

definition subset_step :: "'a \<Rightarrow> ('a \<rightharpoonup> nat) \<Rightarrow> ('a \<rightharpoonup> nat) option" where
  "subset_step v m = (case m v of None \<Rightarrow> None | Some n \<Rightarrow> if n < 1 then None else Some (m(v \<mapsto> n - 1)))"

fun subset_loop :: "'a list \<Rightarrow> ('a \<rightharpoonup> nat) \<Rightarrow> bool" where
  "subset_loop [] m = True"
| "subset_loop (v # a) m = (case subset_step v m of None \<Rightarrow> False | Some m' \<Rightarrow> subset_loop a m')"

definition count_up :: "'a \<Rightarrow> ('a \<rightharpoonup> nat) \<Rightarrow> ('a \<rightharpoonup> nat)" where
  "count_up v m = m(v \<mapsto> (case m v of None \<Rightarrow> 0 | Some n \<Rightarrow> n) + 1)"

definition SubsetUint64 :: "'a list \<Rightarrow> 'a list \<Rightarrow> bool" where
  "SubsetUint64 a b = (if length a > length b then False else subset_loop a (fold count_up b Map.empty))"

text \<open>One element of argument \<open>i\<close> of an intersection of \<open>num\<close> arguments.\<close>

definition intersect_step :: "nat \<Rightarrow> nat \<Rightarrow> 'a \<Rightarrow> ('a \<rightharpoonup> nat) \<times> 'a list \<Rightarrow> ('a \<rightharpoonup> nat) \<times> 'a list" where
  "intersect_step num i k st =
     (let (m, acc) = st
      in if m k = Some i
         then (m(k \<mapsto> i + 1), if i + 1 = num then acc @ [k] else acc)
         else (m, acc))"

definition IntersectionUint64 :: "'a list list \<Rightarrow> 'a list" where
  "IntersectionUint64 s =
     (if length s = 0 then []
      else if length s = 1 then s ! 0
      else snd (fold (\<lambda>i st. fold (intersect_step (length s) i) (s ! i) st) [1..<length s]
                  (fold (\<lambda>k m. m(k \<mapsto> 1)) (s ! 0) Map.empty, [])))"

definition union_step :: "'a list list \<Rightarrow> nat \<Rightarrow> 'a set \<times> 'a list \<Rightarrow> 'a set \<times> 'a list" where
  "union_step s i st =
     (let (m, acc) = st;
          m = m \<union> set (s ! (i - 1))
      in (m, acc @ filter (\<lambda>x. x \<notin> m) (s ! i)))"

definition UnionUint64 :: "'a list list \<Rightarrow> 'a list" where
  "UnionUint64 s =
     (if length s = 0 then []
      else if length s = 1 then s ! 0
      else snd (fold (union_step s) [1..<length s] ({}, s ! 0)))"

fun set_loop :: "'a list \<Rightarrow> 'a set \<Rightarrow> 'a list \<Rightarrow> 'a list" where
  "set_loop [] m acc = acc"
| "set_loop (x # a) m acc = (if x \<in> m then set_loop a m acc else set_loop a (insert x m) (acc @ [x]))"

definition SetUint64 :: "'a list \<Rightarrow> 'a list" where
  "SetUint64 a = set_loop a {} []"

fun IsUint64Sorted :: "u64 list \<Rightarrow> bool" where
  "IsUint64Sorted [] = True"
| "IsUint64Sorted [x] = True"
| "IsUint64Sorted (x # y # a) = (if x > y then False else IsUint64Sorted (y # a))"

definition NotUint64 :: "'a list \<Rightarrow> 'a list \<Rightarrow> 'a list" where
  "NotUint64 a b = filter (\<lambda>x. x \<notin> set a) b"

definition Unique :: "'a list \<Rightarrow> 'a list" where
  "Unique a = (if length a \<le> 1 then a else set_loop a {} [])"

section \<open>What they compute\<close>

lemma set_loop_spec:
  "set (set_loop a m acc) = set acc \<union> (set a - m)"
  "distinct acc \<Longrightarrow> set acc \<inter> (set a - m) = {} \<Longrightarrow> distinct (set_loop a m acc)"
  by (induction a m acc rule: set_loop.induct) auto

lemma SetUint64_spec: "set (SetUint64 a) = set a" "distinct (SetUint64 a)"
  by (simp_all add: SetUint64_def set_loop_spec)

lemma Unique_spec: "set (Unique a) = set a" "distinct (Unique a)"
  by (cases a; auto simp: Unique_def set_loop_spec)+

lemma IsUint64Sorted_iff: "IsUint64Sorted a \<longleftrightarrow> sorted a"
  by (induction a rule: IsUint64Sorted.induct) (auto simp: not_less intro: order_trans)

lemma union_step_set:
  assumes "0 < i"
  shows "set (snd (union_step s i (m, acc))) \<union> (m \<union> set (s ! (i - 1))) = set acc \<union> m \<union> set (s ! (i - 1)) \<union> set (s ! i)"
  by (auto simp: union_step_def Let_def)

text \<open>The counters of a multiset: \<open>SubsetUint64\<close> is multiset inclusion.\<close>

definition counter :: "('a \<rightharpoonup> nat) \<Rightarrow> 'a \<Rightarrow> nat" where
  "counter m v = (case m v of None \<Rightarrow> 0 | Some n \<Rightarrow> n)"

lemma counter_count_up: "counter (fold count_up b m) v = counter m v + count (mset b) v"
  by (induction b arbitrary: m) (auto simp: counter_def count_up_def split: option.splits)

lemma subset_loop_iff: "subset_loop a m \<longleftrightarrow> (\<forall>v. count (mset a) v \<le> counter m v)"
proof (induction a arbitrary: m)
  case Nil
  then show ?case by simp
next
  case (Cons x a)
  show ?case
  proof (cases "counter m x = 0")
    case True
    then have "subset_step x m = None"
      by (auto simp: subset_step_def counter_def split: option.splits)
    moreover have "count (mset (x # a)) x > counter m x"
      using True by simp
    ultimately show ?thesis
      by (auto simp: not_le intro!: exI [of _ x])
  next
    case False
    then obtain n where n: "m x = Some n" "0 < n"
      by (auto simp: counter_def split: option.splits)
    then have step: "subset_step x m = Some (m(x \<mapsto> n - 1))"
      by (simp add: subset_step_def)
    have "count (mset (x # a)) v \<le> counter m v \<longleftrightarrow> count (mset a) v \<le> counter (m(x \<mapsto> n - 1)) v" for v
      using n by (auto simp: counter_def)
    then show ?thesis
      unfolding subset_loop.simps step option.case Cons.IH by blast
  qed
qed

lemma SubsetUint64_iff: "SubsetUint64 a b \<longleftrightarrow> mset a \<subseteq># mset b"
proof -
  have "mset a \<subseteq># mset b \<Longrightarrow> length a \<le> length b"
    by (metis size_mset size_mset_mono)
  moreover have "subset_loop a (fold count_up b Map.empty) \<longleftrightarrow> mset a \<subseteq># mset b"
    by (simp add: subset_loop_iff counter_count_up subseteq_mset_def) (simp add: counter_def)
  ultimately show ?thesis
    by (auto simp: SubsetUint64_def)
qed

text \<open>The intersection of two slices, as the slashing code uses it.\<close>

lemma fold_put_one: "fold (\<lambda>k m. m(k \<mapsto> (1 :: nat))) a m = (\<lambda>k. if k \<in> set a then Some 1 else m k)"
  by (induction a arbitrary: m) (auto simp: fun_eq_iff)

lemma intersect_two_loop:
  assumes "\<And>k. m k = Some 1 \<longleftrightarrow> k \<in> A - set acc" and "distinct acc" and "set acc \<subseteq> A"
  shows "set (snd (fold (intersect_step 2 1) b (m, acc))) = set acc \<union> (A \<inter> set b) \<and>
         distinct (snd (fold (intersect_step 2 1) b (m, acc)))"
  using assms
proof (induction b arbitrary: m acc)
  case Nil
  then show ?case by simp
next
  case (Cons k b)
  show ?case
  proof (cases "m k = Some 1")
    case True
    then have k: "k \<in> A" "k \<notin> set acc"
      using Cons.prems(1) by auto
    have "(m(k \<mapsto> 2)) j = Some 1 \<longleftrightarrow> j \<in> A - set (acc @ [k])" for j
      using Cons.prems(1) [of j] by simp
    moreover have "distinct (acc @ [k])" "set (acc @ [k]) \<subseteq> A"
      using Cons.prems(2,3) k by simp_all
    ultimately have IH: "set (snd (fold (intersect_step 2 1) b (m(k \<mapsto> 2), acc @ [k]))) = set (acc @ [k]) \<union> (A \<inter> set b) \<and>
        distinct (snd (fold (intersect_step 2 1) b (m(k \<mapsto> 2), acc @ [k])))"
      by (rule Cons.IH)
    have step: "intersect_step 2 1 k (m, acc) = (m(k \<mapsto> 2), acc @ [k])"
      using True by (simp add: intersect_step_def numeral_2_eq_2)
    show ?thesis
      unfolding fold_simps step using IH k by auto
  next
    case False
    then have "k \<in> A \<Longrightarrow> k \<in> set acc"
      using Cons.prems(1) by auto
    moreover have "intersect_step 2 1 k (m, acc) = (m, acc)"
      using False by (simp add: intersect_step_def)
    ultimately show ?thesis
      unfolding fold_simps using Cons.IH [OF Cons.prems] by auto
  qed
qed

lemma IntersectionUint64_two:
  "set (IntersectionUint64 [a, b]) = set a \<inter> set b" "distinct (IntersectionUint64 [a, b])"
  using intersect_two_loop [of "fold (\<lambda>k m. m(k \<mapsto> 1)) a Map.empty" "set a" "[]" b]
  by (simp_all add: IntersectionUint64_def fold_put_one [unfolded One_nat_def] numeral_2_eq_2 upt_rec)

end
