(* ===== verification/Attestation_Data.thy ===== *)
theory Attestation_Data
  imports Core_Helpers Slice_Utils
begin

text \<open>
  Attestations and the Casper FFG slashing conditions: the protobuf records of attestations,
  \<open>proto/qrysm/v1alpha1/attestation/attestation_utils.go\<close>, \<open>proto/qrysm/v1alpha1/slashings\<close>, the
  predicates of \<open>beacon-chain/core/blocks/attester_slashing.go\<close> and the checks of
  \<open>beacon-chain/core/helpers/attestation.go\<close>. Pointer fields that the code tests against \<open>nil\<close> are
  options; reading through a nil pointer panics (\<open>deref\<close>). \<open>bitfield.Bitlist\<close> is a parameter.
\<close>

named_theorems att_defs \<open>attestation predicates\<close>

section \<open>Records\<close>

record AttestationData =
  ad_Slot :: Slot
  ad_CommitteeIndex :: CommitteeIndex
  ad_BeaconBlockRoot :: bytes
  ad_Source :: "Checkpoint option"
  ad_Target :: "Checkpoint option"

record Attestation =
  att_AggregationBits :: "bytes option"
  att_Data :: "AttestationData option"
  att_Signatures :: "bytes list"

record IndexedAttestation =
  ia_AttestingIndices :: "u64 list"
  ia_Data :: "AttestationData option"
  ia_Signatures :: "bytes list"

record AttesterSlashing =
  Attestation_1 :: "IndexedAttestation option"
  Attestation_2 :: "IndexedAttestation option"

definition deref :: "'a option \<Rightarrow> 'a res" where
  "deref p = (case p of None \<Rightarrow> Inl (Panic ''nil pointer dereference'') | Some x \<Rightarrow> Inr x)"

lemma deref_simps [simp]: "deref (Some x) = Inr x" "deref None = Inl (Panic ''nil pointer dereference'')"
  by (simp_all add: deref_def)

lemma deref_eq_Inr [simp]: "deref p = Inr x \<longleftrightarrow> p = Some x"
  by (cases p) simp_all

definition data_source :: "AttestationData \<Rightarrow> Epoch res" where
  "data_source d = bindR (deref (ad_Source d)) (\<lambda>c. Inr (cp_Epoch c))"

definition data_target :: "AttestationData \<Rightarrow> Epoch res" where
  "data_target d = bindR (deref (ad_Target d)) (\<lambda>c. Inr (cp_Epoch c))"

text \<open>The expressions \<open>att.Data.Source.Epoch\<close> and \<open>att.Data.Target.Epoch\<close>.\<close>

definition source_epoch :: "IndexedAttestation \<Rightarrow> Epoch res" where
  "source_epoch a = bindR (deref (ia_Data a)) data_source"

definition target_epoch :: "IndexedAttestation \<Rightarrow> Epoch res" where
  "target_epoch a = bindR (deref (ia_Data a)) data_target"

section \<open>Equality and slashing conditions\<close>

definition CheckPointIsEqual :: "Checkpoint \<Rightarrow> Checkpoint \<Rightarrow> bool" where
  "CheckPointIsEqual c1 c2 =
     (if cp_Epoch c1 \<noteq> cp_Epoch c2 then False else if cp_Root c1 \<noteq> cp_Root c2 then False else True)"

definition AttDataIsEqual :: "AttestationData \<Rightarrow> AttestationData \<Rightarrow> bool res" where
  "AttDataIsEqual d1 d2 =
     (if ad_Slot d1 \<noteq> ad_Slot d2 then Inr False
      else if ad_CommitteeIndex d1 \<noteq> ad_CommitteeIndex d2 then Inr False
      else if ad_BeaconBlockRoot d1 \<noteq> ad_BeaconBlockRoot d2 then Inr False
      else bindR (deref (ad_Source d1)) (\<lambda>s1. bindR (deref (ad_Source d2)) (\<lambda>s2.
        if cp_Epoch s1 \<noteq> cp_Epoch s2 then Inr False
        else if cp_Root s1 \<noteq> cp_Root s2 then Inr False
        else bindR (deref (ad_Target d1)) (\<lambda>t1. bindR (deref (ad_Target d2)) (\<lambda>t2.
          if cp_Epoch t1 \<noteq> cp_Epoch t2 then Inr False
          else if cp_Root t1 \<noteq> cp_Root t2 then Inr False
          else Inr True)))))"

definition IsSurround :: "IndexedAttestation \<Rightarrow> IndexedAttestation \<Rightarrow> bool res" where
  "IsSurround a b =
     bindR (source_epoch a) (\<lambda>sa. bindR (source_epoch b) (\<lambda>sb.
       if \<not> sa < sb then Inr False
       else bindR (target_epoch b) (\<lambda>tb. bindR (target_epoch a) (\<lambda>ta. Inr (tb < ta)))))"

definition IsSlashableAttestationData :: "AttestationData option \<Rightarrow> AttestationData option \<Rightarrow> bool res" where
  "IsSlashableAttestationData data1 data2 =
     (case (data1, data2) of
        (Some d1, Some d2) \<Rightarrow>
          if ad_Target d1 = None \<or> ad_Target d2 = None \<or> ad_Source d1 = None \<or> ad_Source d2 = None then Inr False
          else bindR (AttDataIsEqual d1 d2) (\<lambda>eq. bindR (data_target d1) (\<lambda>t1. bindR (data_target d2) (\<lambda>t2.
            let isDoubleVote = (\<not> eq \<and> t1 = t2);
                att1 = \<lparr>ia_AttestingIndices = [], ia_Data = Some d1, ia_Signatures = []\<rparr>;
                att2 = \<lparr>ia_AttestingIndices = [], ia_Data = Some d2, ia_Signatures = []\<rparr>
            in bindR (IsSurround att1 att2) (\<lambda>isSurroundVote. Inr (isDoubleVote \<or> isSurroundVote)))))
      | _ \<Rightarrow> Inr False)"

definition SlashableAttesterIndices :: "AttesterSlashing option \<Rightarrow> u64 list" where
  "SlashableAttesterIndices slashing =
     (case slashing of None \<Rightarrow> []
      | Some sl \<Rightarrow> (case (Attestation_1 sl, Attestation_2 sl) of
          (Some a1, Some a2) \<Rightarrow> IntersectionUint64 [ia_AttestingIndices a1, ia_AttestingIndices a2]
        | _ \<Rightarrow> []))"

section \<open>Indexed attestations\<close>

text \<open>What the code uses of \<open>bitfield.Bitlist\<close>: its length and the positions of its set bits.\<close>

record bitlist =
  bl_Len :: "bytes \<Rightarrow> u64"
  bl_BitIndices :: "bytes \<Rightarrow> nat list"
  bl_Count :: "bytes \<Rightarrow> u64"

definition bitlist_law :: "bitlist \<Rightarrow> bool" where
  "bitlist_law bl \<longleftrightarrow> (\<forall>b. sorted (bl_BitIndices bl b) \<and> distinct (bl_BitIndices bl b)
     \<and> (\<forall>i \<in> set (bl_BitIndices bl b). i < unat (bl_Len bl b)) \<and> unat (bl_Count bl b) = length (bl_BitIndices bl b))"

definition AttestingIndices :: "bitlist \<Rightarrow> bytes \<Rightarrow> ValidatorIndex list \<Rightarrow> u64 list res" where
  "AttestingIndices bl bf committee =
     (if bl_Len bl bf \<noteq> of_nat (length committee) then Inl (Err ''bitfield length is not equal to committee length'')
      else Inr (fold (\<lambda>idx indices. if idx < length committee then indices @ [committee ! idx] else indices)
                  (bl_BitIndices bl bf) []))"

text \<open>
  \<open>sort.Sort\<close> does not promise an order among equal keys; the members of a committee are distinct, so that
  every sort gives the same slice.
\<close>

definition ConvertToIndexed :: "bitlist \<Rightarrow> Attestation \<Rightarrow> ValidatorIndex list \<Rightarrow> IndexedAttestation res" where
  "ConvertToIndexed bl a committee =
     bindR (AttestingIndices bl (case att_AggregationBits a of None \<Rightarrow> [] | Some b \<Rightarrow> b) committee) (\<lambda>attIndices.
       if length (att_Signatures a) \<noteq> length attIndices
       then Inl (Err ''signatures length is not equal to the attesting participants indices length'')
       else (let sigSlices = sort_key fst (zip attIndices (att_Signatures a))
             in Inr \<lparr>ia_AttestingIndices = map fst sigSlices, ia_Data = att_Data a, ia_Signatures = map snd sigSlices\<rparr>))"

fun uniquely_sorted :: "u64 list \<Rightarrow> unit res" where
  "uniquely_sorted [] = Inr ()"
| "uniquely_sorted [x] = Inr ()"
| "uniquely_sorted (x # y # xs) =
     (if x \<ge> y then Inl (Err ''attesting indices is not uniquely sorted'') else uniquely_sorted (y # xs))"

definition IsValidAttestationIndices :: "config \<Rightarrow> IndexedAttestation option \<Rightarrow> unit res" where
  "IsValidAttestationIndices cfg indexedAttestation =
     (case indexedAttestation of None \<Rightarrow> Inl (Err ''nil or missing indexed attestation data'')
      | Some a \<Rightarrow> (case ia_Data a of None \<Rightarrow> Inl (Err ''nil or missing indexed attestation data'')
      | Some d \<Rightarrow>
        if ad_Target d = None \<or> ad_Source d = None then Inl (Err ''nil or missing indexed attestation data'')
        else if length (ia_AttestingIndices a) = 0 then Inl (Err ''expected non-empty attesting indices'')
        else if of_nat (length (ia_AttestingIndices a)) > MaxValidatorsPerCommittee (raw cfg)
        then Inl (Err ''validator indices count exceeds MAX_VALIDATORS_PER_COMMITTEE'')
        else uniquely_sorted (ia_AttestingIndices a)))"

text \<open>The binary search of \<open>SearchInsertIdxWithOffset\<close>; \<open>int\<close> is 64 bits wide.\<close>

function search_loop :: "int list \<Rightarrow> int \<Rightarrow> int \<Rightarrow> int \<Rightarrow> int res" where
  "search_loop arr tgt low high =
     (if \<not> low \<le> high then Inr low
      else if low < 0 \<or> high \<ge> int (length arr) then Inl (Panic ''index out of range'')
      else let mid = (low + high) div 2; x = arr ! nat mid
           in if x = tgt then Inr (mid + 1)
              else if x > tgt then search_loop arr tgt low (mid - 1)
              else search_loop arr tgt (mid + 1) high)"
  by pat_completeness auto
termination
  by (relation "measure (\<lambda>(arr, tgt, low, high). nat (high - low + 1))") (auto simp: Let_def)

declare search_loop.simps [simp del]

definition SearchInsertIdxWithOffset :: "int list \<Rightarrow> int \<Rightarrow> int \<Rightarrow> int res" where
  "SearchInsertIdxWithOffset arr initialIdx tgt =
     (if length arr = 0 then Inr 0
      else if initialIdx > int (length arr) - 1 then Inl (Err ''invalid initial index for slice length'')
      else if initialIdx < 0 then Inl (Panic ''index out of range'')
      else if tgt \<le> arr ! nat initialIdx then Inr initialIdx
      else if tgt > arr ! (length arr - 1) then Inr (int (length arr))
      else search_loop arr tgt initialIdx (int (length arr) - 1))"

section \<open>Checks on attestations\<close>

definition ValidateNilAttestation :: "Attestation option \<Rightarrow> unit res" where
  "ValidateNilAttestation attestation =
     (case attestation of None \<Rightarrow> Inl (Err ''attestation can't be nil'')
      | Some a \<Rightarrow> (case att_Data a of None \<Rightarrow> Inl (Err ''attestation's data can't be nil'')
        | Some d \<Rightarrow>
            if ad_Source d = None then Inl (Err ''attestation's source can't be nil'')
            else if ad_Target d = None then Inl (Err ''attestation's target can't be nil'')
            else if att_AggregationBits a = None then Inl (Err ''attestation's bitfield can't be nil'')
            else Inr ()))"

section \<open>Facts\<close>

lemma uniquely_sorted_iff: "uniquely_sorted xs = Inr () \<longleftrightarrow> sorted_wrt (<) xs"
  by (induction xs rule: uniquely_sorted.induct) (auto simp: not_le intro: less_trans)

lemma AttDataIsEqual_iff:
  assumes "ad_Source d1 = Some s1" "ad_Target d1 = Some t1" "ad_Source d2 = Some s2" "ad_Target d2 = Some t2"
  shows "AttDataIsEqual d1 d2 = Inr (d1 = d2)"
  using assms by (cases d1; cases d2; cases s1; cases t1; cases s2; cases t2) (auto simp: AttDataIsEqual_def)

lemma CheckPointIsEqual_iff: "CheckPointIsEqual c1 c2 \<longleftrightarrow> c1 = c2"
  by (cases c1; cases c2) (simp add: CheckPointIsEqual_def)

text \<open>The test of the code is the Casper condition: a double vote, or the first vote surrounds the second.\<close>

lemma IsSlashableAttestationData_iff:
  assumes "ad_Source d1 = Some s1" "ad_Target d1 = Some t1" "ad_Source d2 = Some s2" "ad_Target d2 = Some t2"
  shows "IsSlashableAttestationData (Some d1) (Some d2) =
    Inr ((d1 \<noteq> d2 \<and> cp_Epoch t1 = cp_Epoch t2) \<or> (cp_Epoch s1 < cp_Epoch s2 \<and> cp_Epoch t2 < cp_Epoch t1))"
  using assms
  by (auto simp: IsSlashableAttestationData_def AttDataIsEqual_iff [OF assms] data_target_def data_source_def
      IsSurround_def source_epoch_def target_epoch_def)

lemma SlashableAttesterIndices_set:
  assumes "Attestation_1 sl = Some a1" "Attestation_2 sl = Some a2"
  shows "set (SlashableAttesterIndices (Some sl)) = set (ia_AttestingIndices a1) \<inter> set (ia_AttestingIndices a2)"
    and "distinct (SlashableAttesterIndices (Some sl))"
  using assms by (simp_all add: SlashableAttesterIndices_def IntersectionUint64_two)

text \<open>The search returns a position in the slice at or after its start.\<close>

lemma search_loop_bounds:
  assumes "0 \<le> low" and "low \<le> high + 1" and "high < int (length arr)"
  shows "\<exists>i. search_loop arr tgt low high = Inr i \<and> low \<le> i \<and> i \<le> high + 1"
  using assms
proof (induction arr tgt low high rule: search_loop.induct)
  case (1 arr tgt low high)
  show ?case
  proof (cases "low \<le> high")
    case False
    then show ?thesis using 1 by (subst search_loop.simps) auto
  next
    case True
    define mid where "mid = (low + high) div 2"
    have mid: "low \<le> mid" "mid \<le> high"
      using True by (auto simp: mid_def)
    have ok: "\<not> (low < 0 \<or> high \<ge> int (length arr))"
      using 1 by auto
    consider "arr ! nat mid = tgt" | "arr ! nat mid > tgt" | "arr ! nat mid < tgt"
      by linarith
    then show ?thesis
    proof cases
      case 1
      then show ?thesis
        using True ok mid by (subst search_loop.simps) (auto simp: mid_def [symmetric] Let_def)
    next
      case 2
      then have "\<exists>i. search_loop arr tgt low (mid - 1) = Inr i \<and> low \<le> i \<and> i \<le> mid"
        using "1.IH"(1) [OF _ ok mid_def refl] True mid "1.prems" by fastforce
      then show ?thesis
        using 2 True ok mid by (subst search_loop.simps) (auto simp: mid_def [symmetric] Let_def)
    next
      case 3
      then have "\<exists>i. search_loop arr tgt (mid + 1) high = Inr i \<and> mid + 1 \<le> i \<and> i \<le> high + 1"
        using "1.IH"(2) [OF _ ok mid_def refl] True mid "1.prems" by fastforce
      then show ?thesis
        using 3 True ok mid by (subst search_loop.simps) (auto simp: mid_def [symmetric] Let_def)
    qed
  qed
qed

end
