(* ===== verification/Slasher_Spans.thy ===== *)
theory Slasher_Spans
  imports Attestation_Data
begin

text \<open>
  The min and max spans of the slasher (\<open>beacon-chain/slasher/params.go\<close>, \<open>chunks.go\<close> and the types of
  \<open>slasher/types/types.go\<close>): where the cell of a validator and an epoch lies, the chunks that hold the
  cells, the surround-vote test against a chunk, and the update of a chunk. A chunk is mutated in place by the
  code; here the updated chunk is returned. The loops inside a chunk are shown to end; the database lookup of
  an attestation record is a function argument, as the code receives it through an interface.
\<close>

named_theorems span_defs \<open>definitions of the span chunks\<close>

lemma unat_u16_u64 [word_facts]: "unat (ucast (x :: u16) :: u64) = unat x"
proof -
  have "unat x < 65536"
    using unsigned_less [of x] by simp
  then show ?thesis
    by (simp add: unsigned_ucast_eq take_bit_eq_mod)
qed

lemma unat_u64_u16 [word_facts]: "unat (ucast (x :: u64) :: u16) = unat x mod 65536"
  by (simp add: unsigned_ucast_eq take_bit_eq_mod)

lemma unat_pred: "e \<noteq> 0 \<Longrightarrow> unat (e - 1 :: u64) = unat e - 1" "e \<noteq> 0 \<Longrightarrow> 0 < unat (e :: u64)"
  by (simp_all add: unat_pos_u64 unat_sub_u64 unat_le_u64 Suc_le_eq)

section \<open>Parameters\<close>

record Parameters =
  chunkSize :: u64
  validatorChunkSize :: u64
  historyLength :: Epoch

definition DefaultParams :: Parameters where
  "DefaultParams = \<lparr>chunkSize = 16, validatorChunkSize = 256, historyLength = 4096\<rparr>"

definition chunkIndex :: "Parameters \<Rightarrow> Epoch \<Rightarrow> u64 res" where
  "chunkIndex p epoch = bindR (Epoch_Mod epoch (historyLength p)) (\<lambda>e. Epoch_Div e (chunkSize p))"

definition validatorChunkIndex :: "Parameters \<Rightarrow> ValidatorIndex \<Rightarrow> u64 res" where
  "validatorChunkIndex p validatorIndex = ValidatorIndex_Div validatorIndex (validatorChunkSize p)"

definition firstEpoch :: "Parameters \<Rightarrow> u64 \<Rightarrow> Epoch" where
  "firstEpoch p idx = idx * chunkSize p"

definition lastEpoch :: "Parameters \<Rightarrow> u64 \<Rightarrow> Epoch res" where
  "lastEpoch p idx = Epoch_Add (firstEpoch p idx) (chunkSize p - 1)"

definition chunkOffset :: "Parameters \<Rightarrow> Epoch \<Rightarrow> u64 res" where
  "chunkOffset p epoch = Epoch_Mod epoch (chunkSize p)"

definition validatorOffset :: "Parameters \<Rightarrow> ValidatorIndex \<Rightarrow> u64 res" where
  "validatorOffset p validatorIndex = ValidatorIndex_Mod validatorIndex (validatorChunkSize p)"

definition cellIndex :: "Parameters \<Rightarrow> ValidatorIndex \<Rightarrow> Epoch \<Rightarrow> u64 res" where
  "cellIndex p validatorIndex epoch =
     bindR (validatorOffset p validatorIndex) (\<lambda>validatorChunkOffset.
       bindR (chunkOffset p epoch) (\<lambda>off. Inr (validatorChunkOffset * chunkSize p + off)))"

definition flatSliceID :: "Parameters \<Rightarrow> u64 \<Rightarrow> u64 \<Rightarrow> bytes res" where
  "flatSliceID p vIdx idx =
     bindR (Epoch_Div (historyLength p) (chunkSize p)) (\<lambda>width.
       bindR (Epoch_Mul width vIdx) (\<lambda>row. bindR (Epoch_Add row idx) (\<lambda>k. Inr (Uint64ToBytesLittleEndian k))))"

function indices_loop :: "u64 \<Rightarrow> u64 \<Rightarrow> ValidatorIndex list" where
  "indices_loop i high = (if i < high then i # indices_loop (i + 1) high else [])"
  by pat_completeness auto
termination
proof (relation "measure (\<lambda>(i, high). unat high - unat i)")
  fix i high :: u64
  assume less: "i < high"
  then have "unat (i + 1) = Suc (unat i)"
    using unat_lt_2_64 [of high] by (simp add: unat_less_u64 unat_add_u64)
  then show "((i + 1, high), (i, high)) \<in> measure (\<lambda>(i, high). unat high - unat i)"
    using less by (simp add: unat_less_u64)
qed simp

declare indices_loop.simps [simp del]

definition validatorIndicesInChunk :: "Parameters \<Rightarrow> u64 \<Rightarrow> ValidatorIndex list" where
  "validatorIndicesInChunk p validatorChunkIdx =
     indices_loop (validatorChunkIdx * validatorChunkSize p) ((validatorChunkIdx + 1) * validatorChunkSize p)"

section \<open>Cells\<close>

definition epochDistance :: "Epoch \<Rightarrow> Epoch \<Rightarrow> u16 res" where
  "epochDistance epoch baseEpoch =
     (if baseEpoch > epoch then Inl (Err ''base epoch cannot be less than epoch'')
      else bindR (Epoch_Sub epoch baseEpoch) (\<lambda>d. Inr (ucast d)))"

definition setChunkRawDistance :: "Parameters \<Rightarrow> u16 list \<Rightarrow> ValidatorIndex \<Rightarrow> Epoch \<Rightarrow> u16 \<Rightarrow> u16 list res" where
  "setChunkRawDistance p chunk validatorIdx epochInChunk distance =
     bindR (cellIndex p validatorIdx epochInChunk) (\<lambda>cellIdx.
       if cellIdx \<ge> of_nat (length chunk) then Inl (Err ''cell index out of bounds'')
       else Inr (chunk[unat cellIdx := distance]))"

definition setChunkDataAtEpoch :: "Parameters \<Rightarrow> u16 list \<Rightarrow> ValidatorIndex \<Rightarrow> Epoch \<Rightarrow> Epoch \<Rightarrow> u16 list res" where
  "setChunkDataAtEpoch p chunk validatorIdx epochInChunk targetEpoch =
     bindR (epochDistance targetEpoch epochInChunk) (setChunkRawDistance p chunk validatorIdx epochInChunk)"

definition chunkDataAtEpoch :: "Parameters \<Rightarrow> u16 list \<Rightarrow> ValidatorIndex \<Rightarrow> Epoch \<Rightarrow> Epoch res" where
  "chunkDataAtEpoch p chunk validatorIdx epoch =
     (if of_nat (length chunk) \<noteq> chunkSize p * validatorChunkSize p then Inl (Err ''chunk has wrong length'')
      else bindR (cellIndex p validatorIdx epoch) (\<lambda>cellIdx.
        if cellIdx \<ge> of_nat (length chunk) then Inl (Err ''cell index out of bounds'')
        else Epoch_Add epoch (ucast (chunk ! unat cellIdx))))"

section \<open>Chunks\<close>

datatype ChunkKind = MinSpan | MaxSpan

record MinSpanChunksSlice =
  min_params :: Parameters
  min_data :: "u16 list"

record MaxSpanChunksSlice =
  max_params :: Parameters
  max_data :: "u16 list"

definition Min_NeutralElement :: u16 where "Min_NeutralElement = 65535"
definition Max_NeutralElement :: u16 where "Max_NeutralElement = 0"

text \<open>\<open>make\<close> of a slice of \<open>chunkSize * validatorChunkSize\<close> elements (the product wraps).\<close>

definition EmptyMinSpanChunksSlice :: "Parameters \<Rightarrow> MinSpanChunksSlice" where
  "EmptyMinSpanChunksSlice p =
     \<lparr>min_params = p, min_data = replicate (unat (chunkSize p * validatorChunkSize p)) Min_NeutralElement\<rparr>"

definition EmptyMaxSpanChunksSlice :: "Parameters \<Rightarrow> MaxSpanChunksSlice" where
  "EmptyMaxSpanChunksSlice p =
     \<lparr>max_params = p, max_data = replicate (unat (chunkSize p * validatorChunkSize p)) Max_NeutralElement\<rparr>"

definition MinChunkSpansSliceFrom :: "Parameters \<Rightarrow> u16 list \<Rightarrow> MinSpanChunksSlice res" where
  "MinChunkSpansSliceFrom p chunk =
     (if of_nat (length chunk) \<noteq> chunkSize p * validatorChunkSize p then Inl (Err ''chunk has wrong length'')
      else Inr \<lparr>min_params = p, min_data = chunk\<rparr>)"

definition MaxChunkSpansSliceFrom :: "Parameters \<Rightarrow> u16 list \<Rightarrow> MaxSpanChunksSlice res" where
  "MaxChunkSpansSliceFrom p chunk =
     (if of_nat (length chunk) \<noteq> chunkSize p * validatorChunkSize p then Inl (Err ''chunk has wrong length'')
      else Inr \<lparr>max_params = p, max_data = chunk\<rparr>)"

record IndexedAttestationWrapper =
  iw_IndexedAttestation :: "IndexedAttestation option"
  iw_SigningRoot :: bytes

definition iw_source :: "IndexedAttestationWrapper \<Rightarrow> Epoch res" where
  "iw_source w = bindR (deref (iw_IndexedAttestation w)) source_epoch"

definition iw_target :: "IndexedAttestationWrapper \<Rightarrow> Epoch res" where
  "iw_target w = bindR (deref (iw_IndexedAttestation w)) target_epoch"

type_synonym record_lookup = "ValidatorIndex \<Rightarrow> Epoch \<Rightarrow> IndexedAttestationWrapper option res"

definition Min_CheckSlashable ::
  "record_lookup \<Rightarrow> MinSpanChunksSlice \<Rightarrow> ValidatorIndex \<Rightarrow> IndexedAttestationWrapper \<Rightarrow> AttesterSlashing option res" where
  "Min_CheckSlashable lookup m validatorIdx att =
     bindR (iw_source att) (\<lambda>sourceEpoch.
     bindR (iw_target att) (\<lambda>targetEpoch.
     bindR (wrapR ''could not get min target'' (chunkDataAtEpoch (min_params m) (min_data m) validatorIdx sourceEpoch)) (\<lambda>minTarget.
     if targetEpoch > minTarget
     then bindR (wrapR ''could not get existing attestation record'' (lookup validatorIdx minTarget)) (\<lambda>existing.
       (case existing of None \<Rightarrow> Inr None
        | Some existingAttRecord \<Rightarrow>
            bindR (iw_source existingAttRecord) (\<lambda>existingSource.
              if sourceEpoch < existingSource
              then Inr (Some \<lparr>Attestation_1 = iw_IndexedAttestation att,
                              Attestation_2 = iw_IndexedAttestation existingAttRecord\<rparr>)
              else Inr None)))
     else Inr None)))"

definition Max_CheckSlashable ::
  "record_lookup \<Rightarrow> MaxSpanChunksSlice \<Rightarrow> ValidatorIndex \<Rightarrow> IndexedAttestationWrapper \<Rightarrow> AttesterSlashing option res" where
  "Max_CheckSlashable lookup m validatorIdx att =
     bindR (iw_source att) (\<lambda>sourceEpoch.
     bindR (iw_target att) (\<lambda>targetEpoch.
     bindR (wrapR ''could not get max target'' (chunkDataAtEpoch (max_params m) (max_data m) validatorIdx sourceEpoch)) (\<lambda>maxTarget.
     if targetEpoch < maxTarget
     then bindR (wrapR ''could not get existing attestation record'' (lookup validatorIdx maxTarget)) (\<lambda>existing.
       (case existing of None \<Rightarrow> Inr None
        | Some existingAttRecord \<Rightarrow>
            bindR (iw_source existingAttRecord) (\<lambda>existingSource.
              if existingSource < sourceEpoch
              then Inr (Some \<lparr>Attestation_1 = iw_IndexedAttestation existingAttRecord,
                              Attestation_2 = iw_IndexedAttestation att\<rparr>)
              else Inr None)))
     else Inr None)))"

section \<open>Updating a chunk\<close>

lemma Epoch_arith [prim_cases]:
  "Epoch_Add e x = (if unat e + unat x < 18446744073709551616 then Inr (e + x) else Inl (Panic ''addition overflows''))"
  "Epoch_Sub e x = (if x \<le> e then Inr (e - x) else Inl (Panic ''subtraction underflow''))"
  "Epoch_Div e x = (if x = 0 then Inl (Panic ''integer divide by zero'') else Inr (e div x))"
  by (simp_all add: epoch_defs checked_cases)

lemma chunkData_ge: "chunkDataAtEpoch p chunk v e = Inr ct \<Longrightarrow> e \<le> ct"
  by (auto simp: chunkDataAtEpoch_def bindR_eq_Inr Epoch_arith unat_le_u64 unat_add_u64 split: if_splits)

text \<open>The cell just written reads at most as the new target: less, when the distance does not fit 16 bits.\<close>

lemma cell_after_set:
  assumes "setChunkDataAtEpoch p chunk v e t = Inr chunk'" and "chunkDataAtEpoch p chunk' v e = Inr ct"
  shows "ct \<le> t"
proof -
  obtain c where c: "e \<le> t" "cellIndex p v e = Inr c" "unat c < length chunk"
    "chunk' = chunk[unat c := ucast (t - e)]"
    using assms(1)
    by (auto simp: setChunkDataAtEpoch_def epochDistance_def setChunkRawDistance_def bindR_eq_Inr Epoch_arith not_le
        unat_less_u64 unat_of_nat split: if_splits)
  have "unat (ucast (ucast (t - e) :: u16) :: u64) \<le> unat (t - e)"
    by (simp add: unat_u16_u64 unat_u64_u16)
  then show ?thesis
    using assms(2) c
    by (auto simp: chunkDataAtEpoch_def Epoch_arith unat_le_u64 unat_add_u64 unat_sub_u64 split: if_splits)
qed

text \<open>
  The loop of \<open>MinSpanChunksSlice.Update\<close>, with the chunk as it stands. At epoch 0 the counter stays at 0;
  the second visit finds the value just written and leaves through the \<open>else\<close> branch.
\<close>

function min_update_loop ::
  "Parameters \<Rightarrow> u64 \<Rightarrow> Epoch \<Rightarrow> ValidatorIndex \<Rightarrow> Epoch \<Rightarrow> u16 list \<Rightarrow> Epoch \<Rightarrow> (u16 list \<times> bool) res" where
  "min_update_loop p idx minEpoch v newTarget chunk epochInChunk =
     bindR (chunkIndex p epochInChunk) (\<lambda>ci.
       if \<not> (ci = idx \<and> epochInChunk \<ge> minEpoch) then Inr (chunk, epochInChunk \<ge> minEpoch)
       else bindR (wrapR ''could not get chunk data'' (chunkDataAtEpoch p chunk v epochInChunk)) (\<lambda>chunkTarget.
         if newTarget < chunkTarget
         then bindR (wrapR ''could not set chunk data'' (setChunkDataAtEpoch p chunk v epochInChunk newTarget)) (\<lambda>chunk.
           min_update_loop p idx minEpoch v newTarget chunk (if epochInChunk > 0 then epochInChunk - 1 else epochInChunk))
         else Inr (chunk, False)))"
  by pat_completeness auto
termination
proof (relation "measure (\<lambda>(p, idx, minEpoch, v, t, chunk, e).
    unat e + (case chunkDataAtEpoch p chunk v e of Inr ct \<Rightarrow> if t < ct then 1 else 0 | Inl _ \<Rightarrow> 0))", goal_cases)
  case (2 p idx minEpoch v t chunk e ci ct chunk')
  then have set: "setChunkDataAtEpoch p chunk v e t = Inr chunk'" and ct: "chunkDataAtEpoch p chunk v e = Inr ct"
    by simp_all
  have "chunkDataAtEpoch p chunk' v 0 = Inr c \<Longrightarrow> \<not> t < c" if "e = 0" for c
    using cell_after_set set that by (simp add: not_less)
  then show ?case
    using ct 2 by (cases "e = 0") (auto simp: unat_pred word_gt_0 split: sum.splits)
qed simp

declare min_update_loop.simps [simp del]

definition Min_Update :: "MinSpanChunksSlice \<Rightarrow> u64 \<Rightarrow> Epoch \<Rightarrow> ValidatorIndex \<Rightarrow> Epoch \<Rightarrow> Epoch \<Rightarrow> (MinSpanChunksSlice \<times> bool) res" where
  "Min_Update m idx currentEpoch v startEpoch newTargetEpoch =
     (let minEpoch = (if currentEpoch > historyLength (min_params m) - 1
                      then currentEpoch - (historyLength (min_params m) - 1) else 0)
      in bindR (min_update_loop (min_params m) idx minEpoch v newTargetEpoch (min_data m) startEpoch)
           (\<lambda>(chunk, keepGoing). Inr (m\<lparr>min_data := chunk\<rparr>, keepGoing)))"

function max_update_loop ::
  "Parameters \<Rightarrow> u64 \<Rightarrow> Epoch \<Rightarrow> ValidatorIndex \<Rightarrow> Epoch \<Rightarrow> u16 list \<Rightarrow> Epoch \<Rightarrow> (u16 list \<times> bool) res" where
  "max_update_loop p idx currentEpoch v newTarget chunk epochInChunk =
     bindR (chunkIndex p epochInChunk) (\<lambda>ci.
       if \<not> (ci = idx \<and> epochInChunk \<le> currentEpoch) then Inr (chunk, epochInChunk \<le> currentEpoch)
       else bindR (wrapR ''could not get chunk data'' (chunkDataAtEpoch p chunk v epochInChunk)) (\<lambda>chunkTarget.
         if newTarget > chunkTarget
         then bindR (wrapR ''could not set chunk data'' (setChunkDataAtEpoch p chunk v epochInChunk newTarget)) (\<lambda>chunk.
           max_update_loop p idx currentEpoch v newTarget chunk (epochInChunk + 1))
         else Inr (chunk, False)))"
  by pat_completeness auto
termination
proof (relation "measure (\<lambda>(p, idx, currentEpoch, v, t, chunk, e). unat t - unat e)", goal_cases)
  case (2 p idx currentEpoch v t chunk e ci ct chunk')
  then have "e < t"
    using chunkData_ge [of p chunk v e ct] by simp
  then have "unat (e + 1) = Suc (unat e)"
    using unat_lt_2_64 [of t] by (simp add: unat_less_u64 unat_add_u64)
  with \<open>e < t\<close> show ?case
    by (simp add: unat_less_u64)
qed simp

declare max_update_loop.simps [simp del]

definition Max_Update :: "MaxSpanChunksSlice \<Rightarrow> u64 \<Rightarrow> Epoch \<Rightarrow> ValidatorIndex \<Rightarrow> Epoch \<Rightarrow> Epoch \<Rightarrow> (MaxSpanChunksSlice \<times> bool) res" where
  "Max_Update m idx currentEpoch v startEpoch newTargetEpoch =
     bindR (max_update_loop (max_params m) idx currentEpoch v newTargetEpoch (max_data m) startEpoch)
       (\<lambda>(chunk, keepGoing). Inr (m\<lparr>max_data := chunk\<rparr>, keepGoing))"

definition Min_StartEpoch :: "Parameters \<Rightarrow> Epoch \<Rightarrow> Epoch \<Rightarrow> Epoch option res" where
  "Min_StartEpoch p sourceEpoch currentEpoch =
     (if sourceEpoch = 0 then Inr None
      else let difference = (if currentEpoch > historyLength p then currentEpoch - historyLength p else 0)
           in if sourceEpoch \<le> difference then Inr None
              else bindR (Epoch_Sub sourceEpoch 1) (\<lambda>e. Inr (Some e)))"

definition Max_StartEpoch :: "Epoch \<Rightarrow> Epoch \<Rightarrow> Epoch option res" where
  "Max_StartEpoch sourceEpoch currentEpoch =
     (if sourceEpoch \<ge> currentEpoch then Inr None else bindR (Epoch_Add sourceEpoch 1) (\<lambda>e. Inr (Some e)))"

definition Min_NextChunkStartEpoch :: "Parameters \<Rightarrow> Epoch \<Rightarrow> Epoch res" where
  "Min_NextChunkStartEpoch p startEpoch =
     bindR (chunkIndex p startEpoch) (\<lambda>idx. lastEpoch p (if idx > 0 then idx - 1 else idx))"

definition Max_NextChunkStartEpoch :: "Parameters \<Rightarrow> Epoch \<Rightarrow> Epoch res" where
  "Max_NextChunkStartEpoch p startEpoch = bindR (chunkIndex p startEpoch) (\<lambda>idx. Inr (firstEpoch p (idx + 1)))"

section \<open>The interface\<close>

datatype Chunker = MinChunker MinSpanChunksSlice | MaxChunker MaxSpanChunksSlice

fun NeutralElement :: "Chunker \<Rightarrow> u16" where
  "NeutralElement (MinChunker m) = Min_NeutralElement"
| "NeutralElement (MaxChunker m) = Max_NeutralElement"

fun Chunk :: "Chunker \<Rightarrow> u16 list" where
  "Chunk (MinChunker m) = min_data m"
| "Chunk (MaxChunker m) = max_data m"

fun set_Chunk :: "u16 list \<Rightarrow> Chunker \<Rightarrow> Chunker" where
  "set_Chunk chunk (MinChunker m) = MinChunker (m\<lparr>min_data := chunk\<rparr>)"
| "set_Chunk chunk (MaxChunker m) = MaxChunker (m\<lparr>max_data := chunk\<rparr>)"

fun CheckSlashable ::
  "record_lookup \<Rightarrow> Chunker \<Rightarrow> ValidatorIndex \<Rightarrow> IndexedAttestationWrapper \<Rightarrow> AttesterSlashing option res" where
  "CheckSlashable lookup (MinChunker m) v att = Min_CheckSlashable lookup m v att"
| "CheckSlashable lookup (MaxChunker m) v att = Max_CheckSlashable lookup m v att"

fun Chunker_Update :: "Chunker \<Rightarrow> u64 \<Rightarrow> Epoch \<Rightarrow> ValidatorIndex \<Rightarrow> Epoch \<Rightarrow> Epoch \<Rightarrow> (Chunker \<times> bool) res" where
  "Chunker_Update (MinChunker m) idx currentEpoch v startEpoch newTargetEpoch =
     bindR (Min_Update m idx currentEpoch v startEpoch newTargetEpoch) (\<lambda>(m, keepGoing). Inr (MinChunker m, keepGoing))"
| "Chunker_Update (MaxChunker m) idx currentEpoch v startEpoch newTargetEpoch =
     bindR (Max_Update m idx currentEpoch v startEpoch newTargetEpoch) (\<lambda>(m, keepGoing). Inr (MaxChunker m, keepGoing))"

fun StartEpoch :: "Chunker \<Rightarrow> Epoch \<Rightarrow> Epoch \<Rightarrow> Epoch option res" where
  "StartEpoch (MinChunker m) sourceEpoch currentEpoch = Min_StartEpoch (min_params m) sourceEpoch currentEpoch"
| "StartEpoch (MaxChunker m) sourceEpoch currentEpoch = Max_StartEpoch sourceEpoch currentEpoch"

fun NextChunkStartEpoch :: "Chunker \<Rightarrow> Epoch \<Rightarrow> Epoch res" where
  "NextChunkStartEpoch (MinChunker m) startEpoch = Min_NextChunkStartEpoch (min_params m) startEpoch"
| "NextChunkStartEpoch (MaxChunker m) startEpoch = Max_NextChunkStartEpoch (max_params m) startEpoch"

section \<open>Reading and writing cells\<close>

text \<open>Parameters that make sense: non-empty chunks that fit memory, and distances that fit 16 bits.\<close>

definition good_params :: "Parameters \<Rightarrow> bool" where
  "good_params p \<longleftrightarrow> chunkSize p \<noteq> 0 \<and> validatorChunkSize p \<noteq> 0 \<and> historyLength p \<noteq> 0 \<and>
     unat (chunkSize p) * unat (validatorChunkSize p) < 18446744073709551616 \<and> unat (historyLength p) \<le> 65535"

definition cell :: "Parameters \<Rightarrow> ValidatorIndex \<Rightarrow> nat \<Rightarrow> nat" where
  "cell p v e = unat v mod unat (validatorChunkSize p) * unat (chunkSize p) + e mod unat (chunkSize p)"

definition chunk_len :: "Parameters \<Rightarrow> nat" where
  "chunk_len p = unat (chunkSize p) * unat (validatorChunkSize p)"

definition chunk_no :: "Parameters \<Rightarrow> nat \<Rightarrow> nat" where
  "chunk_no p e = e div unat (chunkSize p)"

text \<open>The distance stored for a validator and an epoch.\<close>

definition dist_at :: "Parameters \<Rightarrow> ValidatorIndex \<Rightarrow> u16 list \<Rightarrow> nat \<Rightarrow> nat" where
  "dist_at p v chunk e = unat (chunk ! cell p v e)"

lemma mult_add_bound: "a < k \<Longrightarrow> b < c \<Longrightarrow> a * c + b < c * (k :: nat)"
proof -
  assume "a < k" "b < c"
  then have "a * c + b < Suc a * c"
    by simp
  also have "\<dots> \<le> k * c"
    using \<open>a < k\<close> by (intro mult_le_mono) auto
  finally show ?thesis
    by (simp add: mult.commute)
qed

lemma cell_bound: "good_params p \<Longrightarrow> cell p v e < chunk_len p"
  by (simp add: good_params_def cell_def chunk_len_def mult_add_bound unat_pos_u64)

lemma cell_same: "cell p v x = cell p v y \<Longrightarrow> chunk_no p x = chunk_no p y \<Longrightarrow> x = y"
  by (metis add_left_cancel cell_def chunk_no_def mult_div_mod_eq)

lemma cellIndex_cell:
  assumes "good_params p"
  shows "\<exists>c. cellIndex p v e = Inr c \<and> unat c = cell p v (unat e)"
proof -
  have "cell p v (unat e) < 18446744073709551616"
    using cell_bound [OF assms] assms by (metis chunk_len_def good_params_def order_less_trans)
  then show ?thesis
    using assms
    by (simp add: cellIndex_def validatorOffset_def chunkOffset_def ValidatorIndex_Mod_def prim_cases good_params_def
        cell_def unat_add_u64 unat_mult_u64 unat_mod)
qed

lemma chunkIndex_chunk_no:
  assumes "good_params p" and "unat e < unat (historyLength p)"
  shows "\<exists>c. chunkIndex p e = Inr c \<and> unat c = chunk_no p (unat e)"
  using assms by (simp add: chunkIndex_def prim_cases good_params_def chunk_no_def unat_div unat_mod)

lemma chunkIndex_total: "good_params p \<Longrightarrow> \<exists>c. chunkIndex p e = Inr c"
  by (simp add: chunkIndex_def prim_cases good_params_def)

lemma chunk_lengths:
  assumes "good_params p" and "length chunk = chunk_len p"
  shows "of_nat (length chunk) = chunkSize p * validatorChunkSize p" and "unat (of_nat (length chunk) :: u64) = chunk_len p"
  using assms by (simp_all add: good_params_def chunk_len_def unat_eq_u64 unat_of_nat_u64 unat_mult_u64)

lemma chunkDataAtEpoch_dist:
  assumes "good_params p" and "length chunk = chunk_len p" and "unat e < unat (historyLength p)"
  shows "\<exists>x. chunkDataAtEpoch p chunk v e = Inr x \<and> unat x = unat e + dist_at p v chunk (unat e)"
proof -
  obtain c where c: "cellIndex p v e = Inr c" "unat c = cell p v (unat e)"
    using cellIndex_cell [OF assms(1)] by blast
  have "unat (chunk ! unat c) < 65536"
    using unsigned_less [of "chunk ! unat c"] by simp
  then have "unat e + unat (chunk ! unat c) < 18446744073709551616"
    using assms(1,3) by (simp add: good_params_def)
  moreover have "\<not> of_nat (length chunk) \<le> c"
    using cell_bound [OF assms(1)] c(2) by (simp add: unat_le_u64 chunk_lengths(2) [OF assms(1,2)] not_le)
  ultimately show ?thesis
    using c by (simp add: chunkDataAtEpoch_def chunk_lengths(1) [OF assms(1,2)] Epoch_arith unat_u16_u64 unat_add_u64 dist_at_def)
qed

lemma setChunkDataAtEpoch_dist:
  assumes "good_params p" and "length chunk = chunk_len p" and "e \<le> t" and "unat t < 65536"
  shows "\<exists>d. setChunkDataAtEpoch p chunk v e t = Inr (chunk[cell p v (unat e) := d]) \<and> unat d = unat t - unat e"
proof -
  obtain c where c: "cellIndex p v e = Inr c" "unat c = cell p v (unat e)"
    using cellIndex_cell [OF assms(1)] by blast
  have "\<not> of_nat (length chunk) \<le> c"
    using cell_bound [OF assms(1)] c(2) by (simp add: unat_le_u64 chunk_lengths(2) [OF assms(1,2)] not_le)
  then have "setChunkDataAtEpoch p chunk v e t = Inr (chunk[cell p v (unat e) := ucast (t - e)])"
    using c assms(3) by (simp add: setChunkDataAtEpoch_def epochDistance_def setChunkRawDistance_def Epoch_arith not_less)
  moreover have "unat (ucast (t - e) :: u16) = unat t - unat e"
    using assms(3,4) by (simp add: unat_u64_u16 unat_sub_u64)
  ultimately show ?thesis
    by blast
qed

lemma dist_at_update:
  assumes "good_params p" and "length chunk = chunk_len p"
  shows "dist_at p v (chunk[cell p v e := d]) e = unat d"
    and "chunk_no p x = chunk_no p e \<Longrightarrow> x \<noteq> e \<Longrightarrow> dist_at p v (chunk[cell p v e := d]) x = dist_at p v chunk x"
  using assms cell_bound [OF assms(1)] cell_same [of p v x e] by (auto simp: dist_at_def nth_list_update)

section \<open>What the update loops compute\<close>

text \<open>
  The targets of a span, \<open>x + dist x\<close>, never decrease as the epoch \<open>x\<close> grows. On such spans the loops, which stop
  at the first cell they cannot improve, improve every cell of the range that can be improved.
\<close>

definition rising :: "(nat \<Rightarrow> nat) \<Rightarrow> nat \<Rightarrow> nat \<Rightarrow> bool" where
  "rising f a b \<longleftrightarrow> (\<forall>x y. a \<le> x \<longrightarrow> x \<le> y \<longrightarrow> y \<le> b \<longrightarrow> x + f x \<le> y + f y)"

definition lowered :: "nat \<Rightarrow> nat \<Rightarrow> nat \<Rightarrow> nat" where
  "lowered t x d = (if t < x + d then t - x else d)"

definition raised :: "nat \<Rightarrow> nat \<Rightarrow> nat \<Rightarrow> nat" where
  "raised t x d = (if x + d < t then t - x else d)"

lemma rising_cong: "rising f a b \<Longrightarrow> a \<le> a' \<Longrightarrow> b' \<le> b \<Longrightarrow> (\<And>x. a' \<le> x \<Longrightarrow> x \<le> b' \<Longrightarrow> g x = f x) \<Longrightarrow> rising g a' b'"
  unfolding rising_def by (metis le_trans)

definition first_of :: "Parameters \<Rightarrow> nat \<Rightarrow> nat" where
  "first_of p e = chunk_no p e * unat (chunkSize p)"

lemma div_range: "0 < c \<Longrightarrow> x div c = k \<longleftrightarrow> k * c \<le> x \<and> x < k * c + (c :: nat)"
  using div_times_less_eq_dividend [of x c] dividend_less_div_times [of c x]
  by (auto intro!: div_nat_eqI simp: mult.commute)

lemma chunk_range:
  assumes "good_params p"
  shows "chunk_no p x = chunk_no p e \<longleftrightarrow> first_of p e \<le> x \<and> x < first_of p e + unat (chunkSize p)"
  using assms div_range [of "unat (chunkSize p)" x "chunk_no p e"]
  by (simp add: good_params_def unat_pos_u64 chunk_no_def first_of_def)

lemma min_update_loop_stop:
  assumes "good_params p" and "length chunk = chunk_len p" and "unat e < unat (historyLength p)"
    and "unat idx = chunk_no p (unat e)" and "\<not> unat t < unat e + dist_at p v chunk (unat e)"
  shows "min_update_loop p idx 0 v t chunk e = Inr (chunk, False)"
proof -
  obtain c where c: "chunkIndex p e = Inr c" "c = idx"
    using chunkIndex_chunk_no [OF assms(1,3)] assms(4) by (auto simp: unat_eq_u64)
  obtain x where "chunkDataAtEpoch p chunk v e = Inr x" "unat x = unat e + dist_at p v chunk (unat e)"
    using chunkDataAtEpoch_dist [OF assms(1-3)] by blast
  then show ?thesis
    using c assms(5) by (subst min_update_loop.simps) (simp add: unat_less_u64)
qed

lemma min_update_loop_step:
  assumes "good_params p" and "length chunk = chunk_len p" and "unat e < unat (historyLength p)"
    and "unat idx = chunk_no p (unat e)" and "unat t < unat e + dist_at p v chunk (unat e)"
    and "e \<le> t" and "unat t < 65536"
  shows "\<exists>d. unat d = unat t - unat e \<and> min_update_loop p idx 0 v t chunk e =
    min_update_loop p idx 0 v t (chunk[cell p v (unat e) := d]) (if e > 0 then e - 1 else e)"
proof -
  obtain c where c: "chunkIndex p e = Inr c" "c = idx"
    using chunkIndex_chunk_no [OF assms(1,3)] assms(4) by (auto simp: unat_eq_u64)
  obtain x where x: "chunkDataAtEpoch p chunk v e = Inr x" "unat x = unat e + dist_at p v chunk (unat e)"
    using chunkDataAtEpoch_dist [OF assms(1-3)] by blast
  obtain d where "setChunkDataAtEpoch p chunk v e t = Inr (chunk[cell p v (unat e) := d])" "unat d = unat t - unat e"
    using setChunkDataAtEpoch_dist [OF assms(1,2,6,7)] by blast
  then show ?thesis
    using c x assms(5) by (subst min_update_loop.simps) (auto simp: unat_less_u64)
qed

text \<open>What one pass over a chunk leaves in it: the cells of the epochs in \<open>S\<close> are updated, no other one.\<close>

definition chunk_updated ::
  "Parameters \<Rightarrow> ValidatorIndex \<Rightarrow> (nat \<Rightarrow> nat \<Rightarrow> nat) \<Rightarrow> nat set \<Rightarrow> u16 list \<Rightarrow> u16 list \<Rightarrow> bool" where
  "chunk_updated p v upd S chunk chunk' \<longleftrightarrow> length chunk' = length chunk \<and>
     (\<forall>i. i \<notin> cell p v ` S \<longrightarrow> chunk' ! i = chunk ! i) \<and>
     (\<forall>x \<in> S. dist_at p v chunk' x = upd x (dist_at p v chunk x))"

lemma chunk_updated_id: "(\<And>x. x \<in> S \<Longrightarrow> upd x (dist_at p v chunk x) = dist_at p v chunk x) \<Longrightarrow> chunk_updated p v upd S chunk chunk"
  by (simp add: chunk_updated_def)

lemma chunk_updated_insert:
  assumes "good_params p" and "length chunk = chunk_len p" and "e \<notin> S" and "\<And>x. x \<in> S \<Longrightarrow> chunk_no p x = chunk_no p e"
    and "unat d = upd e (dist_at p v chunk e)" and "chunk_updated p v upd S (chunk[cell p v e := d]) chunk'"
  shows "chunk_updated p v upd (insert e S) chunk chunk'"
proof -
  have other: "dist_at p v (chunk[cell p v e := d]) x = dist_at p v chunk x" if "x \<in> S" for x
    using dist_at_update(2) [OF assms(1,2) assms(4) [OF that]] that assms(3) by blast
  have "cell p v e \<notin> cell p v ` S"
    using assms(3) cell_same [OF _ assms(4) [symmetric], of v] by blast
  then have "dist_at p v chunk' e = upd e (dist_at p v chunk e)"
    using assms(6) dist_at_update(1) [OF assms(1,2), of v e d] assms(5) unfolding chunk_updated_def dist_at_def by simp
  then show ?thesis
    using assms(6) other unfolding chunk_updated_def by auto
qed

lemma min_update_loop_spec:
  assumes "good_params p" and "length chunk = chunk_len p" and "unat e < unat (historyLength p)"
    and "unat idx = chunk_no p (unat e)" and "e \<le> t" and "unat t < 65536"
    and "rising (dist_at p v chunk) (first_of p (unat e)) (unat e)"
  shows "\<exists>chunk' keep. min_update_loop p idx 0 v t chunk e = Inr (chunk', keep) \<and>
    chunk_updated p v (lowered (unat t)) {first_of p (unat e)..unat e} chunk chunk' \<and>
    (keep \<longleftrightarrow> 0 < first_of p (unat e) \<and> unat t < first_of p (unat e) + dist_at p v chunk (first_of p (unat e)))"
  using assms(2-)
proof (induction "unat e" arbitrary: e chunk rule: less_induct)
  case less
  let ?f = "dist_at p v chunk" and ?lo = "first_of p (unat e)"
  have lo: "?lo \<le> unat e"
    by (simp add: first_of_def chunk_no_def)
  show ?case
  proof (cases "unat t < unat e + ?f (unat e)")
    case False
    have "\<not> unat t < x + ?f x" if "?lo \<le> x" "x \<le> unat e" for x
      using less.prems(6) [unfolded rising_def, rule_format, OF that order_refl] False by simp
    then show ?thesis
      using min_update_loop_stop [OF assms(1) less.prems(1-3) False] lo
      by (auto simp: lowered_def intro!: chunk_updated_id)
  next
    case True
    obtain d where d: "unat d = unat t - unat e" "min_update_loop p idx 0 v t chunk e =
        min_update_loop p idx 0 v t (chunk[cell p v (unat e) := d]) (if e > 0 then e - 1 else e)"
      using min_update_loop_step [OF assms(1) less.prems(1-3) True less.prems(4,5)] by blast
    define chunk1 where "chunk1 = chunk[cell p v (unat e) := d]"
    have len1: "length chunk1 = chunk_len p"
      by (simp add: chunk1_def less.prems(1))
    have low: "unat d = lowered (unat t) (unat e) (?f (unat e))"
      using True d(1) by (simp add: lowered_def)
    have same: "x \<in> {?lo..<unat e} \<Longrightarrow> chunk_no p x = chunk_no p (unat e)" for x
      using chunk_range [OF assms(1), of x "unat e"] chunk_range [OF assms(1), of "unat e" "unat e"] by auto
    have ins: "chunk_updated p v (lowered (unat t)) {?lo..unat e} chunk chunk'"
      if "chunk_updated p v (lowered (unat t)) {?lo..<unat e} chunk1 chunk'" for chunk'
      using chunk_updated_insert [OF assms(1) less.prems(1) _ same low that [unfolded chunk1_def]] lo
      by (simp add: ivl_disj_un_singleton(6) [symmetric] insert_absorb)
    consider "e = 0" | "e \<noteq> 0" "unat e = ?lo" | "e \<noteq> 0" "?lo < unat e"
      using lo by linarith
    then show ?thesis
    proof cases
      case 1
      have "dist_at p v chunk1 (unat e) = unat t"
        using dist_at_update(1) [OF assms(1) less.prems(1)] d(1) 1 by (simp add: chunk1_def)
      then have "min_update_loop p idx 0 v t chunk e = Inr (chunk1, False)"
        using min_update_loop_stop [OF assms(1) len1 less.prems(2,3), of t v] d(2) 1 by (simp add: chunk1_def)
      then show ?thesis
        using 1 ins [of chunk1] by (auto simp: first_of_def chunk_no_def chunk_updated_def)
    next
      case 2
      have e1: "unat (e - 1) = unat e - 1" "0 < unat e"
        using 2(1) by (simp_all add: unat_pred)
      have "unat (e - 1) < unat (historyLength p)"
        using less.prems(2) e1 by simp
      from chunkIndex_chunk_no [OF assms(1) this]
      obtain c where "chunkIndex p (e - 1) = Inr c" "unat c = chunk_no p (unat e - 1)"
        unfolding e1 by blast
      moreover have "chunk_no p (unat e - 1) \<noteq> chunk_no p (unat e)"
        using chunk_range [OF assms(1), of "unat e - 1" "unat e"] 2(2) e1(2) by simp
      ultimately have "min_update_loop p idx 0 v t chunk e = Inr (chunk1, True)"
        using d(2) 2(1) less.prems(3) by (subst d(2), subst min_update_loop.simps) (auto simp: chunk1_def word_gt_0)
      then show ?thesis
        using 2 True e1(2) ins [of chunk1] by (auto simp: chunk_updated_def)
    next
      case 3
      have e1: "unat (e - 1) = unat e - 1" "0 < unat e"
        using 3(1) by (simp_all add: unat_pred)
      have no: "chunk_no p (unat (e - 1)) = chunk_no p (unat e)"
        using same [of "unat e - 1"] 3(2) e1 by auto
      then have fst: "first_of p (unat (e - 1)) = ?lo"
        by (simp add: first_of_def)
      have keep: "dist_at p v chunk1 x = ?f x" if "x \<in> {?lo..<unat e}" for x
        using dist_at_update(2) [OF assms(1) less.prems(1) same [OF that]] that by (simp add: chunk1_def)
      have "\<exists>chunk' keep. min_update_loop p idx 0 v t chunk1 (e - 1) = Inr (chunk', keep) \<and>
          chunk_updated p v (lowered (unat t)) {first_of p (unat (e - 1))..unat (e - 1)} chunk1 chunk' \<and>
          (keep \<longleftrightarrow> 0 < first_of p (unat (e - 1)) \<and>
            unat t < first_of p (unat (e - 1)) + dist_at p v chunk1 (first_of p (unat (e - 1))))"
      proof (rule less.hyps)
        show "unat (e - 1) < unat e" "unat (e - 1) < unat (historyLength p)" "e - 1 \<le> t"
          using e1 less.prems(2,4) by (auto simp: unat_le_u64)
        show "rising (dist_at p v chunk1) (first_of p (unat (e - 1))) (unat (e - 1))"
          using rising_cong [OF less.prems(6), of ?lo "unat e - 1" "dist_at p v chunk1"] keep e1 by (subst fst) simp
      qed (use len1 less.prems(3,5) no in simp_all)
      moreover have "{?lo..unat (e - 1)} = {?lo..<unat e}"
        using e1 by auto
      ultimately show ?thesis
        using d(2) 3 ins keep [of ?lo] by (auto simp: fst chunk1_def word_gt_0)
    qed
  qed
qed

text \<open>The last epoch of a chunk that an update up to the current epoch visits.\<close>

definition last_of :: "Parameters \<Rightarrow> nat \<Rightarrow> nat \<Rightarrow> nat" where
  "last_of p cur e = min (first_of p e + unat (chunkSize p) - 1) cur"

lemma max_update_loop_stop:
  assumes "good_params p" and "length chunk = chunk_len p" and "unat e < unat (historyLength p)"
    and "unat idx = chunk_no p (unat e)" and "\<not> unat e + dist_at p v chunk (unat e) < unat t" and "e \<le> cur"
  shows "max_update_loop p idx cur v t chunk e = Inr (chunk, False)"
proof -
  obtain c where c: "chunkIndex p e = Inr c" "c = idx"
    using chunkIndex_chunk_no [OF assms(1,3)] assms(4) by (auto simp: unat_eq_u64)
  obtain x where "chunkDataAtEpoch p chunk v e = Inr x" "unat x = unat e + dist_at p v chunk (unat e)"
    using chunkDataAtEpoch_dist [OF assms(1-3)] by blast
  then show ?thesis
    using c assms(5,6) by (subst max_update_loop.simps) (simp add: unat_less_u64)
qed

lemma max_update_loop_step:
  assumes "good_params p" and "length chunk = chunk_len p" and "unat e < unat (historyLength p)"
    and "unat idx = chunk_no p (unat e)" and "unat e + dist_at p v chunk (unat e) < unat t" and "e \<le> cur"
    and "unat t < 65536"
  shows "\<exists>d. unat d = unat t - unat e \<and> max_update_loop p idx cur v t chunk e =
    max_update_loop p idx cur v t (chunk[cell p v (unat e) := d]) (e + 1)"
proof -
  obtain c where c: "chunkIndex p e = Inr c" "c = idx"
    using chunkIndex_chunk_no [OF assms(1,3)] assms(4) by (auto simp: unat_eq_u64)
  obtain x where x: "chunkDataAtEpoch p chunk v e = Inr x" "unat x = unat e + dist_at p v chunk (unat e)"
    using chunkDataAtEpoch_dist [OF assms(1-3)] by blast
  have "e \<le> t"
    using assms(5) by (simp add: unat_le_u64)
  then obtain d where "setChunkDataAtEpoch p chunk v e t = Inr (chunk[cell p v (unat e) := d])" "unat d = unat t - unat e"
    using setChunkDataAtEpoch_dist [OF assms(1,2) _ assms(7)] by blast
  then show ?thesis
    using c x assms(5,6) by (subst max_update_loop.simps) (auto simp: unat_less_u64)
qed

lemma max_update_loop_spec:
  assumes "good_params p" and "length chunk = chunk_len p" and "unat cur < unat (historyLength p)" and "e \<le> cur"
    and "unat idx = chunk_no p (unat e)" and "unat t < 65536"
    and "rising (dist_at p v chunk) (unat e) (last_of p (unat cur) (unat e))"
  shows "\<exists>chunk' keep. max_update_loop p idx cur v t chunk e = Inr (chunk', keep) \<and>
    chunk_updated p v (raised (unat t)) {unat e..last_of p (unat cur) (unat e)} chunk chunk' \<and>
    (keep \<longleftrightarrow> last_of p (unat cur) (unat e) < unat cur \<and>
       last_of p (unat cur) (unat e) + dist_at p v chunk (last_of p (unat cur) (unat e)) < unat t)"
  using assms(2,4-)
proof (induction "unat cur - unat e" arbitrary: e chunk rule: less_induct)
  case less
  let ?f = "dist_at p v chunk" and ?hi = "last_of p (unat cur) (unat e)"
  have H: "unat e < unat (historyLength p)" and le: "unat e \<le> unat cur"
    using less.prems(2) assms(3) by (auto simp: unat_le_u64)
  have in_chunk: "unat e < first_of p (unat e) + unat (chunkSize p)"
    using chunk_range [OF assms(1), of "unat e" "unat e"] by simp
  then have hi: "unat e \<le> ?hi" "?hi \<le> unat cur"
    using le by (auto simp: last_of_def)
  show ?case
  proof (cases "unat e + ?f (unat e) < unat t")
    case False
    have "\<not> x + ?f x < unat t" if "unat e \<le> x" "x \<le> ?hi" for x
      using less.prems(5) [unfolded rising_def, rule_format, OF order_refl that] False by simp
    then show ?thesis
      using max_update_loop_stop [OF assms(1) less.prems(1) H less.prems(3) False less.prems(2)] hi
      by (auto simp: raised_def intro!: chunk_updated_id)
  next
    case True
    obtain d where d: "unat d = unat t - unat e" "max_update_loop p idx cur v t chunk e =
        max_update_loop p idx cur v t (chunk[cell p v (unat e) := d]) (e + 1)"
      using max_update_loop_step [OF assms(1) less.prems(1) H less.prems(3) True less.prems(2,4)] by blast
    define chunk1 where "chunk1 = chunk[cell p v (unat e) := d]"
    have len1: "length chunk1 = chunk_len p"
      by (simp add: chunk1_def less.prems(1))
    have up: "unat d = raised (unat t) (unat e) (?f (unat e))"
      using True d(1) by (simp add: raised_def)
    have e1: "unat (e + 1) = Suc (unat e)"
      using H unat_lt_2_64 [of "historyLength p"] by (simp add: unat_add_u64)
    have same: "x \<in> {unat e<..?hi} \<Longrightarrow> chunk_no p x = chunk_no p (unat e)" for x
      using chunk_range [OF assms(1), of x "unat e"] chunk_range [OF assms(1), of "unat e" "unat e"] in_chunk
      by (auto simp: last_of_def)
    have ins: "chunk_updated p v (raised (unat t)) {unat e..?hi} chunk chunk'"
      if "chunk_updated p v (raised (unat t)) {unat e<..?hi} chunk1 chunk'" for chunk'
      using chunk_updated_insert [OF assms(1) less.prems(1) _ same up that [unfolded chunk1_def]] hi
      by (simp add: ivl_disj_un_singleton(5) [symmetric])
    show ?thesis
    proof (cases "unat e = ?hi")
      case True
      obtain c where c0: "chunkIndex p (e + 1) = Inr c"
        using chunkIndex_total [OF assms(1)] by blast
      have "c \<noteq> idx" if "unat e < unat cur"
      proof -
        have "Suc (unat e) = first_of p (unat e) + unat (chunkSize p)"
          using True that in_chunk by (auto simp: last_of_def)
        then have "chunk_no p (unat (e + 1)) \<noteq> chunk_no p (unat e)"
          using chunk_range [OF assms(1), of "unat (e + 1)" "unat e"] by (simp add: e1)
        then show ?thesis
          using chunkIndex_chunk_no [OF assms(1), of "e + 1"] that assms(3) less.prems(3) c0 by (auto simp: e1)
      qed
      note c = c0 this
      have "max_update_loop p idx cur v t chunk e = Inr (chunk1, unat e < unat cur)"
        using c by (subst d(2), subst max_update_loop.simps) (auto simp: chunk1_def unat_le_u64 e1)
      then show ?thesis
        using True \<open>unat e + ?f (unat e) < unat t\<close> ins [of chunk1] by (auto simp: chunk_updated_def)
    next
      case False
      then have lt: "unat e < ?hi"
        using hi by simp
      have no: "chunk_no p (unat (e + 1)) = chunk_no p (unat e)"
        using same [of "unat (e + 1)"] lt by (simp add: e1)
      then have last: "last_of p (unat cur) (unat (e + 1)) = ?hi"
        by (simp add: last_of_def first_of_def)
      have keep: "dist_at p v chunk1 x = ?f x" if "x \<in> {unat e<..?hi}" for x
        using dist_at_update(2) [OF assms(1) less.prems(1) same [OF that]] that by (simp add: chunk1_def)
      have "\<exists>chunk' keep. max_update_loop p idx cur v t chunk1 (e + 1) = Inr (chunk', keep) \<and>
          chunk_updated p v (raised (unat t)) {unat (e + 1)..last_of p (unat cur) (unat (e + 1))} chunk1 chunk' \<and>
          (keep \<longleftrightarrow> last_of p (unat cur) (unat (e + 1)) < unat cur \<and>
            last_of p (unat cur) (unat (e + 1)) + dist_at p v chunk1 (last_of p (unat cur) (unat (e + 1))) < unat t)"
      proof (rule less.hyps)
        show "unat cur - unat (e + 1) < unat cur - unat e" "e + 1 \<le> cur"
          using lt hi by (simp_all add: unat_le_u64 e1)
        show "rising (dist_at p v chunk1) (unat (e + 1)) (last_of p (unat cur) (unat (e + 1)))"
          unfolding last using rising_cong [OF less.prems(5), of "unat (e + 1)" ?hi "dist_at p v chunk1"] keep by (simp add: e1)
      qed (use len1 less.prems(3,4) no in simp_all)
      moreover have "{unat (e + 1)..?hi} = {unat e<..?hi}"
        by (auto simp: e1)
      ultimately show ?thesis
        using d(2) ins keep [of ?hi] lt by (auto simp: last chunk1_def)
    qed
  qed
qed

end
