(* ===== verification/Slasher_Detect.thy ===== *)
theory Slasher_Detect
  imports Slasher_Spans
begin

text \<open>
  Attester slashing detection (\<open>beacon-chain/slasher/helpers.go\<close>, \<open>queue.go\<close>,
  \<open>detect_attestations.go\<close>, \<open>persist.go\<close> and the attestation routine of \<open>receive.go\<close>). The slasher
  database is reached through the operations of the record \<open>slasher_db\<close>, as the code reaches it through the
  interface \<open>db.SlasherDatabase\<close>; a saving operation returns the store it leaves, with its error. The order
  in which Go ranges over a map is an argument (\<open>ord\<close>). The loops over epochs and chunks are partial
  functions, so that a loop that does not return has the value \<open>None\<close>. Metrics and logs are left out.
\<close>

section \<open>Results of loops that may not return\<close>

definition bindO :: "'a res option \<Rightarrow> ('a \<Rightarrow> 'b res option) \<Rightarrow> 'b res option" where
  "bindO m f = (case m of None \<Rightarrow> None | Some r \<Rightarrow> (case r of Inl e \<Rightarrow> Some (Inl e) | Inr x \<Rightarrow> f x))"

lemma bindO_simps [simp]:
  "bindO None f = None" "bindO (Some (Inl e)) f = Some (Inl e)" "bindO (Some (Inr x)) f = f x"
  by (simp_all add: bindO_def)

fun foldO :: "('a \<Rightarrow> 'b \<Rightarrow> 'b res option) \<Rightarrow> 'a list \<Rightarrow> 'b \<Rightarrow> 'b res option" where
  "foldO f [] s = Some (Inr s)"
| "foldO f (x # xs) s = bindO (f x s) (foldO f xs)"

abbreviation wrapO :: "string \<Rightarrow> 'a res option \<Rightarrow> 'a res option" where
  "wrapO msg \<equiv> map_option (wrapR msg)"

section \<open>Service\<close>

record AttesterDoubleVote =
  dv_Target :: Epoch
  dv_ValidatorIndex :: ValidatorIndex
  dv_PrevAttestationWrapper :: IndexedAttestationWrapper
  dv_AttestationWrapper :: IndexedAttestationWrapper

type_synonym chunk_map = "u64 \<rightharpoonup> Chunker"
type_synonym slashing_map = "bytes \<rightharpoonup> AttesterSlashing"

record 'd slasher_db =
  db_AttestationRecordForValidator :: "'d \<Rightarrow> record_lookup"
  db_CheckAttesterDoubleVotes :: "'d \<Rightarrow> IndexedAttestationWrapper list \<Rightarrow> AttesterDoubleVote list res"
  db_SaveAttestationRecordsForValidators :: "'d \<Rightarrow> IndexedAttestationWrapper list \<Rightarrow> 'd \<times> unit res"
  db_LoadSlasherChunks :: "'d \<Rightarrow> ChunkKind \<Rightarrow> bytes list \<Rightarrow> (u16 list list \<times> bool list) res"
  db_SaveSlasherChunks :: "'d \<Rightarrow> ChunkKind \<Rightarrow> bytes list \<Rightarrow> u16 list list \<Rightarrow> 'd \<times> unit res"
  db_SaveSlasherChunksAndEpochs ::
    "'d \<Rightarrow> bytes list \<Rightarrow> u16 list list \<Rightarrow> bytes list \<Rightarrow> u16 list list \<Rightarrow> (ValidatorIndex \<rightharpoonup> Epoch) \<Rightarrow> 'd \<times> unit res"
  db_SaveLastEpochsWrittenForValidators :: "'d \<Rightarrow> (ValidatorIndex \<rightharpoonup> Epoch) \<Rightarrow> 'd \<times> unit res"

record 'd Service =
  sv_params :: Parameters
  sv_store :: 'd
  sv_attsQueue :: "IndexedAttestationWrapper option list"
  sv_latestEpochWrittenForValidator :: "ValidatorIndex \<rightharpoonup> Epoch"
  sv_lastEpochWrittenPersisted :: Epoch
  sv_maxChunksPerFlush :: int
  sv_attestationRetries :: "bytes \<rightharpoonup> u8"

record chunkUpdateArgs =
  ca_kind :: ChunkKind
  ca_validatorChunkIndex :: u64
  ca_currentEpoch :: Epoch

section \<open>Queue\<close>

definition attsQueue_push :: "'a option list \<Rightarrow> 'a option \<Rightarrow> 'a option list" where
  "attsQueue_push items att = items @ [att]"

definition attsQueue_dequeue :: "'a option list \<Rightarrow> 'a option list \<times> 'a option list" where
  "attsQueue_dequeue items = (items, [])"

definition attsQueue_extend :: "'a option list \<Rightarrow> 'a option list \<Rightarrow> 'a option list" where
  "attsQueue_extend items atts = items @ atts"

section \<open>Helpers\<close>

definition validateAttestationIntegrity :: "IndexedAttestation option \<Rightarrow> bool" where
  "validateAttestationIntegrity att =
     (case att of None \<Rightarrow> False
      | Some a \<Rightarrow> (case ia_Data a of None \<Rightarrow> False
        | Some d \<Rightarrow> (case (ad_Source d, ad_Target d) of
            (Some s, Some t) \<Rightarrow>
              if cp_Epoch s = 0 \<and> cp_Epoch t = 0 then True else cp_Epoch s < cp_Epoch t
          | _ \<Rightarrow> False)))"

definition filter_step ::
  "Parameters \<Rightarrow> Epoch \<Rightarrow> IndexedAttestationWrapper option
     \<Rightarrow> IndexedAttestationWrapper list \<times> IndexedAttestationWrapper list \<times> nat
     \<Rightarrow> (IndexedAttestationWrapper list \<times> IndexedAttestationWrapper list \<times> nat) res" where
  "filter_step p currentEpoch att st =
     (let (valid, validInFuture, numDropped) = st
      in case att of None \<Rightarrow> Inr (valid, validInFuture, Suc numDropped)
         | Some w \<Rightarrow>
             if \<not> validateAttestationIntegrity (iw_IndexedAttestation w) then Inr (valid, validInFuture, Suc numDropped)
             else bindR (iw_source w) (\<lambda>src. bindR (iw_target w) (\<lambda>tgt.
               if src + historyLength p \<le> currentEpoch then Inr (valid, validInFuture, Suc numDropped)
               else if tgt > currentEpoch then Inr (valid, validInFuture @ [w], numDropped)
               else Inr (valid @ [w], validInFuture, numDropped))))"

definition filterAttestations ::
  "Parameters \<Rightarrow> IndexedAttestationWrapper option list \<Rightarrow> Epoch
     \<Rightarrow> (IndexedAttestationWrapper list \<times> IndexedAttestationWrapper list \<times> nat) res" where
  "filterAttestations p atts currentEpoch = foldR (filter_step p currentEpoch) atts ([], [], 0)"

definition group_step ::
  "Parameters \<Rightarrow> IndexedAttestationWrapper \<Rightarrow> (u64 \<rightharpoonup> IndexedAttestationWrapper list)
     \<Rightarrow> (u64 \<rightharpoonup> IndexedAttestationWrapper list) res" where
  "group_step p att grouped =
     bindR (deref (iw_IndexedAttestation att)) (\<lambda>a.
     bindR (mapR (validatorChunkIndex p) (ia_AttestingIndices a)) (\<lambda>idxs.
       Inr (\<lambda>k. if k \<in> set idxs then Some ((case grouped k of None \<Rightarrow> [] | Some as \<Rightarrow> as) @ [att]) else grouped k)))"

definition groupByValidatorChunkIndex ::
  "Parameters \<Rightarrow> IndexedAttestationWrapper list \<Rightarrow> (u64 \<rightharpoonup> IndexedAttestationWrapper list) res" where
  "groupByValidatorChunkIndex p attestations = foldR (group_step p) attestations Map.empty"

text \<open>
  \<open>sort.SliceStable\<close> with the source epochs as keys; the comparison reads the source of every element as soon
  as there are two of them.
\<close>

definition sortBySourceEpoch :: "IndexedAttestationWrapper list \<Rightarrow> bool \<Rightarrow> IndexedAttestationWrapper list res" where
  "sortBySourceEpoch attestations descending =
     (if length attestations \<le> 1 then Inr attestations
      else bindR (mapR iw_source attestations) (\<lambda>srcs.
        Inr (map snd (sort_key (\<lambda>x. if descending then - int (unat (fst x)) else int (unat (fst x))) (zip srcs attestations)))))"

fun nat_to_string :: "nat \<Rightarrow> string" where
  "nat_to_string n =
     (if n < 10 then [char_of (48 + n)] else nat_to_string (n div 10) @ [char_of (48 + n mod 10)])"

declare nat_to_string.simps [simp del]

definition uintToString :: "u64 \<Rightarrow> string" where
  "uintToString val = nat_to_string (unat val)"

section \<open>Loading chunks\<close>

definition load_step ::
  "Parameters \<Rightarrow> ChunkKind \<Rightarrow> u16 list list \<Rightarrow> bool list \<Rightarrow> u64 list \<Rightarrow> nat \<Rightarrow> chunk_map \<Rightarrow> chunk_map res" where
  "load_step p kind rawChunks chunksExist chunkIndices i chunks =
     (if \<not> i < length chunksExist then Inl (Panic ''index out of range'')
      else bindR (wrapR ''could not initialize chunk''
        (case kind of
           MinSpan \<Rightarrow> if chunksExist ! i then bindR (MinChunkSpansSliceFrom p (rawChunks ! i)) (\<lambda>m. Inr (MinChunker m))
                      else Inr (MinChunker (EmptyMinSpanChunksSlice p))
         | MaxSpan \<Rightarrow> if chunksExist ! i then bindR (MaxChunkSpansSliceFrom p (rawChunks ! i)) (\<lambda>m. Inr (MaxChunker m))
                      else Inr (MaxChunker (EmptyMaxSpanChunksSlice p)))) (\<lambda>chunk.
        if \<not> i < length chunkIndices then Inl (Panic ''index out of range'')
        else Inr (chunks(chunkIndices ! i \<mapsto> chunk))))"

definition loadChunks ::
  "('d, 'z) slasher_db_scheme \<Rightarrow> 'd \<Rightarrow> Parameters \<Rightarrow> chunkUpdateArgs \<Rightarrow> u64 list \<Rightarrow> chunk_map res" where
  "loadChunks db d p args chunkIndices =
     bindR (mapR (flatSliceID p (ca_validatorChunkIndex args)) chunkIndices) (\<lambda>chunkKeys.
     bindR (wrapR ''could not load slasher chunk index'' (db_LoadSlasherChunks db d (ca_kind args) chunkKeys))
       (\<lambda>(rawChunks, chunksExist).
          foldR (load_step p (ca_kind args) rawChunks chunksExist chunkIndices) [0..<length rawChunks] Map.empty))"

definition getChunk ::
  "('d, 'z) slasher_db_scheme \<Rightarrow> 'd \<Rightarrow> Parameters \<Rightarrow> chunkUpdateArgs \<Rightarrow> chunk_map \<Rightarrow> u64 \<Rightarrow> Chunker res" where
  "getChunk db d p args chunksByChunkIdx chunkIdx =
     (case chunksByChunkIdx chunkIdx of Some chunk \<Rightarrow> Inr chunk
      | None \<Rightarrow> bindR (wrapR ''could not load chunk'' (loadChunks db d p args [chunkIdx])) (\<lambda>diskChunks.
          case diskChunks chunkIdx of Some chunk \<Rightarrow> Inr chunk
          | None \<Rightarrow> Inl (Err ''could not retrieve chunk from disk'')))"

section \<open>The change of epoch\<close>

partial_function (option) neutral_loop ::
  "Parameters \<Rightarrow> Epoch \<Rightarrow> ValidatorIndex \<Rightarrow> u64 \<Rightarrow> Chunker \<Rightarrow> chunk_map \<Rightarrow> Epoch \<Rightarrow> (chunk_map \<times> Epoch) res option" where
  "neutral_loop p currentEpoch v chunkIdx currentChunk updatedChunks epoch =
     (case chunkIndex p epoch of Inl e \<Rightarrow> Some (Inl e)
      | Inr ci \<Rightarrow>
          if ci = chunkIdx \<and> epoch \<le> currentEpoch
          then case setChunkRawDistance p (Chunk currentChunk) v epoch (NeutralElement currentChunk) of
                 Inl e \<Rightarrow> Some (Inl e)
               | Inr chunk \<Rightarrow> neutral_loop p currentEpoch v chunkIdx (set_Chunk chunk currentChunk)
                   (updatedChunks(chunkIdx \<mapsto> set_Chunk chunk currentChunk)) (epoch + 1)
          else Some (Inr (updatedChunks, epoch)))"

partial_function (option) epoch_loop ::
  "('d, 'z) slasher_db_scheme \<Rightarrow> 'd \<Rightarrow> Parameters \<Rightarrow> chunkUpdateArgs \<Rightarrow> ValidatorIndex \<Rightarrow> chunk_map \<Rightarrow> Epoch \<Rightarrow> chunk_map res option" where
  "epoch_loop db d p args v updatedChunks epoch =
     (if \<not> epoch \<le> ca_currentEpoch args then Some (Inr updatedChunks)
      else case bindR (chunkIndex p epoch) (\<lambda>chunkIdx. bindR (getChunk db d p args updatedChunks chunkIdx) (\<lambda>chunk. Inr (chunkIdx, chunk))) of
             Inl e \<Rightarrow> Some (Inl e)
           | Inr r \<Rightarrow> (case neutral_loop p (ca_currentEpoch args) v (fst r) (snd r) updatedChunks epoch of
               None \<Rightarrow> None
             | Some q \<Rightarrow> (case q of Inl e \<Rightarrow> Some (Inl e)
                 | Inr u \<Rightarrow> epoch_loop db d p args v (fst u) (snd u))))"

definition epochUpdateForValidator ::
  "('d, 'z) slasher_db_scheme \<Rightarrow> 'd Service \<Rightarrow> chunkUpdateArgs \<Rightarrow> chunk_map \<Rightarrow> ValidatorIndex \<Rightarrow> chunk_map res option" where
  "epochUpdateForValidator db s args updatedChunks validatorIndex =
     (case sv_latestEpochWrittenForValidator s validatorIndex of None \<Rightarrow> Some (Inr updatedChunks)
      | Some latestWritten \<Rightarrow>
          bindO (Some (wrapR ''could not add 1 to latest epoch written'' (Epoch_SafeAdd latestWritten 1))) (\<lambda>epoch.
            let epoch = (if epoch \<le> ca_currentEpoch args \<and> ca_currentEpoch args - epoch \<ge> historyLength (sv_params s)
                         then ca_currentEpoch args + 1 - historyLength (sv_params s) else epoch)
            in epoch_loop db (sv_store s) (sv_params s) args validatorIndex updatedChunks epoch))"

section \<open>Applying an attestation\<close>

text \<open>One round of the update loop: the chunks, and the epoch at which the next round starts if there is one.\<close>

definition span_step ::
  "('d, 'z) slasher_db_scheme \<Rightarrow> 'd \<Rightarrow> Parameters \<Rightarrow> chunkUpdateArgs \<Rightarrow> ValidatorIndex \<Rightarrow> Epoch \<Rightarrow> chunk_map \<Rightarrow> Epoch
     \<Rightarrow> (chunk_map \<times> Epoch option) res" where
  "span_step db d p args v targetEpoch chunks startEpoch =
     bindR (chunkIndex p startEpoch) (\<lambda>chunkIdx.
     bindR (wrapR ''could not get chunk'' (getChunk db d p args chunks chunkIdx)) (\<lambda>chunk.
     bindR (wrapR ''could not update chunk'' (Chunker_Update chunk chunkIdx (ca_currentEpoch args) v startEpoch targetEpoch))
       (\<lambda>(chunk, keepGoing).
          let chunks = chunks(chunkIdx \<mapsto> chunk)
          in if \<not> keepGoing then Inr (chunks, None)
             else bindR (NextChunkStartEpoch chunk startEpoch) (\<lambda>nxt. Inr (chunks, Some nxt)))))"

partial_function (option) span_loop ::
  "('d, 'z) slasher_db_scheme \<Rightarrow> 'd \<Rightarrow> Parameters \<Rightarrow> chunkUpdateArgs \<Rightarrow> ValidatorIndex \<Rightarrow> Epoch \<Rightarrow> chunk_map \<Rightarrow> Epoch
     \<Rightarrow> chunk_map res option" where
  "span_loop db d p args v targetEpoch chunks startEpoch =
     (case span_step db d p args v targetEpoch chunks startEpoch of
        Inl e \<Rightarrow> Some (Inl e)
      | Inr r \<Rightarrow> (case snd r of None \<Rightarrow> Some (Inr (fst r))
          | Some nxt \<Rightarrow> span_loop db d p args v targetEpoch (fst r) nxt))"

definition applyAttestationForValidator ::
  "('d, 'z) slasher_db_scheme \<Rightarrow> 'd \<Rightarrow> Parameters \<Rightarrow> chunkUpdateArgs \<Rightarrow> ValidatorIndex \<Rightarrow> chunk_map \<Rightarrow> IndexedAttestationWrapper
     \<Rightarrow> (AttesterSlashing option \<times> chunk_map) res option" where
  "applyAttestationForValidator db d p args v chunks att =
     bindO (Some (iw_source att)) (\<lambda>sourceEpoch.
     bindO (Some (iw_target att)) (\<lambda>targetEpoch.
     bindO (Some (bindR (chunkIndex p sourceEpoch) (\<lambda>idx. wrapR ''could not get chunk'' (getChunk db d p args chunks idx)))) (\<lambda>chunk.
     bindO (Some (wrapR ''could not check if attestation is slashable''
             (CheckSlashable (db_AttestationRecordForValidator db d) chunk v att))) (\<lambda>slashing.
     if slashing \<noteq> None then Some (Inr (slashing, chunks))
     else bindO (Some (StartEpoch chunk sourceEpoch (ca_currentEpoch args))) (\<lambda>start.
       case start of None \<Rightarrow> Some (Inr (None, chunks))
       | Some startEpoch \<Rightarrow>
           bindO (span_loop db d p args v targetEpoch chunks startEpoch) (\<lambda>chunks. Some (Inr (None, chunks))))))))"

definition apply_step ::
  "('d, 'z) slasher_db_scheme \<Rightarrow> (AttesterSlashing \<Rightarrow> bytes res) \<Rightarrow> 'd \<Rightarrow> Parameters \<Rightarrow> chunkUpdateArgs \<Rightarrow> IndexedAttestationWrapper
     \<Rightarrow> u64 \<Rightarrow> slashing_map \<times> chunk_map \<Rightarrow> (slashing_map \<times> chunk_map) res option" where
  "apply_step db htr d p args att validatorIndex st =
     (let (slashings, chunks) = st
      in bindO (Some (validatorChunkIndex p validatorIndex)) (\<lambda>computedValidatorChunkIdx.
         if ca_validatorChunkIndex args \<noteq> computedValidatorChunkIdx then Some (Inr (slashings, chunks))
         else bindO (wrapO ''could not apply attestation for validator index''
                (applyAttestationForValidator db d p args validatorIndex chunks att)) (\<lambda>(slashing, chunks).
           case slashing of None \<Rightarrow> Some (Inr (slashings, chunks))
           | Some sl \<Rightarrow> bindO (Some (wrapR ''could not hash tree root for attester slashing'' (htr sl))) (\<lambda>root.
               Some (Inr (slashings(root \<mapsto> sl), chunks))))))"

definition updateSpans ::
  "('d, 'z) slasher_db_scheme \<Rightarrow> (AttesterSlashing \<Rightarrow> bytes res) \<Rightarrow> 'd \<Rightarrow> Parameters \<Rightarrow> chunk_map \<Rightarrow> chunkUpdateArgs
     \<Rightarrow> IndexedAttestationWrapper list \<Rightarrow> (slashing_map \<times> chunk_map) res option" where
  "updateSpans db htr d p updatedChunks args attestations =
     foldO (\<lambda>att st. bindO (Some (deref (iw_IndexedAttestation att))) (\<lambda>a.
         foldO (apply_step db htr d p args att) (ia_AttestingIndices a) st))
       attestations (Map.empty, updatedChunks)"

section \<open>Detection\<close>

definition double_vote_step ::
  "(AttesterSlashing \<Rightarrow> bytes res) \<Rightarrow> IndexedAttestationWrapper \<Rightarrow> u64
     \<Rightarrow> slashing_map \<times> (string \<rightharpoonup> IndexedAttestationWrapper) \<Rightarrow> (slashing_map \<times> (string \<rightharpoonup> IndexedAttestationWrapper)) res" where
  "double_vote_step htr att valIdx st =
     (let (slashings, existingAtts) = st
      in bindR (iw_target att) (\<lambda>tgt.
         let key = uintToString tgt @ '':'' @ uintToString valIdx
         in case existingAtts key of None \<Rightarrow> Inr (slashings, existingAtts(key \<mapsto> att))
            | Some existingAtt \<Rightarrow>
                if iw_SigningRoot att \<noteq> iw_SigningRoot existingAtt
                then let slashing = \<lparr>Attestation_1 = iw_IndexedAttestation existingAtt, Attestation_2 = iw_IndexedAttestation att\<rparr>
                     in bindR (wrapR ''could not hash tree root for attester slashing'' (htr slashing)) (\<lambda>root.
                          Inr (slashings(root \<mapsto> slashing), existingAtts))
                else Inr (slashings, existingAtts)))"

definition checkDoubleVotesOnDisk ::
  "('d, 'z) slasher_db_scheme \<Rightarrow> (AttesterSlashing \<Rightarrow> bytes res) \<Rightarrow> 'd \<Rightarrow> IndexedAttestationWrapper list \<Rightarrow> slashing_map res" where
  "checkDoubleVotesOnDisk db htr d attestations =
     bindR (wrapR ''could not retrieve potential double votes from disk'' (db_CheckAttesterDoubleVotes db d attestations)) (\<lambda>doubleVotes.
       foldR (\<lambda>dv slashings.
         let slashing = \<lparr>Attestation_1 = iw_IndexedAttestation (dv_PrevAttestationWrapper dv),
                         Attestation_2 = iw_IndexedAttestation (dv_AttestationWrapper dv)\<rparr>
         in bindR (wrapR ''could not hash tree root for attester slashing'' (htr slashing)) (\<lambda>root. Inr (slashings(root \<mapsto> slashing))))
         doubleVotes Map.empty)"

definition checkDoubleVotes ::
  "('d, 'z) slasher_db_scheme \<Rightarrow> (AttesterSlashing \<Rightarrow> bytes res) \<Rightarrow> 'd \<Rightarrow> IndexedAttestationWrapper list \<Rightarrow> slashing_map res" where
  "checkDoubleVotes db htr d attestations =
     bindR (foldR (\<lambda>att st. bindR (deref (iw_IndexedAttestation att)) (\<lambda>a.
              foldR (double_vote_step htr att) (ia_AttestingIndices a) st)) attestations (Map.empty, Map.empty)) (\<lambda>(slashings, _).
     bindR (wrapR ''could not check attestation double votes on disk'' (checkDoubleVotesOnDisk db htr d attestations)) (\<lambda>moreSlashings.
       Inr (slashings ++ moreSlashings)))"

definition detectAllAttesterSlashings ::
  "('d, 'z) slasher_db_scheme \<Rightarrow> (AttesterSlashing \<Rightarrow> bytes res) \<Rightarrow> 'd Service \<Rightarrow> u64 \<Rightarrow> Epoch \<Rightarrow> IndexedAttestationWrapper list
     \<Rightarrow> (slashing_map \<times> chunk_map \<times> chunk_map) res option" where
  "detectAllAttesterSlashings db htr s validatorChunkIdx currentEpoch attestations =
     (let p = sv_params s; d = sv_store s;
          minArgs = \<lparr>ca_kind = MinSpan, ca_validatorChunkIndex = validatorChunkIdx, ca_currentEpoch = currentEpoch\<rparr>;
          maxArgs = \<lparr>ca_kind = MaxSpan, ca_validatorChunkIndex = validatorChunkIdx, ca_currentEpoch = currentEpoch\<rparr>
      in bindO (foldO (\<lambda>v (minChunks, maxChunks).
                 bindO (wrapO ''could not update validator index for min chunks'' (epochUpdateForValidator db s minArgs minChunks v)) (\<lambda>minChunks.
                 bindO (wrapO ''could not update validator index for max chunks'' (epochUpdateForValidator db s maxArgs maxChunks v)) (\<lambda>maxChunks.
                   Some (Inr (minChunks, maxChunks)))))
                 (validatorIndicesInChunk p validatorChunkIdx) (Map.empty, Map.empty)) (\<lambda>(minChunks, maxChunks).
         bindO (Some (sortBySourceEpoch attestations True)) (\<lambda>descending.
         bindO (wrapO ''could not update min attestation spans'' (updateSpans db htr d p minChunks minArgs descending)) (\<lambda>(surrounding, minChunks).
         bindO (Some (sortBySourceEpoch attestations False)) (\<lambda>ascending.
         bindO (wrapO ''could not update max attestation spans'' (updateSpans db htr d p maxChunks maxArgs ascending)) (\<lambda>(surrounded, maxChunks).
           Some (Inr (surrounding ++ surrounded, minChunks, maxChunks))))))))"

section \<open>Saving progress\<close>

definition flattenChunks ::
  "(u64 set \<Rightarrow> u64 list) \<Rightarrow> Parameters \<Rightarrow> (u64 \<rightharpoonup> chunk_map) \<Rightarrow> (bytes list \<times> u16 list list) res" where
  "flattenChunks ord p m =
     foldR (\<lambda>v acc. foldR (\<lambda>c (keys, chunks). bindR (flatSliceID p v c) (\<lambda>key.
         Inr (keys @ [key], chunks @ [Chunk (the (the (m v) c))]))) (ord (dom (the (m v)))) acc)
       (ord (dom m)) ([], [])"

definition saveUpdatedChunks ::
  "('d, 'z) slasher_db_scheme \<Rightarrow> (u64 set \<Rightarrow> u64 list) \<Rightarrow> 'd \<Rightarrow> Parameters \<Rightarrow> chunkUpdateArgs \<Rightarrow> chunk_map \<Rightarrow> 'd \<times> unit res" where
  "saveUpdatedChunks db ord d p args chunks =
     (case flattenChunks ord p [ca_validatorChunkIndex args \<mapsto> chunks] of
        Inl e \<Rightarrow> (d, Inl e)
      | Inr (chunkKeys, cs) \<Rightarrow> db_SaveSlasherChunks db d (ca_kind args) chunkKeys cs)"

definition saveProgressToDisk ::
  "('d, 'z) slasher_db_scheme \<Rightarrow> (u64 set \<Rightarrow> u64 list) \<Rightarrow> 'd \<Rightarrow> Parameters \<Rightarrow> (u64 \<rightharpoonup> chunk_map) \<Rightarrow> (u64 \<rightharpoonup> chunk_map)
     \<Rightarrow> (ValidatorIndex \<rightharpoonup> Epoch) \<Rightarrow> 'd \<times> unit res" where
  "saveProgressToDisk db ord d p minChunks maxChunks epochByValidator =
     (case bindR (flattenChunks ord p minChunks) (\<lambda>mn. bindR (flattenChunks ord p maxChunks) (\<lambda>mx. Inr (mn, mx))) of
        Inl e \<Rightarrow> (d, Inl e)
      | Inr ((minKeys, minCs), (maxKeys, maxCs)) \<Rightarrow>
          if length minKeys + length maxKeys = 0 \<and> epochByValidator = Map.empty then (d, Inr ())
          else db_SaveSlasherChunksAndEpochs db d minKeys minCs maxKeys maxCs epochByValidator)"

text \<open>The variables that the closure \<open>flush\<close> shares with the loop over the groups.\<close>

record flush_state =
  fs_min :: "u64 \<rightharpoonup> chunk_map"
  fs_max :: "u64 \<rightharpoonup> chunk_map"
  fs_epochsToPersist :: "ValidatorIndex \<rightharpoonup> Epoch"
  fs_chunksAccumulated :: nat

definition no_progress :: flush_state where
  "no_progress = \<lparr>fs_min = Map.empty, fs_max = Map.empty, fs_epochsToPersist = Map.empty, fs_chunksAccumulated = 0\<rparr>"

definition flush ::
  "('d, 'z) slasher_db_scheme \<Rightarrow> (u64 set \<Rightarrow> u64 list) \<Rightarrow> 'd Service \<Rightarrow> flush_state \<Rightarrow> 'd Service \<times> flush_state \<times> unit res" where
  "flush db ord s fs =
     (case saveProgressToDisk db ord (sv_store s) (sv_params s) (fs_min fs) (fs_max fs) (fs_epochsToPersist fs) of
        (d, Inl e) \<Rightarrow> (s\<lparr>sv_store := d\<rparr>, fs, wrapR ''could not save updated chunks to disk'' (Inl e))
      | (d, Inr u) \<Rightarrow>
          (s\<lparr>sv_store := d, sv_latestEpochWrittenForValidator := sv_latestEpochWrittenForValidator s ++ fs_epochsToPersist fs\<rparr>,
           no_progress, Inr ()))"

fun group_loop ::
  "('d, 'z) slasher_db_scheme \<Rightarrow> (AttesterSlashing \<Rightarrow> bytes res) \<Rightarrow> (u64 set \<Rightarrow> u64 list) \<Rightarrow> Epoch \<Rightarrow> (u64 \<rightharpoonup> IndexedAttestationWrapper list)
     \<Rightarrow> u64 list \<Rightarrow> 'd Service \<Rightarrow> slashing_map \<Rightarrow> flush_state \<Rightarrow> ('d Service \<times> slashing_map \<times> flush_state \<times> unit res) option" where
  "group_loop db htr ord currentEpoch groups [] s slashings fs = Some (s, slashings, fs, Inr ())"
| "group_loop db htr ord currentEpoch groups (k # ks) s slashings fs =
     (case detectAllAttesterSlashings db htr s k currentEpoch (case groups k of None \<Rightarrow> [] | Some batch \<Rightarrow> batch) of
        None \<Rightarrow> None
      | Some (Inl e) \<Rightarrow> Some (s, slashings, fs, Inl e)
      | Some (Inr (attSlashings, minChunks, maxChunks)) \<Rightarrow>
          (let slashings = slashings ++ attSlashings;
               groupChunks = length (ord (dom minChunks)) + length (ord (dom maxChunks))
           in case (if fs_chunksAccumulated fs > 0 \<and> int (fs_chunksAccumulated fs + groupChunks) > sv_maxChunksPerFlush s
                    then flush db ord s fs else (s, fs, Inr ())) of
                (s, fs, Inl e) \<Rightarrow> Some (s, slashings, fs, Inl e)
              | (s, fs, Inr u) \<Rightarrow>
                  group_loop db htr ord currentEpoch groups ks s slashings
                    \<lparr>fs_min = (fs_min fs)(k \<mapsto> minChunks), fs_max = (fs_max fs)(k \<mapsto> maxChunks),
                     fs_epochsToPersist = fold (\<lambda>idx m. m(idx \<mapsto> currentEpoch)) (validatorIndicesInChunk (sv_params s) k) (fs_epochsToPersist fs),
                     fs_chunksAccumulated = fs_chunksAccumulated fs + groupChunks\<rparr>))"

definition checkSlashableAttestations ::
  "('d, 'z) slasher_db_scheme \<Rightarrow> (AttesterSlashing \<Rightarrow> bytes res) \<Rightarrow> (u64 set \<Rightarrow> u64 list) \<Rightarrow> 'd Service \<Rightarrow> Epoch
     \<Rightarrow> IndexedAttestationWrapper list \<Rightarrow> ('d Service \<times> slashing_map \<times> unit res) option" where
  "checkSlashableAttestations db htr ord s currentEpoch atts =
     (case wrapR ''could not check slashable double votes'' (checkDoubleVotes db htr (sv_store s) atts) of
        Inl e \<Rightarrow> Some (s, Map.empty, Inl e)
      | Inr slashings \<Rightarrow>
          (case db_SaveAttestationRecordsForValidators db (sv_store s) atts of
             (d, Inl e) \<Rightarrow> Some (s\<lparr>sv_store := d\<rparr>, Map.empty, wrapR ''could not save attestation records to DB'' (Inl e))
           | (d, Inr u) \<Rightarrow>
               (let s = s\<lparr>sv_store := d\<rparr>
                in case groupByValidatorChunkIndex (sv_params s) atts of
                     Inl e \<Rightarrow> Some (s, slashings, Inl e)
                   | Inr groups \<Rightarrow>
                       (case group_loop db htr ord currentEpoch groups (ord (dom groups)) s slashings no_progress of
                          None \<Rightarrow> None
                        | Some (s, slashings, fs, Inl e) \<Rightarrow> Some (s, slashings, Inl e)
                        | Some (s, slashings, fs, Inr u) \<Rightarrow>
                            (case flush db ord s fs of (s, fs, r) \<Rightarrow> Some (s, slashings, r))))))"

section \<open>Ticks\<close>

definition maxAttestationRetries :: u8 where "maxAttestationRetries = 8"

definition requeue_step ::
  "IndexedAttestationWrapper \<Rightarrow> (bytes \<rightharpoonup> u8) \<times> IndexedAttestationWrapper option list \<Rightarrow> (bytes \<rightharpoonup> u8) \<times> IndexedAttestationWrapper option list" where
  "requeue_step att st =
     (let (retries, requeued) = st; n = (case retries (iw_SigningRoot att) of None \<Rightarrow> 0 | Some n \<Rightarrow> n)
      in if n \<ge> maxAttestationRetries then (retries(iw_SigningRoot att := None), requeued)
         else (retries(iw_SigningRoot att \<mapsto> n + 1), requeued @ [Some att]))"

definition requeueAttestations :: "'d Service \<Rightarrow> IndexedAttestationWrapper list \<Rightarrow> 'd Service" where
  "requeueAttestations s atts =
     (let (retries, requeued) = fold requeue_step atts (sv_attestationRetries s, [])
      in s\<lparr>sv_attestationRetries := retries, sv_attsQueue := attsQueue_extend (sv_attsQueue s) requeued\<rparr>)"

definition forgetAttestationRetries :: "'d Service \<Rightarrow> IndexedAttestationWrapper list \<Rightarrow> 'd Service" where
  "forgetAttestationRetries s atts =
     s\<lparr>sv_attestationRetries := fold (\<lambda>att m. m(iw_SigningRoot att := None)) atts (sv_attestationRetries s)\<rparr>"

definition persistLatestEpochWritten :: "('d, 'z) slasher_db_scheme \<Rightarrow> 'd Service \<Rightarrow> Epoch \<Rightarrow> 'd Service res" where
  "persistLatestEpochWritten db s currentEpoch =
     (if currentEpoch \<le> sv_lastEpochWrittenPersisted s then Inr s
      else case db_SaveLastEpochsWrittenForValidators db (sv_store s) (sv_latestEpochWrittenForValidator s) of
             (d, Inl (Err e)) \<Rightarrow> Inr (s\<lparr>sv_store := d\<rparr>)
           | (d, Inl (Panic e)) \<Rightarrow> Inl (Panic e)
           | (d, Inr u) \<Rightarrow> Inr (s\<lparr>sv_store := d, sv_lastEpochWrittenPersisted := currentEpoch\<rparr>))"

text \<open>One tick of the attestation routine. \<open>process\<close> stands for \<open>processAttesterSlashings\<close>.\<close>

definition processQueuedAttestations ::
  "config \<Rightarrow> ('d, 'z) slasher_db_scheme \<Rightarrow> (AttesterSlashing \<Rightarrow> bytes res) \<Rightarrow> (u64 set \<Rightarrow> u64 list) \<Rightarrow> (slashing_map \<Rightarrow> unit res)
     \<Rightarrow> 'd Service \<Rightarrow> Slot \<Rightarrow> ('d Service \<times> slashing_map) res option" where
  "processQueuedAttestations cfg db htr ord process s currentSlot =
     (let (attestations, rest) = attsQueue_dequeue (sv_attsQueue s);
          currentEpoch = ToEpoch cfg currentSlot
      in bindO (Some (filterAttestations (sv_params s) attestations currentEpoch)) (\<lambda>(validAtts, validInFuture, numDropped).
         let s = s\<lparr>sv_attsQueue := attsQueue_extend rest (map Some validInFuture)\<rparr>
         in case checkSlashableAttestations db htr ord s currentEpoch validAtts of
              None \<Rightarrow> None
            | Some (s, slashings, r) \<Rightarrow>
                (case r of Inl (Panic e) \<Rightarrow> Some (Inl (Panic e))
                 | _ \<Rightarrow>
                   let s = (if r = Inr () then forgetAttestationRetries s validAtts else requeueAttestations s validAtts)
                   in case process slashings of
                        Inl (Panic e) \<Rightarrow> Some (Inl (Panic e))
                      | Inl (Err e) \<Rightarrow> Some (Inr (s, slashings))
                      | Inr u \<Rightarrow> bindO (Some (persistLatestEpochWritten db s currentEpoch)) (\<lambda>s. Some (Inr (s, slashings))))))"

end
