(* ===== verification/Slasher_Surround.thy ===== *)
theory Slasher_Surround
  imports Slasher_Detect
begin

text \<open>
  What the min and max spans mean and what the slasher detects with them. The specification of a validator's
  spans is the set of its votes, pairs of a source and a target epoch (\<open>ideal\<close>). As long as the current epoch
  is below the history length, applying an attestation keeps the spans equal to the specification and reports
  an attestation exactly when it surrounds (min spans) or is surrounded by (max spans) an earlier vote.
\<close>

section \<open>Chunks of a map\<close>

fun chunk_ok :: "Parameters \<Rightarrow> ChunkKind \<Rightarrow> Chunker \<Rightarrow> bool" where
  "chunk_ok p MinSpan (MinChunker m) \<longleftrightarrow> min_params m = p \<and> length (min_data m) = chunk_len p"
| "chunk_ok p MaxSpan (MaxChunker m) \<longleftrightarrow> max_params m = p \<and> length (max_data m) = chunk_len p"
| "chunk_ok p MinSpan (MaxChunker m) \<longleftrightarrow> False"
| "chunk_ok p MaxSpan (MinChunker m) \<longleftrightarrow> False"

definition chunks_ok :: "Parameters \<Rightarrow> ChunkKind \<Rightarrow> chunk_map \<Rightarrow> bool" where
  "chunks_ok p kind chunks \<longleftrightarrow> (\<forall>c \<in> ran chunks. chunk_ok p kind c)"

text \<open>What the detector relies on of \<open>LoadSlasherChunks\<close>: one chunk of the right length per key, or none.\<close>

definition loads_chunks :: "('d, 'z) slasher_db_scheme \<Rightarrow> 'd \<Rightarrow> Parameters \<Rightarrow> bool" where
  "loads_chunks db d p \<longleftrightarrow> (\<forall>kind key. \<exists>chunk ex. db_LoadSlasherChunks db d kind [key] = Inr ([chunk], [ex])
     \<and> (ex \<longrightarrow> length chunk = chunk_len p))"

text \<open>The disk keys of the validator chunk fit 64 bits.\<close>

definition keys_fit :: "Parameters \<Rightarrow> u64 \<Rightarrow> bool" where
  "keys_fit p v \<longleftrightarrow> unat (historyLength p) * (unat v + 1) < 18446744073709551616"

lemma chunk_ok_length: "chunk_ok p kind c \<Longrightarrow> length (Chunk c) = chunk_len p"
  by (cases "(p, kind, c)" rule: chunk_ok.cases) auto

lemma flatSliceID_ok:
  assumes "good_params p" and "keys_fit p v" and "unat i < unat (historyLength p)"
  shows "\<exists>key. flatSliceID p v i = Inr key"
proof -
  have "unat (historyLength p) div unat (chunkSize p) \<le> unat (historyLength p)"
    by simp
  then have a: "unat (historyLength p) div unat (chunkSize p) * unat v \<le> unat (historyLength p) * unat v"
    by (rule mult_le_mono1)
  then have b: "unat (historyLength p) div unat (chunkSize p) * unat v + unat i < 18446744073709551616"
    using assms(2,3) unfolding keys_fit_def distrib_left by linarith
  show ?thesis
    using assms(1) b by (simp add: flatSliceID_def prim_cases good_params_def unat_div unat_mult_u64)
qed

lemma getChunk_ok:
  assumes "good_params p" and "loads_chunks db d p" and "keys_fit p (ca_validatorChunkIndex args)"
    and "unat i < unat (historyLength p)" and "chunks_ok p (ca_kind args) chunks"
  shows "\<exists>c. getChunk db d p args chunks i = Inr c \<and> chunk_ok p (ca_kind args) c"
proof (cases "chunks i")
  case (Some c)
  then show ?thesis
    using assms(5) by (auto simp: getChunk_def chunks_ok_def ran_def)
next
  case None
  obtain key where key: "flatSliceID p (ca_validatorChunkIndex args) i = Inr key"
    using flatSliceID_ok [OF assms(1,3,4)] by blast
  obtain chunk ex where ld: "db_LoadSlasherChunks db d (ca_kind args) [key] = Inr ([chunk], [ex])"
    "ex \<Longrightarrow> length chunk = chunk_len p"
    using assms(2) unfolding loads_chunks_def by blast
  have len: "ex \<Longrightarrow> of_nat (length chunk) = chunkSize p * validatorChunkSize p"
    using chunk_lengths(1) [OF assms(1) ld(2)] .
  have "unat (chunkSize p * validatorChunkSize p) = chunk_len p"
    using assms(1) by (simp add: good_params_def chunk_len_def unat_mult_u64)
  then show ?thesis
    using None key ld len
    by (cases "ca_kind args"; cases ex)
      (simp_all add: getChunk_def loadChunks_def load_step_def MinChunkSpansSliceFrom_def MaxChunkSpansSliceFrom_def
        EmptyMinSpanChunksSlice_def EmptyMaxSpanChunksSlice_def)
qed

section \<open>The span of a validator\<close>

definition span_dist ::
  "('d, 'z) slasher_db_scheme \<Rightarrow> 'd \<Rightarrow> Parameters \<Rightarrow> chunkUpdateArgs \<Rightarrow> chunk_map \<Rightarrow> ValidatorIndex \<Rightarrow> nat \<Rightarrow> nat" where
  "span_dist db d p args chunks v e =
     (case getChunk db d p args chunks (of_nat (chunk_no p e)) of Inl _ \<Rightarrow> 0 | Inr c \<Rightarrow> dist_at p v (Chunk c) e)"

lemma chunk_no_le: "chunk_no p e \<le> e"
  by (simp add: chunk_no_def)

lemma span_dist_at:
  assumes "getChunk db d p args chunks i = Inr c" and "unat i = chunk_no p e"
  shows "span_dist db d p args chunks v e = dist_at p v (Chunk c) e"
proof -
  have "of_nat (chunk_no p e) = i"
    using assms(2) by (metis of_nat_unat_word)
  then show ?thesis
    using assms(1) by (simp add: span_dist_def)
qed

text \<open>Putting an updated chunk back changes the span of the validator at the updated epochs only.\<close>

lemma span_dist_put:
  assumes "good_params p" and "getChunk db d p args chunks i = Inr c" and "chunk_ok p (ca_kind args) c"
    and "Chunk c' = data" and "chunk_updated p v upd S (Chunk c) data"
    and "\<And>x. x \<in> S \<Longrightarrow> chunk_no p x = unat i" and "e < unat (historyLength p)"
  shows "span_dist db d p args (chunks(i \<mapsto> c')) v e =
    (if e \<in> S then upd e (span_dist db d p args chunks v e) else span_dist db d p args chunks v e)"
proof (cases "chunk_no p e = unat i")
  case True
  have new: "span_dist db d p args (chunks(i \<mapsto> c')) v e = dist_at p v data e"
    using span_dist_at [of db d p args "chunks(i \<mapsto> c')" i c' e v] True assms(4) by (simp add: getChunk_def)
  have old: "span_dist db d p args chunks v e = dist_at p v (Chunk c) e"
    using span_dist_at [OF assms(2)] True by simp
  have "cell p v e \<notin> cell p v ` S" if "e \<notin> S"
    using cell_same [of p v e] assms(6) True that by (metis (no_types, lifting) image_iff)
  then show ?thesis
    using assms(5) unfolding new old chunk_updated_def dist_at_def by auto
next
  case False
  have "e < 18446744073709551616"
    using assms(7) unat_lt_2_64 [of "historyLength p"] by simp
  then have "unat (of_nat (chunk_no p e) :: u64) = chunk_no p e"
    using chunk_no_le [of p e] by (simp add: unat_of_nat_u64)
  then have "of_nat (chunk_no p e) \<noteq> i"
    using False by auto
  then show ?thesis
    using False assms(6) by (auto simp: span_dist_def getChunk_def)
qed

section \<open>Updating a span\<close>

text \<open>The setting of an update: sound parameters and store, chunks of the kind, current epoch in the first window.\<close>

definition window ::
  "('d, 'z) slasher_db_scheme \<Rightarrow> 'd \<Rightarrow> Parameters \<Rightarrow> chunkUpdateArgs \<Rightarrow> bool" where
  "window db d p args \<longleftrightarrow> good_params p \<and> loads_chunks db d p \<and> keys_fit p (ca_validatorChunkIndex args) \<and>
     unat (ca_currentEpoch args) < unat (historyLength p)"

lemma window_chunk:
  assumes "window db d p args" and "chunks_ok p (ca_kind args) chunks" and "unat e < unat (historyLength p)"
  obtains i c where "chunkIndex p e = Inr i" "unat i = chunk_no p (unat e)"
    "getChunk db d p args chunks i = Inr c" "chunk_ok p (ca_kind args) c"
proof -
  have w: "good_params p" "loads_chunks db d p" "keys_fit p (ca_validatorChunkIndex args)"
    using assms(1) by (simp_all add: window_def)
  obtain i where i: "chunkIndex p e = Inr i" "unat i = chunk_no p (unat e)"
    using chunkIndex_chunk_no [OF w(1) assms(3)] by blast
  then have "unat i < unat (historyLength p)"
    using assms(3) chunk_no_le [of p "unat e"] by linarith
  from getChunk_ok [OF w this assms(2)]
  obtain c where "getChunk db d p args chunks i = Inr c" "chunk_ok p (ca_kind args) c"
    by blast
  then show ?thesis
    using that i by blast
qed

lemma chunks_ok_put: "chunks_ok p kind chunks \<Longrightarrow> chunk_ok p kind c \<Longrightarrow> chunks_ok p kind (chunks(i \<mapsto> c))"
  by (auto simp: chunks_ok_def ran_def split: if_splits)

lemma first_of_props:
  assumes "good_params p"
  shows "first_of p e \<le> e" and "\<And>x. first_of p e \<le> x \<Longrightarrow> x \<le> e \<Longrightarrow> chunk_no p x = chunk_no p e"
  using chunk_range [OF assms, of _ e] by (auto intro: le_less_trans) 

lemma Min_Next:
  assumes "good_params p" and "chunkIndex p e = Inr i" and "unat i = chunk_no p (unat e)"
    and "unat e < unat (historyLength p)" and "0 < first_of p (unat e)"
  shows "\<exists>n. Min_NextChunkStartEpoch p e = Inr n \<and> unat n = first_of p (unat e) - 1"
proof -
  have C: "0 < unat (chunkSize p)"
    using assms(1) by (simp add: good_params_def unat_pos_u64)
  have i0: "0 < unat i"
    using assms(3,5) by (simp add: first_of_def)
  then have i: "0 < unat i" "unat (i - 1) = unat i - 1"
    by (simp_all add: unat_pred unat_pos_u64)
  have le: "unat i * unat (chunkSize p) \<le> unat e"
    using first_of_props(1) [OF assms(1)] assms(3) by (simp add: first_of_def)
  have step: "unat i * unat (chunkSize p) = (unat i - 1) * unat (chunkSize p) + unat (chunkSize p)"
    using i(1) by (cases "unat i") auto
  have e: "unat e < 18446744073709551616"
    by (rule unat_lt_2_64)
  have m: "unat ((i - 1) * chunkSize p) = (unat i - 1) * unat (chunkSize p)"
    using i(2) le step e by (subst unat_mult_u64) simp_all
  have c1: "unat (chunkSize p - 1) = unat (chunkSize p) - 1"
    using C by (simp add: unat_pred unat_pos_u64)
  have b: "unat ((i - 1) * chunkSize p) + unat (chunkSize p - 1) = unat i * unat (chunkSize p) - 1"
    using m c1 step C by linarith
  have "Min_NextChunkStartEpoch p e = Epoch_Add ((i - 1) * chunkSize p) (chunkSize p - 1)"
    using i0 assms(2) by (auto simp: Min_NextChunkStartEpoch_def lastEpoch_def firstEpoch_def unat_pos_u64 word_gt_0)
  moreover have "first_of p (unat e) - 1 = unat i * unat (chunkSize p) - 1"
    using assms(3) by (simp add: first_of_def)
  moreover have "unat i * unat (chunkSize p) - 1 < 18446744073709551616"
    using le e by linarith
  ultimately show ?thesis
    using b by (simp add: Epoch_arith unat_add_u64)
qed

lemma Max_Next:
  assumes "good_params p" and "chunkIndex p e = Inr i" and "unat i = chunk_no p (unat e)"
    and "unat e < unat (historyLength p)" and "first_of p (unat e) + unat (chunkSize p) < 18446744073709551616"
  shows "\<exists>n. Max_NextChunkStartEpoch p e = Inr n \<and> unat n = first_of p (unat e) + unat (chunkSize p)"
proof -
  have "chunk_no p (unat e) \<le> unat e"
    by (rule chunk_no_le)
  then have i: "unat (i + 1) = unat i + 1"
    using assms(1,3,4) by (simp add: unat_add_u64 good_params_def)
  then have "unat ((i + 1) * chunkSize p) = (unat i + 1) * unat (chunkSize p)"
    using assms(3,5) by (simp add: unat_mult_u64 first_of_def)
  then show ?thesis
    using assms(2,3) by (simp add: Max_NextChunkStartEpoch_def firstEpoch_def first_of_def)
qed

text \<open>The span of \<open>v\<close> is updated at the epochs in \<open>S\<close>; the spans at other validator offsets stay.\<close>

definition spans_updated ::
  "('d, 'z) slasher_db_scheme \<Rightarrow> 'd \<Rightarrow> Parameters \<Rightarrow> chunkUpdateArgs \<Rightarrow> ValidatorIndex \<Rightarrow> (nat \<Rightarrow> nat \<Rightarrow> nat) \<Rightarrow> nat set
     \<Rightarrow> chunk_map \<Rightarrow> chunk_map \<Rightarrow> bool" where
  "spans_updated db d p args v upd S chunks chunks' \<longleftrightarrow>
     (\<forall>e < unat (historyLength p). span_dist db d p args chunks' v e =
        (if e \<in> S then upd e (span_dist db d p args chunks v e) else span_dist db d p args chunks v e)) \<and>
     (\<forall>w. \<forall>e < unat (historyLength p). unat w mod unat (validatorChunkSize p) \<noteq> unat v mod unat (validatorChunkSize p) \<longrightarrow>
        span_dist db d p args chunks' w e = span_dist db d p args chunks w e)"

lemma spans_updated_trans:
  assumes "spans_updated db d p args v upd S chunks c1" and "spans_updated db d p args v upd T c1 c2" and "S \<inter> T = {}"
  shows "spans_updated db d p args v upd (S \<union> T) chunks c2"
  using assms unfolding spans_updated_def by auto

lemma cell_other:
  assumes "good_params p" and "unat w mod unat (validatorChunkSize p) \<noteq> unat v mod unat (validatorChunkSize p)"
  shows "cell p w e \<noteq> cell p v x"
proof
  assume eq: "cell p w e = cell p v x"
  have C: "0 < unat (chunkSize p)"
    using assms(1) by (simp add: good_params_def unat_pos_u64)
  have "cell p u y div unat (chunkSize p) = unat u mod unat (validatorChunkSize p)" for u y
    using C by (simp add: cell_def)
  then show False
    using eq assms(2) by metis
qed

lemma spans_updated_put:
  assumes "good_params p" and "getChunk db d p args chunks i = Inr c" and "chunk_ok p (ca_kind args) c"
    and "chunk_updated p v upd S (Chunk c) (Chunk c')" and "\<And>x. x \<in> S \<Longrightarrow> chunk_no p x = unat i"
  shows "spans_updated db d p args v upd S chunks (chunks(i \<mapsto> c'))"
proof -
  have "span_dist db d p args (chunks(i \<mapsto> c')) w e = span_dist db d p args chunks w e"
    if w: "unat w mod unat (validatorChunkSize p) \<noteq> unat v mod unat (validatorChunkSize p)" for w e
  proof (cases "of_nat (chunk_no p e) = i")
    case True
    have "cell p w e \<notin> cell p v ` S"
      using cell_other [OF assms(1) w] by blast
    then have "dist_at p w (Chunk c') e = dist_at p w (Chunk c) e"
      using assms(4) unfolding chunk_updated_def dist_at_def by simp
    then show ?thesis
      using True assms(2) by (simp add: span_dist_def getChunk_def)
  next
    case False
    then show ?thesis
      by (simp add: span_dist_def getChunk_def)
  qed
  then show ?thesis
    using span_dist_put [OF assms(1-3) refl assms(4,5)] unfolding spans_updated_def by blast
qed

lemma span_step_min:
  assumes "window db d p args" and "ca_kind args = MinSpan" and "chunks_ok p MinSpan chunks"
    and "unat start < unat (historyLength p)" and "start \<le> t" and "unat t < 65536"
    and "rising (span_dist db d p args chunks v) (first_of p (unat start)) (unat start)"
  shows "\<exists>chunks' nxt. span_step db d p args v t chunks start = Inr (chunks', nxt) \<and> chunks_ok p MinSpan chunks' \<and>
    spans_updated db d p args v (lowered (unat t)) {first_of p (unat start)..unat start} chunks chunks' \<and>
    (if 0 < first_of p (unat start) \<and> unat t < first_of p (unat start) + span_dist db d p args chunks v (first_of p (unat start))
     then \<exists>n. nxt = Some n \<and> unat n = first_of p (unat start) - 1 else nxt = None)"
proof -
  let ?lo = "first_of p (unat start)"
  have good: "good_params p" and cur: "unat (ca_currentEpoch args) < unat (historyLength p)"
    using assms(1) by (simp_all add: window_def)
  obtain i c where i: "chunkIndex p start = Inr i" "unat i = chunk_no p (unat start)"
    "getChunk db d p args chunks i = Inr c" "chunk_ok p MinSpan c"
    using window_chunk [OF assms(1) _ assms(4)] assms(2,3) by metis
  obtain m where m: "c = MinChunker m" "min_params m = p" "length (min_data m) = chunk_len p"
    using i(4) by (cases c) auto
  have dist: "span_dist db d p args chunks v x = dist_at p v (min_data m) x" if "?lo \<le> x" "x \<le> unat start" for x
    using span_dist_at [OF i(3)] first_of_props(2) [OF good that] i(2) m(1) by simp
  have "rising (dist_at p v (min_data m)) ?lo (unat start)"
    by (rule rising_cong [OF assms(7) order_refl order_refl]) (simp add: dist)
  then obtain data keep where loop: "min_update_loop p i 0 v t (min_data m) start = Inr (data, keep)"
      "chunk_updated p v (lowered (unat t)) {?lo..unat start} (min_data m) data"
      "keep \<longleftrightarrow> 0 < ?lo \<and> unat t < ?lo + dist_at p v (min_data m) ?lo"
    using min_update_loop_spec [OF good m(3) assms(4) i(2) assms(5,6)] by blast
  have "\<not> historyLength p - 1 < ca_currentEpoch args"
    using cur good by (simp add: unat_less_u64 unat_pred good_params_def not_less)
  then have upd: "Chunker_Update c i (ca_currentEpoch args) v start t = Inr (MinChunker (m\<lparr>min_data := data\<rparr>), keep)"
    using loop(1) m by (simp add: Min_Update_def Let_def)
  let ?chunks = "chunks(i \<mapsto> MinChunker (m\<lparr>min_data := data\<rparr>))"
  have su: "spans_updated db d p args v (lowered (unat t)) {?lo..unat start} chunks ?chunks"
  proof (rule spans_updated_put [OF good i(3)])
    show "chunk_no p x = unat i" if "x \<in> {?lo..unat start}" for x
      using first_of_props(2) [OF good, of "unat start" x] that i(2) by simp
  qed (use i(4) m(1) loop(2) assms(2) in simp_all)
  have ok: "chunks_ok p MinSpan ?chunks"
    using chunks_ok_put [OF assms(3)] m loop(2) by (simp add: chunk_updated_def)
  have "\<exists>n. keep \<longrightarrow> Min_NextChunkStartEpoch p start = Inr n \<and> unat n = ?lo - 1"
    using Min_Next [OF good i(1,2) assms(4)] loop(3) by (cases keep) auto
  then obtain n where n: "keep \<Longrightarrow> Min_NextChunkStartEpoch p start = Inr n \<and> unat n = ?lo - 1"
    by blast
  have "span_step db d p args v t chunks start = Inr (?chunks, if keep then Some n else None)"
    using i(1,3) upd m n by (simp add: span_step_def Let_def)
  then show ?thesis
    using su ok n loop(3) dist [of ?lo] first_of_props(1) [OF good, of "unat start"] by auto
qed

lemma span_step_max:
  assumes "window db d p args" and "ca_kind args = MaxSpan" and "chunks_ok p MaxSpan chunks"
    and "start \<le> ca_currentEpoch args" and "unat t < 65536"
    and "rising (span_dist db d p args chunks v) (unat start) (last_of p (unat (ca_currentEpoch args)) (unat start))"
  shows "\<exists>chunks' nxt. span_step db d p args v t chunks start = Inr (chunks', nxt) \<and> chunks_ok p MaxSpan chunks' \<and>
    spans_updated db d p args v (raised (unat t)) {unat start..last_of p (unat (ca_currentEpoch args)) (unat start)} chunks chunks' \<and>
    (let hi = last_of p (unat (ca_currentEpoch args)) (unat start)
     in if hi < unat (ca_currentEpoch args) \<and> hi + span_dist db d p args chunks v hi < unat t
        then \<exists>n. nxt = Some n \<and> unat n = hi + 1 else nxt = None)"
proof -
  let ?cur = "unat (ca_currentEpoch args)"
  let ?hi = "last_of p ?cur (unat start)"
  have good: "good_params p" and cur: "?cur < unat (historyLength p)"
    using assms(1) by (simp_all add: window_def)
  have H: "unat start < unat (historyLength p)"
    using cur assms(4) by (simp add: unat_le_u64)
  obtain i c where i: "chunkIndex p start = Inr i" "unat i = chunk_no p (unat start)"
    "getChunk db d p args chunks i = Inr c" "chunk_ok p MaxSpan c"
    using window_chunk [OF assms(1) _ H] assms(2,3) by metis
  obtain m where m: "c = MaxChunker m" "max_params m = p" "length (max_data m) = chunk_len p"
    using i(4) by (cases c) auto
  have hi: "unat start \<le> ?hi" "?hi < first_of p (unat start) + unat (chunkSize p)"
    using chunk_range [OF good, of "unat start" "unat start"] assms(4) by (auto simp: last_of_def unat_le_u64)
  have no: "chunk_no p x = chunk_no p (unat start)" if "unat start \<le> x" "x \<le> ?hi" for x
    using chunk_range [OF good] first_of_props(1) [OF good, of "unat start"] hi that by (meson le_less_trans le_trans)
  have dist: "span_dist db d p args chunks v x = dist_at p v (max_data m) x" if "unat start \<le> x" "x \<le> ?hi" for x
    using span_dist_at [OF i(3)] no [OF that] i(2) m(1) by simp
  have "rising (dist_at p v (max_data m)) (unat start) ?hi"
    by (rule rising_cong [OF assms(6) order_refl order_refl]) (simp add: dist)
  then obtain data keep where loop: "max_update_loop p i (ca_currentEpoch args) v t (max_data m) start = Inr (data, keep)"
      "chunk_updated p v (raised (unat t)) {unat start..?hi} (max_data m) data"
      "keep \<longleftrightarrow> ?hi < ?cur \<and> ?hi + dist_at p v (max_data m) ?hi < unat t"
    using max_update_loop_spec [OF good m(3) cur assms(4) i(2) assms(5)] by blast
  then have upd: "Chunker_Update c i (ca_currentEpoch args) v start t = Inr (MaxChunker (m\<lparr>max_data := data\<rparr>), keep)"
    using m by (simp add: Max_Update_def)
  let ?chunks = "chunks(i \<mapsto> MaxChunker (m\<lparr>max_data := data\<rparr>))"
  have su: "spans_updated db d p args v (raised (unat t)) {unat start..?hi} chunks ?chunks"
  proof (rule spans_updated_put [OF good i(3)])
    show "chunk_no p x = unat i" if "x \<in> {unat start..?hi}" for x
      using no [of x] that i(2) by simp
  qed (use i(4) m(1) loop(2) assms(2) in simp_all)
  have ok: "chunks_ok p MaxSpan ?chunks"
    using chunks_ok_put [OF assms(3)] m loop(2) by (simp add: chunk_updated_def)
  have "\<exists>n. keep \<longrightarrow> Max_NextChunkStartEpoch p start = Inr n \<and> unat n = ?hi + 1"
  proof (cases keep)
    case True
    then have "?hi + 1 = first_of p (unat start) + unat (chunkSize p)" "?hi < ?cur"
      using loop(3) hi(2) by (auto simp: last_of_def)
    moreover have "?cur < 18446744073709551616"
      by (rule unat_lt_2_64)
    ultimately show ?thesis
      using Max_Next [OF good i(1,2) H] by simp
  qed simp
  then obtain n where n: "keep \<Longrightarrow> Max_NextChunkStartEpoch p start = Inr n \<and> unat n = ?hi + 1"
    by blast
  have "span_step db d p args v t chunks start = Inr (?chunks, if keep then Some n else None)"
    using i(1,3) upd m n by (simp add: span_step_def Let_def)
  then show ?thesis
    using su ok n loop(3) dist [of ?hi] hi(1) by (auto simp: Let_def)
qed

lemma spans_updated_extend:
  assumes "spans_updated db d p args v upd S chunks chunks'"
    and "\<And>x. x \<in> T \<Longrightarrow> upd x (span_dist db d p args chunks v x) = span_dist db d p args chunks v x"
  shows "spans_updated db d p args v upd (S \<union> T) chunks chunks'"
  using assms unfolding spans_updated_def by auto

lemma spans_updated_same:
  "spans_updated db d p args v upd S chunks chunks' \<Longrightarrow> x < unat (historyLength p) \<Longrightarrow> x \<notin> S \<Longrightarrow>
    span_dist db d p args chunks' v x = span_dist db d p args chunks v x"
  by (simp add: spans_updated_def)

lemma span_loop_min:
  assumes "window db d p args" and "ca_kind args = MinSpan" and "chunks_ok p MinSpan chunks"
    and "unat start < unat (historyLength p)" and "start \<le> t" and "unat t < 65536"
    and "rising (span_dist db d p args chunks v) 0 (unat start)"
  shows "\<exists>chunks'. span_loop db d p args v t chunks start = Some (Inr chunks') \<and> chunks_ok p MinSpan chunks' \<and>
    spans_updated db d p args v (lowered (unat t)) {0..unat start} chunks chunks'"
  using assms(3-)
proof (induction "unat start" arbitrary: start chunks rule: less_induct)
  case less
  let ?lo = "first_of p (unat start)" and ?f = "span_dist db d p args chunks v"
  have lo: "?lo \<le> unat start"
    using assms(1) first_of_props(1) by (simp add: window_def)
  have rise: "rising ?f ?lo (unat start)"
    using rising_cong [OF less.prems(5)] by simp
  obtain c1 nxt where step: "span_step db d p args v t chunks start = Inr (c1, nxt)" "chunks_ok p MinSpan c1"
      "spans_updated db d p args v (lowered (unat t)) {?lo..unat start} chunks c1"
      "if 0 < ?lo \<and> unat t < ?lo + ?f ?lo then \<exists>n. nxt = Some n \<and> unat n = ?lo - 1 else nxt = None"
    using span_step_min [OF assms(1,2) less.prems(1-4) rise] by blast
  show ?case
  proof (cases "0 < ?lo \<and> unat t < ?lo + ?f ?lo")
    case False
    have id: "lowered (unat t) x (?f x) = ?f x" if "x \<in> {0..<?lo}" for x
      using less.prems(5) [unfolded rising_def, rule_format, of x ?lo] lo that False by (auto simp: lowered_def)
    have "{?lo..unat start} \<union> {0..<?lo} = {0..unat start}"
      using lo by auto
    then have "spans_updated db d p args v (lowered (unat t)) {0..unat start} chunks c1"
      using spans_updated_extend [OF step(3), of "{0..<?lo}"] id by simp
    moreover have "span_loop db d p args v t chunks start = Some (Inr c1)"
      using step(1,4) False by (subst span_loop.simps) simp
    ultimately show ?thesis
      using step(2) by blast
  next
    case True
    then obtain n where n: "nxt = Some n" "unat n = ?lo - 1"
      using step(4) by auto
    have same: "span_dist db d p args c1 v x = ?f x" if "x \<le> unat n" for x
      by (rule spans_updated_same [OF step(3)]) (use that n(2) True lo less.prems(2) in auto)
    have "\<exists>chunks'. span_loop db d p args v t c1 n = Some (Inr chunks') \<and> chunks_ok p MinSpan chunks' \<and>
        spans_updated db d p args v (lowered (unat t)) {0..unat n} c1 chunks'"
    proof (rule less.hyps)
      show "unat n < unat start" "unat n < unat (historyLength p)"
        using n(2) True lo less.prems(2) by linarith+
      show "n \<le> t"
        using n(2) True lo less.prems(3) unfolding unat_le_u64 by linarith
      show "rising (span_dist db d p args c1 v) 0 (unat n)"
        using rising_cong [OF less.prems(5), of 0 "unat n" "span_dist db d p args c1 v"] same n(2) lo by simp
    qed (use step(2) less.prems(4) in simp_all)
    then obtain chunks' where rec: "span_loop db d p args v t c1 n = Some (Inr chunks')" "chunks_ok p MinSpan chunks'"
        "spans_updated db d p args v (lowered (unat t)) {0..unat n} c1 chunks'"
      by blast
    have "{?lo..unat start} \<union> {0..unat n} = {0..unat start}" "{?lo..unat start} \<inter> {0..unat n} = {}"
      using n(2) True lo by auto
    then have "spans_updated db d p args v (lowered (unat t)) {0..unat start} chunks chunks'"
      using spans_updated_trans [OF step(3) rec(3)] by simp
    moreover have "span_loop db d p args v t chunks start = Some (Inr chunks')"
      using step(1) n(1) rec(1) by (subst span_loop.simps) simp
    ultimately show ?thesis
      using rec(2) by blast
  qed
qed

lemma span_loop_max:
  assumes "window db d p args" and "ca_kind args = MaxSpan" and "chunks_ok p MaxSpan chunks"
    and "start \<le> ca_currentEpoch args" and "unat t < 65536"
    and "rising (span_dist db d p args chunks v) (unat start) (unat (ca_currentEpoch args))"
  shows "\<exists>chunks'. span_loop db d p args v t chunks start = Some (Inr chunks') \<and> chunks_ok p MaxSpan chunks' \<and>
    spans_updated db d p args v (raised (unat t)) {unat start..unat (ca_currentEpoch args)} chunks chunks'"
  using assms(3-)
proof (induction "unat (ca_currentEpoch args) - unat start" arbitrary: start chunks rule: less_induct)
  case less
  let ?cur = "unat (ca_currentEpoch args)"
  let ?hi = "last_of p ?cur (unat start)" and ?f = "span_dist db d p args chunks v"
  have good: "good_params p" and cur: "?cur < unat (historyLength p)"
    using assms(1) by (simp_all add: window_def)
  have hi: "unat start \<le> ?hi" "?hi \<le> ?cur"
    using chunk_range [OF good, of "unat start" "unat start"] less.prems(2) by (auto simp: last_of_def unat_le_u64)
  have rise: "rising ?f (unat start) ?hi"
    using rising_cong [OF less.prems(4)] hi by simp
  obtain c1 nxt where step: "span_step db d p args v t chunks start = Inr (c1, nxt)" "chunks_ok p MaxSpan c1"
      "spans_updated db d p args v (raised (unat t)) {unat start..?hi} chunks c1"
      "if ?hi < ?cur \<and> ?hi + ?f ?hi < unat t then \<exists>n. nxt = Some n \<and> unat n = ?hi + 1 else nxt = None"
    using span_step_max [OF assms(1,2) less.prems(1-3) rise] unfolding Let_def by blast
  show ?case
  proof (cases "?hi < ?cur \<and> ?hi + ?f ?hi < unat t")
    case False
    have id: "raised (unat t) x (?f x) = ?f x" if "x \<in> {?hi<..?cur}" for x
      using less.prems(4) [unfolded rising_def, rule_format, of ?hi x] hi that False by (auto simp: raised_def)
    have "{unat start..?hi} \<union> {?hi<..?cur} = {unat start..?cur}"
      using hi by auto
    then have "spans_updated db d p args v (raised (unat t)) {unat start..?cur} chunks c1"
      using spans_updated_extend [OF step(3), of "{?hi<..?cur}"] id by simp
    moreover have "span_loop db d p args v t chunks start = Some (Inr c1)"
      using step(1,4) False by (subst span_loop.simps) simp
    ultimately show ?thesis
      using step(2) by blast
  next
    case True
    then obtain n where n: "nxt = Some n" "unat n = ?hi + 1"
      using step(4) by auto
    have same: "span_dist db d p args c1 v x = ?f x" if "unat n \<le> x" "x \<le> ?cur" for x
      by (rule spans_updated_same [OF step(3)]) (use that n(2) cur in auto)
    have "\<exists>chunks'. span_loop db d p args v t c1 n = Some (Inr chunks') \<and> chunks_ok p MaxSpan chunks' \<and>
        spans_updated db d p args v (raised (unat t)) {unat n..?cur} c1 chunks'"
    proof (rule less.hyps)
      show "?cur - unat n < ?cur - unat start"
        using n(2) True hi by linarith
      show "n \<le> ca_currentEpoch args"
        using n(2) True by (simp add: unat_le_u64)
      show "rising (span_dist db d p args c1 v) (unat n) ?cur"
        using rising_cong [OF less.prems(4), of "unat n" ?cur "span_dist db d p args c1 v"] same n(2) hi by simp
    qed (use step(2) less.prems(3) in simp_all)
    then obtain chunks' where rec: "span_loop db d p args v t c1 n = Some (Inr chunks')" "chunks_ok p MaxSpan chunks'"
        "spans_updated db d p args v (raised (unat t)) {unat n..?cur} c1 chunks'"
      by blast
    have "{unat start..?hi} \<union> {unat n..?cur} = {unat start..?cur}" "{unat start..?hi} \<inter> {unat n..?cur} = {}"
      using n(2) True hi by auto
    then have "spans_updated db d p args v (raised (unat t)) {unat start..?cur} chunks chunks'"
      using spans_updated_trans [OF step(3) rec(3)] by simp
    moreover have "span_loop db d p args v t chunks start = Some (Inr chunks')"
      using step(1) n(1) rec(1) by (subst span_loop.simps) simp
    ultimately show ?thesis
      using rec(2) by blast
  qed
qed

section \<open>The specification: sets of votes\<close>

type_synonym votes = "(nat \<times> nat) set" \<comment> \<open>source and target epochs\<close>

definition votes_ok :: "nat \<Rightarrow> votes \<Rightarrow> bool" where
  "votes_ok cur vs \<longleftrightarrow> finite vs \<and> (\<forall>(s, t) \<in> vs. (s < t \<or> s = 0) \<and> t \<le> cur)"

fun relevant :: "ChunkKind \<Rightarrow> votes \<Rightarrow> nat \<Rightarrow> nat set" where
  "relevant MinSpan vs e = {t. \<exists>s. (s, t) \<in> vs \<and> e < s}"
| "relevant MaxSpan vs e = {t. \<exists>s. (s, t) \<in> vs \<and> s < e}"

text \<open>The definition of the spans in the comments of \<open>chunks.go\<close>, as distances.\<close>

fun ideal :: "ChunkKind \<Rightarrow> votes \<Rightarrow> nat \<Rightarrow> nat" where
  "ideal MinSpan vs e = (if relevant MinSpan vs e = {} then 65535 else Min (relevant MinSpan vs e) - e)"
| "ideal MaxSpan vs e = (if relevant MaxSpan vs e = {} then 0 else Max (relevant MaxSpan vs e) - e)"

declare relevant.simps [simp del] ideal.simps [simp del]

fun conflicts :: "ChunkKind \<Rightarrow> nat \<times> nat \<Rightarrow> nat \<times> nat \<Rightarrow> bool" where
  "conflicts MinSpan (s, t) (s', t') \<longleftrightarrow> s < s' \<and> t' < t"
| "conflicts MaxSpan (s, t) (s', t') \<longleftrightarrow> s' < s \<and> t < t'"

lemma conflicts_iff:
  "(\<exists>b \<in> vs. conflicts MinSpan (s, t) b) \<longleftrightarrow> (\<exists>t' \<in> relevant MinSpan vs s. t' < t)"
  "(\<exists>b \<in> vs. conflicts MaxSpan (s, t) b) \<longleftrightarrow> (\<exists>t' \<in> relevant MaxSpan vs s. t < t')"
  by (auto simp: relevant.simps Bex_def split_paired_Ex)

lemma relevant_finite: "votes_ok cur vs \<Longrightarrow> finite (relevant kind vs e)"
proof -
  assume "votes_ok cur vs"
  then have "finite (snd ` vs)"
    by (simp add: votes_ok_def)
  moreover have "relevant kind vs e \<subseteq> snd ` vs"
    by (cases kind) (force simp: relevant.simps)+
  ultimately show ?thesis
    by (rule rev_finite_subset)
qed

lemma relevant_bounds:
  assumes "votes_ok cur vs" and "t \<in> relevant kind vs e"
  shows "t \<le> cur" and "kind = MinSpan \<Longrightarrow> e < t"
  using assms by (cases kind; fastforce simp: votes_ok_def relevant.simps)+

text \<open>The targets the spans stand for.\<close>

lemma ideal_target:
  assumes "votes_ok cur vs"
  shows "relevant MinSpan vs e \<noteq> {} \<Longrightarrow> e + ideal MinSpan vs e = Min (relevant MinSpan vs e)"
    and "relevant MaxSpan vs e \<noteq> {} \<Longrightarrow> e + ideal MaxSpan vs e = max e (Max (relevant MaxSpan vs e))"
proof -
  show "e + ideal MinSpan vs e = Min (relevant MinSpan vs e)" if "relevant MinSpan vs e \<noteq> {}"
    using relevant_bounds(2) [OF assms Min_in [OF relevant_finite [OF assms] that] refl] that
    by (simp add: ideal.simps)
qed (simp add: ideal.simps)

lemma ideal_rising:
  assumes "votes_ok cur vs" and "cur < 65535"
  shows "rising (ideal kind vs) 0 cur"
  unfolding rising_def
proof (intro allI impI)
  fix x y :: nat
  assume "x \<le> y" "y \<le> cur"
  have fin: "finite (relevant k vs e)" for k e
    by (rule relevant_finite [OF assms(1)])
  show "x + ideal kind vs x \<le> y + ideal kind vs y"
  proof (cases kind)
    case MinSpan
    have sub: "relevant MinSpan vs y \<subseteq> relevant MinSpan vs x"
      using \<open>x \<le> y\<close> by (auto simp: relevant.simps)
    consider "relevant MinSpan vs x = {}" | "relevant MinSpan vs x \<noteq> {}" "relevant MinSpan vs y = {}"
      | "relevant MinSpan vs y \<noteq> {}" "relevant MinSpan vs x \<noteq> {}"
      by blast
    then show ?thesis
    proof cases
      case 1
      then show ?thesis
        using sub \<open>x \<le> y\<close> MinSpan by (simp add: ideal.simps)
    next
      case 2
      then have "Min (relevant MinSpan vs x) \<le> cur"
        using relevant_bounds(1) [OF assms(1)] Min_in [OF fin 2(1)] by blast
      then show ?thesis
        using ideal_target(1) [OF assms(1) 2(1)] 2 assms(2) MinSpan by (simp add: ideal.simps)
    next
      case 3
      then show ?thesis
        using ideal_target(1) [OF assms(1)] Min_antimono [OF sub 3(1) fin] MinSpan by simp
    qed
  next
    case MaxSpan
    have sub: "relevant MaxSpan vs x \<subseteq> relevant MaxSpan vs y"
      using \<open>x \<le> y\<close> by (auto simp: relevant.simps)
    consider "relevant MaxSpan vs x = {}" | "relevant MaxSpan vs y \<noteq> {}" "relevant MaxSpan vs x \<noteq> {}"
      using sub by blast
    then show ?thesis
    proof cases
      case 1
      then show ?thesis
        using \<open>x \<le> y\<close> MaxSpan by (simp add: ideal.simps)
    next
      case 2
      then show ?thesis
        using ideal_target(2) [OF assms(1)] Max_mono [OF sub 2(2) fin] \<open>x \<le> y\<close> MaxSpan by (simp add: max_def)
    qed
  qed
qed

lemma ideal_insert_min:
  assumes "votes_ok cur vs" and "t \<le> cur" and "cur < 65535"
  shows "ideal MinSpan (insert (s, t) vs) e = (if e < s then lowered t e (ideal MinSpan vs e) else ideal MinSpan vs e)"
proof -
  have rel: "relevant MinSpan (insert (s, t) vs) e = (if e < s then insert t (relevant MinSpan vs e) else relevant MinSpan vs e)"
    by (auto simp: relevant.simps)
  show ?thesis
  proof (cases "relevant MinSpan vs e = {}")
    case True
    then show ?thesis
      using assms(2,3) rel by (auto simp: ideal.simps lowered_def)
  next
    case False
    define M where "M = Min (relevant MinSpan vs e)"
    have "ideal MinSpan (insert (s, t) vs) e = (if e < s then min t M else M) - e"
      using False relevant_finite [OF assms(1), of MinSpan e] by (simp add: ideal.simps rel M_def)
    moreover have "e + ideal MinSpan vs e = M" "ideal MinSpan vs e = M - e"
      using ideal_target(1) [OF assms(1) False] False by (simp_all add: M_def ideal.simps)
    ultimately show ?thesis
      by (simp add: lowered_def min_def)
  qed
qed

lemma ideal_insert_max:
  assumes "votes_ok cur vs"
  shows "ideal MaxSpan (insert (s, t) vs) e = (if s < e then raised t e (ideal MaxSpan vs e) else ideal MaxSpan vs e)"
proof -
  have rel: "relevant MaxSpan (insert (s, t) vs) e = (if s < e then insert t (relevant MaxSpan vs e) else relevant MaxSpan vs e)"
    by (auto simp: relevant.simps)
  show ?thesis
  proof (cases "relevant MaxSpan vs e = {}")
    case True
    then show ?thesis
      using rel by (auto simp: ideal.simps raised_def)
  next
    case False
    define M where "M = Max (relevant MaxSpan vs e)"
    have "ideal MaxSpan (insert (s, t) vs) e = (if s < e then max t M else M) - e"
      using False relevant_finite [OF assms(1), of MaxSpan e] by (simp add: ideal.simps rel M_def)
    moreover have "e + ideal MaxSpan vs e = max e M" "ideal MaxSpan vs e = M - e"
      using ideal_target(2) [OF assms(1) False] False by (simp_all add: M_def ideal.simps)
    ultimately show ?thesis
      by (auto simp: raised_def max_def)
  qed
qed

section \<open>Detection\<close>

definition represents ::
  "('d, 'z) slasher_db_scheme \<Rightarrow> 'd \<Rightarrow> Parameters \<Rightarrow> chunkUpdateArgs \<Rightarrow> chunk_map \<Rightarrow> ValidatorIndex \<Rightarrow> votes \<Rightarrow> bool" where
  "represents db d p args chunks v vs \<longleftrightarrow> chunks_ok p (ca_kind args) chunks \<and> votes_ok (unat (ca_currentEpoch args)) vs \<and>
     (\<forall>e \<le> unat (ca_currentEpoch args). span_dist db d p args chunks v e = ideal (ca_kind args) vs e)"

text \<open>The record lookup of the database knows the votes: one record per target, with the vote's source.\<close>

definition recorded :: "record_lookup \<Rightarrow> ValidatorIndex \<Rightarrow> votes \<Rightarrow> bool" where
  "recorded lookup v vs \<longleftrightarrow> (\<forall>(s, t) \<in> vs. \<exists>w. lookup v (of_nat t) = Inr (Some w) \<and>
     iw_source w = Inr (of_nat s) \<and> iw_target w = Inr (of_nat t))"

lemma CheckSlashable_min:
  assumes "good_params p" and "length (min_data m) = chunk_len p" and "min_params m = p"
    and "iw_source att = Inr s" and "iw_target att = Inr t" and "unat s < unat (historyLength p)"
    and "dist_at p v (min_data m) (unat s) = ideal MinSpan vs (unat s)"
    and "votes_ok cur vs" and "recorded lookup v vs" and "cur < 65535" and "unat t \<le> cur"
  shows "\<exists>sl. Min_CheckSlashable lookup m v att = Inr sl \<and>
    (sl \<noteq> None \<longleftrightarrow> (\<exists>b \<in> vs. conflicts MinSpan (unat s, unat t) b)) \<and>
    (\<forall>x. sl = Some x \<longrightarrow> (\<exists>w. Attestation_1 x = iw_IndexedAttestation att \<and> Attestation_2 x = iw_IndexedAttestation w \<and>
       (\<exists>s' t'. iw_source w = Inr s' \<and> iw_target w = Inr t' \<and> s < s' \<and> t' < t)))"
proof -
  obtain x where x: "chunkDataAtEpoch p (min_data m) v s = Inr x" "unat x = unat s + ideal MinSpan vs (unat s)"
    using chunkDataAtEpoch_dist [OF assms(1,2,6)] assms(7) by metis
  let ?T = "relevant MinSpan vs (unat s)"
  have iff: "(\<exists>b \<in> vs. conflicts MinSpan (unat s, unat t) b) \<longleftrightarrow> (\<exists>t' \<in> ?T. t' < unat t)"
    by (rule conflicts_iff)
  show ?thesis
  proof (cases "x < t")
    case False
    have "\<not> (\<exists>t' \<in> ?T. t' < unat t)"
    proof
      assume "\<exists>t' \<in> ?T. t' < unat t"
      then obtain t' where t': "t' \<in> ?T" "t' < unat t" by blast
      then have "Min ?T \<le> t'"
        using relevant_finite [OF assms(8)] by simp
      then show False
        using ideal_target(1) [OF assms(8), of "unat s"] t' False x(2) by (auto simp: unat_less_u64)
    qed
    then show ?thesis
      using False x assms(3-5) iff by (simp add: Min_CheckSlashable_def)
  next
    case True
    then have "?T \<noteq> {}"
      using x(2) assms(10,11) by (auto simp: ideal.simps unat_less_u64)
    then have "unat x \<in> ?T"
      using Min_in [OF relevant_finite [OF assms(8)]] ideal_target(1) [OF assms(8)] x(2) by simp
    then obtain s' where s': "(s', unat x) \<in> vs" "unat s < s'"
      by (auto simp: relevant.simps)
    then obtain w where w: "lookup v x = Inr (Some w)" "iw_source w = Inr (of_nat s')" "iw_target w = Inr x"
      using assms(9) by (fastforce simp: recorded_def)
    have "s' < unat x" "unat x \<le> cur"
      using s' assms(8) by (auto simp: votes_ok_def)
    then have "unat (of_nat s' :: u64) = s'"
      using assms(10) by (simp add: unat_of_nat_u64)
    then have "s < of_nat s'"
      using s'(2) by (simp add: unat_less_u64)
    moreover have "\<exists>t' \<in> ?T. t' < unat t"
      using \<open>unat x \<in> ?T\<close> True by (auto simp: unat_less_u64)
    ultimately show ?thesis
      using True x(1) w assms(3-5) iff by (auto simp: Min_CheckSlashable_def)
  qed
qed

lemma CheckSlashable_max:
  assumes "good_params p" and "length (max_data m) = chunk_len p" and "max_params m = p"
    and "iw_source att = Inr s" and "iw_target att = Inr t" and "unat s < unat (historyLength p)"
    and "dist_at p v (max_data m) (unat s) = ideal MaxSpan vs (unat s)"
    and "votes_ok cur vs" and "recorded lookup v vs" and "cur < 65535" and "s < t \<or> s = 0"
  shows "\<exists>sl. Max_CheckSlashable lookup m v att = Inr sl \<and>
    (sl \<noteq> None \<longleftrightarrow> (\<exists>b \<in> vs. conflicts MaxSpan (unat s, unat t) b)) \<and>
    (\<forall>x. sl = Some x \<longrightarrow> (\<exists>w. Attestation_1 x = iw_IndexedAttestation w \<and> Attestation_2 x = iw_IndexedAttestation att \<and>
       (\<exists>s' t'. iw_source w = Inr s' \<and> iw_target w = Inr t' \<and> s' < s \<and> t < t')))"
proof -
  obtain x where x: "chunkDataAtEpoch p (max_data m) v s = Inr x" "unat x = unat s + ideal MaxSpan vs (unat s)"
    using chunkDataAtEpoch_dist [OF assms(1,2,6)] assms(7) by metis
  let ?T = "relevant MaxSpan vs (unat s)"
  have iff: "(\<exists>b \<in> vs. conflicts MaxSpan (unat s, unat t) b) \<longleftrightarrow> (\<exists>t' \<in> ?T. unat t < t')"
    by (rule conflicts_iff)
  have le: "unat s \<le> unat t"
    using assms(11) by (auto simp: unat_less_u64)
  show ?thesis
  proof (cases "t < x")
    case False
    have "\<not> (\<exists>t' \<in> ?T. unat t < t')"
    proof
      assume "\<exists>t' \<in> ?T. unat t < t'"
      then obtain t' where t': "t' \<in> ?T" "unat t < t'" by blast
      then have "t' \<le> Max ?T"
        using relevant_finite [OF assms(8)] by simp
      then show False
        using ideal_target(2) [OF assms(8), of "unat s"] t' False x(2) by (auto simp: unat_less_u64)
    qed
    then show ?thesis
      using False x assms(3-5) iff by (simp add: Max_CheckSlashable_def)
  next
    case True
    then have ne: "?T \<noteq> {}"
      using x(2) le by (auto simp: ideal.simps unat_less_u64)
    have "unat x = Max ?T"
      using ideal_target(2) [OF assms(8) ne] x(2) True le by (simp add: unat_less_u64 max_def split: if_splits)
    then have in_T: "unat x \<in> ?T"
      using Max_in [OF relevant_finite [OF assms(8)] ne] by simp
    then obtain s' where s': "(s', unat x) \<in> vs" "s' < unat s"
      by (auto simp: relevant.simps)
    then obtain w where w: "lookup v x = Inr (Some w)" "iw_source w = Inr (of_nat s')" "iw_target w = Inr x"
      using assms(9) by (fastforce simp: recorded_def)
    have "unat (of_nat s' :: u64) = s'"
      using s'(2) unat_lt_2_64 [of s] by (simp add: unat_of_nat_u64)
    then have "of_nat s' < s"
      using s'(2) by (simp add: unat_less_u64)
    moreover have "\<exists>t' \<in> ?T. unat t < t'"
      using in_T True by (auto simp: unat_less_u64)
    ultimately show ?thesis
      using True x(1) w assms(3-5) iff by (auto simp: Max_CheckSlashable_def)
  qed
qed

text \<open>A reported slashing is a surround vote of the incoming attestation and a recorded one.\<close>

lemma surround_of_epochs:
  assumes "iw_IndexedAttestation a = Some ia" and "iw_IndexedAttestation b = Some ib"
    and "iw_source a = Inr sa" "iw_target a = Inr ta" "iw_source b = Inr sb" "iw_target b = Inr tb" and "sa < sb" "tb < ta"
  shows "IsSurround ia ib = Inr True"
  using assms by (simp add: IsSurround_def iw_source_def iw_target_def)

lemma iw_target_pointer: "iw_target w = Inr t \<Longrightarrow> \<exists>ia. iw_IndexedAttestation w = Some ia"
  by (auto simp: iw_target_def bindR_eq_Inr)

lemma window_cur: "window db d p args \<Longrightarrow> unat (ca_currentEpoch args) < 65535"
  by (simp add: window_def good_params_def)

lemma represents_rising:
  assumes "window db d p args" and "represents db d p args chunks v vs" and "b \<le> unat (ca_currentEpoch args)"
  shows "rising (span_dist db d p args chunks v) a b"
  using ideal_rising [OF _ window_cur [OF assms(1)], of vs "ca_kind args"] assms(2,3)
  unfolding represents_def rising_def by simp

lemma votes_ok_insert: "votes_ok cur vs \<Longrightarrow> s < t \<or> s = 0 \<Longrightarrow> t \<le> cur \<Longrightarrow> votes_ok cur (insert (s, t) vs)"
  by (simp add: votes_ok_def)

text \<open>The shared part of the two kinds: the chunk of the source epoch, and the update that follows the test.\<close>

lemma apply_unfold:
  assumes "iw_source att = Inr s" and "iw_target att = Inr t" and "chunkIndex p s = Inr i"
    and "getChunk db d p args chunks i = Inr c"
    and "CheckSlashable (db_AttestationRecordForValidator db d) c v att = Inr sl"
    and "StartEpoch c s (ca_currentEpoch args) = Inr start"
    and "\<And>e. sl = None \<Longrightarrow> start = Some e \<Longrightarrow> span_loop db d p args v t chunks e = Some (Inr chunks')"
    and "sl \<noteq> None \<or> start = None \<Longrightarrow> chunks' = chunks"
  shows "applyAttestationForValidator db d p args v chunks att = Some (Inr (sl, chunks'))"
  using assms by (cases sl; cases start) (simp_all add: applyAttestationForValidator_def)

lemma apply_min:
  assumes "window db d p args" and "ca_kind args = MinSpan" and "represents db d p args chunks v vs"
    and "recorded (db_AttestationRecordForValidator db d) v vs"
    and "iw_source att = Inr s" and "iw_target att = Inr t" and "s < t \<or> s = 0" and "t \<le> ca_currentEpoch args"
  shows "\<exists>sl chunks'. applyAttestationForValidator db d p args v chunks att = Some (Inr (sl, chunks')) \<and>
    (sl \<noteq> None \<longleftrightarrow> (\<exists>b \<in> vs. conflicts MinSpan (unat s, unat t) b)) \<and>
    (sl = None \<longrightarrow> represents db d p args chunks' v (insert (unat s, unat t) vs)) \<and>
    (sl \<noteq> None \<longrightarrow> chunks' = chunks) \<and>
    (\<forall>x. sl = Some x \<longrightarrow> (\<exists>a b. Attestation_1 x = Some a \<and> Attestation_2 x = Some b \<and> IsSurround a b = Inr True))"
proof -
  let ?cur = "unat (ca_currentEpoch args)"
  have good: "good_params p" and cur: "?cur < unat (historyLength p)"
    using assms(1) by (simp_all add: window_def)
  have ok: "chunks_ok p MinSpan chunks" and vok: "votes_ok ?cur vs"
    and eq: "\<And>e. e \<le> ?cur \<Longrightarrow> span_dist db d p args chunks v e = ideal MinSpan vs e"
    using assms(2,3) by (simp_all add: represents_def)
  have st: "unat s \<le> unat t" "unat t \<le> ?cur" "unat s < unat (historyLength p)"
    using assms(7,8) cur by (auto simp: unat_le_u64 unat_less_u64)
  have ins: "votes_ok ?cur (insert (unat s, unat t) vs)"
    by (rule votes_ok_insert [OF vok _ st(2)]) (use assms(7) in \<open>auto simp: unat_less_u64\<close>)
  obtain i c where i: "chunkIndex p s = Inr i" "unat i = chunk_no p (unat s)"
    "getChunk db d p args chunks i = Inr c" "chunk_ok p MinSpan c"
    using window_chunk [OF assms(1) _ st(3)] assms(2) ok by metis
  obtain m where m: "c = MinChunker m" "min_params m = p" "length (min_data m) = chunk_len p"
    using i(4) by (cases c) auto
  have "dist_at p v (min_data m) (unat s) = ideal MinSpan vs (unat s)"
    using span_dist_at [OF i(3,2), of v] eq [of "unat s"] st m(1) by simp
  from CheckSlashable_min [OF good m(3,2) assms(5,6) st(3) this vok assms(4) window_cur [OF assms(1)] st(2)]
  obtain sl where sl: "Min_CheckSlashable (db_AttestationRecordForValidator db d) m v att = Inr sl"
      "sl \<noteq> None \<longleftrightarrow> (\<exists>b \<in> vs. conflicts MinSpan (unat s, unat t) b)"
      "\<And>x. sl = Some x \<Longrightarrow> \<exists>w. Attestation_1 x = iw_IndexedAttestation att \<and> Attestation_2 x = iw_IndexedAttestation w \<and>
         (\<exists>s' t'. iw_source w = Inr s' \<and> iw_target w = Inr t' \<and> s < s' \<and> t' < t)"
    by blast
  have sound: "\<exists>a b. Attestation_1 x = Some a \<and> Attestation_2 x = Some b \<and> IsSurround a b = Inr True" if x: "sl = Some x" for x
  proof -
    obtain w s' t' where w: "Attestation_1 x = iw_IndexedAttestation att" "Attestation_2 x = iw_IndexedAttestation w"
        "iw_source w = Inr s'" "iw_target w = Inr t'" "s < s'" "t' < t"
      using sl(3) [OF x] by blast
    obtain a b where ab: "iw_IndexedAttestation att = Some a" "iw_IndexedAttestation w = Some b"
      using iw_target_pointer [OF assms(6)] iw_target_pointer [OF w(4)] by blast
    show ?thesis
      using surround_of_epochs [OF ab assms(5,6) w(3-6)] w(1,2) ab by simp
  qed
  have start: "Min_StartEpoch p s (ca_currentEpoch args) = Inr (if s = 0 then None else Some (s - 1))"
  proof -
    have "\<not> historyLength p < ca_currentEpoch args"
      using cur by (simp add: unat_less_u64)
    moreover have "1 \<le> s" if "s \<noteq> 0"
      using that by (simp add: unat_le_u64 Suc_le_eq unat_pos_u64)
    ultimately show ?thesis
      by (simp add: Min_StartEpoch_def Epoch_arith)
  qed
  have upd: "\<exists>chunks'. (\<forall>e. (if s = 0 then None else Some (s - 1)) = Some e \<longrightarrow> span_loop db d p args v t chunks e = Some (Inr chunks')) \<and>
      (s = 0 \<longrightarrow> chunks' = chunks) \<and> represents db d p args chunks' v (insert (unat s, unat t) vs)"
  proof (cases "s = 0")
    case True
    then have "ideal MinSpan (insert (unat s, unat t) vs) e = ideal MinSpan vs e" for e
      using ideal_insert_min [OF vok st(2) window_cur [OF assms(1)], of "unat s" e] by simp
    then show ?thesis
      using True ok ins eq assms(2) by (simp add: represents_def)
  next
    case False
    then have s1: "unat (s - 1) = unat s - 1" "0 < unat s"
      by (simp_all add: unat_pred)
    then have "s - 1 \<le> t" "unat (s - 1) < unat (historyLength p)" "unat t < 65536"
      using st window_cur [OF assms(1)] by (simp_all add: unat_le_u64)
    moreover have "rising (span_dist db d p args chunks v) 0 (unat (s - 1))"
      by (rule represents_rising [OF assms(1,3)]) (use s1 st in linarith)
    ultimately obtain chunks' where loop: "span_loop db d p args v t chunks (s - 1) = Some (Inr chunks')"
        "chunks_ok p MinSpan chunks'" "spans_updated db d p args v (lowered (unat t)) {0..unat (s - 1)} chunks chunks'"
      using span_loop_min [OF assms(1,2) ok] by blast
    have "span_dist db d p args chunks' v e = ideal MinSpan (insert (unat s, unat t) vs) e" if "e \<le> ?cur" for e
      using loop(3) that cur eq [OF that] s1
      unfolding spans_updated_def ideal_insert_min [OF vok st(2) window_cur [OF assms(1)]] by auto
    then show ?thesis
      using loop(1,2) ins False assms(2) by (auto simp: represents_def)
  qed
  then obtain chunks1 where c1: "\<And>e. (if s = 0 then None else Some (s - 1)) = Some e \<Longrightarrow> span_loop db d p args v t chunks e = Some (Inr chunks1)"
      "s = 0 \<Longrightarrow> chunks1 = chunks" "represents db d p args chunks1 v (insert (unat s, unat t) vs)"
    by blast
  have "applyAttestationForValidator db d p args v chunks att = Some (Inr (sl, if sl = None then chunks1 else chunks))"
    by (rule apply_unfold [OF assms(5,6) i(1,3), where start = "if s = 0 then None else Some (s - 1)"])
      (use m sl(1) start c1 in \<open>auto split: if_splits\<close>)
  then show ?thesis
    using sl(2) c1(3) sound by (cases sl) auto
qed

lemma apply_max:
  assumes "window db d p args" and "ca_kind args = MaxSpan" and "represents db d p args chunks v vs"
    and "recorded (db_AttestationRecordForValidator db d) v vs"
    and "iw_source att = Inr s" and "iw_target att = Inr t" and "s < t \<or> s = 0" and "t \<le> ca_currentEpoch args"
  shows "\<exists>sl chunks'. applyAttestationForValidator db d p args v chunks att = Some (Inr (sl, chunks')) \<and>
    (sl \<noteq> None \<longleftrightarrow> (\<exists>b \<in> vs. conflicts MaxSpan (unat s, unat t) b)) \<and>
    (sl = None \<longrightarrow> represents db d p args chunks' v (insert (unat s, unat t) vs)) \<and>
    (sl \<noteq> None \<longrightarrow> chunks' = chunks) \<and>
    (\<forall>x. sl = Some x \<longrightarrow> (\<exists>a b. Attestation_1 x = Some a \<and> Attestation_2 x = Some b \<and> IsSurround a b = Inr True))"
proof -
  let ?cur = "unat (ca_currentEpoch args)"
  have good: "good_params p" and cur: "?cur < unat (historyLength p)"
    using assms(1) by (simp_all add: window_def)
  have ok: "chunks_ok p MaxSpan chunks" and vok: "votes_ok ?cur vs"
    and eq: "\<And>e. e \<le> ?cur \<Longrightarrow> span_dist db d p args chunks v e = ideal MaxSpan vs e"
    using assms(2,3) by (simp_all add: represents_def)
  have st: "unat s \<le> unat t" "unat t \<le> ?cur" "unat s < unat (historyLength p)"
    using assms(7,8) cur by (auto simp: unat_le_u64 unat_less_u64)
  have ins: "votes_ok ?cur (insert (unat s, unat t) vs)"
    by (rule votes_ok_insert [OF vok _ st(2)]) (use assms(7) in \<open>auto simp: unat_less_u64\<close>)
  obtain i c where i: "chunkIndex p s = Inr i" "unat i = chunk_no p (unat s)"
    "getChunk db d p args chunks i = Inr c" "chunk_ok p MaxSpan c"
    using window_chunk [OF assms(1) _ st(3)] assms(2) ok by metis
  obtain m where m: "c = MaxChunker m" "max_params m = p" "length (max_data m) = chunk_len p"
    using i(4) by (cases c) auto
  have "dist_at p v (max_data m) (unat s) = ideal MaxSpan vs (unat s)"
    using span_dist_at [OF i(3,2), of v] eq [of "unat s"] st m(1) by simp
  from CheckSlashable_max [OF good m(3,2) assms(5,6) st(3) this vok assms(4) window_cur [OF assms(1)] assms(7)]
  obtain sl where sl: "Max_CheckSlashable (db_AttestationRecordForValidator db d) m v att = Inr sl"
      "sl \<noteq> None \<longleftrightarrow> (\<exists>b \<in> vs. conflicts MaxSpan (unat s, unat t) b)"
      "\<And>x. sl = Some x \<Longrightarrow> \<exists>w. Attestation_1 x = iw_IndexedAttestation w \<and> Attestation_2 x = iw_IndexedAttestation att \<and>
         (\<exists>s' t'. iw_source w = Inr s' \<and> iw_target w = Inr t' \<and> s' < s \<and> t < t')"
    by blast
  have sound: "\<exists>a b. Attestation_1 x = Some a \<and> Attestation_2 x = Some b \<and> IsSurround a b = Inr True" if x: "sl = Some x" for x
  proof -
    obtain w s' t' where w: "Attestation_1 x = iw_IndexedAttestation w" "Attestation_2 x = iw_IndexedAttestation att"
        "iw_source w = Inr s'" "iw_target w = Inr t'" "s' < s" "t < t'"
      using sl(3) [OF x] by blast
    obtain a b where ab: "iw_IndexedAttestation w = Some a" "iw_IndexedAttestation att = Some b"
      using iw_target_pointer [OF assms(6)] iw_target_pointer [OF w(4)] by blast
    show ?thesis
      using surround_of_epochs [OF ab w(3,4) assms(5,6) w(5,6)] w(1,2) ab by simp
  qed
  define start where "start = (if ca_currentEpoch args \<le> s then None else Some (s + 1))"
  have s1: "unat (s + 1) = unat s + 1"
    using st(3) unat_lt_2_64 [of "historyLength p"] by (simp add: unat_add_u64)
  have start: "Max_StartEpoch s (ca_currentEpoch args) = Inr start"
    using st(3) unat_lt_2_64 [of "historyLength p"] by (simp add: Max_StartEpoch_def Epoch_arith start_def)
  have upd: "\<exists>chunks'. (\<forall>e. start = Some e \<longrightarrow> span_loop db d p args v t chunks e = Some (Inr chunks')) \<and>
      (start = None \<longrightarrow> chunks' = chunks) \<and> represents db d p args chunks' v (insert (unat s, unat t) vs)"
  proof (cases "ca_currentEpoch args \<le> s")
    case True
    then have "ideal MaxSpan (insert (unat s, unat t) vs) e = ideal MaxSpan vs e" if "e \<le> ?cur" for e
      using ideal_insert_max [OF vok, of "unat s" "unat t" e] that by (simp add: unat_le_u64)
    then show ?thesis
      using True ok ins eq assms(2) by (simp add: represents_def start_def)
  next
    case False
    then have "s + 1 \<le> ca_currentEpoch args" "unat t < 65536"
      using st window_cur [OF assms(1)] by (simp_all add: unat_le_u64 s1)
    moreover have "rising (span_dist db d p args chunks v) (unat (s + 1)) ?cur"
      by (rule represents_rising [OF assms(1,3) order_refl])
    ultimately obtain chunks' where loop: "span_loop db d p args v t chunks (s + 1) = Some (Inr chunks')"
        "chunks_ok p MaxSpan chunks'" "spans_updated db d p args v (raised (unat t)) {unat (s + 1)..?cur} chunks chunks'"
      using span_loop_max [OF assms(1,2) ok] by blast
    have "span_dist db d p args chunks' v e = ideal MaxSpan (insert (unat s, unat t) vs) e" if "e \<le> ?cur" for e
      using loop(3) that cur eq [OF that] s1 unfolding spans_updated_def ideal_insert_max [OF vok] by auto
    then show ?thesis
      using loop(1,2) ins False assms(2) by (auto simp: represents_def start_def)
  qed
  then obtain chunks1 where c1: "\<And>e. start = Some e \<Longrightarrow> span_loop db d p args v t chunks e = Some (Inr chunks1)"
      "start = None \<Longrightarrow> chunks1 = chunks" "represents db d p args chunks1 v (insert (unat s, unat t) vs)"
    by blast
  have "applyAttestationForValidator db d p args v chunks att = Some (Inr (sl, if sl = None then chunks1 else chunks))"
    by (rule apply_unfold [OF assms(5,6) i(1,3), where start = start])
      (use m(1) sl(1) start c1(1,2) in auto)
  then show ?thesis
    using sl(2) c1(3) sound by (cases sl) auto
qed

text \<open>C24: surround detection is exact while the current epoch is below the history length. Let the chunks represent a set of
  votes of a validator (every cell holds the minimal, respectively maximal, target distance of the definition in
  \<open>chunks.go\<close>) and let the database hold a record per vote. Then applying an attestation returns; it reports a
  slashing if and only if the attestation surrounds a vote of the set (min spans) or is surrounded by one (max spans);
  what it reports is a pair whose first attestation surrounds the second; and when it reports none, the updated chunks
  represent the set with the new vote.
\<close>

theorem spans_detect_surround:
  assumes "window db d p args" and "represents db d p args chunks v vs"
    and "recorded (db_AttestationRecordForValidator db d) v vs"
    and "iw_source att = Inr s" and "iw_target att = Inr t" and "s < t \<or> s = 0" and "t \<le> ca_currentEpoch args"
  shows "\<exists>sl chunks'. applyAttestationForValidator db d p args v chunks att = Some (Inr (sl, chunks')) \<and>
    (sl \<noteq> None \<longleftrightarrow> (\<exists>b \<in> vs. conflicts (ca_kind args) (unat s, unat t) b)) \<and>
    (sl = None \<longrightarrow> represents db d p args chunks' v (insert (unat s, unat t) vs)) \<and>
    (\<forall>x. sl = Some x \<longrightarrow> (\<exists>a b. Attestation_1 x = Some a \<and> Attestation_2 x = Some b \<and> IsSurround a b = Inr True))"
proof (cases "ca_kind args")
  case MinSpan
  then show ?thesis
    using apply_min [OF assms(1) MinSpan assms(2-)] by auto
next
  case MaxSpan
  then show ?thesis
    using apply_max [OF assms(1) MaxSpan assms(2-)] by auto
qed

section \<open>A small database\<close>

text \<open>A database without stored chunks, whose records are those of a list.\<close>

definition vote_att :: "u64 \<Rightarrow> Epoch \<Rightarrow> Epoch \<Rightarrow> IndexedAttestationWrapper" where
  "vote_att v s t = \<lparr>iw_IndexedAttestation = Some \<lparr>ia_AttestingIndices = [v],
      ia_Data = Some \<lparr>ad_Slot = 0, ad_CommitteeIndex = 0, ad_BeaconBlockRoot = [],
        ad_Source = Some \<lparr>cp_Epoch = s, cp_Root = []\<rparr>, ad_Target = Some \<lparr>cp_Epoch = t, cp_Root = []\<rparr>\<rparr>, ia_Signatures = []\<rparr>,
      iw_SigningRoot = []\<rparr>"

definition list_db :: "IndexedAttestationWrapper list slasher_db" where
  "list_db = \<lparr>db_AttestationRecordForValidator = (\<lambda>d v t. Inr (find (\<lambda>w. iw_target w = Inr t) d)),
     db_CheckAttesterDoubleVotes = (\<lambda>d atts. Inr []),
     db_SaveAttestationRecordsForValidators = (\<lambda>d atts. (atts @ d, Inr ())),
     db_LoadSlasherChunks = (\<lambda>d kind keys. Inr (map (\<lambda>_. []) keys, map (\<lambda>_. False) keys)),
     db_SaveSlasherChunks = (\<lambda>d kind keys chunks. (d, Inr ())),
     db_SaveSlasherChunksAndEpochs = (\<lambda>d mk mc xk xc es. (d, Inr ())),
     db_SaveLastEpochsWrittenForValidators = (\<lambda>d es. (d, Inr ()))\<rparr>"

definition small_params :: Parameters where
  "small_params = \<lparr>chunkSize = 2, validatorChunkSize = 1, historyLength = 8\<rparr>"

definition small_args :: "ChunkKind \<Rightarrow> Epoch \<Rightarrow> chunkUpdateArgs" where
  "small_args kind cur = \<lparr>ca_kind = kind, ca_validatorChunkIndex = 0, ca_currentEpoch = cur\<rparr>"

lemma small_window: "unat cur < 8 \<Longrightarrow> window list_db d small_params (small_args kind cur)"
  by (auto simp: window_def good_params_def loads_chunks_def keys_fit_def small_params_def small_args_def list_db_def)

lemma vote_att_epochs [simp]: "iw_source (vote_att v s t) = Inr s" "iw_target (vote_att v s t) = Inr t"
  by (simp_all add: vote_att_def iw_source_def iw_target_def source_epoch_def target_epoch_def data_source_def data_target_def)

lemma small_empty: "unat cur < 8 \<Longrightarrow> represents list_db d small_params (small_args kind cur) Map.empty v {}"
proof -
  assume cur: "unat cur < 8"
  have "span_dist list_db d small_params (small_args kind cur) Map.empty v e = ideal kind {} e" if "e \<le> unat cur" for e
  proof -
    let ?i = "of_nat (chunk_no small_params e) :: u64"
    have "unat ?i < 8"
      using that cur chunk_no_le [of small_params e] by (simp add: unat_of_nat_u64)
    then obtain key where key: "flatSliceID small_params 0 ?i = Inr key"
      using flatSliceID_ok [of small_params 0 ?i] by (auto simp: good_params_def keys_fit_def small_params_def)
    obtain c where c: "getChunk list_db d small_params (small_args kind cur) Map.empty ?i = Inr c"
        "Chunk c = replicate 2 (if kind = MinSpan then Min_NeutralElement else Max_NeutralElement)"
      using key by (cases kind)
        (simp_all add: getChunk_def loadChunks_def load_step_def list_db_def small_args_def,
          simp_all add: EmptyMinSpanChunksSlice_def EmptyMaxSpanChunksSlice_def small_params_def)
    have "cell small_params v e < 2"
      using cell_bound [of small_params v e] by (simp add: chunk_len_def small_params_def good_params_def)
    then show ?thesis
      using c by (cases kind) (simp_all add: span_dist_def dist_at_def ideal.simps relevant.simps Min_NeutralElement_def Max_NeutralElement_def)
  qed
  then show ?thesis
    by (simp add: represents_def chunks_ok_def votes_ok_def) (simp add: small_args_def)
qed

theorem spans_detect_surround_witness:
  "\<exists>sl chunks'. applyAttestationForValidator list_db [] small_params (small_args MinSpan 5) 0 Map.empty (vote_att 0 3 4) = Some (Inr (sl, chunks')) \<and>
    sl = None \<and> represents list_db [] small_params (small_args MinSpan 5) chunks' 0 {(3, 4)}"
proof -
  have w: "window list_db [] small_params (small_args MinSpan 5)"
    and r: "represents list_db [] small_params (small_args MinSpan 5) Map.empty 0 {}"
    using small_window [of 5] small_empty [of 5] by simp_all
  show ?thesis
    using spans_detect_surround [OF w r, of "vote_att 0 3 4" 3 4] by (simp add: recorded_def small_args_def)
qed

end
