(* ===== verification/Slasher_Wrap.thy ===== *)
theory Slasher_Wrap
  imports Slasher_Surround
begin

text \<open>
  The spans once the current epoch has passed the history length. The cells are a circular buffer, but
  \<open>NextChunkStartEpoch\<close> computes the next epoch from the chunk index alone, so that it always lies in the first
  window. A min span update then ends at the boundary of the first chunk, and a max span update continues at an
  epoch far in the past.
\<close>

section \<open>The next chunk\<close>

lemma chunkIndex_bound:
  assumes "good_params p" and "chunkIndex p e = Inr i"
  shows "unat i * unat (chunkSize p) < unat (historyLength p)"
proof -
  have "unat i = unat e mod unat (historyLength p) div unat (chunkSize p)"
    using assms by (auto simp: chunkIndex_def prim_cases Epoch_arith good_params_def unat_div unat_mod)
  then have "unat i * unat (chunkSize p) \<le> unat e mod unat (historyLength p)"
    by simp
  also have "\<dots> < unat (historyLength p)"
    using assms(1) by (simp add: good_params_def unat_pos_u64)
  finally show ?thesis .
qed

lemma chunkIndex_less:
  assumes "good_params p" and "chunkIndex p e = Inr i"
  shows "unat i < unat (historyLength p)"
proof -
  have "unat i * 1 \<le> unat i * unat (chunkSize p)"
    using assms(1) by (intro mult_le_mono) (simp_all add: good_params_def unat_pos_u64 Suc_le_eq)
  then show ?thesis
    using chunkIndex_bound [OF assms] by linarith
qed

text \<open>Whatever the epoch, the next epoch of a max span update is a multiple of the chunk size in the first window.\<close>

lemma Max_Next_low:
  assumes "good_params p" and "unat (chunkSize p) dvd unat (historyLength p)"
  shows "\<exists>n. Max_NextChunkStartEpoch p e = Inr n \<and> unat n \<le> unat (historyLength p) \<and> unat (chunkSize p) dvd unat n"
proof -
  obtain i where i: "chunkIndex p e = Inr i"
    using chunkIndex_total [OF assms(1)] by blast
  obtain k where k: "unat (historyLength p) = unat (chunkSize p) * k"
    using assms(2) by blast
  have C: "0 < unat (chunkSize p)" and H: "unat (historyLength p) \<le> 65535"
    using assms(1) by (simp_all add: good_params_def unat_pos_u64)
  have "unat (chunkSize p) * unat i < unat (chunkSize p) * k"
    using chunkIndex_bound [OF assms(1) i] k by (simp add: mult.commute)
  then have "unat i + 1 \<le> k"
    by simp
  then have b: "unat (chunkSize p) * (unat i + 1) \<le> unat (historyLength p)"
    unfolding k by (rule mult_le_mono2)
  moreover have "1 * (unat i + 1) \<le> unat (chunkSize p) * (unat i + 1)"
    using C by (intro mult_le_mono) simp_all
  ultimately have i1: "unat (i + 1) = unat i + 1"
    using H by (simp add: unat_add_u64)
  have "unat (i + 1) * unat (chunkSize p) < 18446744073709551616"
    unfolding i1 using b H by (simp only: mult.commute)
  then have n: "unat ((i + 1) * chunkSize p) = unat (chunkSize p) * (unat i + 1)"
    by (simp only: unat_mult_u64 i1 mult.commute)
  show ?thesis
    using i b by (simp add: Max_NextChunkStartEpoch_def firstEpoch_def n)
qed

text \<open>The next epoch of a min span update lies in the first window too.\<close>

lemma Min_Next_low:
  assumes "good_params p" and "Min_NextChunkStartEpoch p e = Inr n" and "unat (chunkSize p) \<le> unat (historyLength p)"
  shows "unat n < unat (historyLength p)"
proof -
  obtain i where i: "chunkIndex p e = Inr i" "lastEpoch p (if i > 0 then i - 1 else i) = Inr n"
    using assms(2) by (auto simp: Min_NextChunkStartEpoch_def bindR_eq_Inr)
  define j where "j = (if i > 0 then i - 1 else i)"
  have C: "0 < unat (chunkSize p)" "unat (chunkSize p - 1) = unat (chunkSize p) - 1"
    using assms(1) by (simp_all add: good_params_def unat_pos_u64 unat_pred)
  have b: "unat j * unat (chunkSize p) + unat (chunkSize p) \<le> unat (historyLength p)"
  proof (cases "i = 0")
    case True
    then show ?thesis
      using assms(3) by (simp add: j_def)
  next
    case False
    then have "unat i = unat j + 1"
      using unat_pred [OF False] by (simp add: j_def word_gt_0)
    then have "unat i * unat (chunkSize p) = unat j * unat (chunkSize p) + unat (chunkSize p)"
      by (simp only: add_mult_distrib mult_1)
    then show ?thesis
      using chunkIndex_bound [OF assms(1) i(1)] by linarith
  qed
  have H: "unat (historyLength p) \<le> 65535"
    using assms(1) by (simp add: good_params_def)
  have "unat j * unat (chunkSize p) < 18446744073709551616"
    using b H by linarith
  then have m: "unat (j * chunkSize p) = unat j * unat (chunkSize p)"
    by (rule unat_mult_u64)
  have "n = j * chunkSize p + (chunkSize p - 1)" "unat (j * chunkSize p) + unat (chunkSize p - 1) < 18446744073709551616"
    using i(2) by (simp_all add: j_def [symmetric] lastEpoch_def firstEpoch_def Epoch_arith split: if_splits)
  then have "unat n = unat (j * chunkSize p) + unat (chunkSize p - 1)"
    by (simp only: unat_add_u64)
  then show ?thesis
    using m b C by linarith
qed

section \<open>A min span update stays in one chunk\<close>

lemma Min_Update_old:
  assumes "chunkIndex (min_params m) e = Inr i" and "e < cur - (historyLength (min_params m) - 1)"
    and "historyLength (min_params m) - 1 < cur"
  shows "Min_Update m idx cur v e t = Inr (m, False)"
proof -
  have "min_update_loop (min_params m) idx (cur - (historyLength (min_params m) - 1)) v t (min_data m) e = Inr (min_data m, False)"
    using assms(1,2) by (subst min_update_loop.simps) (simp add: not_le)
  then show ?thesis
    using assms(3) by (simp add: Min_Update_def Let_def)
qed

lemma getChunk_put_same: "getChunk db d p args chunks i = Inr c \<Longrightarrow> getChunk db d p args (chunks(i \<mapsto> c)) j = getChunk db d p args chunks j"
  by (cases "j = i") (simp_all add: getChunk_def)

text \<open>The setting once the current epoch has passed twice the history length.\<close>

definition past_history ::
  "('d, 'z) slasher_db_scheme \<Rightarrow> 'd \<Rightarrow> Parameters \<Rightarrow> chunkUpdateArgs \<Rightarrow> bool" where
  "past_history db d p args \<longleftrightarrow> good_params p \<and> loads_chunks db d p \<and> keys_fit p (ca_validatorChunkIndex args) \<and>
     unat (chunkSize p) \<le> unat (historyLength p) \<and> 2 * unat (historyLength p) \<le> unat (ca_currentEpoch args)"

lemma past_history_min_epoch:
  assumes "past_history db d p args" and "unat n < unat (historyLength p)"
  shows "n < ca_currentEpoch args - (historyLength p - 1)" and "historyLength p - 1 < ca_currentEpoch args"
proof -
  have H: "unat (historyLength p - 1) = unat (historyLength p) - 1" "0 < unat (historyLength p)"
    using assms(1) by (simp_all add: past_history_def good_params_def unat_pred)
  have c: "2 * unat (historyLength p) \<le> unat (ca_currentEpoch args)"
    using assms(1) by (simp add: past_history_def)
  show lt: "historyLength p - 1 < ca_currentEpoch args"
    unfolding unat_less_u64 H(1) using H(2) c by linarith
  have "unat (ca_currentEpoch args - (historyLength p - 1)) = unat (ca_currentEpoch args) - (unat (historyLength p) - 1)"
    using unat_sub_u64 [OF less_imp_le [OF lt]] H(1) by simp
  then show "n < ca_currentEpoch args - (historyLength p - 1)"
    unfolding unat_less_u64 using assms(2) c H(2) by linarith
qed

lemma span_step_old:
  assumes "past_history db d p args" and "ca_kind args = MinSpan" and "chunks_ok p MinSpan chunks"
    and "unat n < unat (historyLength p)"
  shows "\<exists>i c. getChunk db d p args chunks i = Inr c \<and> span_step db d p args v t chunks n = Inr (chunks(i \<mapsto> c), None)"
proof -
  have h: "good_params p" "loads_chunks db d p" "keys_fit p (ca_validatorChunkIndex args)"
    using assms(1) by (simp_all add: past_history_def)
  obtain i where i: "chunkIndex p n = Inr i" "unat i = chunk_no p (unat n)"
    using chunkIndex_chunk_no [OF h(1) assms(4)] by blast
  then have "unat i < unat (historyLength p)"
    using assms(4) chunk_no_le [of p "unat n"] by linarith
  from getChunk_ok [OF h this, of chunks] assms(2,3)
  obtain c where c: "getChunk db d p args chunks i = Inr c" "chunk_ok p MinSpan c"
    by auto
  obtain m where m: "c = MinChunker m" "min_params m = p"
    using c(2) by (cases c) auto
  have "Min_Update m i (ca_currentEpoch args) v n t = Inr (m, False)"
    using Min_Update_old i(1) past_history_min_epoch [OF assms(1,4)] m(2) by blast
  then show ?thesis
    using i(1) c(1) m(1) by (intro exI [of _ i] exI [of _ c]) (simp add: span_step_def Let_def)
qed

lemma min_update_loop_length:
  "min_update_loop p idx lo v t chunk e = Inr (chunk', keep) \<Longrightarrow> length chunk' = length chunk"
proof (induction p idx lo v t chunk e rule: min_update_loop.induct)
  case (1 p idx lo v t chunk e)
  obtain ci where ci: "chunkIndex p e = Inr ci"
    using 1(2) by (subst (asm) min_update_loop.simps) (auto simp: bindR_eq_Inr)
  show ?case
  proof (cases "ci = idx \<and> e \<ge> lo")
    case False
    then show ?thesis
      using 1(2) ci by (subst (asm) min_update_loop.simps) auto
  next
    case True
    then obtain ct where ct: "chunkDataAtEpoch p chunk v e = Inr ct"
      using 1(2) ci by (subst (asm) min_update_loop.simps) (auto simp: bindR_eq_Inr)
    show ?thesis
    proof (cases "t < ct")
      case False
      then show ?thesis
        using 1(2) ci ct True by (subst (asm) min_update_loop.simps) auto
    next
      case less: True
      then obtain chunk1 where c1: "setChunkDataAtEpoch p chunk v e t = Inr chunk1"
          "min_update_loop p idx lo v t chunk1 (if e > 0 then e - 1 else e) = Inr (chunk', keep)"
        using 1(2) ci ct True by (subst (asm) min_update_loop.simps) (auto simp: bindR_eq_Inr split: if_splits)
      have "length chunk1 = length chunk"
        using c1(1) by (auto simp: setChunkDataAtEpoch_def setChunkRawDistance_def bindR_eq_Inr split: if_splits)
      then show ?thesis
        using 1(1) [OF ci _ _ less _ c1(2)] True ct c1(1) by simp
    qed
  qed
qed

lemma Min_Update_ok:
  assumes "Min_Update m i cur v e t = Inr (m', keep)"
  shows "min_params m' = min_params m" and "length (min_data m') = length (min_data m)"
  using assms min_update_loop_length by (auto simp: Min_Update_def Let_def bindR_eq_Inr)

lemma span_step_Inr:
  assumes "span_step db d p args v t chunks start = Inr r" and "chunkIndex p start = Inr i"
  shows "\<exists>c0 c keep. getChunk db d p args chunks i = Inr c0 \<and> Chunker_Update c0 i (ca_currentEpoch args) v start t = Inr (c, keep) \<and>
    fst r = chunks(i \<mapsto> c) \<and> (if keep then \<exists>n. NextChunkStartEpoch c start = Inr n \<and> snd r = Some n else snd r = None)"
proof -
  obtain c0 where c0: "getChunk db d p args chunks i = Inr c0"
    using assms by (auto simp: span_step_def bindR_eq_Inr)
  obtain c keep where c: "Chunker_Update c0 i (ca_currentEpoch args) v start t = Inr (c, keep)"
    using assms c0 by (auto simp: span_step_def bindR_eq_Inr)
  define u where "u = chunks(i \<mapsto> c)"
  have "(if \<not> keep then Inr (u, None) else bindR (NextChunkStartEpoch c start) (\<lambda>nxt. Inr (u, Some nxt))) = Inr r"
    using assms c0 c by (cases keep) (simp_all add: span_step_def Let_def u_def)
  then have "fst r = u \<and> (if keep then \<exists>n. NextChunkStartEpoch c start = Inr n \<and> snd r = Some n else snd r = None)"
    by (cases keep) (auto simp: bindR_eq_Inr)
  then show ?thesis
    using c0 c unfolding u_def by blast
qed

text \<open>Of the chunks the detector sees, a min span update changes the first one only.\<close>

lemma span_loop_one_chunk:
  assumes "past_history db d p args" and "ca_kind args = MinSpan" and "chunks_ok p MinSpan chunks"
    and "chunkIndex p start = Inr i" and "span_loop db d p args v t chunks start = Some (Inr chunks')" and "j \<noteq> i"
  shows "getChunk db d p args chunks' j = getChunk db d p args chunks j"
proof -
  have good: "good_params p" "unat (chunkSize p) \<le> unat (historyLength p)"
    using assms(1) by (simp_all add: past_history_def)
  obtain r where r: "span_step db d p args v t chunks start = Inr r"
    using assms(5) by (subst (asm) span_loop.simps) (auto split: sum.splits)
  obtain c0 c keep where c: "getChunk db d p args chunks i = Inr c0" "Chunker_Update c0 i (ca_currentEpoch args) v start t = Inr (c, keep)"
      "fst r = chunks(i \<mapsto> c)" "if keep then \<exists>n. NextChunkStartEpoch c start = Inr n \<and> snd r = Some n else snd r = None"
    using span_step_Inr [OF r assms(4)] by blast
  have first: "getChunk db d p args (fst r) j = getChunk db d p args chunks j"
    using assms(6) c(3) by (simp add: getChunk_def)
  have h: "loads_chunks db d p" "keys_fit p (ca_validatorChunkIndex args)"
    using assms(1) by (simp_all add: past_history_def)
  have "unat i < unat (historyLength p)"
    by (rule chunkIndex_less [OF good(1) assms(4)])
  then have "chunk_ok p MinSpan c0"
    using getChunk_ok [OF good(1) h, of i chunks] assms(2,3) c(1) by auto
  then obtain m where m: "c0 = MinChunker m" "min_params m = p" "length (min_data m) = chunk_len p"
    by (cases c0) auto
  obtain m' where m': "c = MinChunker m'" "Min_Update m i (ca_currentEpoch args) v start t = Inr (m', keep)"
    using c(2) m(1) by (auto simp: bindR_eq_Inr)
  have p': "min_params m' = p"
    using Min_Update_ok(1) [OF m'(2)] m(2) by simp
  have ok: "chunks_ok p MinSpan (fst r)"
    using chunks_ok_put [OF assms(3)] m' m Min_Update_ok [OF m'(2)] c(3) by simp
  show ?thesis
  proof (cases keep)
    case False
    then have "chunks' = fst r"
      using assms(5) r c(4) by (subst (asm) span_loop.simps) simp
    then show ?thesis
      using first by simp
  next
    case True
    then obtain n where n: "Min_NextChunkStartEpoch p start = Inr n" "snd r = Some n"
      using c(4) m' p' by auto
    obtain k c1 where k: "getChunk db d p args (fst r) k = Inr c1" "span_step db d p args v t (fst r) n = Inr ((fst r)(k \<mapsto> c1), None)"
      using span_step_old [OF assms(1,2) ok Min_Next_low [OF good(1) n(1) good(2)]] by blast
    have "span_loop db d p args v t (fst r) n = Some (Inr chunks')"
      using assms(5) r n(2) by (subst (asm) span_loop.simps) simp
    then have "chunks' = (fst r)(k \<mapsto> c1)"
      using k(2) by (subst (asm) span_loop.simps) simp
    then show ?thesis
      using getChunk_put_same [OF k(1)] first by simp
  qed
qed

lemma bindO_eq_Inr: "bindO m f = Some (Inr y) \<longleftrightarrow> (\<exists>x. m = Some (Inr x) \<and> f x = Some (Inr y))"
  by (auto simp: bindO_def split: option.splits sum.splits)

lemma apply_changes:
  assumes "past_history db d p args" and "ca_kind args = MinSpan" and "chunks_ok p MinSpan chunks"
    and "iw_source att = Inr s" and "applyAttestationForValidator db d p args v chunks att = Some (Inr (sl, chunks'))"
    and "chunks' \<noteq> chunks"
  shows "\<exists>start t. Min_StartEpoch p s (ca_currentEpoch args) = Inr (Some start) \<and>
    span_loop db d p args v t chunks start = Some (Inr chunks')"
proof -
  have h: "good_params p" "loads_chunks db d p" "keys_fit p (ca_validatorChunkIndex args)"
    using assms(1) by (simp_all add: past_history_def)
  obtain t where t: "iw_target att = Inr t"
    using assms(4,5) by (auto simp: applyAttestationForValidator_def bindO_eq_Inr)
  obtain i c where i: "chunkIndex p s = Inr i" "getChunk db d p args chunks i = Inr c"
    using assms(4,5) t by (auto simp: applyAttestationForValidator_def bindO_eq_Inr bindR_eq_Inr wrapR_eq_Inr)
  have "unat i < unat (historyLength p)"
    by (rule chunkIndex_less [OF h(1) i(1)])
  then have "chunk_ok p MinSpan c"
    using getChunk_ok [OF h, of i chunks] assms(2,3) i(2) by auto
  then obtain m where m: "c = MinChunker m" "min_params m = p"
    by (cases c) auto
  obtain start where "Min_StartEpoch p s (ca_currentEpoch args) = Inr (Some start)"
      "span_loop db d p args v t chunks start = Some (Inr chunks')"
    using assms(4-6) t i m
    by (auto simp: applyAttestationForValidator_def bindO_eq_Inr split: if_splits option.splits)
  then show ?thesis
    by blast
qed

text \<open>C25: past twice the history length, a vote is recorded in one chunk of min spans only. After an attestation with
  source \<open>s\<close> has been applied, the test of any later attestation whose source lies in another chunk than \<open>s - 1\<close> has
  the result it had before, also when that attestation surrounds the first one.
\<close>

theorem surround_missed_past_history:
  assumes "past_history db d p args" and "ca_kind args = MinSpan" and "chunks_ok p MinSpan chunks"
    and "iw_source att = Inr s" and "applyAttestationForValidator db d p args v chunks att = Some (Inr (sl, chunks'))"
    and "chunkIndex p (s - 1) \<noteq> Inr j"
  shows "bindR (getChunk db d p args chunks' j) (\<lambda>c. CheckSlashable lookup c v later) =
    bindR (getChunk db d p args chunks j) (\<lambda>c. CheckSlashable lookup c v later)"
proof -
  have "getChunk db d p args chunks' j = getChunk db d p args chunks j"
  proof (cases "chunks' = chunks")
    case False
    obtain start t where start: "Min_StartEpoch p s (ca_currentEpoch args) = Inr (Some start)"
        "span_loop db d p args v t chunks start = Some (Inr chunks')"
      using apply_changes [OF assms(1-5) False] by blast
    then have "start = s - 1"
      by (auto simp: Min_StartEpoch_def Let_def bindR_eq_Inr Epoch_arith split: if_splits)
    moreover obtain i where "chunkIndex p start = Inr i"
      using start(2) by (subst (asm) span_loop.simps) (auto simp: span_step_def bindR_eq_Inr split: sum.splits)
    ultimately show ?thesis
      using span_loop_one_chunk [OF assms(1-3) _ start(2)] assms(6) by auto
  qed simp
  then show ?thesis
    by simp
qed

lemma small_past: "past_history list_db d small_params (small_args kind 20)"
  by (auto simp: past_history_def good_params_def loads_chunks_def keys_fit_def small_params_def small_args_def list_db_def)

lemma replicate_two: "replicate 2 x = [x, x]"
  by (simp add: numeral_2_eq_2)

lemma small_chunk:
  assumes "flatSliceID small_params 0 i = Inr key"
  shows "getChunk list_db d small_params (small_args MinSpan cur) Map.empty i =
    Inr (MinChunker \<lparr>min_params = small_params, min_data = [65535, 65535]\<rparr>)"
  using assms
  by (simp add: getChunk_def loadChunks_def load_step_def list_db_def small_args_def)
    (simp add: EmptyMinSpanChunksSlice_def small_params_def Min_NeutralElement_def replicate_two)

lemma small_indices:
  "chunkIndex small_params 17 = Inr 0" "chunkIndex small_params 18 = Inr 1" "chunkIndex small_params 16 = Inr 0"
  "chunkIndex small_params 15 = Inr 3" "chunkIndex small_params 1 = Inr 0"
  by (simp_all add: chunkIndex_def prim_cases small_params_def epoch_defs checked_cases)

lemma small_cells:
  "cellIndex small_params 0 17 = Inr 1" "cellIndex small_params 0 16 = Inr 0" "cellIndex small_params 0 18 = Inr 0"
  "cellIndex small_params 0 15 = Inr 1"
  by (simp_all add: cellIndex_def validatorOffset_def chunkOffset_def small_params_def epoch_defs checked_cases prim_cases
      ValidatorIndex_Mod_def)

lemma small_keys: "\<exists>key. flatSliceID small_params 0 0 = Inr key" "\<exists>key. flatSliceID small_params 0 1 = Inr key"
  "\<exists>key. flatSliceID small_params 0 3 = Inr key"
  by (rule flatSliceID_ok, simp_all add: good_params_def keys_fit_def small_params_def)+

lemma small_min_update:
  "Min_Update \<lparr>min_params = small_params, min_data = [65535, 65535]\<rparr> 0 20 0 17 19 =
     Inr (\<lparr>min_params = small_params, min_data = [3, 2]\<rparr>, True)"
proof -
  have hist: "historyLength small_params = 8" "chunkSize small_params = 2" "validatorChunkSize small_params = 1" "\<not> (2 :: u64) \<le> 1"
    by (simp_all add: small_params_def unat_le_u64)
  have "min_update_loop small_params 0 13 0 19 [65535, 65535] 17 = min_update_loop small_params 0 13 0 19 [65535, 2] 16"
    by (subst min_update_loop.simps) (simp add: small_indices small_cells hist chunkDataAtEpoch_def setChunkDataAtEpoch_def
        epochDistance_def setChunkRawDistance_def Epoch_arith)
  also have "\<dots> = min_update_loop small_params 0 13 0 19 [3, 2] 15"
    by (subst min_update_loop.simps) (simp add: small_indices small_cells hist chunkDataAtEpoch_def setChunkDataAtEpoch_def
        epochDistance_def setChunkRawDistance_def Epoch_arith)
  also have "\<dots> = Inr ([3, 2], True)"
    by (subst min_update_loop.simps) (simp add: small_indices)
  finally show ?thesis
    by (simp add: Min_Update_def hist)
qed

lemma small_step:
  assumes "flatSliceID small_params 0 0 = Inr key"
  shows "\<exists>r. span_step list_db [] small_params (small_args MinSpan 20) 0 19 Map.empty 17 = Inr r \<and> snd r = Some 1 \<and>
    chunks_ok small_params MinSpan (fst r)"
proof -
  have "Min_NextChunkStartEpoch small_params 17 = Inr 1"
    by (simp add: Min_NextChunkStartEpoch_def small_indices lastEpoch_def firstEpoch_def Epoch_arith) (simp add: small_params_def)
  moreover have "ca_currentEpoch (small_args MinSpan 20) = 20"
    by (simp add: small_args_def)
  ultimately show ?thesis
    by (simp add: span_step_def small_indices small_chunk [OF assms] small_min_update)
      (simp add: chunks_ok_def chunk_len_def, simp add: small_params_def)
qed

theorem surround_missed_past_history_witness:
  "\<exists>chunks'. applyAttestationForValidator list_db [] small_params (small_args MinSpan 20) 0 Map.empty (vote_att 0 18 19) = Some (Inr (None, chunks')) \<and>
    bindR (getChunk list_db [] small_params (small_args MinSpan 20) chunks' 3) (\<lambda>c. CheckSlashable (\<lambda>v t. Inr (Some (vote_att 0 18 19))) c 0 (vote_att 0 15 20)) = Inr None \<and>
    IsSurround (the (iw_IndexedAttestation (vote_att 0 15 20))) (the (iw_IndexedAttestation (vote_att 0 18 19))) = Inr True"
proof -
  obtain keys where k: "flatSliceID small_params 0 0 = Inr (fst keys)" "flatSliceID small_params 0 1 = Inr (fst (snd keys))"
      "flatSliceID small_params 0 3 = Inr (snd (snd keys))"
    using small_keys by (metis fst_conv snd_conv)
  note g = k [THEN small_chunk]
  obtain r where r: "span_step list_db [] small_params (small_args MinSpan 20) 0 19 Map.empty 17 = Inr r" "snd r = Some 1" "chunks_ok small_params MinSpan (fst r)"
    using small_step [OF k(1)] by blast
  obtain u where u: "span_step list_db [] small_params (small_args MinSpan 20) 0 19 (fst r) 1 = Inr (u, None)"
    using span_step_old [OF small_past _ r(3), where n = 1 and v = 0 and t = 19] by (auto simp: small_args_def small_params_def)
  have loop: "span_loop list_db [] small_params (small_args MinSpan 20) 0 19 Map.empty 17 = Some (Inr u)"
    using r u by (simp add: span_loop.simps)
  have "chunkDataAtEpoch small_params [65535, 65535] 0 18 = Inr 65553"
    by (simp add: chunkDataAtEpoch_def small_cells Epoch_arith) (simp add: small_params_def)
  then have ap: "applyAttestationForValidator list_db [] small_params (small_args MinSpan 20) 0 Map.empty (vote_att 0 18 19) = Some (Inr (None, u))"
    using loop by (simp add: applyAttestationForValidator_def small_indices g Min_CheckSlashable_def)
      (simp add: Min_StartEpoch_def Epoch_arith small_args_def small_params_def)
  have d: "chunkDataAtEpoch small_params [65535, 65535] 0 15 = Inr 65550"
    by (simp add: chunkDataAtEpoch_def small_cells Epoch_arith) (simp add: small_params_def unat_le_u64)
  have "bindR (getChunk list_db [] small_params (small_args MinSpan 20) u 3)
      (\<lambda>c. CheckSlashable (\<lambda>v t. Inr (Some (vote_att 0 18 19))) c 0 (vote_att 0 15 20)) = Inr None"
    using surround_missed_past_history [OF small_past _ _ _ ap, where s = 18 and j = 3 and
        lookup = "\<lambda>v t. Inr (Some (vote_att 0 18 19))" and later = "vote_att 0 15 20"] d
    by (simp add: small_indices g Min_CheckSlashable_def chunks_ok_def) (simp add: small_args_def)
  then show ?thesis
    using ap by (simp add: IsSurround_def vote_att_def source_epoch_def target_epoch_def data_source_def data_target_def)
qed

section \<open>A max span update that never returns\<close>

text \<open>
  The distances have 16 bits. An epoch of the first window plus any distance stays below a target beyond
  \<open>65535\<close> and the history, so that a max span update that has returned to the first window overwrites every cell
  and goes on to the next chunk for ever.
\<close>

lemma chunkIndex_val:
  assumes "good_params p" and "unat (chunkSize p) dvd unat (historyLength p)"
  shows "\<exists>i. chunkIndex p e = Inr i \<and> unat i = chunk_no p (unat e) mod chunk_no p (unat (historyLength p))"
proof -
  obtain k where k: "unat (historyLength p) = unat (chunkSize p) * k"
    using assms(2) by blast
  have C: "0 < unat (chunkSize p)"
    using assms(1) by (simp add: good_params_def unat_pos_u64)
  have "chunkIndex p e = Inr (e mod historyLength p div chunkSize p)"
    using assms(1) by (simp add: chunkIndex_def prim_cases good_params_def)
  then show ?thesis
    using C by (simp add: unat_div unat_mod chunk_no_def k mod_mult2_eq)
qed

text \<open>One pass over a chunk in which every cell can be improved.\<close>

lemma max_update_pass:
  assumes "good_params p" and "unat hi \<le> unat cur" and "unat e \<le> unat hi" and "length chunk = chunk_len p"
    and "chunkIndex p hi \<noteq> Inr idx"
    and "\<And>x. unat e \<le> unat x \<Longrightarrow> unat x < unat hi \<Longrightarrow> chunkIndex p x = Inr idx \<and> chunk_no p (unat x) = k \<and>
           unat x + dist_at p v chunk (unat x) < unat t"
  shows "\<exists>chunk'. max_update_loop p idx cur v t chunk e = Inr (chunk', True) \<and> length chunk' = chunk_len p"
  using assms(3,4,6)
proof (induction "unat hi - unat e" arbitrary: e chunk)
  case 0
  then have "e = hi"
    by (simp add: unat_eq_u64)
  moreover obtain c where "chunkIndex p hi = Inr c"
    using chunkIndex_total [OF assms(1)] by blast
  ultimately show ?case
    using 0(3) assms(2,5) by (subst max_update_loop.simps) (auto simp: unat_le_u64)
next
  case (Suc n)
  then have lt: "unat e < unat hi" and e: "chunkIndex p e = Inr idx" "chunk_no p (unat e) = k" "unat e + dist_at p v chunk (unat e) < unat t"
    using Suc(2) Suc.prems(3) [of e] by auto
  obtain c where c: "cellIndex p v e = Inr c" "unat c = cell p v (unat e)"
    using cellIndex_cell [OF assms(1)] by blast
  have in_range: "\<not> of_nat (length chunk) \<le> c"
    using cell_bound [OF assms(1)] c(2) by (simp add: unat_le_u64 chunk_lengths(2) [OF assms(1) Suc.prems(2)] not_le)
  have sum: "unat e + unat (chunk ! unat c) < unat t"
    using e(3) c(2) by (simp add: dist_at_def)
  have "unat e + unat (chunk ! unat c) < 18446744073709551616"
    using sum unat_lt_2_64 [of t] by linarith
  then obtain x where x: "chunkDataAtEpoch p chunk v e = Inr x" "unat x < unat t"
    using c(1) in_range sum
    by (simp add: chunkDataAtEpoch_def chunk_lengths(1) [OF assms(1) Suc.prems(2)] Epoch_arith unat_u16_u64 unat_add_u64)
  define chunk1 where "chunk1 = chunk[cell p v (unat e) := ucast (t - e)]"
  have "e \<le> t"
    using sum by (simp add: unat_le_u64)
  then have set: "setChunkDataAtEpoch p chunk v e t = Inr chunk1"
    using c in_range by (simp add: setChunkDataAtEpoch_def epochDistance_def setChunkRawDistance_def Epoch_arith not_less chunk1_def)
  have e1: "unat (e + 1) = Suc (unat e)"
    using lt unat_lt_2_64 [of hi] by (simp add: unat_add_u64)
  have "\<exists>chunk'. max_update_loop p idx cur v t chunk1 (e + 1) = Inr (chunk', True) \<and> length chunk' = chunk_len p"
  proof (rule Suc.hyps(1))
    fix y :: u64
    assume y: "unat (e + 1) \<le> unat y" "unat y < unat hi"
    then have "dist_at p v chunk1 (unat y) = dist_at p v chunk (unat y)"
      using dist_at_update(2) [OF assms(1) Suc.prems(2), of "unat y" "unat e"] Suc.prems(3) [of y] e(2) e1 by (simp add: chunk1_def)
    then show "chunkIndex p y = Inr idx \<and> chunk_no p (unat y) = k \<and> unat y + dist_at p v chunk1 (unat y) < unat t"
      using Suc.prems(3) [of y] y e1 by simp
  qed (use Suc.hyps(2) Suc.prems(2) lt e1 in \<open>simp_all add: chunk1_def\<close>)
  moreover have "e \<le> cur"
    using lt assms(2) by (simp add: unat_le_u64)
  ultimately show ?case
    using e(1) x set by (subst max_update_loop.simps) (simp add: unat_less_u64)
qed

definition several_chunks ::
  "('d, 'z) slasher_db_scheme \<Rightarrow> 'd \<Rightarrow> Parameters \<Rightarrow> chunkUpdateArgs \<Rightarrow> bool" where
  "several_chunks db d p args \<longleftrightarrow> good_params p \<and> loads_chunks db d p \<and> keys_fit p (ca_validatorChunkIndex args) \<and>
     unat (chunkSize p) dvd unat (historyLength p) \<and> 2 * unat (chunkSize p) \<le> unat (historyLength p)"

lemma several_chunks_index:
  assumes "several_chunks db d p args" and "chunkIndex p e = Inr i"
  shows "chunk_no p (unat x) = chunk_no p (unat e) \<Longrightarrow> chunkIndex p x = Inr i"
    and "chunk_no p (unat x) = chunk_no p (unat e) + 1 \<Longrightarrow> chunkIndex p x \<noteq> Inr i"
proof -
  have h: "good_params p" "unat (chunkSize p) dvd unat (historyLength p)" "2 * unat (chunkSize p) \<le> unat (historyLength p)"
    using assms(1) by (simp_all add: several_chunks_def)
  obtain j where j: "chunkIndex p x = Inr j" "unat j = chunk_no p (unat x) mod chunk_no p (unat (historyLength p))"
    using chunkIndex_val [OF h(1,2)] by blast
  have i: "unat i = chunk_no p (unat e) mod chunk_no p (unat (historyLength p))"
    using chunkIndex_val [OF h(1,2), of e] assms(2) by auto
  show "chunk_no p (unat x) = chunk_no p (unat e) \<Longrightarrow> chunkIndex p x = Inr i"
    using i j by (simp add: unat_eq_u64)
  have "2 * unat (chunkSize p) div unat (chunkSize p) \<le> chunk_no p (unat (historyLength p))"
    unfolding chunk_no_def by (rule div_le_mono [OF h(3)])
  moreover have "0 < unat (chunkSize p)"
    using h(1) by (simp add: good_params_def unat_pos_u64)
  ultimately have "2 \<le> chunk_no p (unat (historyLength p))"
    by simp
  then have "(k + 1) mod chunk_no p (unat (historyLength p)) \<noteq> k mod chunk_no p (unat (historyLength p))" for k
    by (auto simp: mod_Suc)
  then show "chunk_no p (unat x) = chunk_no p (unat e) + 1 \<Longrightarrow> chunkIndex p x \<noteq> Inr i"
    using i j by auto
qed

lemma span_step_pass:
  assumes "several_chunks db d p args" and "ca_kind args = MaxSpan" and "chunks_ok p MaxSpan chunks"
    and "first_of p (unat e) + unat (chunkSize p) \<le> unat (ca_currentEpoch args)"
    and "\<And>i c x. chunkIndex p e = Inr i \<Longrightarrow> getChunk db d p args chunks i = Inr c \<Longrightarrow>
      unat e \<le> x \<Longrightarrow> x < first_of p (unat e) + unat (chunkSize p) \<Longrightarrow> x + dist_at p v (Chunk c) x < unat t"
  shows "\<exists>chunks' n. span_step db d p args v t chunks e = Inr (chunks', Some n) \<and> chunks_ok p MaxSpan chunks' \<and>
    unat n \<le> unat (historyLength p) \<and> unat (chunkSize p) dvd unat n"
proof -
  have h: "good_params p" "loads_chunks db d p" "keys_fit p (ca_validatorChunkIndex args)"
      "unat (chunkSize p) dvd unat (historyLength p)"
    using assms(1) by (simp_all add: several_chunks_def)
  obtain i where i: "chunkIndex p e = Inr i"
    using chunkIndex_total [OF h(1)] by blast
  have "unat i < unat (historyLength p)"
    by (rule chunkIndex_less [OF h(1) i])
  then obtain m where m: "getChunk db d p args chunks i = Inr (MaxChunker m)" "max_params m = p" "length (max_data m) = chunk_len p"
    using getChunk_ok [OF h(1-3), of i chunks] assms(2,3) by (metis chunk_ok.simps(2,4) Chunker.exhaust)
  define hi :: u64 where "hi = of_nat (first_of p (unat e) + unat (chunkSize p))"
  have uhi: "unat hi = first_of p (unat e) + unat (chunkSize p)"
    unfolding hi_def by (rule unat_of_nat_u64) (use assms(4) unat_lt_2_64 [of "ca_currentEpoch args"] in linarith)
  have e: "first_of p (unat e) \<le> unat e" "unat e < unat hi"
    using chunk_range [OF h(1), of "unat e" "unat e"] uhi by simp_all
  have "chunk_no p (unat hi) = chunk_no p (unat e) + 1"
    using h(1) by (simp add: uhi chunk_no_def first_of_def good_params_def unat_pos_u64)
  then have out: "chunkIndex p hi \<noteq> Inr i"
    by (rule several_chunks_index(2) [OF assms(1) i])
  have cells: "chunkIndex p x = Inr i \<and> chunk_no p (unat x) = chunk_no p (unat e) \<and> unat x + dist_at p v (max_data m) (unat x) < unat t"
    if "unat e \<le> unat x" "unat x < unat hi" for x
  proof -
    have "chunk_no p (unat x) = chunk_no p (unat e)"
      using chunk_range [OF h(1), of "unat x" "unat e"] that e uhi by simp
    then show ?thesis
      using several_chunks_index(1) [OF assms(1) i] assms(5) [OF i m(1) that(1)] that(2) uhi by simp
  qed
  obtain data where d: "max_update_loop p i (ca_currentEpoch args) v t (max_data m) e = Inr (data, True)" "length data = chunk_len p"
    using max_update_pass [OF h(1) _ less_imp_le [OF e(2)] m(3) out cells] assms(4) uhi by auto
  obtain n where n: "Max_NextChunkStartEpoch p e = Inr n" "unat n \<le> unat (historyLength p)" "unat (chunkSize p) dvd unat n"
    using Max_Next_low [OF h(1,4)] by blast
  let ?chunks = "chunks(i \<mapsto> MaxChunker (m\<lparr>max_data := data\<rparr>))"
  have "span_step db d p args v t chunks e = Inr (?chunks, Some n)"
    using i m d(1) n(1) by (simp add: span_step_def Max_Update_def)
  moreover have "chunks_ok p MaxSpan ?chunks"
    using chunks_ok_put [OF assms(3)] m(2) d(2) by simp
  ultimately show ?thesis
    using n by blast
qed

lemma span_loop_closed:
  assumes "span_loop db d p args v t chunks n = Some r" and "I chunks n"
    and "\<forall>chunks n. I chunks n \<longrightarrow> (\<exists>chunks' n'. span_step db d p args v t chunks n = Inr (chunks', Some n') \<and> I chunks' n')"
  shows False
  using assms
proof (induction rule: span_loop.raw_induct [rotated, consumes 1, case_names step])
  case (step rec db d p args v t chunks n r)
  obtain chunks' n' where "span_step db d p args v t chunks n = Inr (chunks', Some n')" "I chunks' n'"
    using step.prems by blast
  then show ?case
    using step by simp
qed

lemma span_loop_diverges:
  assumes "several_chunks db d p args" and "ca_kind args = MaxSpan"
    and "unat (historyLength p) + unat (chunkSize p) \<le> unat (ca_currentEpoch args)"
    and "unat (historyLength p) + unat (chunkSize p) + 65535 \<le> unat t"
    and "chunks_ok p MaxSpan chunks" and "unat n \<le> unat (historyLength p)" and "unat (chunkSize p) dvd unat n"
  shows "span_loop db d p args v t chunks n = None"
proof -
  have step: "\<exists>chunks' n'. span_step db d p args v t chunks n = Inr (chunks', Some n') \<and> chunks_ok p MaxSpan chunks' \<and>
      unat n' \<le> unat (historyLength p) \<and> unat (chunkSize p) dvd unat n'"
    if "chunks_ok p MaxSpan chunks" "unat n \<le> unat (historyLength p)" "unat (chunkSize p) dvd unat n" for chunks n
  proof (rule span_step_pass [OF assms(1,2) that(1)])
    have first: "first_of p (unat n) = unat n"
      using that(3) by (simp add: first_of_def chunk_no_def)
    then show "first_of p (unat n) + unat (chunkSize p) \<le> unat (ca_currentEpoch args)"
      using that(2) assms(3) by linarith
    show "x + dist_at p v (Chunk c) x < unat t" if "x < first_of p (unat n) + unat (chunkSize p)" for c x
    proof -
      have "dist_at p v (Chunk c) x < 65536"
        using unsigned_less [of "Chunk c ! cell p v x"] by (simp add: dist_at_def)
      then show ?thesis
        using that first \<open>unat n \<le> unat (historyLength p)\<close> assms(4) by linarith
    qed
  qed
  show ?thesis
  proof (cases "span_loop db d p args v t chunks n")
    case (Some r)
    have False
      by (rule span_loop_closed [OF Some, where I = "\<lambda>chunks n. chunks_ok p MaxSpan chunks \<and> unat n \<le> unat (historyLength p) \<and>
            unat (chunkSize p) dvd unat n"])
        (use step assms(5-7) in simp_all)
    then show ?thesis ..
  qed
qed

lemma getChunk_fresh:
  assumes "good_params p" and "keys_fit p (ca_validatorChunkIndex args)" and "ca_kind args = MaxSpan" and "chunkIndex p e = Inr i"
    and "\<And>key. \<exists>chunk. db_LoadSlasherChunks db d MaxSpan [key] = Inr ([chunk], [False])"
  shows "getChunk db d p args Map.empty i = Inr (MaxChunker (EmptyMaxSpanChunksSlice p))"
proof -
  obtain key where key: "flatSliceID p (ca_validatorChunkIndex args) i = Inr key"
    using flatSliceID_ok [OF assms(1,2) chunkIndex_less [OF assms(1,4)]] by blast
  obtain chunk where "db_LoadSlasherChunks db d MaxSpan [key] = Inr ([chunk], [False])"
    using assms(5) by blast
  then show ?thesis
    using key assms(3) by (simp add: getChunk_def loadChunks_def load_step_def)
qed

lemma fresh_dist: "good_params p \<Longrightarrow> dist_at p v (max_data (EmptyMaxSpanChunksSlice p)) e = 0"
  using cell_bound [of p v e]
  by (simp add: dist_at_def EmptyMaxSpanChunksSlice_def Max_NeutralElement_def chunk_len_def good_params_def unat_mult_u64)

lemma fresh_not_slashable:
  assumes "good_params p" and "iw_source att = Inr s" and "iw_target att = Inr t" and "s < t"
  shows "CheckSlashable lookup (MaxChunker (EmptyMaxSpanChunksSlice p)) v att = Inr None"
proof -
  have len: "length (max_data (EmptyMaxSpanChunksSlice p)) = chunk_len p"
    using assms(1) by (simp add: EmptyMaxSpanChunksSlice_def chunk_len_def good_params_def unat_mult_u64)
  obtain c where c: "cellIndex p v s = Inr c" "unat c = cell p v (unat s)"
    using cellIndex_cell [OF assms(1)] by blast
  have "\<not> of_nat (length (max_data (EmptyMaxSpanChunksSlice p))) \<le> c"
    using cell_bound [OF assms(1)] c(2) by (simp add: unat_le_u64 chunk_lengths(2) [OF assms(1) len] not_le)
  moreover have "max_data (EmptyMaxSpanChunksSlice p) ! unat c = 0"
    using fresh_dist [OF assms(1), of v "unat s"] c(2) by (simp add: dist_at_def unat_eq_0)
  ultimately have "chunkDataAtEpoch p (max_data (EmptyMaxSpanChunksSlice p)) v s = Inr s"
    using c(1) unat_lt_2_64 [of s] by (simp add: chunkDataAtEpoch_def chunk_lengths(1) [OF assms(1) len] Epoch_arith)
  moreover have "max_params (EmptyMaxSpanChunksSlice p) = p"
    by (simp add: EmptyMaxSpanChunksSlice_def)
  moreover have "\<not> t < s"
    using assms(4) by (metis less_asym)
  ultimately show ?thesis
    using assms(2,3) by (simp add: Max_CheckSlashable_def)
qed

text \<open>C26: for a target epoch beyond 65535, the history length and a chunk, updating the max spans of a validator without stored spans
  with an attestation whose source and target are more than a chunk apart never returns.
\<close>

theorem max_span_update_never_returns:
  assumes "several_chunks db d p args" and "ca_kind args = MaxSpan"
    and "\<And>key. \<exists>chunk. db_LoadSlasherChunks db d MaxSpan [key] = Inr ([chunk], [False])"
    and "iw_source att = Inr s" and "iw_target att = Inr t" and "unat s + unat (chunkSize p) < unat t"
    and "t \<le> ca_currentEpoch args" and "unat (historyLength p) + unat (chunkSize p) + 65535 \<le> unat t"
  shows "applyAttestationForValidator db d p args v Map.empty att = None"
proof -
  have h: "good_params p" "keys_fit p (ca_validatorChunkIndex args)"
    using assms(1) by (simp_all add: several_chunks_def)
  obtain i where i: "chunkIndex p s = Inr i"
    using chunkIndex_total [OF h(1)] by blast
  have st: "s < t" "\<not> ca_currentEpoch args \<le> s" and cur: "unat t \<le> unat (ca_currentEpoch args)"
    using assms(6,7) by (auto simp: unat_less_u64 unat_le_u64)
  have s1: "unat (s + 1) = unat s + 1"
    using assms(6) unat_lt_2_64 [of t] by (simp add: unat_add_u64)
  have first: "first_of p (unat (s + 1)) \<le> unat s + 1"
    using first_of_props(1) [OF h(1), of "unat (s + 1)"] s1 by simp
  have "\<exists>chunks' n. span_step db d p args v t Map.empty (s + 1) = Inr (chunks', Some n) \<and> chunks_ok p MaxSpan chunks' \<and>
      unat n \<le> unat (historyLength p) \<and> unat (chunkSize p) dvd unat n"
  proof (rule span_step_pass [OF assms(1,2)])
    show "first_of p (unat (s + 1)) + unat (chunkSize p) \<le> unat (ca_currentEpoch args)"
      using first assms(6) cur by linarith
    show "x + dist_at p v (Chunk c) x < unat t"
      if "chunkIndex p (s + 1) = Inr j" "getChunk db d p args Map.empty j = Inr c" "x < first_of p (unat (s + 1)) + unat (chunkSize p)" for j c x
      using getChunk_fresh [OF h assms(2) that(1), where db = db and d = d] assms(3) that(2,3) fresh_dist [OF h(1)] first assms(6) by simp
  qed (simp add: chunks_ok_def)
  then obtain chunks' n where step: "span_step db d p args v t Map.empty (s + 1) = Inr (chunks', Some n)"
      "chunks_ok p MaxSpan chunks'" "unat n \<le> unat (historyLength p)" "unat (chunkSize p) dvd unat n"
    by blast
  have "span_loop db d p args v t chunks' n = None"
    by (rule span_loop_diverges [OF assms(1,2) _ assms(8) step(2-4)]) (use cur assms(8) in linarith)
  then have "span_loop db d p args v t Map.empty (s + 1) = None"
    using step(1) by (subst span_loop.simps) simp
  then show ?thesis
    using assms(4,5) i getChunk_fresh [OF h assms(2) i assms(3)] fresh_not_slashable [OF h(1) assms(4,5) st(1)] st(2) s1 unat_lt_2_64 [of "s + 1"]
    by (simp add: applyAttestationForValidator_def Max_StartEpoch_def Epoch_arith)
qed

text \<open>With the default parameters of the slasher and epoch 70000 as the current epoch.\<close>

theorem max_span_update_never_returns_witness:
  "applyAttestationForValidator list_db [] DefaultParams (small_args MaxSpan 70000) 0 Map.empty (vote_att 0 69000 70000) = None"
proof (rule max_span_update_never_returns [where s = 69000 and t = 70000])
  show "several_chunks list_db [] DefaultParams (small_args MaxSpan 70000)"
    by (auto simp: several_chunks_def good_params_def loads_chunks_def keys_fit_def DefaultParams_def small_args_def list_db_def)
qed (simp_all add: list_db_def small_args_def DefaultParams_def unat_le_u64)

end
