(* ===== verification/Fork_Choice.thy ===== *)
theory Fork_Choice
  imports Justification Slot_Time "HOL-Library.List_Lexorder"
begin

text \<open>
  The fork choice store (\<open>beacon-chain/forkchoice/doubly-linked-tree\<close>): \<open>types.go\<close>, \<open>node.go\<close>,
  \<open>proposer_boost.go\<close>, \<open>unrealized_justification.go\<close>, \<open>optimistic_sync.go\<close> and \<open>store.go\<close>. The nodes of the block tree
  are heap objects that point to each other; here they live in a list that only grows, a pointer is a position of the list
  or nil, and the operations are programs over the state. A program may fail or panic and keeps the changes it has made
  by then, as the Go code does. The recursion over the tree takes fuel, the number of nodes and one: a deeper call chain
  revisits a node and would not return, which is the value \<open>None\<close>. The context is polled and the clock is read as often as the
  code does (each time advances the tick of the state), and both may change between two reads. Metrics and logs are left
  out.
\<close>

named_theorems fc_defs \<open>definitions of the fork choice programs\<close>
named_theorems prog_simps \<open>running programs\<close>

section \<open>State\<close>

type_synonym ptr = "nat option"

record Node =
  n_slot :: Slot
  n_root :: bytes
  n_payloadHash :: bytes
  n_parent :: ptr
  n_children :: "ptr list"
  n_justifiedEpoch :: Epoch
  n_unrealizedJustifiedEpoch :: Epoch
  n_unrealizedJustifiedRoot :: bytes
  n_finalizedEpoch :: Epoch
  n_unrealizedFinalizedEpoch :: Epoch
  n_unrealizedFinalizedRoot :: bytes
  n_balance :: u64
  n_weight :: u64
  n_bestDescendant :: ptr
  n_optimistic :: bool
  n_timestamp :: u64

record Vote =
  v_currentRoot :: bytes
  v_nextRoot :: bytes
  v_nextEpoch :: Epoch

record Store =
  st_justifiedCheckpoint :: Checkpoint
  st_unrealizedJustifiedCheckpoint :: Checkpoint
  st_unrealizedFinalizedCheckpoint :: Checkpoint
  st_prevJustifiedCheckpoint :: Checkpoint
  st_finalizedCheckpoint :: Checkpoint
  st_proposerBoostRoot :: bytes
  st_previousProposerBoostRoot :: bytes
  st_previousProposerBoostScore :: u64
  st_finalizedPayloadBlockHash :: bytes
  st_committeeWeight :: u64
  st_treeRootNode :: ptr
  st_headNode :: ptr
  st_nodeByRoot :: "bytes \<rightharpoonup> ptr"
  st_nodeByPayload :: "bytes \<rightharpoonup> ptr"
  st_slashedIndices :: "ValidatorIndex \<rightharpoonup> bool"
  st_originRoot :: bytes
  st_genesisTime :: u64
  st_highestReceivedNode :: ptr
  st_receivedBlocksLastEpoch :: "Slot list"
  st_allTipsAreInvalid :: bool

text \<open>The struct \<open>ForkChoice\<close> with the heap of nodes and the tick of the context and the clock.\<close>

record ForkChoice =
  fc_store :: Store
  fc_votes :: "Vote list"
  fc_balances :: "u64 list"
  fc_justifiedBalances :: "u64 list"
  fc_numActiveValidators :: u64
  fc_lastProcessedEpoch :: Epoch
  fc_pendingEpoch :: "Epoch option"
  fc_nodes :: "Node list"
  fc_tick :: nat

text \<open>What the code asks of its surroundings: the clock in seconds, and the order in which Go ranges over a map.\<close>

record env =
  env_now :: "nat \<Rightarrow> u64"
  env_order :: "nat \<Rightarrow> bytes set \<Rightarrow> bytes list"

type_synonym ctx = "nat \<Rightarrow> bool"

definition WithoutCancel :: "ctx \<Rightarrow> ctx" where
  "WithoutCancel ctx = (\<lambda>_. False)"

definition ZeroHash :: bytes where
  "ZeroHash = replicate 32 0"

definition fp_SlotsPerEpoch :: u64 where
  "fp_SlotsPerEpoch = 128"

section \<open>Programs\<close>

type_synonym 'a prog = "ForkChoice \<Rightarrow> ('a res \<times> ForkChoice) option"

definition returnS :: "'a \<Rightarrow> 'a prog" where
  [prog_simps]: "returnS x s = Some (Inr x, s)"

definition failS :: "fail \<Rightarrow> 'a prog" where
  [prog_simps]: "failS e s = Some (Inl e, s)"

definition bindS :: "'a prog \<Rightarrow> ('a \<Rightarrow> 'b prog) \<Rightarrow> 'b prog" where
  "bindS m f s = (case m s of None \<Rightarrow> None | Some (r, s') \<Rightarrow> (case r of Inl e \<Rightarrow> Some (Inl e, s') | Inr x \<Rightarrow> f x s'))"

definition liftS :: "'a res \<Rightarrow> 'a prog" where
  [prog_simps]: "liftS r s = Some (r, s)"

definition getS :: "ForkChoice prog" where
  [prog_simps]: "getS s = Some (Inr s, s)"

definition modS :: "(ForkChoice \<Rightarrow> ForkChoice) \<Rightarrow> unit prog" where
  [prog_simps]: "modS f s = Some (Inr (), f s)"

abbreviation getStore :: "Store prog" where
  "getStore \<equiv> bindS getS (\<lambda>s. returnS (fc_store s))"

abbreviation modStore :: "(Store \<Rightarrow> Store) \<Rightarrow> unit prog" where
  "modStore f \<equiv> modS (fc_store_update f)"

definition wrapS :: "string \<Rightarrow> 'a prog \<Rightarrow> 'a prog" where
  "wrapS msg m s = map_option (map_prod (wrapR msg) id) (m s)"

text \<open>The error of a call as a value, for the callers that go on after it; a panic is not caught.\<close>

definition attemptS :: "'a prog \<Rightarrow> 'a res prog" where
  "attemptS m s = (case m s of None \<Rightarrow> None
     | Some (r, s') \<Rightarrow> Some (case r of Inl (Panic e) \<Rightarrow> Inl (Panic e) | _ \<Rightarrow> Inr r, s'))"

fun forS :: "'a list \<Rightarrow> ('a \<Rightarrow> 'b \<Rightarrow> 'b prog) \<Rightarrow> 'b \<Rightarrow> 'b prog" where
  "forS [] f acc = returnS acc"
| "forS (x # xs) f acc = bindS (f x acc) (forS xs f)"

definition ctxErr :: "ctx \<Rightarrow> unit prog" where
  [prog_simps]: "ctxErr ctx s = Some (if ctx (fc_tick s) then Inl (Err ''context canceled'') else Inr (), s\<lparr>fc_tick := Suc (fc_tick s)\<rparr>)"

definition timeNow :: "('e) env_scheme \<Rightarrow> u64 prog" where
  [prog_simps]: "timeNow env s = Some (Inr (env_now env (fc_tick s)), s\<lparr>fc_tick := Suc (fc_tick s)\<rparr>)"

definition rangeMap :: "('e) env_scheme \<Rightarrow> (bytes \<rightharpoonup> 'a) \<Rightarrow> bytes list prog" where
  [prog_simps]: "rangeMap env m s = Some (Inr (env_order env (fc_tick s) (dom m)), s\<lparr>fc_tick := Suc (fc_tick s)\<rparr>)"

definition load :: "ptr \<Rightarrow> Node prog" where
  [prog_simps]: "load p s = Some (case p of None \<Rightarrow> Inl (Panic ''nil pointer dereference'')
     | Some a \<Rightarrow> if a < length (fc_nodes s) then Inr (fc_nodes s ! a) else Inl (Panic ''invalid pointer''), s)"

definition update_node :: "ptr \<Rightarrow> (Node \<Rightarrow> Node) \<Rightarrow> unit prog" where
  "update_node p f = bindS (load p) (\<lambda>n. modS (\<lambda>s. s\<lparr>fc_nodes := (fc_nodes s)[the p := f n]\<rparr>))"

definition alloc :: "Node \<Rightarrow> ptr prog" where
  [prog_simps]: "alloc n s = Some (Inr (Some (length (fc_nodes s))), s\<lparr>fc_nodes := fc_nodes s @ [n]\<rparr>)"

text \<open>A map read without the second result: nil when the key is missing.\<close>

definition map_ptr :: "(bytes \<rightharpoonup> ptr) \<Rightarrow> bytes \<Rightarrow> ptr" where
  "map_ptr m k = (case m k of None \<Rightarrow> None | Some p \<Rightarrow> p)"

text \<open>The fuel of a recursion over the tree.\<close>

definition withFuel :: "(nat \<Rightarrow> 'a prog) \<Rightarrow> 'a prog" where
  [prog_simps]: "withFuel f s = f (Suc (length (fc_nodes s))) s"

lemma bindS_simps [simp, prog_simps]:
  "bindS (returnS x) f = f x" "bindS (failS e) f = failS e"
  "bindS (bindS m g) f = bindS m (\<lambda>x. bindS (g x) f)"
  by (auto simp: bindS_def fun_eq_iff returnS_def failS_def split: option.splits sum.splits prod.splits)

lemma bindS_run [prog_simps]:
  "m s = Some (Inr x, s') \<Longrightarrow> bindS m f s = f x s'"
  "m s = Some (Inl e, s') \<Longrightarrow> bindS m f s = Some (Inl e, s')"
  "m s = None \<Longrightarrow> bindS m f s = None"
  by (simp_all add: bindS_def)

lemma bindS_eq_Inr:
  "bindS m f s = Some (Inr y, s'') \<longleftrightarrow> (\<exists>x s'. m s = Some (Inr x, s') \<and> f x s' = Some (Inr y, s''))"
  by (auto simp: bindS_def split: option.splits sum.splits)

section \<open>Nodes (\<open>node.go\<close>)\<close>

definition ProcessAttestationsThreshold :: u64 where
  "ProcessAttestationsThreshold = 50"

fun applyWeightChanges :: "ctx \<Rightarrow> nat \<Rightarrow> ptr \<Rightarrow> unit prog" where
  "applyWeightChanges ctx 0 n = (\<lambda>s. None)"
| "applyWeightChanges ctx (Suc k) n =
     bindS (load n) (\<lambda>nd.
     bindS (forS (n_children nd) (\<lambda>child childrenWeight.
              bindS (ctxErr ctx) (\<lambda>_.
              bindS (applyWeightChanges ctx k child) (\<lambda>_.
              bindS (load child) (\<lambda>c. returnS (childrenWeight + n_weight c))))) 0) (\<lambda>childrenWeight.
     if n_root nd = ZeroHash then returnS ()
     else update_node n (\<lambda>nd. nd\<lparr>n_weight := n_balance nd + childrenWeight\<rparr>)))"

definition viableForHead :: "config \<Rightarrow> Node \<Rightarrow> Epoch \<Rightarrow> Epoch \<Rightarrow> bool" where
  "viableForHead cfg n justifiedEpoch currentEpoch =
     (if justifiedEpoch = 0 then True
      else let votingSource = (if ToEpoch cfg (n_slot n) < currentEpoch then n_unrealizedJustifiedEpoch n else n_justifiedEpoch n)
           in votingSource = justifiedEpoch \<or> votingSource + 2 \<ge> currentEpoch)"

definition leadsToViableTip :: "config \<Rightarrow> ptr \<Rightarrow> Epoch \<Rightarrow> Epoch \<Rightarrow> bool prog" where
  "leadsToViableTip cfg n justifiedEpoch currentEpoch =
     bindS (load n) (\<lambda>nd.
       let tip = (if n_bestDescendant nd = None then n else n_bestDescendant nd)
       in bindS (load tip) (\<lambda>t. returnS (n_children t = [] \<and> viableForHead cfg t justifiedEpoch currentEpoch)))"

definition best_step :: "config \<Rightarrow> Epoch \<Rightarrow> Epoch \<Rightarrow> ptr \<Rightarrow> ptr \<Rightarrow> ptr prog" where
  "best_step cfg justifiedEpoch currentEpoch child best =
     bindS (leadsToViableTip cfg child justifiedEpoch currentEpoch) (\<lambda>viable.
     if \<not> viable then returnS best
     else if best = None then returnS child
     else bindS (load child) (\<lambda>c. bindS (load best) (\<lambda>b.
       returnS (if n_weight c > n_weight b \<or> (n_weight c = n_weight b \<and> n_root c > n_root b) then child else best))))"

definition bestChild :: "config \<Rightarrow> ptr \<Rightarrow> Epoch \<Rightarrow> Epoch \<Rightarrow> ptr prog" where
  "bestChild cfg n justifiedEpoch currentEpoch =
     bindS (load n) (\<lambda>nd. forS (n_children nd) (best_step cfg justifiedEpoch currentEpoch) None)"

fun updateBestDescendant :: "config \<Rightarrow> ctx \<Rightarrow> nat \<Rightarrow> ptr \<Rightarrow> Epoch \<Rightarrow> Epoch \<Rightarrow> Epoch \<Rightarrow> unit prog" where
  "updateBestDescendant cfg ctx 0 n justifiedEpoch finalizedEpoch currentEpoch = (\<lambda>s. None)"
| "updateBestDescendant cfg ctx (Suc k) n justifiedEpoch finalizedEpoch currentEpoch =
     bindS (ctxErr ctx) (\<lambda>_.
     bindS (load n) (\<lambda>nd.
     if n_children nd = [] then update_node n (\<lambda>nd. nd\<lparr>n_bestDescendant := None\<rparr>)
     else bindS (forS (n_children nd) (\<lambda>child _.
              if child = None then failS (Err ''could not update best descendant: invalid nil or unknown node'')
              else updateBestDescendant cfg ctx k child justifiedEpoch finalizedEpoch currentEpoch) ()) (\<lambda>_.
          bindS (bestChild cfg n justifiedEpoch currentEpoch) (\<lambda>best.
          if best = None then update_node n (\<lambda>nd. nd\<lparr>n_bestDescendant := None\<rparr>)
          else bindS (load best) (\<lambda>b.
            update_node n (\<lambda>nd. nd\<lparr>n_bestDescendant := (if n_bestDescendant b = None then best else n_bestDescendant b)\<rparr>))))))"

fun setNodeAndParentValidated :: "ctx \<Rightarrow> nat \<Rightarrow> ptr \<Rightarrow> unit prog" where
  "setNodeAndParentValidated ctx 0 n = (\<lambda>s. None)"
| "setNodeAndParentValidated ctx (Suc k) n =
     bindS (ctxErr ctx) (\<lambda>_.
     bindS (load n) (\<lambda>nd.
     if \<not> n_optimistic nd then returnS ()
     else bindS (if n_parent nd \<noteq> None then setNodeAndParentValidated ctx k (n_parent nd) else returnS ()) (\<lambda>_.
       update_node n (\<lambda>nd. nd\<lparr>n_optimistic := False\<rparr>))))"

definition arrivedEarly :: "config \<Rightarrow> Node \<Rightarrow> u64 \<Rightarrow> bool res" where
  "arrivedEarly cfg n genesisTime =
     (if n_parent n = None then Inr True
      else bindR (SecondsSinceSlotStart cfg (n_slot n) genesisTime (n_timestamp n)) (\<lambda>secs.
        Inr (secs < SecondsPerSlot (raw cfg) div IntervalsPerSlot (raw cfg))))"

definition arrivedAfterOrphanCheck :: "config \<Rightarrow> Node \<Rightarrow> u64 \<Rightarrow> bool res" where
  "arrivedAfterOrphanCheck cfg n genesisTime =
     (if n_parent n = None then Inr False
      else bindR (SecondsSinceSlotStart cfg (n_slot n) genesisTime (n_timestamp n)) (\<lambda>secs.
        Inr (secs \<ge> ProcessAttestationsThreshold)))"

section \<open>Proposer boost (\<open>proposer_boost.go\<close>)\<close>

definition expireProposerBoost :: "Slot \<Rightarrow> unit prog" where
  "expireProposerBoost slot =
     bindS getStore (\<lambda>st.
       let n = map_ptr (st_nodeByRoot st) (st_proposerBoostRoot st)
       in bindS (if n = None then returnS True else bindS (load n) (\<lambda>nd. returnS (n_slot nd < slot))) (\<lambda>expired.
          if expired then modStore (\<lambda>st. st\<lparr>st_proposerBoostRoot := ZeroHash\<rparr>) else returnS ()))"

definition applyProposerBoostScore :: "config \<Rightarrow> unit prog" where
  "applyProposerBoostScore cfg =
     bindS getStore (\<lambda>st.
     bindS (if st_previousProposerBoostRoot st \<noteq> ZeroHash
            then let previousNode = map_ptr (st_nodeByRoot st) (st_previousProposerBoostRoot st)
                 in if previousNode = None then returnS ()
                    else update_node previousNode (\<lambda>nd. nd\<lparr>n_balance :=
                      (if n_balance nd < st_previousProposerBoostScore st then 0 else n_balance nd - st_previousProposerBoostScore st)\<rparr>)
            else returnS ()) (\<lambda>_.
     bindS (if st_proposerBoostRoot st \<noteq> ZeroHash
            then let currentNode = map_ptr (st_nodeByRoot st) (st_proposerBoostRoot st)
                 in if currentNode = None then returnS 0
                    else let proposerScore = st_committeeWeight st * ProposerScoreBoost (raw cfg) div 100
                         in bindS (update_node currentNode (\<lambda>nd. nd\<lparr>n_balance := n_balance nd + proposerScore\<rparr>)) (\<lambda>_.
                              returnS proposerScore)
            else returnS 0) (\<lambda>proposerScore.
     modStore (\<lambda>st. st\<lparr>st_previousProposerBoostRoot := st_proposerBoostRoot st, st_previousProposerBoostScore := proposerScore\<rparr>))))"

section \<open>Checkpoint observations (\<open>unrealized_justification.go\<close>)\<close>

definition setUnrealizedJustifiedEpoch :: "bytes \<Rightarrow> Epoch \<Rightarrow> unit prog" where
  "setUnrealizedJustifiedEpoch root epoch =
     bindS getStore (\<lambda>st.
       let n = map_ptr (st_nodeByRoot st) root
       in if n = None then failS (Err ''could not set unrealized justified epoch: invalid nil or unknown node'')
          else bindS (load n) (\<lambda>nd.
            if epoch < n_unrealizedJustifiedEpoch nd then failS (Err ''invalid unrealized justified epoch'')
            else update_node n (\<lambda>nd. nd\<lparr>n_unrealizedJustifiedEpoch := epoch\<rparr>)))"

definition setUnrealizedFinalizedEpoch :: "bytes \<Rightarrow> Epoch \<Rightarrow> unit prog" where
  "setUnrealizedFinalizedEpoch root epoch =
     bindS getStore (\<lambda>st.
       let n = map_ptr (st_nodeByRoot st) root
       in if n = None then failS (Err ''could not set unrealized finalized epoch: invalid nil or unknown node'')
          else bindS (load n) (\<lambda>nd.
            if epoch < n_unrealizedFinalizedEpoch nd then failS (Err ''invalid unrealized finalized epoch'')
            else update_node n (\<lambda>nd. nd\<lparr>n_unrealizedFinalizedEpoch := epoch\<rparr>)))"

definition preferUnrealizedCheckpoint :: "Checkpoint \<Rightarrow> Checkpoint \<Rightarrow> Epoch \<Rightarrow> bytes \<Rightarrow> Checkpoint" where
  "preferUnrealizedCheckpoint best previous epoch root =
     (if epoch < cp_Epoch best then best
      else if epoch = cp_Epoch best \<and> (cp_Root best = cp_Root previous \<or> (root \<noteq> cp_Root previous \<and> root \<le> cp_Root best)) then best
      else \<lparr>cp_Epoch = epoch, cp_Root = root\<rparr>)"

definition survivingUnrealizedCheckpoint :: "Store \<Rightarrow> Checkpoint \<Rightarrow> Checkpoint \<Rightarrow> Epoch \<Rightarrow> bytes \<Rightarrow> Checkpoint" where
  "survivingUnrealizedCheckpoint st best previous epoch root =
     (if map_ptr (st_nodeByRoot st) root = None then best else preferUnrealizedCheckpoint best previous epoch root)"

definition unrealizedCheckpointsBefore :: "config \<Rightarrow> 'e env_scheme \<Rightarrow> Epoch \<Rightarrow> (Checkpoint \<times> Checkpoint) prog" where
  "unrealizedCheckpointsBefore cfg env epoch =
     bindS getStore (\<lambda>st.
     bindS (rangeMap env (st_nodeByRoot st)) (\<lambda>roots.
     forS roots (\<lambda>r (jc, fc).
       bindS (load (map_ptr (st_nodeByRoot st) r)) (\<lambda>nd.
         if ToEpoch cfg (n_slot nd) \<ge> epoch then returnS (jc, fc)
         else returnS
           (if n_unrealizedJustifiedEpoch nd > cp_Epoch (st_justifiedCheckpoint st) \<and>
               n_unrealizedJustifiedEpoch nd \<le> cp_Epoch (st_unrealizedJustifiedCheckpoint st)
            then preferUnrealizedCheckpoint jc (st_unrealizedJustifiedCheckpoint st) (n_unrealizedJustifiedEpoch nd) (n_unrealizedJustifiedRoot nd)
            else jc,
            if n_unrealizedFinalizedEpoch nd > cp_Epoch (st_finalizedCheckpoint st) \<and>
               n_unrealizedFinalizedEpoch nd \<le> cp_Epoch (st_unrealizedFinalizedCheckpoint st)
            then preferUnrealizedCheckpoint fc (st_unrealizedFinalizedCheckpoint st) (n_unrealizedFinalizedEpoch nd) (n_unrealizedFinalizedRoot nd)
            else fc)))
       (st_justifiedCheckpoint st, st_finalizedCheckpoint st)))"

definition advanceUnrealizedCheckpoints :: "Checkpoint \<Rightarrow> Checkpoint \<Rightarrow> unit prog" where
  "advanceUnrealizedCheckpoints jc fc =
     bindS (modStore (\<lambda>st. if cp_Epoch jc > cp_Epoch (st_unrealizedJustifiedCheckpoint st)
              then st\<lparr>st_unrealizedJustifiedCheckpoint := \<lparr>cp_Epoch = cp_Epoch jc, cp_Root = ToBytes32 (cp_Root jc)\<rparr>\<rparr> else st)) (\<lambda>_.
     modStore (\<lambda>st. if cp_Epoch fc > cp_Epoch (st_unrealizedFinalizedCheckpoint st)
              then st\<lparr>st_unrealizedFinalizedCheckpoint := \<lparr>cp_Epoch = cp_Epoch fc, cp_Root = ToBytes32 (cp_Root fc)\<rparr>\<rparr> else st))"

definition recomputeUnrealizedCheckpoints :: "'e env_scheme \<Rightarrow> unit prog" where
  "recomputeUnrealizedCheckpoints env =
     bindS getStore (\<lambda>st.
     bindS (rangeMap env (st_nodeByRoot st)) (\<lambda>roots.
     bindS (forS roots (\<lambda>r (jc, fc).
       bindS (load (map_ptr (st_nodeByRoot st) r)) (\<lambda>nd. returnS
         (if n_unrealizedJustifiedEpoch nd > cp_Epoch (st_justifiedCheckpoint st)
          then survivingUnrealizedCheckpoint st jc (st_unrealizedJustifiedCheckpoint st) (n_unrealizedJustifiedEpoch nd) (n_unrealizedJustifiedRoot nd)
          else jc,
          if n_unrealizedFinalizedEpoch nd > cp_Epoch (st_finalizedCheckpoint st)
          then survivingUnrealizedCheckpoint st fc (st_unrealizedFinalizedCheckpoint st) (n_unrealizedFinalizedEpoch nd) (n_unrealizedFinalizedRoot nd)
          else fc))) (st_justifiedCheckpoint st, st_finalizedCheckpoint st)) (\<lambda>(jc, fc).
     modStore (\<lambda>st. st\<lparr>st_unrealizedJustifiedCheckpoint := jc, st_unrealizedFinalizedCheckpoint := fc\<rparr>))))"

definition CurrentSlotS :: "config \<Rightarrow> 'e env_scheme \<Rightarrow> Slot prog" where
  "CurrentSlotS cfg env = bindS (timeNow env) (\<lambda>t. bindS getStore (\<lambda>st. returnS (CurrentSlot cfg t (st_genesisTime st))))"

definition pullTips :: "config \<Rightarrow> 'e env_scheme \<Rightarrow> bv4 \<Rightarrow> BeaconState \<Rightarrow> ptr \<Rightarrow> Checkpoint \<Rightarrow> Checkpoint \<Rightarrow> (Checkpoint \<times> Checkpoint) prog" where
  "pullTips cfg env bv state n jc fc =
     bindS (load n) (\<lambda>nd.
     if n_parent nd = None
     then bindS (update_node n (\<lambda>nd. nd\<lparr>n_unrealizedJustifiedRoot := ToBytes32 (cp_Root jc),
            n_unrealizedFinalizedRoot := ToBytes32 (cp_Root fc)\<rparr>)) (\<lambda>_. returnS (jc, fc))
     else bindS (CurrentSlotS cfg env) (\<lambda>currentSlot.
       let currentEpoch = ToEpoch cfg currentSlot; stateEpoch = ToEpoch cfg (b_slot state)
       in bindS (attemptS (liftS (UnrealizedCheckpoints cfg bv state))) (\<lambda>r.
          let (uj, uf) = (case r of Inl _ \<Rightarrow> (jc, fc) | Inr x \<Rightarrow> x)
          in bindS (advanceUnrealizedCheckpoints uj uf) (\<lambda>_.
             bindS (update_node n (\<lambda>nd. nd\<lparr>n_unrealizedJustifiedEpoch := cp_Epoch uj, n_unrealizedFinalizedEpoch := cp_Epoch uf,
               n_unrealizedJustifiedRoot := ToBytes32 (cp_Root uj), n_unrealizedFinalizedRoot := ToBytes32 (cp_Root uf)\<rparr>)) (\<lambda>_.
             if stateEpoch < currentEpoch
             then bindS (update_node n (\<lambda>nd. nd\<lparr>n_justifiedEpoch := cp_Epoch uj, n_finalizedEpoch := cp_Epoch uf\<rparr>)) (\<lambda>_. returnS (uj, uf))
             else returnS (jc, fc))))))"

section \<open>Removing blocks (\<open>optimistic_sync.go\<close>)\<close>

text \<open>Descendants before their parent.\<close>

fun subtreeNodes :: "ctx \<Rightarrow> nat \<Rightarrow> ptr \<Rightarrow> ptr list \<Rightarrow> ptr list prog" where
  "subtreeNodes ctx 0 n nodes = (\<lambda>s. None)"
| "subtreeNodes ctx (Suc k) n nodes =
     bindS (ctxErr ctx) (\<lambda>_.
     bindS (load n) (\<lambda>nd.
     bindS (forS (n_children nd) (\<lambda>child nodes. subtreeNodes ctx k child nodes) nodes) (\<lambda>nodes.
     returnS (nodes @ [n]))))"

fun hasViableTip :: "config \<Rightarrow> nat \<Rightarrow> ptr \<Rightarrow> Epoch \<Rightarrow> Epoch \<Rightarrow> bool prog" where
  "hasViableTip cfg 0 n justifiedEpoch currentEpoch = (\<lambda>s. None)"
| "hasViableTip cfg (Suc k) n justifiedEpoch currentEpoch =
     (if n = None then returnS False
      else bindS (load n) (\<lambda>nd.
        if n_children nd = [] then returnS (viableForHead cfg nd justifiedEpoch currentEpoch)
        else forS (n_children nd) (\<lambda>child found.
          if found then returnS True else hasViableTip cfg k child justifiedEpoch currentEpoch) False))"

text \<open>The child list of the parent: the last child takes the place of the removed one.\<close>

definition remove_child :: "ptr \<Rightarrow> ptr list \<Rightarrow> ptr list" where
  "remove_child n cs =
     (if length cs = 1 then []
      else if n \<in> set cs then butlast (cs[length (takeWhile (\<lambda>c. c \<noteq> n) cs) := last cs])
      else cs)"

definition remove_step :: "ptr \<Rightarrow> bytes list \<Rightarrow> bytes list prog" where
  "remove_step n invalidRoots =
     bindS (load n) (\<lambda>nd.
     bindS (modStore (\<lambda>st.
       let st1 = (if n_root nd = st_proposerBoostRoot st then st\<lparr>st_proposerBoostRoot := ZeroHash\<rparr> else st);
           st2 = (if n_root nd = st_previousProposerBoostRoot st1
                  then st1\<lparr>st_previousProposerBoostRoot := ZeroHash, st_previousProposerBoostScore := 0\<rparr> else st1)
       in st2\<lparr>st_nodeByRoot := (st_nodeByRoot st2)(n_root nd := None),
              st_nodeByPayload := (st_nodeByPayload st2)(n_payloadHash nd := None)\<rparr>)) (\<lambda>_.
     returnS (invalidRoots @ [n_root nd])))"

definition removeNode :: "'e env_scheme \<Rightarrow> ctx \<Rightarrow> ptr \<Rightarrow> bytes list prog" where
  "removeNode env ctx n =
     (if n = None then failS (Err ''could not remove node: invalid nil or unknown node'')
      else bindS (load n) (\<lambda>nd.
        if \<not> n_optimistic nd \<or> n_parent nd = None then failS (Err ''invalid optimistic status'')
        else bindS (withFuel (\<lambda>k. subtreeNodes ctx k n [])) (\<lambda>nodes.
          bindS (update_node (n_parent nd) (\<lambda>pd. pd\<lparr>n_children := remove_child n (n_children pd)\<rparr>)) (\<lambda>_.
          bindS (forS nodes remove_step []) (\<lambda>invalidRoots.
          bindS (recomputeUnrealizedCheckpoints env) (\<lambda>_. returnS invalidRoots))))))"

text \<open>The ancestor below the last valid payload: \<open>for ; firstInvalid.parent != nil \<dots>\<close>.\<close>

fun first_invalid_loop :: "ctx \<Rightarrow> bytes \<Rightarrow> nat \<Rightarrow> ptr \<Rightarrow> ptr prog" where
  "first_invalid_loop ctx lastValidHash 0 n = (\<lambda>s. None)"
| "first_invalid_loop ctx lastValidHash (Suc k) n =
     bindS (load n) (\<lambda>nd.
     if n_parent nd = None then returnS n
     else bindS (load (n_parent nd)) (\<lambda>pd.
       if n_payloadHash pd = lastValidHash then returnS n
       else bindS (ctxErr ctx) (\<lambda>_. first_invalid_loop ctx lastValidHash k (n_parent nd))))"

definition EpochsSinceGenesisS :: "config \<Rightarrow> 'e env_scheme \<Rightarrow> Epoch prog" where
  "EpochsSinceGenesisS cfg env = bindS (timeNow env) (\<lambda>t. bindS getStore (\<lambda>st.
     returnS ((if st_genesisTime st > t then 0 else (t - st_genesisTime st) div SecondsPerSlot (raw cfg)) div SlotsPerEpoch (raw cfg))))"

text \<open>The node of a known justified root, or the root of the tree for the checkpoint of genesis.\<close>

definition justified_node :: "config \<Rightarrow> Store \<Rightarrow> ptr" where
  "justified_node cfg st =
     (let n = map_ptr (st_nodeByRoot st) (cp_Root (st_justifiedCheckpoint st))
      in if n = None \<and> cp_Epoch (st_justifiedCheckpoint st) = GenesisEpoch (raw cfg) then st_treeRootNode st else n)"

definition setOptimisticToInvalid :: "config \<Rightarrow> 'e env_scheme \<Rightarrow> ctx \<Rightarrow> bytes \<Rightarrow> bytes \<Rightarrow> bytes \<Rightarrow> bytes list prog" where
  "setOptimisticToInvalid cfg env ctx root parentRoot lastValidHash =
     bindS getStore (\<lambda>st.
     bindS (case st_nodeByRoot st root of
              None \<Rightarrow>
                let n = map_ptr (st_nodeByRoot st) parentRoot
                in if n = None then failS (Err ''could not set node to invalid: invalid nil or unknown node'')
                   else bindS (load n) (\<lambda>nd. returnS (n, n_payloadHash nd = lastValidHash))
            | Some n \<Rightarrow>
                if n = None then failS (Err ''could not set node to invalid: invalid nil or unknown node'')
                else bindS (load n) (\<lambda>nd.
                  if n_parent nd = None then failS (Err ''invalid parent root'')
                  else bindS (load (n_parent nd)) (\<lambda>pd.
                    if n_root pd \<noteq> parentRoot then failS (Err ''invalid parent root'') else returnS (n, False)))) (\<lambda>(n, early).
     if early then returnS []
     else bindS (withFuel (\<lambda>k. first_invalid_loop ctx lastValidHash k n)) (\<lambda>firstInvalid.
       bindS (load firstInvalid) (\<lambda>fi. bindS (load n) (\<lambda>nd.
       if n_parent fi = None \<and> n_root nd = parentRoot then returnS []
       else bindS (removeNode env ctx (if n_parent fi = None then n else firstInvalid)) (\<lambda>invalidRoots.
         bindS getStore (\<lambda>st.
         bindS (EpochsSinceGenesisS cfg env) (\<lambda>currentEpoch.
         bindS (withFuel (\<lambda>k. hasViableTip cfg k (justified_node cfg st) (cp_Epoch (st_justifiedCheckpoint st)) currentEpoch)) (\<lambda>viable.
         bindS (modStore (\<lambda>st. st\<lparr>st_allTipsAreInvalid := \<not> viable\<rparr>)) (\<lambda>_. returnS invalidRoots))))))))))"

section \<open>The store (\<open>store.go\<close>)\<close>

definition head_start :: "config \<Rightarrow> Store \<Rightarrow> ptr prog" where
  "head_start cfg st =
     (let n = map_ptr (st_nodeByRoot st) (cp_Root (st_justifiedCheckpoint st))
      in if n \<noteq> None then returnS n
         else if cp_Epoch (st_justifiedCheckpoint st) = GenesisEpoch (raw cfg) then returnS (st_treeRootNode st)
         else failS (Err ''unknown justified root''))"

definition head_from :: "config \<Rightarrow> 'e env_scheme \<Rightarrow> Epoch \<Rightarrow> ptr \<Rightarrow> bytes prog" where
  "head_from cfg env jEpoch justifiedNode =
     bindS (load justifiedNode) (\<lambda>jn.
     let bestDescendant = (if n_bestDescendant jn = None then justifiedNode else n_bestDescendant jn) in
     bindS (EpochsSinceGenesisS cfg env) (\<lambda>currentEpoch.
     bindS (load bestDescendant) (\<lambda>bd.
     if bestDescendant \<noteq> justifiedNode \<and> \<not> viableForHead cfg bd jEpoch currentEpoch
     then bindS (modStore (\<lambda>st. st\<lparr>st_allTipsAreInvalid := True\<rparr>)) (\<lambda>_. failS (Err ''head is not eligible''))
     else bindS (leadsToViableTip cfg justifiedNode jEpoch currentEpoch) (\<lambda>viable.
       bindS (modStore (\<lambda>st. if viable then st\<lparr>st_allTipsAreInvalid := False\<rparr> else st)) (\<lambda>_.
       bindS (modStore (\<lambda>st. st\<lparr>st_headNode := bestDescendant\<rparr>)) (\<lambda>_.
       returnS (n_root bd)))))))"

definition store_head :: "config \<Rightarrow> 'e env_scheme \<Rightarrow> ctx \<Rightarrow> bytes prog" where
  "store_head cfg env ctx =
     bindS (ctxErr ctx) (\<lambda>_. bindS getStore (\<lambda>st.
     bindS (head_start cfg st) (head_from cfg env (cp_Epoch (st_justifiedCheckpoint st)))))"

text \<open>What the store reads of a block: its root, slot, parent root and the payload's block hash.\<close>

record ROBlock =
  rb_Root :: bytes
  rb_Slot :: Slot
  rb_ParentRoot :: bytes
  rb_BlockHash :: "bytes res"

definition new_Node :: "ROBlock \<Rightarrow> bytes \<Rightarrow> ptr \<Rightarrow> Epoch \<Rightarrow> Epoch \<Rightarrow> u64 \<Rightarrow> Node" where
  "new_Node b payloadHash parent justifiedEpoch finalizedEpoch t =
     \<lparr>n_slot = rb_Slot b, n_root = rb_Root b, n_payloadHash = payloadHash, n_parent = parent, n_children = [],
      n_justifiedEpoch = justifiedEpoch, n_unrealizedJustifiedEpoch = justifiedEpoch, n_unrealizedJustifiedRoot = ZeroHash,
      n_finalizedEpoch = finalizedEpoch, n_unrealizedFinalizedEpoch = finalizedEpoch, n_unrealizedFinalizedRoot = ZeroHash,
      n_balance = 0, n_weight = 0, n_bestDescendant = None, n_optimistic = True, n_timestamp = t\<rparr>"

text \<open>The boost of the block and the best descendants after a node has been linked to its parent.\<close>

definition insert_boost :: "config \<Rightarrow> 'e env_scheme \<Rightarrow> ctx \<Rightarrow> ROBlock \<Rightarrow> ptr \<Rightarrow> u64 \<Rightarrow> unit prog" where
  "insert_boost cfg env ctx b n now =
     bindS getStore (\<lambda>st.
     let secondsIntoSlot = (now - st_genesisTime st) mod SecondsPerSlot (raw cfg);
         boostThreshold = SecondsPerSlot (raw cfg) div IntervalsPerSlot (raw cfg)
     in bindS (CurrentSlotS cfg env) (\<lambda>currentSlot.
        bindS (expireProposerBoost currentSlot) (\<lambda>_.
        bindS (modStore (\<lambda>st. if currentSlot = rb_Slot b \<and> secondsIntoSlot < boostThreshold \<and> st_proposerBoostRoot st = ZeroHash
                 then st\<lparr>st_proposerBoostRoot := rb_Root b\<rparr> else st)) (\<lambda>_.
        bindS (attemptS (withFuel (\<lambda>k. updateBestDescendant cfg ctx k (st_treeRootNode st) (cp_Epoch (st_justifiedCheckpoint st))
                 (cp_Epoch (st_finalizedCheckpoint st)) (ToEpoch cfg currentSlot)))) (\<lambda>r.
        case r of Inr _ \<Rightarrow> returnS ()
        | Inl e \<Rightarrow> bindS (attemptS (removeNode env (WithoutCancel ctx) n)) (\<lambda>_.
            wrapS ''could not update best descendants'' (failS e)))))))"

definition insert_tracking :: "config \<Rightarrow> 'e env_scheme \<Rightarrow> ROBlock \<Rightarrow> ptr \<Rightarrow> ptr prog" where
  "insert_tracking cfg env b n =
     bindS (CurrentSlotS cfg env) (\<lambda>currentSlot.
     bindS (if rb_Slot b + SlotsPerEpoch (raw cfg) > currentSlot
            then bindS getStore (\<lambda>st.
              bindS (liftS (arr_set (st_receivedBlocksLastEpoch st) (unat (rb_Slot b mod SlotsPerEpoch (raw cfg))) (rb_Slot b))) (\<lambda>xs.
              modStore (\<lambda>st. st\<lparr>st_receivedBlocksLastEpoch := xs\<rparr>)))
            else returnS ()) (\<lambda>_.
     bindS getStore (\<lambda>st.
     bindS (load (st_highestReceivedNode st)) (\<lambda>h.
     bindS (if rb_Slot b > n_slot h then modStore (\<lambda>st. st\<lparr>st_highestReceivedNode := n\<rparr>) else returnS ()) (\<lambda>_.
     returnS n)))))"

definition store_insert :: "config \<Rightarrow> 'e env_scheme \<Rightarrow> ctx \<Rightarrow> ROBlock \<Rightarrow> Epoch \<Rightarrow> Epoch \<Rightarrow> ptr prog" where
  "store_insert cfg env ctx b justifiedEpoch finalizedEpoch =
     bindS (liftS (rb_BlockHash b)) (\<lambda>blockHash.
     bindS getStore (\<lambda>st.
     case st_nodeByRoot st (rb_Root b) of Some n \<Rightarrow> returnS n
     | None \<Rightarrow>
       let payloadHash = to_array 32 blockHash; parent = map_ptr (st_nodeByRoot st) (rb_ParentRoot b)
       in bindS (timeNow env) (\<lambda>t.
          bindS (alloc (new_Node b payloadHash parent justifiedEpoch finalizedEpoch t)) (\<lambda>n.
          bindS (modStore (\<lambda>st. st\<lparr>st_nodeByPayload := (st_nodeByPayload st)(payloadHash \<mapsto> n),
                   st_nodeByRoot := (st_nodeByRoot st)(rb_Root b \<mapsto> n)\<rparr>)) (\<lambda>_.
          if parent = None
          then if st_treeRootNode st = None
               then bindS (modStore (\<lambda>st. st\<lparr>st_treeRootNode := n, st_headNode := n, st_highestReceivedNode := n\<rparr>)) (\<lambda>_.
                      insert_tracking cfg env b n)
               else bindS (modStore (\<lambda>st. st\<lparr>st_nodeByRoot := (st_nodeByRoot st)(rb_Root b := None),
                      st_nodeByPayload := (st_nodeByPayload st)(payloadHash := None)\<rparr>)) (\<lambda>_. failS (Err ''invalid parent root''))
          else bindS (update_node parent (\<lambda>pd. pd\<lparr>n_children := n_children pd @ [n]\<rparr>)) (\<lambda>_.
            bindS (timeNow env) (\<lambda>now.
            if now < st_genesisTime st then returnS n
            else bindS (insert_boost cfg env ctx b n now) (\<lambda>_. insert_tracking cfg env b n))))))))"

fun prunableNodes :: "ctx \<Rightarrow> nat \<Rightarrow> ptr \<Rightarrow> ptr \<Rightarrow> ptr list \<Rightarrow> ptr list prog" where
  "prunableNodes ctx 0 n finalizedNode nodes = (\<lambda>s. None)"
| "prunableNodes ctx (Suc k) n finalizedNode nodes =
     bindS (ctxErr ctx) (\<lambda>_.
     if n = finalizedNode then returnS nodes
     else bindS (load n) (\<lambda>nd.
       bindS (forS (n_children nd) (\<lambda>child nodes. prunableNodes ctx k child finalizedNode nodes) nodes) (\<lambda>nodes.
       returnS (nodes @ [n]))))"

record pruningPlan =
  pp_finalized :: ptr
  pp_removed :: "ptr list"
  pp_children :: "ptr list"

definition prune_child :: "ctx \<Rightarrow> Node \<Rightarrow> Slot \<Rightarrow> ptr \<Rightarrow> pruningPlan \<Rightarrow> pruningPlan prog" where
  "prune_child ctx fin checkpointMaxSlot child plan =
     bindS (ctxErr ctx) (\<lambda>_.
     bindS (if n_slot fin \<noteq> checkpointMaxSlot \<and> child \<noteq> None
            then bindS (load child) (\<lambda>c. returnS (n_slot c \<le> checkpointMaxSlot)) else returnS False) (\<lambda>incompatible.
     if incompatible
     then bindS (wrapS ''could not prune incompatible finalized child'' (withFuel (\<lambda>k. subtreeNodes ctx k child (pp_removed plan)))) (\<lambda>removed.
            returnS (plan\<lparr>pp_removed := removed\<rparr>))
     else returnS (plan\<lparr>pp_children := pp_children plan @ [child]\<rparr>)))"

definition finalized_node :: "config \<Rightarrow> Checkpoint \<Rightarrow> ptr prog" where
  "finalized_node cfg checkpoint =
     bindS getStore (\<lambda>st.
     let n = map_ptr (st_nodeByRoot st) (cp_Root checkpoint)
     in bindS (if n = None \<and> cp_Epoch checkpoint = GenesisEpoch (raw cfg) \<and> cp_Root checkpoint = ZeroHash \<and> st_treeRootNode st \<noteq> None
               then bindS (load (st_treeRootNode st)) (\<lambda>r. returnS (if n_slot r = 0 then st_treeRootNode st else n))
               else returnS n) (\<lambda>n.
        if n = None then failS (Err ''unknown finalized root'') else returnS n))"

definition preparePrune :: "config \<Rightarrow> ctx \<Rightarrow> Checkpoint \<Rightarrow> pruningPlan prog" where
  "preparePrune cfg ctx checkpoint =
     bindS (ctxErr ctx) (\<lambda>_.
     bindS (finalized_node cfg checkpoint) (\<lambda>finalizedNode.
     bindS (wrapS ''could not compute epoch start'' (liftS (EpochStart cfg (cp_Epoch checkpoint)))) (\<lambda>checkpointMaxSlot.
     bindS getStore (\<lambda>st.
     bindS (load finalizedNode) (\<lambda>fin.
     bindS (if n_parent fin \<noteq> None then withFuel (\<lambda>k. prunableNodes ctx k (st_treeRootNode st) finalizedNode []) else returnS []) (\<lambda>removed.
     forS (n_children fin) (prune_child ctx fin checkpointMaxSlot)
       \<lparr>pp_finalized = finalizedNode, pp_removed = removed, pp_children = []\<rparr>))))))"

definition prune_step :: "ptr \<Rightarrow> unit \<Rightarrow> unit prog" where
  "prune_step n u =
     bindS (update_node n (\<lambda>nd. nd\<lparr>n_children := []\<rparr>)) (\<lambda>_.
     bindS (load n) (\<lambda>nd.
     modStore (\<lambda>st. st\<lparr>st_nodeByRoot := (st_nodeByRoot st)(n_root nd := None),
       st_nodeByPayload := (st_nodeByPayload st)(n_payloadHash nd := None)\<rparr>)))"

definition applyPrune :: "pruningPlan \<Rightarrow> unit prog" where
  "applyPrune plan =
     bindS (forS (pp_removed plan) prune_step ()) (\<lambda>_.
     bindS (update_node (pp_finalized plan) (\<lambda>nd. nd\<lparr>n_parent := None, n_children := pp_children plan\<rparr>)) (\<lambda>_.
     bindS (load (pp_finalized plan)) (\<lambda>fin.
     modStore (\<lambda>st. st\<lparr>st_treeRootNode := pp_finalized plan, st_finalizedPayloadBlockHash := n_payloadHash fin\<rparr>))))"

definition prune :: "config \<Rightarrow> ctx \<Rightarrow> unit prog" where
  "prune cfg ctx = bindS getStore (\<lambda>st. bindS (preparePrune cfg ctx (st_finalizedCheckpoint st)) applyPrune)"

definition tips :: "'e env_scheme \<Rightarrow> (bytes list \<times> Slot list) prog" where
  "tips env =
     bindS getStore (\<lambda>st.
     bindS (rangeMap env (st_nodeByRoot st)) (\<lambda>roots.
     forS roots (\<lambda>r (rs, ss). bindS (load (map_ptr (st_nodeByRoot st) r)) (\<lambda>nd.
       returnS (if n_children nd = [] then (rs @ [r], ss @ [n_slot nd]) else (rs, ss)))) ([], [])))"

definition HighestReceivedBlockRoot :: "bytes prog" where
  "HighestReceivedBlockRoot = bindS getStore (\<lambda>st. if st_highestReceivedNode st = None then returnS ZeroHash
     else bindS (load (st_highestReceivedNode st)) (\<lambda>nd. returnS (n_root nd)))"

definition HighestReceivedBlockSlot :: "Slot prog" where
  "HighestReceivedBlockSlot = bindS getStore (\<lambda>st. if st_highestReceivedNode st = None then returnS 0
     else bindS (load (st_highestReceivedNode st)) (\<lambda>nd. returnS (n_slot nd)))"

definition ReceivedBlocksLastEpoch :: "config \<Rightarrow> 'e env_scheme \<Rightarrow> u64 prog" where
  "ReceivedBlocksLastEpoch cfg env =
     bindS (CurrentSlotS cfg env) (\<lambda>currentSlot.
     bindS (if currentSlot > fp_SlotsPerEpoch then liftS (Slot_SafeSub currentSlot fp_SlotsPerEpoch) else returnS currentSlot) (\<lambda>lowerBound.
     bindS getStore (\<lambda>st.
     returnS (of_nat (length (filter (\<lambda>s. s \<noteq> 0 \<and> lowerBound \<le> s) (st_receivedBlocksLastEpoch st)))))))"

end
