(* ===== verification/Fork_Choice_Api.thy ===== *)
theory Fork_Choice_Api
  imports Fork_Choice
begin

text \<open>
  The interface of the fork choice store (\<open>forkchoice.go\<close>, \<open>on_tick.go\<close>, \<open>last_root.go\<close> and
  \<open>reorg_late_blocks.go\<close> of \<open>beacon-chain/forkchoice/doubly-linked-tree\<close>): votes and balances, inserting blocks and chains,
  realizing checkpoints at a new epoch, and choosing the head. The handler that reads the balances of a justified
  checkpoint is the argument \<open>bal\<close>; the feature flags are arguments of the two operations that read them.
\<close>

section \<open>Creating the store\<close>

definition New :: ForkChoice where
  "New =
     (let cp = \<lparr>cp_Epoch = 0, cp_Root = ZeroHash\<rparr>
      in \<lparr>fc_store = \<lparr>st_justifiedCheckpoint = cp, st_unrealizedJustifiedCheckpoint = cp, st_unrealizedFinalizedCheckpoint = cp,
            st_prevJustifiedCheckpoint = cp, st_finalizedCheckpoint = cp, st_proposerBoostRoot = ZeroHash,
            st_previousProposerBoostRoot = ZeroHash, st_previousProposerBoostScore = 0, st_finalizedPayloadBlockHash = ZeroHash,
            st_committeeWeight = 0, st_treeRootNode = None, st_headNode = None, st_nodeByRoot = Map.empty, st_nodeByPayload = Map.empty,
            st_slashedIndices = Map.empty, st_originRoot = ZeroHash, st_genesisTime = 0, st_highestReceivedNode = None,
            st_receivedBlocksLastEpoch = replicate (unat fp_SlotsPerEpoch) 0, st_allTipsAreInvalid = False\<rparr>,
          fc_votes = [], fc_balances = [], fc_justifiedBalances = [], fc_numActiveValidators = 0, fc_lastProcessedEpoch = 0,
          fc_pendingEpoch = None, fc_nodes = [], fc_tick = 0\<rparr>)"

definition SetGenesisTime :: "u64 \<Rightarrow> unit prog" where
  "SetGenesisTime genesisTime = modStore (\<lambda>st. st\<lparr>st_genesisTime := genesisTime\<rparr>)"

definition SetOriginRoot :: "bytes \<Rightarrow> unit prog" where
  "SetOriginRoot root = modStore (\<lambda>st. st\<lparr>st_originRoot := root\<rparr>)"

section \<open>Votes and balances\<close>

text \<open>The votes slice grows by empty votes up to the index.\<close>

definition vote_step :: "bytes \<Rightarrow> Epoch \<Rightarrow> u64 \<Rightarrow> Vote list \<Rightarrow> Vote list" where
  "vote_step blockRoot targetEpoch index votes =
     (let votes = votes @ replicate (Suc (unat index) - length votes) \<lparr>v_currentRoot = ZeroHash, v_nextRoot = ZeroHash, v_nextEpoch = 0\<rparr>;
          v = votes ! unat index;
          newVote = (v_nextRoot v = ZeroHash \<and> v_currentRoot v = ZeroHash)
      in if newVote \<or> targetEpoch > v_nextEpoch v
         then votes[unat index := v\<lparr>v_nextEpoch := targetEpoch, v_nextRoot := blockRoot\<rparr>] else votes)"

definition ProcessAttestation :: "u64 list \<Rightarrow> bytes \<Rightarrow> Epoch \<Rightarrow> unit prog" where
  "ProcessAttestation validatorIndices blockRoot targetEpoch =
     modS (\<lambda>s. s\<lparr>fc_votes := fold (vote_step blockRoot targetEpoch) validatorIndices (fc_votes s)\<rparr>)"

definition balance_at :: "u64 list \<Rightarrow> nat \<Rightarrow> u64" where
  "balance_at bs i = (if i < length bs then bs ! i else 0)"

definition is_slashed :: "Store \<Rightarrow> nat \<Rightarrow> bool" where
  "is_slashed st i = (st_slashedIndices st (of_nat i) = Some True)"

text \<open>One vote of \<open>updateBalances\<close>: the new balance goes to the next root, the old one leaves the current root.\<close>

definition add_vote :: "bytes \<Rightarrow> u64 \<Rightarrow> unit prog" where
  "add_vote root newBalance =
     bindS getStore (\<lambda>st.
     case st_nodeByRoot st root of
       Some n \<Rightarrow> if root \<noteq> ZeroHash
                 then if n = None then failS (Err ''could not update balances: invalid nil or unknown node'')
                      else update_node n (\<lambda>nd. nd\<lparr>n_balance := n_balance nd + newBalance\<rparr>)
                 else returnS ()
     | None \<Rightarrow> returnS ())"

definition sub_vote :: "bytes \<Rightarrow> u64 \<Rightarrow> unit prog" where
  "sub_vote root oldBalance =
     bindS getStore (\<lambda>st.
     case st_nodeByRoot st root of
       Some n \<Rightarrow> if root \<noteq> ZeroHash
                 then if n = None then failS (Err ''could not update balances: invalid nil or unknown node'')
                      else update_node n (\<lambda>nd. nd\<lparr>n_balance := (if n_balance nd < oldBalance then 0 else n_balance nd - oldBalance)\<rparr>)
                 else returnS ()
     | None \<Rightarrow> returnS ())"

definition balance_step :: "u64 list \<Rightarrow> nat \<Rightarrow> unit \<Rightarrow> unit prog" where
  "balance_step newBalances index u =
     bindS getS (\<lambda>s.
     let vote = fc_votes s ! index;
         oldBalance = balance_at (fc_balances s) index;
         newBalance = balance_at newBalances index
     in if is_slashed (fc_store s) index then returnS ()
        else if v_currentRoot vote = ZeroHash \<and> v_nextRoot vote = ZeroHash then returnS ()
        else bindS (if v_currentRoot vote \<noteq> v_nextRoot vote \<or> oldBalance \<noteq> newBalance
                    then bindS (add_vote (v_nextRoot vote) newBalance) (\<lambda>_. sub_vote (v_currentRoot vote) oldBalance)
                    else returnS ()) (\<lambda>_.
             modS (\<lambda>s. s\<lparr>fc_votes := (fc_votes s)[index := (fc_votes s ! index)\<lparr>v_currentRoot := v_nextRoot vote\<rparr>]\<rparr>)))"

definition updateBalances :: "unit prog" where
  "updateBalances =
     bindS getS (\<lambda>s.
     bindS (forS [0..<length (fc_votes s)] (balance_step (fc_justifiedBalances s)) ()) (\<lambda>_.
     modS (\<lambda>s'. s'\<lparr>fc_balances := fc_justifiedBalances s\<rparr>)))"

definition InsertSlashedIndex :: "ValidatorIndex \<Rightarrow> unit prog" where
  "InsertSlashedIndex index =
     bindS getS (\<lambda>s.
     if st_slashedIndices (fc_store s) index = Some True then returnS ()
     else bindS (modStore (\<lambda>st. st\<lparr>st_slashedIndices := (st_slashedIndices st)(index \<mapsto> True)\<rparr>)) (\<lambda>_.
       if unat index \<ge> length (fc_balances s) \<or> unat index \<ge> length (fc_votes s) then returnS ()
       else let n = map_ptr (st_nodeByRoot (fc_store s)) (v_currentRoot (fc_votes s ! unat index));
                bal = fc_balances s ! unat index
            in if n = None then returnS ()
               else update_node n (\<lambda>nd. nd\<lparr>n_balance := (if n_balance nd < bal then 0 else n_balance nd - bal)\<rparr>)))"

section \<open>Checkpoints\<close>

record JustifiedBalances =
  jb_Balances :: "u64 list"
  jb_TotalActiveBalance :: u64

type_synonym balances_by_root = "Checkpoint \<Rightarrow> JustifiedBalances option res"

definition updateJustifiedBalances :: "config \<Rightarrow> balances_by_root \<Rightarrow> Checkpoint \<Rightarrow> unit prog" where
  "updateJustifiedBalances cfg bal jc =
     bindS (wrapS ''could not get justified balances'' (liftS (bal jc))) (\<lambda>r.
     case r of None \<Rightarrow> failS (Err ''nil justified balances'')
     | Some jb \<Rightarrow>
         modS (\<lambda>s. s\<lparr>fc_justifiedBalances := jb_Balances jb,
           fc_numActiveValidators := of_nat (length (filter (\<lambda>b. b > 0) (jb_Balances jb))),
           fc_store := (fc_store s)\<lparr>st_committeeWeight := jb_TotalActiveBalance jb div SlotsPerEpoch (raw cfg)\<rparr>\<rparr>))"

definition UpdateJustifiedCheckpoint :: "config \<Rightarrow> balances_by_root \<Rightarrow> Checkpoint option \<Rightarrow> unit prog" where
  "UpdateJustifiedCheckpoint cfg bal jc =
     (case jc of None \<Rightarrow> failS (Err ''invalid nil checkpoint'')
      | Some jc \<Rightarrow>
          bindS (wrapS ''could not update justified balances'' (updateJustifiedBalances cfg bal jc)) (\<lambda>_.
          modStore (\<lambda>st. st\<lparr>st_prevJustifiedCheckpoint := st_justifiedCheckpoint st, st_justifiedCheckpoint := jc\<rparr>)))"

definition UpdateFinalizedCheckpoint :: "Checkpoint option \<Rightarrow> unit prog" where
  "UpdateFinalizedCheckpoint fc =
     (case fc of None \<Rightarrow> failS (Err ''invalid nil checkpoint'')
      | Some fc \<Rightarrow>
          bindS (modStore (\<lambda>st. st\<lparr>st_finalizedCheckpoint := fc\<rparr>)) (\<lambda>_.
          bindS getStore (\<lambda>st.
          let n = map_ptr (st_nodeByRoot st) (cp_Root fc)
          in if n = None then returnS ()
             else bindS (load n) (\<lambda>nd. modStore (\<lambda>st. st\<lparr>st_finalizedPayloadBlockHash := n_payloadHash nd\<rparr>)))))"

definition realize_step :: "config \<Rightarrow> Epoch \<Rightarrow> bytes \<Rightarrow> unit \<Rightarrow> unit prog" where
  "realize_step cfg epoch r u =
     bindS getStore (\<lambda>st. update_node (map_ptr (st_nodeByRoot st) r) (\<lambda>nd.
       if ToEpoch cfg (n_slot nd) < epoch
       then nd\<lparr>n_justifiedEpoch := n_unrealizedJustifiedEpoch nd, n_finalizedEpoch := n_unrealizedFinalizedEpoch nd\<rparr> else nd))"

definition updateUnrealizedCheckpoints :: "config \<Rightarrow> 'e env_scheme \<Rightarrow> balances_by_root \<Rightarrow> Epoch \<Rightarrow> unit prog" where
  "updateUnrealizedCheckpoints cfg env bal epoch =
     bindS (unrealizedCheckpointsBefore cfg env epoch) (\<lambda>(jc, fc).
     bindS getStore (\<lambda>st.
     bindS (if cp_Epoch jc > cp_Epoch (st_justifiedCheckpoint st) then UpdateJustifiedCheckpoint cfg bal (Some jc) else returnS ()) (\<lambda>_.
     bindS (modStore (\<lambda>st. st\<lparr>st_finalizedCheckpoint := fc\<rparr>)) (\<lambda>_.
     bindS (rangeMap env (st_nodeByRoot st)) (\<lambda>roots.
     forS roots (realize_step cfg epoch) ())))))"

definition NewSlot :: "config \<Rightarrow> 'e env_scheme \<Rightarrow> ctx \<Rightarrow> balances_by_root \<Rightarrow> Slot \<Rightarrow> unit prog" where
  "NewSlot cfg env ctx bal slot =
     bindS (expireProposerBoost slot) (\<lambda>_.
     bindS getS (\<lambda>s.
     let epoch = ToEpoch cfg slot
     in if epoch \<le> fc_lastProcessedEpoch s then returnS ()
        else let pending = (case fc_pendingEpoch s of None \<Rightarrow> epoch | Some p \<Rightarrow> if epoch > p then epoch else p)
             in bindS (modS (\<lambda>s. s\<lparr>fc_pendingEpoch := Some pending\<rparr>)) (\<lambda>_.
                if epoch < pending then returnS ()
                else bindS (unrealizedCheckpointsBefore cfg env pending) (\<lambda>(_, finalized).
                  bindS (preparePrune cfg ctx finalized) (\<lambda>plan.
                  bindS (wrapS ''could not update unrealized checkpoints'' (updateUnrealizedCheckpoints cfg env bal pending)) (\<lambda>_.
                  bindS (applyPrune plan) (\<lambda>_.
                  modS (\<lambda>s. s\<lparr>fc_lastProcessedEpoch := pending, fc_pendingEpoch := None\<rparr>))))))))"

definition updateCheckpoints :: "config \<Rightarrow> ctx \<Rightarrow> balances_by_root \<Rightarrow> Checkpoint \<Rightarrow> Checkpoint \<Rightarrow> unit prog" where
  "updateCheckpoints cfg ctx bal jc fc =
     bindS getStore (\<lambda>st.
     let finalized = \<lparr>cp_Epoch = cp_Epoch fc, cp_Root = ToBytes32 (cp_Root fc)\<rparr>
     in bindS (if cp_Epoch fc > cp_Epoch (st_finalizedCheckpoint st)
               then bindS (preparePrune cfg ctx finalized) (\<lambda>plan. returnS (Some plan)) else returnS None) (\<lambda>plan.
        bindS (if cp_Epoch jc > cp_Epoch (st_justifiedCheckpoint st)
               then UpdateJustifiedCheckpoint cfg bal (Some \<lparr>cp_Epoch = cp_Epoch jc, cp_Root = ToBytes32 (cp_Root jc)\<rparr>) else returnS ()) (\<lambda>_.
        case plan of None \<Rightarrow> returnS ()
        | Some plan \<Rightarrow> bindS (modStore (\<lambda>st. st\<lparr>st_finalizedCheckpoint := finalized\<rparr>)) (\<lambda>_. applyPrune plan))))"

section \<open>Inserting blocks\<close>

definition InsertNode :: "config \<Rightarrow> 'e env_scheme \<Rightarrow> ctx \<Rightarrow> bv4 \<Rightarrow> balances_by_root \<Rightarrow> BeaconState \<Rightarrow> ROBlock \<Rightarrow> unit prog" where
  "InsertNode cfg env ctx bv bal state b =
     (let jc = b_currentJustifiedCheckpoint state; fc = b_finalizedCheckpoint state
      in bindS (store_insert cfg env ctx b (cp_Epoch jc) (cp_Epoch fc)) (\<lambda>n.
         bindS (pullTips cfg env bv state n jc fc) (\<lambda>(jc, fc).
         bindS (attemptS (updateCheckpoints cfg ctx bal jc fc)) (\<lambda>r.
         case r of Inr _ \<Rightarrow> returnS ()
         | Inl e \<Rightarrow> bindS (attemptS (removeNode env (WithoutCancel ctx) n)) (\<lambda>_. wrapS ''could not update checkpoints'' (failS e))))))"

definition HasNode :: "Store \<Rightarrow> bytes \<Rightarrow> bool" where
  "HasNode st root = (st_nodeByRoot st root \<noteq> None)"

definition checkpointRootsKnown :: "Store \<Rightarrow> Checkpoint \<Rightarrow> Checkpoint \<Rightarrow> unit res" where
  "checkpointRootsKnown st jc fc =
     (if cp_Epoch jc > cp_Epoch (st_justifiedCheckpoint st) \<and> \<not> HasNode st (ToBytes32 (cp_Root jc)) then Inl (Err ''unknown justified root'')
      else if cp_Epoch fc > cp_Epoch (st_finalizedCheckpoint st) \<and> \<not> HasNode st (ToBytes32 (cp_Root fc)) then Inl (Err ''unknown finalized root'')
      else Inr ())"

record BlockAndCheckpoints =
  bc_Block :: ROBlock
  bc_JustifiedCheckpoint :: "Checkpoint option"
  bc_FinalizedCheckpoint :: "Checkpoint option"
  bc_UnrealizedJustifiedCheckpoint :: "Checkpoint option"
  bc_UnrealizedFinalizedCheckpoint :: "Checkpoint option"

text \<open>The variables of the loop of \<open>InsertChain\<close>.\<close>

record chain_vars =
  ch_pending :: ptr
  ch_jc :: "Checkpoint option"
  ch_fc :: "Checkpoint option"
  ch_ujc :: "Checkpoint option"
  ch_ufc :: "Checkpoint option"
  ch_err :: "unit res"

definition later_checkpoint :: "Checkpoint option \<Rightarrow> Checkpoint \<Rightarrow> Checkpoint" where
  "later_checkpoint best cp = (case best of None \<Rightarrow> cp | Some b \<Rightarrow> if cp_Epoch cp > cp_Epoch b then cp else b)"

text \<open>One block of the chain; the pending node is returned with the error, for the deferred removal.\<close>

definition chain_step :: "config \<Rightarrow> 'e env_scheme \<Rightarrow> ctx \<Rightarrow> balances_by_root \<Rightarrow> Epoch \<Rightarrow> BlockAndCheckpoints \<Rightarrow> chain_vars \<Rightarrow> (chain_vars \<times> unit res) prog" where
  "chain_step cfg env ctx bal currentEpoch bcp vars =
     (case (bc_JustifiedCheckpoint bcp, bc_FinalizedCheckpoint bcp) of
        (Some jc0, Some fc0) \<Rightarrow>
          let uj = (case bc_UnrealizedJustifiedCheckpoint bcp of None \<Rightarrow> jc0 | Some u \<Rightarrow> u);
              uf = (case bc_UnrealizedFinalizedCheckpoint bcp of None \<Rightarrow> fc0 | Some u \<Rightarrow> u);
              (blockJC, blockFC) = (if ToEpoch cfg (rb_Slot (bc_Block bcp)) < currentEpoch then (uj, uf) else (jc0, fc0))
          in bindS getStore (\<lambda>st.
             let alreadyKnown = HasNode st (rb_Root (bc_Block bcp)) in
             bindS (attemptS (store_insert cfg env ctx (bc_Block bcp) (cp_Epoch blockJC) (cp_Epoch blockFC))) (\<lambda>r.
             case r of Inl e \<Rightarrow> returnS (vars, Inl e)
             | Inr n \<Rightarrow>
               bindS (if alreadyKnown then returnS vars
                      else bindS (update_node n (\<lambda>nd. nd\<lparr>n_unrealizedJustifiedEpoch := cp_Epoch uj, n_unrealizedFinalizedEpoch := cp_Epoch uf,
                             n_unrealizedJustifiedRoot := ToBytes32 (cp_Root uj), n_unrealizedFinalizedRoot := ToBytes32 (cp_Root uf)\<rparr>)) (\<lambda>_.
                           returnS (vars\<lparr>ch_pending := (if ch_pending vars = None then n else ch_pending vars)\<rparr>))) (\<lambda>vars.
               let jc = later_checkpoint (ch_jc vars) blockJC; fc = later_checkpoint (ch_fc vars) blockFC;
                   ujc = later_checkpoint (ch_ujc vars) uj; ufc = later_checkpoint (ch_ufc vars) uf
               in bindS getStore (\<lambda>st.
                  let err = bindR (checkpointRootsKnown st jc fc) (\<lambda>_. checkpointRootsKnown st ujc ufc);
                      vars = vars\<lparr>ch_jc := Some jc, ch_fc := Some fc, ch_ujc := Some ujc, ch_ufc := Some ufc, ch_err := err\<rparr>
                  in if err \<noteq> Inr () then returnS (vars, Inr ())
                     else bindS (attemptS (updateCheckpoints cfg ctx bal jc fc)) (\<lambda>r.
                       case r of Inl e \<Rightarrow> returnS (vars, Inl e)
                       | Inr _ \<Rightarrow> bindS (advanceUnrealizedCheckpoints ujc ufc) (\<lambda>_.
                           returnS (vars\<lparr>ch_pending := None, ch_jc := None, ch_fc := None, ch_ujc := None, ch_ufc := None\<rparr>, Inr ())))))))
      | _ \<Rightarrow> returnS (vars, Inl (Err ''invalid nil checkpoint'')))"

fun chain_loop :: "config \<Rightarrow> 'e env_scheme \<Rightarrow> ctx \<Rightarrow> balances_by_root \<Rightarrow> Epoch \<Rightarrow> BlockAndCheckpoints list \<Rightarrow> chain_vars \<Rightarrow> (chain_vars \<times> unit res) prog" where
  "chain_loop cfg env ctx bal currentEpoch [] vars = returnS (vars, ch_err vars)"
| "chain_loop cfg env ctx bal currentEpoch (b # bs) vars =
     bindS (chain_step cfg env ctx bal currentEpoch b vars) (\<lambda>(vars, r).
       if r = Inr () then chain_loop cfg env ctx bal currentEpoch bs vars else returnS (vars, r))"

definition InsertChain :: "config \<Rightarrow> 'e env_scheme \<Rightarrow> ctx \<Rightarrow> balances_by_root \<Rightarrow> BlockAndCheckpoints list \<Rightarrow> unit prog" where
  "InsertChain cfg env ctx bal chain =
     bindS (CurrentSlotS cfg env) (\<lambda>currentSlot.
     bindS (chain_loop cfg env ctx bal (ToEpoch cfg currentSlot) chain
       \<lparr>ch_pending = None, ch_jc = None, ch_fc = None, ch_ujc = None, ch_ufc = None, ch_err = Inr ()\<rparr>) (\<lambda>(vars, r).
     bindS (if ch_pending vars \<noteq> None then bindS (attemptS (removeNode env (WithoutCancel ctx) (ch_pending vars))) (\<lambda>_. returnS ())
            else returnS ()) (\<lambda>_. liftS r)))"

section \<open>The head\<close>

definition Head :: "config \<Rightarrow> 'e env_scheme \<Rightarrow> ctx \<Rightarrow> balances_by_root \<Rightarrow> bytes prog" where
  "Head cfg env ctx bal =
     bindS (CurrentSlotS cfg env) (\<lambda>currentSlot.
     bindS (wrapS ''could not process new slot'' (NewSlot cfg env ctx bal currentSlot)) (\<lambda>_.
     bindS (wrapS ''could not update balances'' updateBalances) (\<lambda>_.
     bindS (wrapS ''could not apply proposer boost score'' (applyProposerBoostScore cfg)) (\<lambda>_.
     bindS getStore (\<lambda>st.
     bindS (wrapS ''could not apply weight changes'' (withFuel (\<lambda>k. applyWeightChanges ctx k (st_treeRootNode st)))) (\<lambda>_.
     bindS (wrapS ''could not update best descendant'' (withFuel (\<lambda>k. updateBestDescendant cfg ctx k (st_treeRootNode st)
              (cp_Epoch (st_justifiedCheckpoint st)) (cp_Epoch (st_finalizedCheckpoint st)) (ToEpoch cfg currentSlot)))) (\<lambda>_.
     store_head cfg env ctx)))))))"

definition CachedHeadRoot :: "bytes prog" where
  "CachedHeadRoot = bindS getStore (\<lambda>st. if st_headNode st = None then returnS ZeroHash
     else bindS (load (st_headNode st)) (\<lambda>nd. returnS (n_root nd)))"

text \<open>The first node on the way to the root whose slot is at most the given one, or nil.\<close>

fun ancestor_loop :: "ctx \<Rightarrow> Slot \<Rightarrow> nat \<Rightarrow> ptr \<Rightarrow> ptr prog" where
  "ancestor_loop ctx slot 0 n = (\<lambda>s. None)"
| "ancestor_loop ctx slot (Suc k) n =
     (if n = None then returnS None
      else bindS (load n) (\<lambda>nd.
        if n_slot nd \<le> slot then returnS n
        else bindS (ctxErr ctx) (\<lambda>_. ancestor_loop ctx slot k (n_parent nd))))"

definition AncestorRoot :: "ctx \<Rightarrow> bytes \<Rightarrow> Slot \<Rightarrow> bytes prog" where
  "AncestorRoot ctx root slot =
     bindS getStore (\<lambda>st.
     let n = map_ptr (st_nodeByRoot st) root
     in if n = None then failS (Err ''could not determine ancestor root: invalid nil or unknown node'')
        else bindS (withFuel (\<lambda>k. ancestor_loop ctx slot k n)) (\<lambda>a.
          if a = None then failS (Err ''could not determine ancestor root: invalid nil or unknown node'')
          else bindS (load a) (\<lambda>nd. returnS (n_root nd))))"

definition TargetRootForEpoch :: "config \<Rightarrow> bytes \<Rightarrow> Epoch \<Rightarrow> bytes prog" where
  "TargetRootForEpoch cfg root epoch =
     bindS getStore (\<lambda>st.
     let n = map_ptr (st_nodeByRoot st) root
     in if n = None then failS (Err ''invalid nil or unknown node'')
        else bindS (load n) (\<lambda>nd.
          if epoch > ToEpoch cfg (n_slot nd) then returnS (n_root nd)
          else bindS (liftS (EpochStart cfg epoch)) (\<lambda>epochStart.
            bindS (withFuel (\<lambda>k. ancestor_loop (\<lambda>_. False) epochStart k n)) (\<lambda>a.
            if a = None then failS (Err ''invalid nil or unknown node'') else bindS (load a) (\<lambda>nd. returnS (n_root nd))))))"

definition LastRoot :: "config \<Rightarrow> Epoch \<Rightarrow> bytes prog" where
  "LastRoot cfg epoch =
     bindS getStore (\<lambda>st.
     bindS (load (st_headNode st)) (\<lambda>head.
     case EpochEnd cfg epoch of
       Inl (Panic e) \<Rightarrow> failS (Panic e)
     | Inl _ \<Rightarrow> returnS ZeroHash
     | Inr epochEnd \<Rightarrow>
         if ToEpoch cfg (n_slot head) \<le> epoch then returnS (n_root head)
         else bindS (withFuel (\<lambda>k. ancestor_loop (\<lambda>_. False) epochEnd k (st_headNode st))) (\<lambda>a.
           if a = None then returnS ZeroHash else bindS (load a) (\<lambda>nd. returnS (n_root nd)))))"

fun canonical_loop :: "ptr \<Rightarrow> Slot \<Rightarrow> nat \<Rightarrow> ptr \<Rightarrow> bool prog" where
  "canonical_loop n slot 0 ancestor = (\<lambda>s. None)"
| "canonical_loop n slot (Suc k) ancestor =
     (if ancestor = None then returnS False
      else bindS (load ancestor) (\<lambda>a.
        if n_slot a < slot then returnS False
        else if ancestor = n then returnS True
        else canonical_loop n slot k (n_parent a)))"

definition IsCanonical :: "bytes \<Rightarrow> bool prog" where
  "IsCanonical root =
     bindS getStore (\<lambda>st.
     let n = map_ptr (st_nodeByRoot st) root
     in if n = None then returnS False
        else bindS (load n) (\<lambda>nd. withFuel (\<lambda>k. canonical_loop n (n_slot nd) k (st_headNode st))))"

text \<open>The loop of \<open>CommonAncestor\<close>: the node with the higher slot, the second one at equal slots, moves to its parent.\<close>

fun common_loop :: "ctx \<Rightarrow> nat \<Rightarrow> ptr \<Rightarrow> ptr \<Rightarrow> (bytes \<times> Slot) prog" where
  "common_loop ctx 0 n1 n2 = (\<lambda>s. None)"
| "common_loop ctx (Suc k) n1 n2 =
     bindS (ctxErr ctx) (\<lambda>_.
     bindS (load n1) (\<lambda>d1. bindS (load n2) (\<lambda>d2.
     let (m1, m2) = (if n_slot d1 > n_slot d2 then (n_parent d1, n2) else (n1, n_parent d2))
     in if m1 = None \<or> m2 = None then failS (Err ''unknown common ancestor'')
        else if m1 = m2 then bindS (load m1) (\<lambda>d. returnS (n_root d, n_slot d))
        else common_loop ctx k m1 m2)))"

definition CommonAncestor :: "ctx \<Rightarrow> bytes \<Rightarrow> bytes \<Rightarrow> (bytes \<times> Slot) prog" where
  "CommonAncestor ctx r1 r2 =
     bindS getS (\<lambda>s.
     let m = st_nodeByRoot (fc_store s); n1 = map_ptr m r1; n2 = map_ptr m r2
     in if n1 = None then failS (Err ''unknown common ancestor'')
        else if r1 = r2 then bindS (load n1) (\<lambda>d. returnS (r1, n_slot d))
        else if n2 = None then failS (Err ''unknown common ancestor'')
        else common_loop ctx (2 * length (fc_nodes s) + 1) n1 n2)"

definition SetOptimisticToValid :: "ctx \<Rightarrow> bytes \<Rightarrow> unit prog" where
  "SetOptimisticToValid ctx root =
     bindS getStore (\<lambda>st.
     let n = map_ptr (st_nodeByRoot st) root
     in if n = None then failS (Err ''could not set node to valid: invalid nil or unknown node'')
        else withFuel (\<lambda>k. setNodeAndParentValidated ctx k n))"

definition IsOptimistic :: "bytes \<Rightarrow> bool prog" where
  "IsOptimistic root =
     bindS getStore (\<lambda>st.
     if st_allTipsAreInvalid st then returnS True
     else let n = map_ptr (st_nodeByRoot st) root
          in if n = None then failS (Err ''invalid nil or unknown node'') else bindS (load n) (\<lambda>nd. returnS (n_optimistic nd)))"

definition IsViableForCheckpoint :: "config \<Rightarrow> bool \<Rightarrow> Checkpoint \<Rightarrow> bool prog" where
  "IsViableForCheckpoint cfg disableLastEpochTargets cp =
     bindS getStore (\<lambda>st.
     let n = map_ptr (st_nodeByRoot st) (cp_Root cp)
     in if n = None then returnS False
        else bindS (liftS (EpochStart cfg (cp_Epoch cp))) (\<lambda>epochStart.
          bindS (load n) (\<lambda>nd.
          if n_slot nd > epochStart then returnS False
          else if n_children nd = [] then returnS True
          else if n_slot nd = epochStart then returnS True
          else if \<not> disableLastEpochTargets \<and> ToEpoch cfg (n_slot nd) + 1 = cp_Epoch cp then returnS True
          else forS (n_children nd) (\<lambda>child found. if found then returnS True
                 else bindS (load child) (\<lambda>c. returnS (n_slot c > epochStart))) False)))"

definition Weight :: "bytes \<Rightarrow> u64 prog" where
  "Weight root =
     bindS getStore (\<lambda>st.
     let n = map_ptr (st_nodeByRoot st) root
     in if n = None then failS (Err ''invalid nil or unknown node'') else bindS (load n) (\<lambda>nd. returnS (n_weight nd)))"

definition SlotOf :: "bytes \<Rightarrow> Slot prog" where
  "SlotOf root =
     bindS getStore (\<lambda>st.
     let n = map_ptr (st_nodeByRoot st) root
     in if n = None then failS (Err ''invalid nil or unknown node'') else bindS (load n) (\<lambda>nd. returnS (n_slot nd)))"

text \<open>The payload hash of a known node.\<close>

definition payload_of :: "bytes \<Rightarrow> bytes prog" where
  "payload_of root =
     bindS getStore (\<lambda>st.
     let n = map_ptr (st_nodeByRoot st) root
     in if n = None then returnS ZeroHash else bindS (load n) (\<lambda>nd. returnS (n_payloadHash nd)))"

definition JustifiedPayloadBlockHash :: "bytes prog" where
  "JustifiedPayloadBlockHash = bindS getStore (\<lambda>st. payload_of (cp_Root (st_justifiedCheckpoint st)))"

definition UnrealizedJustifiedPayloadBlockHash :: "bytes prog" where
  "UnrealizedJustifiedPayloadBlockHash = bindS getStore (\<lambda>st. payload_of (cp_Root (st_unrealizedJustifiedCheckpoint st)))"

section \<open>Late blocks (\<open>reorg_late_blocks.go\<close>)\<close>

definition orphanLateBlockProposingEarly :: u64 where
  "orphanLateBlockProposingEarly = 2"

text \<open>
  The conditions that both operations test before the votes: the head is not at an epoch boundary, arrived late, the
  chain has been finalizing, only one block is orphaned, and the head does not advance justification. The parent is
  returned when they hold.
\<close>

definition reorg_parent :: "config \<Rightarrow> Store \<Rightarrow> Node \<Rightarrow> ptr prog" where
  "reorg_parent cfg st head =
     (if (n_slot head + 1) mod SlotsPerEpoch (raw cfg) = 0 then returnS None
      else case arrivedEarly cfg head (st_genesisTime st) of Inl _ \<Rightarrow> returnS None
      | Inr early \<Rightarrow>
          if early then returnS None
          else if ToEpoch cfg (n_slot head + 1) > cp_Epoch (st_finalizedCheckpoint st) + ReorgMaxEpochsSinceFinalization (raw cfg) then returnS None
          else if n_parent head = None then returnS None
          else bindS (load (n_parent head)) (\<lambda>parent.
            if n_slot head > n_slot parent + 1 then returnS None
            else if n_unrealizedJustifiedEpoch head \<noteq> n_unrealizedJustifiedEpoch parent then returnS None
            else if n_weight head * 100 > st_committeeWeight st * ReorgHeadWeightThreshold (raw cfg) then returnS None
            else returnS (n_parent head)))"

definition ShouldOverrideFCU :: "config \<Rightarrow> 'e env_scheme \<Rightarrow> bool prog" where
  "ShouldOverrideFCU cfg env =
     bindS getStore (\<lambda>st.
     if st_headNode st = None then returnS False
     else bindS (load (st_headNode st)) (\<lambda>head.
       bindS (CurrentSlotS cfg env) (\<lambda>currentSlot.
       if n_slot head \<noteq> currentSlot then returnS False
       else bindS (reorg_parent cfg st head) (\<lambda>p.
         if p = None then returnS False
         else bindS (load p) (\<lambda>parent.
           bindS (timeNow env) (\<lambda>now.
           case SecondsSinceSlotStart cfg (n_slot head) (st_genesisTime st) now of Inl _ \<Rightarrow> returnS True
           | Inr secs \<Rightarrow>
               if secs < ProcessAttestationsThreshold then returnS True
               else returnS (\<not> n_weight parent * 100 < st_committeeWeight st * ReorgParentWeightThreshold (raw cfg))))))))"

definition GetProposerHead :: "config \<Rightarrow> 'e env_scheme \<Rightarrow> bool \<Rightarrow> bytes prog" where
  "GetProposerHead cfg env disableReorgLateBlocks =
     (if disableReorgLateBlocks then CachedHeadRoot
      else bindS getStore (\<lambda>st.
        if st_headNode st = None then returnS ZeroHash
        else bindS (load (st_headNode st)) (\<lambda>head.
          bindS (CurrentSlotS cfg env) (\<lambda>currentSlot.
          if n_slot head + 1 \<noteq> currentSlot then returnS (n_root head)
          else bindS (reorg_parent cfg st head) (\<lambda>p.
            if p = None then returnS (n_root head)
            else bindS (load p) (\<lambda>parent.
              if n_weight parent * 100 < st_committeeWeight st * ReorgParentWeightThreshold (raw cfg) then returnS (n_root head)
              else bindS (timeNow env) (\<lambda>now.
                case SecondsSinceSlotStart cfg (n_slot head + 1) (st_genesisTime st) now of Inl _ \<Rightarrow> returnS (n_root head)
                | Inr secs \<Rightarrow> if secs \<ge> orphanLateBlockProposingEarly then returnS (n_root head) else returnS (n_root parent))))))))"

end
