(* ===== verification/Fork_Choice_Logic.thy ===== *)
theory Fork_Choice_Logic
  imports Fork_Choice_Api
begin

text \<open>
  A calculus for the programs of the fork choice. \<open>runs m s Q E\<close> says that \<open>m\<close> returns from the state \<open>s\<close>, that a result
  satisfies \<open>Q\<close> with the new state, that an error leaves a state in \<open>E\<close>, and that \<open>m\<close> does not panic. The equations of
  the collection \<open>wp\<close> push it through the statements of a program.
\<close>

named_theorems wp \<open>weakest preconditions\<close>

definition runs :: "'a prog \<Rightarrow> ForkChoice \<Rightarrow> ('a \<Rightarrow> ForkChoice \<Rightarrow> bool) \<Rightarrow> (ForkChoice \<Rightarrow> bool) \<Rightarrow> bool" where
  "runs m s Q E \<longleftrightarrow> (case m s of None \<Rightarrow> False
     | Some (r, s') \<Rightarrow> (case r of Inr x \<Rightarrow> Q x s' | Inl (Err e) \<Rightarrow> E s' | Inl (Panic e) \<Rightarrow> False))"

lemma runs_bind [wp]: "runs (bindS m f) s Q E \<longleftrightarrow> runs m s (\<lambda>x s'. runs (f x) s' Q E) E"
  by (auto simp: runs_def bindS_def split: option.splits sum.splits fail.splits)

lemma runs_return [wp]: "runs (returnS x) s Q E \<longleftrightarrow> Q x s"
  by (simp add: runs_def returnS_def)

lemma runs_fail [wp]: "runs (failS (Err e)) s Q E \<longleftrightarrow> E s" "\<not> runs (failS (Panic e)) s Q E"
  by (simp_all add: runs_def failS_def)

lemma runs_get [wp]: "runs getS s Q E \<longleftrightarrow> Q s s"
  by (simp add: runs_def getS_def)

lemma runs_mod [wp]: "runs (modS f) s Q E \<longleftrightarrow> Q () (f s)"
  by (simp add: runs_def modS_def)

lemma runs_lift [wp]: "runs (liftS r) s Q E \<longleftrightarrow> (case r of Inr x \<Rightarrow> Q x s | Inl (Err e) \<Rightarrow> E s | Inl (Panic e) \<Rightarrow> False)"
  by (simp add: runs_def liftS_def)

lemma runs_ctxErr [wp]:
  "runs (ctxErr ctx) s Q E \<longleftrightarrow> (if ctx (fc_tick s) then E (s\<lparr>fc_tick := Suc (fc_tick s)\<rparr>) else Q () (s\<lparr>fc_tick := Suc (fc_tick s)\<rparr>))"
  by (simp add: runs_def ctxErr_def)

lemma runs_timeNow [wp]: "runs (timeNow env) s Q E \<longleftrightarrow> Q (env_now env (fc_tick s)) (s\<lparr>fc_tick := Suc (fc_tick s)\<rparr>)"
  by (simp add: runs_def timeNow_def)

lemma runs_rangeMap [wp]: "runs (rangeMap env m) s Q E \<longleftrightarrow> Q (env_order env (fc_tick s) (dom m)) (s\<lparr>fc_tick := Suc (fc_tick s)\<rparr>)"
  by (simp add: runs_def rangeMap_def)

lemma runs_alloc [wp]: "runs (alloc n) s Q E \<longleftrightarrow> Q (Some (length (fc_nodes s))) (s\<lparr>fc_nodes := fc_nodes s @ [n]\<rparr>)"
  by (simp add: runs_def alloc_def)

lemma runs_load [wp]: "runs (load p) s Q E \<longleftrightarrow> (\<exists>a < length (fc_nodes s). p = Some a \<and> Q (fc_nodes s ! a) s)"
  by (auto simp: runs_def load_def split: option.splits)

lemma runs_update_node [wp]:
  "runs (update_node p f) s Q E \<longleftrightarrow>
   (\<exists>a < length (fc_nodes s). p = Some a \<and> Q () (s\<lparr>fc_nodes := (fc_nodes s)[a := f (fc_nodes s ! a)]\<rparr>))"
  by (auto simp: update_node_def wp)

lemma runs_wrap [wp]: "runs (wrapS msg m) s Q E \<longleftrightarrow> runs m s Q E"
proof -
  have "wrapR msg r = (case r of Inr x \<Rightarrow> Inr x | Inl (Err e) \<Rightarrow> wrapR msg r | Inl (Panic e) \<Rightarrow> Inl (Panic e))" for r :: "'a res"
    by (auto split: sum.splits fail.splits)
  moreover have "(\<exists>e'. wrapR msg (Inl (Err e) :: 'a res) = Inl (Err e'))" for e
    by simp
  ultimately show ?thesis
    by (auto simp: runs_def wrapS_def split: option.splits sum.splits fail.splits)
qed

lemma runs_withFuel [wp]: "runs (withFuel f) s Q E \<longleftrightarrow> runs (f (Suc (length (fc_nodes s)))) s Q E"
  by (simp add: runs_def withFuel_def)

lemma runs_if [wp]: "runs (if b then m else m') s Q E \<longleftrightarrow> (if b then runs m s Q E else runs m' s Q E)"
  by simp

lemma runs_attempt [intro]:
  assumes "runs m s (\<lambda>x s'. Q (Inr x) s') (\<lambda>s'. \<forall>e. Q (Inl (Err e)) s')"
  shows "runs (attemptS m) s Q E"
  using assms by (auto simp: runs_def attemptS_def split: option.splits sum.splits fail.splits)

lemma runs_mono:
  assumes "runs m s Q E" and "\<And>x s'. Q x s' \<Longrightarrow> Q' x s'" and "\<And>s'. E s' \<Longrightarrow> E' s'"
  shows "runs m s Q' E'"
  using assms by (auto simp: runs_def split: option.splits sum.splits fail.splits)

lemma runs_seq:
  assumes "runs m s R E" and "\<And>x s'. R x s' \<Longrightarrow> runs (f x) s' Q E"
  shows "runs (bindS m f) s Q E"
  unfolding runs_bind by (rule runs_mono [OF assms(1)]) (use assms(2) in auto)

lemma runs_lift_seq:
  assumes "\<And>e. r \<noteq> Inl (Panic e)" and "\<And>x. r = Inr x \<Longrightarrow> runs (f x) s Q E" and "E s"
  shows "runs (bindS (liftS r) f) s Q E" "runs (bindS (wrapS msg (liftS r)) f) s Q E"
  using assms by (auto simp: runs_bind runs_wrap runs_lift split: sum.splits fail.splits)

lemma runs_getStore: "runs (bindS getStore f) s Q E \<longleftrightarrow> runs (f (fc_store s)) s Q E"
  by (simp only: runs_bind runs_get runs_return)

lemma runs_forS:
  assumes "I acc s" and "\<And>x acc s. x \<in> set xs \<Longrightarrow> I acc s \<Longrightarrow> runs (f x acc) s I E"
  shows "runs (forS xs f acc) s I E"
  using assms
proof (induction xs arbitrary: acc s)
  case (Cons x xs)
  have "runs (f x acc) s I E"
    using Cons.prems by simp
  then show ?case
    unfolding forS.simps runs_bind by (rule runs_mono) (use Cons in auto)
qed (simp add: wp)

lemma res_cases [case_names Ok Err Panic]:
  obtains x where "r = Inr x" | e where "r = Inl (Err e)" | e where "r = Inl (Panic e)"
  by (cases r; metis fail.exhaust sumE)

lemma runsD:
  assumes "runs m s Q E"
  obtains x s' where "m s = Some (Inr x, s')" "Q x s'" | e s' where "m s = Some (Inl (Err e), s')" "E s'"
proof (cases "m s")
  case (Some p)
  obtain r s' where p: "p = (r, s')"
    by fastforce
  then show thesis
    using assms that Some by (cases r rule: res_cases) (auto simp: runs_def)
qed (use assms in \<open>simp add: runs_def\<close>)

lemma runs_result: "runs m s Q E \<Longrightarrow> m s = Some (Inr x, s') \<Longrightarrow> Q x s'" "runs m s Q E \<Longrightarrow> m s = Some (Inl e, s') \<Longrightarrow> E s'"
  by (auto simp: runs_def split: fail.splits)

end
