(* ===== verification/Fork_Choice_Tree.thy ===== *)
theory Fork_Choice_Tree
  imports Fork_Choice_Api "HOL-Library.Product_Lexorder"
begin

text \<open>
  The block tree behind the pointers. \<open>tree_ok\<close> is the invariant of the linked nodes: the index of roots names
  exactly the nodes of one tree, parents and children point to each other, and a child was allocated after its
  parent, so that every walk over the tree ends. On such a tree the recursive updates are given by reference
  functions: the weight of a block is the balance of its subtree, a block is in the filtered tree when one of its leaves is
  viable, and \<open>ghost\<close> descends from a block to the heaviest child of the filtered tree.
\<close>

section \<open>The tree\<close>

definition live :: "(bytes \<rightharpoonup> ptr) \<Rightarrow> nat set" where
  "live m = {a. \<exists>r. m r = Some (Some a)}"

definition tree_ok :: "(bytes \<rightharpoonup> ptr) \<Rightarrow> Node list \<Rightarrow> nat \<Rightarrow> bool" where
  "tree_ok m h t \<longleftrightarrow>
     (\<forall>r p. m r = Some p \<longrightarrow> (\<exists>a < length h. p = Some a \<and> n_root (h ! a) = r)) \<and> m ZeroHash = None \<and>
     t \<in> live m \<and> n_parent (h ! t) = None \<and>
     (\<forall>a \<in> live m. distinct (n_children (h ! a)) \<and>
        (\<forall>p \<in> set (n_children (h ! a)). \<exists>c. p = Some c \<and> a < c \<and> c \<in> live m \<and> n_parent (h ! c) = Some a)) \<and>
     (\<forall>a \<in> live m. a \<noteq> t \<longrightarrow> (\<exists>b \<in> live m. n_parent (h ! a) = Some b \<and> Some a \<in> set (n_children (h ! b))))"

definition kids :: "Node list \<Rightarrow> nat \<Rightarrow> nat list" where
  "kids h a = map the (filter (\<lambda>p. p \<noteq> None \<and> a < the p \<and> the p < length h) (n_children (h ! a)))"

lemma kids_bounds: "c \<in> set (kids h a) \<Longrightarrow> a < c \<and> c < length h"
  by (auto simp: kids_def)

lemma tree_okD:
  assumes "tree_ok m h t"
  shows "m r = Some p \<Longrightarrow> \<exists>a < length h. p = Some a \<and> n_root (h ! a) = r" and "m ZeroHash = None"
    and "t \<in> live m" and "n_parent (h ! t) = None"
    and "a \<in> live m \<Longrightarrow> distinct (n_children (h ! a))"
    and "a \<in> live m \<Longrightarrow> p \<in> set (n_children (h ! a)) \<Longrightarrow> \<exists>c. p = Some c \<and> a < c \<and> c \<in> live m \<and> n_parent (h ! c) = Some a"
    and "a \<in> live m \<Longrightarrow> a \<noteq> t \<Longrightarrow> \<exists>b \<in> live m. n_parent (h ! a) = Some b \<and> Some a \<in> set (n_children (h ! b))"
  using assms unfolding tree_ok_def by blast+

lemma liveD:
  assumes "tree_ok m h t" and "a \<in> live m"
  shows "a < length h" and "m (n_root (h ! a)) = Some (Some a)" and "n_root (h ! a) \<noteq> ZeroHash"
proof -
  obtain r where r: "m r = Some (Some a)"
    using assms(2) by (auto simp: live_def)
  then show "a < length h" "m (n_root (h ! a)) = Some (Some a)"
    using tree_okD(1) [OF assms(1) r] by auto
  then show "n_root (h ! a) \<noteq> ZeroHash"
    using tree_okD(2) [OF assms(1)] by auto
qed

lemma live_root_inj: "tree_ok m h t \<Longrightarrow> a \<in> live m \<Longrightarrow> b \<in> live m \<Longrightarrow> n_root (h ! a) = n_root (h ! b) \<Longrightarrow> a = b"
  by (metis liveD(2) option.inject)

lemma map_ptr_live:
  assumes "tree_ok m h t"
  shows "map_ptr m r = Some a \<Longrightarrow> a \<in> live m \<and> n_root (h ! a) = r" and "map_ptr m r = None \<longleftrightarrow> m r = None"
  using tree_okD(1) [OF assms, of r] by (auto simp: map_ptr_def live_def split: option.splits)

lemma children_kids:
  assumes "tree_ok m h t" and "a \<in> live m"
  shows "n_children (h ! a) = map Some (kids h a)"
proof -
  have all: "p \<noteq> None \<and> a < the p \<and> the p < length h" if "p \<in> set (n_children (h ! a))" for p
    using tree_okD(6) [OF assms that] liveD(1) [OF assms(1)] by auto
  then have "filter (\<lambda>p. p \<noteq> None \<and> a < the p \<and> the p < length h) (n_children (h ! a)) = n_children (h ! a)"
    by simp
  then have "kids h a = map the (n_children (h ! a))"
    by (simp only: kids_def)
  then show ?thesis
    using all by (auto intro!: map_idI [symmetric])
qed

lemma kidsD:
  assumes "tree_ok m h t" and "a \<in> live m"
  shows "c \<in> set (kids h a) \<longleftrightarrow> Some c \<in> set (n_children (h ! a))"
    and "c \<in> set (kids h a) \<Longrightarrow> c \<in> live m \<and> n_parent (h ! c) = Some a \<and> a < c"
    and "distinct (kids h a)"
proof -
  show iff: "c \<in> set (kids h a) \<longleftrightarrow> Some c \<in> set (n_children (h ! a))" for c
    by (auto simp: children_kids [OF assms])
  show "c \<in> set (kids h a) \<Longrightarrow> c \<in> live m \<and> n_parent (h ! c) = Some a \<and> a < c"
    using iff tree_okD(6) [OF assms] by fastforce
  show "distinct (kids h a)"
    using tree_okD(5) [OF assms] by (simp add: children_kids [OF assms] distinct_map)
qed

section \<open>Reference functions\<close>

function subtree :: "Node list \<Rightarrow> nat \<Rightarrow> nat list" where
  "subtree h a = a # concat (map (subtree h) (kids h a))"
  by pat_completeness auto
termination
  by (relation "measure (\<lambda>(h, a). length h - a)") (auto dest: kids_bounds)

declare subtree.simps [simp del]

function weight_of :: "Node list \<Rightarrow> nat \<Rightarrow> u64" where
  "weight_of h a = n_balance (h ! a) + sum_list (map (weight_of h) (kids h a))"
  by pat_completeness auto
termination
  by (relation "measure (\<lambda>(h, a). length h - a)") (auto dest: kids_bounds)

declare weight_of.simps [simp del]

text \<open>The filtered block tree of the specification: a leaf that is viable, or a block with a child in the filtered tree.\<close>

function viable_tree :: "config \<Rightarrow> Epoch \<Rightarrow> Epoch \<Rightarrow> Node list \<Rightarrow> nat \<Rightarrow> bool" where
  "viable_tree cfg je ce h a =
     (if kids h a = [] then viableForHead cfg (h ! a) je ce else list_ex (viable_tree cfg je ce h) (kids h a))"
  by pat_completeness auto
termination
  by (relation "measure (\<lambda>(cfg, je, ce, h, a). length h - a)") (auto dest: kids_bounds)

declare viable_tree.simps [simp del]

text \<open>The element with the greatest key.\<close>

definition heavier :: "(nat \<Rightarrow> 'k :: linorder) \<Rightarrow> nat \<Rightarrow> nat option \<Rightarrow> nat option" where
  "heavier key c best = (case best of None \<Rightarrow> Some c | Some b \<Rightarrow> if key c > key b then Some c else Some b)"

definition heaviest :: "(nat \<Rightarrow> 'k :: linorder) \<Rightarrow> nat list \<Rightarrow> nat option" where
  "heaviest key cs = fold (heavier key) cs None"

lemma heavier_Some:
  obtains e where "heavier key d best = Some e" "key d \<le> key e" "\<And>b. best = Some b \<Longrightarrow> key b \<le> key e" "e = d \<or> best = Some e"
proof (cases best)
  case None
  then show ?thesis
    using that [of d] by (simp add: heavier_def)
next
  case (Some b)
  then show ?thesis
    using that [of "if key d > key b then d else b"] by (cases "key d > key b") (simp_all add: heavier_def not_less)
qed

lemma fold_heavier:
  "fold (heavier key) cs best = Some c \<Longrightarrow> (c \<in> set cs \<or> best = Some c) \<and> (\<forall>d \<in> set cs. key d \<le> key c) \<and>
     (\<forall>b. best = Some b \<longrightarrow> key b \<le> key c)"
proof (induction cs arbitrary: best)
  case (Cons d cs)
  obtain e where e: "heavier key d best = Some e" "key d \<le> key e" "\<And>b. best = Some b \<Longrightarrow> key b \<le> key e" "e = d \<or> best = Some e"
    using heavier_Some [of key d best] by blast
  have IH: "(c \<in> set cs \<or> Some e = Some c) \<and> (\<forall>d \<in> set cs. key d \<le> key c) \<and> (\<forall>b. Some e = Some b \<longrightarrow> key b \<le> key c)"
    using Cons.IH [of "Some e"] Cons.prems e(1) by simp
  then show ?case
    using e(2-4) by (auto intro: order_trans)
qed simp

lemma heaviest_max: "heaviest key cs = Some c \<Longrightarrow> c \<in> set cs \<and> (\<forall>d \<in> set cs. key d \<le> key c)"
  using fold_heavier [of key cs None c] by (simp add: heaviest_def)

lemma fold_heavier_None: "fold (heavier key) cs best = None \<longleftrightarrow> cs = [] \<and> best = None"
  by (induction cs arbitrary: best) (auto simp: heavier_def split: option.splits)

lemma heaviest_None [simp]: "heaviest key cs = None \<longleftrightarrow> cs = []" "heaviest key [] = None"
  by (simp_all add: heaviest_def fold_heavier_None)

text \<open>LMD GHOST: from a block to the heaviest child in the filtered tree, ties to the larger root.\<close>

definition viable_kids :: "config \<Rightarrow> Epoch \<Rightarrow> Epoch \<Rightarrow> Node list \<Rightarrow> nat \<Rightarrow> nat list" where
  "viable_kids cfg je ce h a = filter (viable_tree cfg je ce h) (kids h a)"

function ghost :: "(nat \<Rightarrow> nat) \<Rightarrow> config \<Rightarrow> Epoch \<Rightarrow> Epoch \<Rightarrow> Node list \<Rightarrow> nat \<Rightarrow> nat" where
  "ghost w cfg je ce h a =
     (case heaviest (\<lambda>c. (w c, n_root (h ! c))) (viable_kids cfg je ce h a) of None \<Rightarrow> a | Some c \<Rightarrow> ghost w cfg je ce h c)"
  by pat_completeness auto
termination
proof (relation "measure (\<lambda>(w, cfg, je, ce, h, a). length h - a)", goal_cases)
  case (2 w cfg je ce h a c)
  then have "c \<in> set (kids h a)"
    using heaviest_max by (fastforce simp: viable_kids_def)
  then show ?case
    using kids_bounds [of c h a] by auto
qed simp

declare ghost.simps [simp del]

section \<open>Running programs on the heap\<close>

lemma load_run [simp]: "a < length (fc_nodes s) \<Longrightarrow> load (Some a) s = Some (Inr (fc_nodes s ! a), s)"
  by (simp add: load_def)

lemma update_node_run [simp]:
  "a < length (fc_nodes s) \<Longrightarrow> update_node (Some a) f s = Some (Inr (), s\<lparr>fc_nodes := (fc_nodes s)[a := f (fc_nodes s ! a)]\<rparr>)"
  by (simp add: update_node_def bindS_def modS_def)

lemma ctxErr_run [simp]: "\<not> ctx (fc_tick s) \<Longrightarrow> ctxErr ctx s = Some (Inr (), s\<lparr>fc_tick := Suc (fc_tick s)\<rparr>)"
  by (simp add: ctxErr_def)

text \<open>The heap \<open>h'\<close> is \<open>h\<close> with the nodes in \<open>S\<close> changed by \<open>f\<close>.\<close>

definition changed :: "(nat \<Rightarrow> Node \<Rightarrow> Node) \<Rightarrow> Node list \<Rightarrow> nat set \<Rightarrow> Node list \<Rightarrow> bool" where
  "changed f h S h' \<longleftrightarrow> length h' = length h \<and> (\<forall>b < length h. h' ! b = (if b \<in> S then f b (h ! b) else h ! b))"

lemma changed_length: "changed f h S h' \<Longrightarrow> length h' = length h"
  by (simp add: changed_def)

lemma changed_nth: "changed f h S h' \<Longrightarrow> b < length h \<Longrightarrow> h' ! b = (if b \<in> S then f b (h ! b) else h ! b)"
  by (simp add: changed_def)

lemma changed_insert:
  assumes "changed f h S h'" and "a < length h" and "x = f a (h ! a)"
  shows "changed f h (insert a S) (h'[a := x])"
  using assms by (auto simp: changed_def nth_list_update)

lemma subtree_self [simp]: "a \<in> set (subtree h a)"
  by (subst subtree.simps) simp

lemma set_subtree: "set (subtree h a) = insert a (\<Union>c \<in> set (kids h a). set (subtree h c))"
  by (subst subtree.simps) auto

section \<open>Weights\<close>

definition set_weight :: "Node list \<Rightarrow> nat \<Rightarrow> Node \<Rightarrow> Node" where
  "set_weight h b nd = nd\<lparr>n_weight := weight_of h b\<rparr>"

lemma set_weight_fields [simp]:
  "n_children (set_weight h b nd) = n_children nd" "n_root (set_weight h b nd) = n_root nd"
  "n_balance (set_weight h b nd) = n_balance nd" "n_weight (set_weight h b nd) = weight_of h b"
  "n_parent (set_weight h b nd) = n_parent nd" "n_slot (set_weight h b nd) = n_slot nd"
  by (simp_all add: set_weight_def)

lemma set_weight_set [simp]: "(set_weight h b nd)\<lparr>n_weight := w\<rparr> = nd\<lparr>n_weight := w\<rparr>"
  by (simp add: set_weight_def)

lemma weight_loop:
  assumes "\<And>c S s. c \<in> set cs \<Longrightarrow> changed (set_weight h) h S (fc_nodes s) \<Longrightarrow>
      \<exists>h' tk. applyWeightChanges ctx k (Some c) s = Some (Inr (), s\<lparr>fc_nodes := h', fc_tick := tk\<rparr>) \<and>
        changed (set_weight h) h (S \<union> set (subtree h c)) h'"
    and "\<And>t. \<not> ctx t" and "\<And>c. c \<in> set cs \<Longrightarrow> c < length h" and "changed (set_weight h) h S (fc_nodes s)"
  shows "\<exists>h' tk. forS (map Some cs) (\<lambda>child acc. bindS (ctxErr ctx) (\<lambda>_. bindS (applyWeightChanges ctx k child) (\<lambda>_.
        bindS (load child) (\<lambda>c. returnS (acc + n_weight c))))) acc s =
      Some (Inr (acc + sum_list (map (weight_of h) cs)), s\<lparr>fc_nodes := h', fc_tick := tk\<rparr>) \<and>
      changed (set_weight h) h (S \<union> (\<Union>c \<in> set cs. set (subtree h c))) h'"
  using assms(1,3,4)
proof (induction cs arbitrary: acc S s)
  case Nil
  then show ?case
    by (intro exI [of _ "fc_nodes s"] exI [of _ "fc_tick s"]) (simp add: returnS_def)
next
  case (Cons c cs)
  define s1 where "s1 = s\<lparr>fc_tick := Suc (fc_tick s)\<rparr>"
  obtain h2 t2 where s2: "applyWeightChanges ctx k (Some c) s1 = Some (Inr (), s1\<lparr>fc_nodes := h2, fc_tick := t2\<rparr>)"
      "changed (set_weight h) h (S \<union> set (subtree h c)) h2"
    using Cons.prems(1) [of c S s1] Cons.prems(3) by (auto simp: s1_def)
  have c: "c < length h2" "n_weight (h2 ! c) = weight_of h c"
    using changed_nth [OF s2(2), of c] changed_length [OF s2(2)] Cons.prems(2) [of c] by simp_all
  let ?s2 = "s\<lparr>fc_nodes := h2, fc_tick := t2\<rparr>"
  obtain h3 t3 where s3: "forS (map Some cs) (\<lambda>child acc. bindS (ctxErr ctx) (\<lambda>_. bindS (applyWeightChanges ctx k child) (\<lambda>_.
        bindS (load child) (\<lambda>c. returnS (acc + n_weight c))))) (acc + weight_of h c) ?s2 =
      Some (Inr (acc + weight_of h c + sum_list (map (weight_of h) cs)), ?s2\<lparr>fc_nodes := h3, fc_tick := t3\<rparr>)"
      "changed (set_weight h) h (S \<union> set (subtree h c) \<union> (\<Union>c \<in> set cs. set (subtree h c))) h3"
    using Cons.IH [of "S \<union> set (subtree h c)" ?s2 "acc + weight_of h c"] Cons.prems(1,2) s2(2) by auto
  have "forS (map Some (c # cs)) (\<lambda>child acc. bindS (ctxErr ctx) (\<lambda>_. bindS (applyWeightChanges ctx k child) (\<lambda>_.
        bindS (load child) (\<lambda>c. returnS (acc + n_weight c))))) acc s =
      Some (Inr (acc + weight_of h c + sum_list (map (weight_of h) cs)), ?s2\<lparr>fc_nodes := h3, fc_tick := t3\<rparr>)"
    using assms(2) s2(1) c s3(1) by (simp add: bindS_def returnS_def s1_def)
  then show ?case
    using s3(2) by (intro exI [of _ h3] exI [of _ t3]) (simp add: Un_assoc add.assoc)
qed

lemma applyWeightChanges_run:
  assumes "tree_ok m h t" and "\<And>t. \<not> ctx t"
  shows "a \<in> live m \<Longrightarrow> length h \<le> k + a \<Longrightarrow> changed (set_weight h) h S (fc_nodes s) \<Longrightarrow>
    \<exists>h' tk. applyWeightChanges ctx k (Some a) s = Some (Inr (), s\<lparr>fc_nodes := h', fc_tick := tk\<rparr>) \<and>
      changed (set_weight h) h (S \<union> set (subtree h a)) h'"
proof (induction k arbitrary: a S s)
  case 0
  then show ?case
    using liveD(1) [OF assms(1) 0(1)] by simp
next
  case (Suc k)
  have a: "a < length h" "n_root (h ! a) \<noteq> ZeroHash" "n_children (h ! a) = map Some (kids h a)"
    using liveD [OF assms(1) Suc.prems(1)] children_kids [OF assms(1) Suc.prems(1)] by simp_all
  have nd: "a < length (fc_nodes s)" "n_root (fc_nodes s ! a) = n_root (h ! a)" "n_children (fc_nodes s ! a) = map Some (kids h a)"
    using changed_nth [OF Suc.prems(3) a(1)] changed_length [OF Suc.prems(3)] a by simp_all
  have kid: "c \<in> live m" "length h \<le> k + c" if "c \<in> set (kids h a)" for c
    using kidsD(2) [OF assms(1) Suc.prems(1) that] Suc.prems(2) by auto
  have "\<exists>h1 t1. forS (map Some (kids h a)) (\<lambda>child acc. bindS (ctxErr ctx) (\<lambda>_. bindS (applyWeightChanges ctx k child) (\<lambda>_.
        bindS (load child) (\<lambda>c. returnS (acc + n_weight c))))) 0 s =
      Some (Inr (0 + sum_list (map (weight_of h) (kids h a))), s\<lparr>fc_nodes := h1, fc_tick := t1\<rparr>) \<and>
      changed (set_weight h) h (S \<union> (\<Union>c \<in> set (kids h a). set (subtree h c))) h1"
    by (rule weight_loop [OF _ assms(2) _ Suc.prems(3)]) (use Suc.IH kid kids_bounds in blast)+
  then obtain h1 t1 where s1: "forS (map Some (kids h a)) (\<lambda>child acc. bindS (ctxErr ctx) (\<lambda>_. bindS (applyWeightChanges ctx k child) (\<lambda>_.
        bindS (load child) (\<lambda>c. returnS (acc + n_weight c))))) 0 s =
      Some (Inr (sum_list (map (weight_of h) (kids h a))), s\<lparr>fc_nodes := h1, fc_tick := t1\<rparr>)"
      "changed (set_weight h) h (S \<union> (\<Union>c \<in> set (kids h a). set (subtree h c))) h1"
    by auto
  have a1: "a < length h1" "n_balance (h1 ! a) = n_balance (h ! a)"
    using changed_nth [OF s1(2) a(1)] changed_length [OF s1(2)] a(1) by simp_all
  let ?h2 = "h1[a := (h1 ! a)\<lparr>n_weight := weight_of h a\<rparr>]"
  have w: "n_balance (h ! a) + sum_list (map (weight_of h) (kids h a)) = weight_of h a"
    by (rule weight_of.simps [symmetric])
  have "applyWeightChanges ctx (Suc k) (Some a) s = Some (Inr (), s\<lparr>fc_nodes := ?h2, fc_tick := t1\<rparr>)"
    using nd a(2) s1(1) a1 w by (simp add: bindS_def)
  moreover have "changed (set_weight h) h (insert a (S \<union> (\<Union>c \<in> set (kids h a). set (subtree h c)))) ?h2"
    by (rule changed_insert [OF s1(2) a(1)]) (use changed_nth [OF s1(2) a(1)] in \<open>simp add: set_weight_def\<close>)
  moreover have "insert a (S \<union> (\<Union>c \<in> set (kids h a). set (subtree h c))) = S \<union> set (subtree h a)"
    unfolding set_subtree [of h a] by simp
  ultimately show ?case
    by auto
qed

section \<open>Best descendants\<close>

lemma ghost_step:
  "viable_kids cfg je ce h a = [] \<Longrightarrow> ghost w cfg je ce h a = a"
  "heaviest (\<lambda>c. (w c, n_root (h ! c))) (viable_kids cfg je ce h a) = Some c \<Longrightarrow> ghost w cfg je ce h a = ghost w cfg je ce h c"
  by (simp_all add: ghost.simps [of w cfg je ce h a])

lemma viable_kids_iff: "kids h a \<noteq> [] \<Longrightarrow> viable_tree cfg je ce h a \<longleftrightarrow> viable_kids cfg je ce h a \<noteq> []"
  by (subst viable_tree.simps) (auto simp: viable_kids_def list_ex_iff filter_empty_conv)

lemma viable_kids_viable: "viable_kids cfg je ce h a \<noteq> [] \<Longrightarrow> viable_tree cfg je ce h a"
proof -
  assume *: "viable_kids cfg je ce h a \<noteq> []"
  then have "kids h a \<noteq> []"
    by (auto simp: viable_kids_def)
  then show ?thesis
    using viable_kids_iff * by blast
qed

lemma ghost_in_subtree: "ghost w cfg je ce h a \<in> set (subtree h a)"
proof (induction w cfg je ce h a rule: ghost.induct)
  case (1 w cfg je ce h a)
  show ?case
  proof (cases "heaviest (\<lambda>c. (w c, n_root (h ! c))) (viable_kids cfg je ce h a)")
    case None
    then show ?thesis
      by (simp add: ghost_step(1))
  next
    case (Some c)
    then have "c \<in> set (kids h a)"
      using heaviest_max [OF Some] by (simp add: viable_kids_def)
    then show ?thesis
      using 1 [OF Some] ghost_step(2) [OF Some] set_subtree [of h a] by auto
  qed
qed

text \<open>From a block of the filtered tree the descent ends at a viable leaf.\<close>

lemma ghost_viable:
  assumes "viable_tree cfg je ce h a"
  shows "kids h (ghost w cfg je ce h a) = [] \<and> viableForHead cfg (h ! ghost w cfg je ce h a) je ce"
  using assms
proof (induction w cfg je ce h a rule: ghost.induct)
  case (1 w cfg je ce h a)
  show ?case
  proof (cases "heaviest (\<lambda>c. (w c, n_root (h ! c))) (viable_kids cfg je ce h a)")
    case None
    then have "kids h a = []"
      using viable_kids_iff [of h a cfg je ce] 1(2) by auto
    then show ?thesis
      using 1(2) None by (simp add: ghost_step(1) viable_tree.simps [of cfg je ce h a])
  next
    case (Some c)
    then have "viable_tree cfg je ce h c"
      using heaviest_max [OF Some] by (simp add: viable_kids_def)
    then show ?thesis
      using 1(1) [OF Some] ghost_step(2) [OF Some] by simp
  qed
qed

lemma subtree_live:
  assumes "tree_ok m h t" and "a \<in> live m" and "b \<in> set (subtree h a)"
  shows "b \<in> live m" and "a \<le> b"
proof -
  have "b \<in> live m \<and> a \<le> b"
    using assms(2,3)
  proof (induction "length h - a" arbitrary: a rule: less_induct)
    case less
    consider "b = a" | c where "c \<in> set (kids h a)" "b \<in> set (subtree h c)"
      using less.prems(2) set_subtree [of h a] by auto
    then show ?case
    proof cases
      case 2
      then have c: "c \<in> live m" "a < c" "c < length h"
        using kidsD(2) [OF assms(1) less.prems(1) 2(1)] kids_bounds [OF 2(1)] by auto
      then have "length h - c < length h - a"
        by linarith
      then show ?thesis
        using less.hyps [of c] 2(2) c by auto
    qed (use less.prems(1) in simp)
  qed
  then show "b \<in> live m" "a \<le> b"
    by simp_all
qed

definition best_ptr :: "config \<Rightarrow> Epoch \<Rightarrow> Epoch \<Rightarrow> Node list \<Rightarrow> nat \<Rightarrow> ptr" where
  "best_ptr cfg je ce h a =
     (if viable_kids cfg je ce h a = [] then None else Some (ghost (\<lambda>c. unat (n_weight (h ! c))) cfg je ce h a))"

definition set_best :: "config \<Rightarrow> Epoch \<Rightarrow> Epoch \<Rightarrow> Node list \<Rightarrow> nat \<Rightarrow> Node \<Rightarrow> Node" where
  "set_best cfg je ce h b nd = nd\<lparr>n_bestDescendant := best_ptr cfg je ce h b\<rparr>"

lemma set_best_fields [simp]:
  "n_children (set_best cfg je ce h b nd) = n_children nd" "n_root (set_best cfg je ce h b nd) = n_root nd"
  "n_weight (set_best cfg je ce h b nd) = n_weight nd" "n_bestDescendant (set_best cfg je ce h b nd) = best_ptr cfg je ce h b"
  "n_parent (set_best cfg je ce h b nd) = n_parent nd" "n_slot (set_best cfg je ce h b nd) = n_slot nd"
  by (simp_all add: set_best_def)

lemma viableForHead_set_best [simp]: "viableForHead cfg' (set_best cfg je ce h b nd) x y = viableForHead cfg' nd x y"
  by (simp add: viableForHead_def set_best_def)

lemma leadsToViableTip_run:
  assumes "tree_ok m h t" and "a \<in> live m" and "changed (set_best cfg je ce h) h S (fc_nodes s)" and "a \<in> S"
  shows "leadsToViableTip cfg (Some a) je ce s = Some (Inr (viable_tree cfg je ce h a), s)"
proof -
  let ?g = "ghost (\<lambda>c. unat (n_weight (h ! c))) cfg je ce h a"
  have len: "length (fc_nodes s) = length h"
    by (rule changed_length [OF assms(3)])
  have a: "a < length h" "n_children (h ! a) = map Some (kids h a)" "n_bestDescendant (fc_nodes s ! a) = best_ptr cfg je ce h a"
    using liveD(1) [OF assms(1,2)] children_kids [OF assms(1,2)] changed_nth [OF assms(3), of a] assms(4) by simp_all
  have g: "?g \<in> live m"
    by (rule subtree_live(1) [OF assms(1,2) ghost_in_subtree])
  have tip: "n_children (fc_nodes s ! b) = map Some (kids h b) \<and> viableForHead cfg (fc_nodes s ! b) je ce = viableForHead cfg (h ! b) je ce \<and>
      b < length h" if "b \<in> live m" for b
    using changed_nth [OF assms(3)] liveD(1) [OF assms(1) that] children_kids [OF assms(1) that] by simp
  show ?thesis
  proof (cases "viable_kids cfg je ce h a = []")
    case True
    then show ?thesis
      using a len tip [OF assms(2)] viable_kids_iff [of h a cfg je ce]
      by (auto simp: leadsToViableTip_def bindS_def best_ptr_def returnS_def viable_tree.simps [of cfg je ce h a])
  next
    case False
    then have v: "viable_tree cfg je ce h a"
      by (rule viable_kids_viable)
    then have "kids h ?g = []" "viableForHead cfg (h ! ?g) je ce"
      using ghost_viable by blast+
    then show ?thesis
      using a len tip [OF g] False v by (simp add: leadsToViableTip_def bindS_def best_ptr_def returnS_def)
  qed
qed

lemma best_loop:
  assumes "tree_ok m h t" and "changed (set_best cfg je ce h) h S (fc_nodes s)"
    and "\<And>c. c \<in> set cs \<Longrightarrow> c \<in> live m \<and> c \<in> S" and "\<And>b. best = Some b \<Longrightarrow> b \<in> live m"
  shows "forS (map Some cs) (best_step cfg je ce) best s =
     Some (Inr (fold (heavier (\<lambda>c. (unat (n_weight (h ! c)), n_root (h ! c)))) (filter (viable_tree cfg je ce h) cs) best), s)"
  using assms(3,4)
proof (induction cs arbitrary: best)
  case (Cons c cs)
  have len: "length (fc_nodes s) = length h"
    by (rule changed_length [OF assms(2)])
  have nd: "b < length h" "n_weight (fc_nodes s ! b) = n_weight (h ! b)" "n_root (fc_nodes s ! b) = n_root (h ! b)" if "b \<in> live m" for b
    using changed_nth [OF assms(2)] liveD(1) [OF assms(1) that] by simp_all
  have c: "c \<in> live m" "c \<in> S"
    using Cons.prems(1) by simp_all
  note lead = leadsToViableTip_run [OF assms(1) c(1) assms(2) c(2)]
  let ?best = "heavier (\<lambda>c. (unat (n_weight (h ! c)), n_root (h ! c))) c best"
  have IH: "forS (map Some cs) (best_step cfg je ce) best' s =
     Some (Inr (fold (heavier (\<lambda>c. (unat (n_weight (h ! c)), n_root (h ! c)))) (filter (viable_tree cfg je ce h) cs) best'), s)"
    if "\<And>b. best' = Some b \<Longrightarrow> b \<in> live m" for best'
    by (rule Cons.IH) (use Cons.prems(1) that in auto)
  show ?case
  proof (cases "viable_tree cfg je ce h c")
    case False
    then have "best_step cfg je ce (Some c) best s = Some (Inr best, s)"
      using lead by (simp add: best_step_def bindS_def returnS_def)
    then show ?thesis
      using IH [of best] Cons.prems(2) False by (simp add: bindS_def)
  next
    case True
    have step: "best_step cfg je ce (Some c) best s = Some (Inr ?best, s)"
    proof (cases best)
      case None
      then show ?thesis
        using lead True by (simp add: best_step_def bindS_def returnS_def heavier_def)
    next
      case (Some b)
      have "n_weight (h ! b) < n_weight (h ! c) \<or> (n_weight (h ! c) = n_weight (h ! b) \<and> n_root (h ! b) < n_root (h ! c)) \<longleftrightarrow>
          (unat (n_weight (h ! b)), n_root (h ! b)) < (unat (n_weight (h ! c)), n_root (h ! c))"
        by (auto simp: unat_less_u64 unat_eq_u64)
      then show ?thesis
        using lead True Some nd [OF c(1)] nd [OF Cons.prems(2) [OF Some]] len
        by (simp add: best_step_def bindS_def returnS_def heavier_def)
    qed
    have "?best = Some b \<Longrightarrow> b \<in> live m" for b
      using Cons.prems(2) c(1) by (auto simp: heavier_def split: option.splits if_splits)
    then show ?thesis
      using step True IH [of ?best] by (simp add: bindS_def)
  qed
qed (simp add: returnS_def)

lemma best_kids_loop:
  assumes "\<And>c S s. c \<in> set cs \<Longrightarrow> changed f h S (fc_nodes s) \<Longrightarrow>
      \<exists>h' tk. prg (Some c) s = Some (Inr (), s\<lparr>fc_nodes := h', fc_tick := tk\<rparr>) \<and> changed f h (S \<union> set (subtree h c)) h'"
    and "changed f h S (fc_nodes s)"
  shows "\<exists>h' tk. forS (map Some cs) (\<lambda>child _. if child = None then failS e else prg child) () s =
      Some (Inr (), s\<lparr>fc_nodes := h', fc_tick := tk\<rparr>) \<and> changed f h (S \<union> (\<Union>c \<in> set cs. set (subtree h c))) h'"
  using assms
proof (induction cs arbitrary: S s)
  case Nil
  then show ?case
    by (intro exI [of _ "fc_nodes s"] exI [of _ "fc_tick s"]) (simp add: returnS_def)
next
  case (Cons c cs)
  obtain h1 t1 where 1: "prg (Some c) s = Some (Inr (), s\<lparr>fc_nodes := h1, fc_tick := t1\<rparr>)" "changed f h (S \<union> set (subtree h c)) h1"
    using Cons.prems(1) [of c S s] Cons.prems(2) by auto
  have "\<exists>h' tk. forS (map Some cs) (\<lambda>child _. if child = None then failS e else prg child) () (s\<lparr>fc_nodes := h1, fc_tick := t1\<rparr>) =
      Some (Inr (), s\<lparr>fc_nodes := h1, fc_tick := t1\<rparr>\<lparr>fc_nodes := h', fc_tick := tk\<rparr>) \<and>
      changed f h (S \<union> set (subtree h c) \<union> (\<Union>c \<in> set cs. set (subtree h c))) h'"
    by (rule Cons.IH) (use Cons.prems(1) 1(2) in auto)
  then show ?case
    using 1(1) by (auto simp: bindS_def Un_assoc)
qed

lemma updateBestDescendant_run:
  assumes "tree_ok m h t" and "\<And>t. \<not> ctx t"
  shows "a \<in> live m \<Longrightarrow> length h \<le> k + a \<Longrightarrow> changed (set_best cfg je ce h) h S (fc_nodes s) \<Longrightarrow>
    \<exists>h' tk. updateBestDescendant cfg ctx k (Some a) je fe ce s = Some (Inr (), s\<lparr>fc_nodes := h', fc_tick := tk\<rparr>) \<and>
      changed (set_best cfg je ce h) h (S \<union> set (subtree h a)) h'"
proof (induction k arbitrary: a S s)
  case 0
  then show ?case
    using liveD(1) [OF assms(1) 0(1)] by simp
next
  case (Suc k)
  let ?f = "set_best cfg je ce h" and ?T = "S \<union> (\<Union>c \<in> set (kids h a). set (subtree h c))"
  have a: "a < length h" "n_children (h ! a) = map Some (kids h a)"
    using liveD(1) [OF assms(1) Suc.prems(1)] children_kids [OF assms(1) Suc.prems(1)] by simp_all
  define s1 where "s1 = s\<lparr>fc_tick := Suc (fc_tick s)\<rparr>"
  have nd: "a < length (fc_nodes s1)" "n_children (fc_nodes s1 ! a) = map Some (kids h a)"
    using changed_nth [OF Suc.prems(3) a(1)] changed_length [OF Suc.prems(3)] a by (simp_all add: s1_def)
  have kid: "c \<in> live m" "length h \<le> k + c" if "c \<in> set (kids h a)" for c
    using kidsD(2) [OF assms(1) Suc.prems(1) that] Suc.prems(2) by auto
  have "\<exists>h' tk. forS (map Some (kids h a)) (\<lambda>child _. if child = None then failS (Err ''could not update best descendant: invalid nil or unknown node'')
          else updateBestDescendant cfg ctx k child je fe ce) () s1 =
      Some (Inr (), s1\<lparr>fc_nodes := h', fc_tick := tk\<rparr>) \<and> changed ?f h ?T h'"
    by (rule best_kids_loop) (use Suc.IH kid Suc.prems(3) in \<open>auto simp: s1_def\<close>)
  then obtain h2 t2 where s2: "forS (map Some (kids h a)) (\<lambda>child _. if child = None then failS (Err ''could not update best descendant: invalid nil or unknown node'')
          else updateBestDescendant cfg ctx k child je fe ce) () s1 = Some (Inr (), s1\<lparr>fc_nodes := h2, fc_tick := t2\<rparr>)"
      "changed ?f h ?T h2"
    by blast
  let ?s2 = "s1\<lparr>fc_nodes := h2, fc_tick := t2\<rparr>" and ?w = "\<lambda>c. unat (n_weight (h ! c))"
  define best where "best = heaviest (\<lambda>c. (?w c, n_root (h ! c))) (viable_kids cfg je ce h a)"
  have a2: "a < length h2" "n_children (h2 ! a) = map Some (kids h a)"
    using changed_nth [OF s2(2) a(1)] changed_length [OF s2(2)] a by simp_all
  have T: "c \<in> live m \<and> c \<in> ?T" if "c \<in> set (kids h a)" for c
    using kid(1) [OF that] subtree_self [of c h] that by blast
  have child: "bestChild cfg (Some a) je ce ?s2 = Some (Inr best, ?s2)"
    using a2 best_loop [OF assms(1), of cfg je ce ?T ?s2 "kids h a" None] s2(2) T
    by (simp add: bestChild_def bindS_def best_def heaviest_def viable_kids_def)
  have fin: "changed ?f h (S \<union> set (subtree h a)) (h2[a := (h2 ! a)\<lparr>n_bestDescendant := best_ptr cfg je ce h a\<rparr>])"
  proof -
    have "changed ?f h (insert a ?T) (h2[a := (h2 ! a)\<lparr>n_bestDescendant := best_ptr cfg je ce h a\<rparr>])"
      by (rule changed_insert [OF s2(2) a(1)]) (use changed_nth [OF s2(2) a(1)] in \<open>simp add: set_best_def\<close>)
    moreover have "insert a ?T = S \<union> set (subtree h a)"
      unfolding set_subtree [of h a] by simp
    ultimately show ?thesis
      by simp
  qed
  have "updateBestDescendant cfg ctx (Suc k) (Some a) je fe ce s =
      Some (Inr (), ?s2\<lparr>fc_nodes := h2[a := (h2 ! a)\<lparr>n_bestDescendant := best_ptr cfg je ce h a\<rparr>]\<rparr>)"
  proof (cases "kids h a = []")
    case True
    then have "s1\<lparr>fc_nodes := h2, fc_tick := t2\<rparr> = s1"
      using s2(1) by (simp add: returnS_def)
    moreover have "best_ptr cfg je ce h a = None"
      using True by (simp add: best_ptr_def viable_kids_def)
    moreover have "h2 = fc_nodes s1"
      using arg_cong [OF calculation(1), of fc_nodes] by simp
    ultimately show ?thesis
      using nd True assms(2) by (simp add: bindS_def s1_def)
  next
    case False
    then have run: "updateBestDescendant cfg ctx (Suc k) (Some a) je fe ce s =
        (if best = None then update_node (Some a) (\<lambda>nd. nd\<lparr>n_bestDescendant := None\<rparr>)
         else bindS (load best) (\<lambda>b. update_node (Some a) (\<lambda>nd. nd\<lparr>n_bestDescendant :=
           (if n_bestDescendant b = None then best else n_bestDescendant b)\<rparr>))) ?s2"
      using nd assms(2) s2(1) child by (simp add: bindS_def s1_def)
    show ?thesis
    proof (cases best)
      case None
      then have "best_ptr cfg je ce h a = None"
        by (simp add: best_def best_ptr_def)
      then show ?thesis
        using run None a2 by simp
    next
      case (Some c)
      then have "c \<in> set (kids h a)"
        using heaviest_max by (fastforce simp: best_def viable_kids_def)
      then have c: "c < length h2" "n_bestDescendant (h2 ! c) = best_ptr cfg je ce h c"
        using T [of c] liveD(1) [OF assms(1), of c] changed_nth [OF s2(2), of c] changed_length [OF s2(2)] by simp_all
      have g: "ghost ?w cfg je ce h a = ghost ?w cfg je ce h c"
        by (rule ghost_step(2)) (use Some best_def in simp)
      have "viable_kids cfg je ce h a \<noteq> []"
        using Some by (auto simp: best_def)
      then have "best_ptr cfg je ce h a = (if best_ptr cfg je ce h c = None then Some c else best_ptr cfg je ce h c)"
        using g ghost_step(1) [of cfg je ce h c ?w] by (auto simp: best_ptr_def)
      then show ?thesis
        using run Some a2 c by (cases "best_ptr cfg je ce h c") (simp_all add: bindS_def)
    qed
  qed
  moreover have "?s2\<lparr>fc_nodes := x\<rparr> = s\<lparr>fc_nodes := x, fc_tick := t2\<rparr>" for x
    by (simp add: s1_def)
  ultimately show ?case
    using fin by metis
qed

section \<open>The whole tree\<close>

lemma subtree_kid: "b \<in> set (subtree h a) \<Longrightarrow> c \<in> set (kids h b) \<Longrightarrow> c \<in> set (subtree h a)"
proof (induction "length h - a" arbitrary: a rule: less_induct)
  case less
  consider "b = a" | d where "d \<in> set (kids h a)" "b \<in> set (subtree h d)"
    using less.prems(1) set_subtree [of h a] by auto
  then show ?case
  proof cases
    case 1
    then show ?thesis
      using less.prems(2) set_subtree [of h a] subtree_self [of c h] by blast
  next
    case 2
    then have "length h - d < length h - a"
      using kids_bounds [OF 2(1)] by linarith
    then have "c \<in> set (subtree h d)"
      using less.hyps [of d] 2(2) less.prems(2) by blast
    then show ?thesis
      using 2(1) set_subtree [of h a] by auto
  qed
qed

lemma subtree_root:
  assumes "tree_ok m h t"
  shows "set (subtree h t) = live m"
proof
  show "set (subtree h t) \<subseteq> live m"
    using subtree_live(1) [OF assms tree_okD(3) [OF assms]] by blast
  show "live m \<subseteq> set (subtree h t)"
  proof
    fix a
    assume "a \<in> live m"
    then show "a \<in> set (subtree h t)"
    proof (induction a rule: less_induct)
      case (less a)
      show ?case
      proof (cases "a = t")
        case False
        obtain b where b: "b \<in> live m" "Some a \<in> set (n_children (h ! b))"
          using tree_okD(7) [OF assms less.prems False] by blast
        then have kid: "a \<in> set (kids h b)"
          using kidsD(1) [OF assms b(1)] by simp
        then show ?thesis
          using less.IH [of b] b(1) kidsD(2) [OF assms b(1) kid] subtree_kid [OF _ kid] by simp
      qed simp
    qed
  qed
qed

lemma tree_ok_cong:
  assumes "tree_ok m h t" and "length h' = length h"
    and "\<And>b. b < length h \<Longrightarrow> n_root (h' ! b) = n_root (h ! b) \<and> n_parent (h' ! b) = n_parent (h ! b) \<and> n_children (h' ! b) = n_children (h ! b)"
  shows "tree_ok m h' t"
proof -
  note same = assms(3) [OF liveD(1) [OF assms(1)]]
  have "\<exists>a < length h'. p = Some a \<and> n_root (h' ! a) = r" if "m r = Some p" for r p
    using tree_okD(1) [OF assms(1) that] assms(2,3) by auto
  moreover have "distinct (n_children (h' ! a))" if "a \<in> live m" for a
    using tree_okD(5) [OF assms(1) that] same [OF that] by simp
  moreover have "\<exists>c. p = Some c \<and> a < c \<and> c \<in> live m \<and> n_parent (h' ! c) = Some a" if "a \<in> live m" "p \<in> set (n_children (h' ! a))" for a p
    using tree_okD(6) [OF assms(1) that(1)] same [OF that(1)] same that(2) by fastforce
  moreover have "\<exists>b \<in> live m. n_parent (h' ! a) = Some b \<and> Some a \<in> set (n_children (h' ! b))" if "a \<in> live m" "a \<noteq> t" for a
    using tree_okD(7) [OF assms(1) that] same [OF that(1)] same by fastforce
  moreover have "m ZeroHash = None" "t \<in> live m" "n_parent (h' ! t) = None"
    using tree_okD(2-4) [OF assms(1)] same [OF tree_okD(3) [OF assms(1)]] by simp_all
  ultimately show ?thesis
    unfolding tree_ok_def by blast
qed

lemma kids_cong: "length h' = length h \<Longrightarrow> n_children (h' ! a) = n_children (h ! a) \<Longrightarrow> kids h' a = kids h a"
  by (simp add: kids_def)

lemma subtree_cong:
  assumes "length h' = length h" and "\<And>b. b < length h \<Longrightarrow> n_children (h' ! b) = n_children (h ! b)" and "a < length h"
  shows "subtree h' a = subtree h a"
  using assms(3)
proof (induction "length h - a" arbitrary: a rule: less_induct)
  case less
  have k: "kids h' a = kids h a"
    using kids_cong assms(1,2) less.prems by blast
  have "subtree h' c = subtree h c" if "c \<in> set (kids h a)" for c
    by (rule less.hyps) (use kids_bounds [OF that] in linarith)+
  then show ?case
    by (simp add: subtree.simps [of h' a] subtree.simps [of h a] k cong: map_cong)
qed

section \<open>The head of the store\<close>

lemma EpochsSinceGenesisS_run:
  "EpochsSinceGenesisS cfg env s = Some (Inr (ToEpoch cfg (CurrentSlot cfg (env_now env (fc_tick s)) (st_genesisTime (fc_store s)))),
     s\<lparr>fc_tick := Suc (fc_tick s)\<rparr>)"
  by (auto simp: EpochsSinceGenesisS_def bindS_def timeNow_def getS_def returnS_def CurrentSlot_def ToEpoch_def)

lemma store_head_run:
  assumes "tree_ok m h t" and "\<And>x. \<not> ctx x" and "\<And>x. env_now env x = now"
    and "st_nodeByRoot (fc_store s) = m" and "st_treeRootNode (fc_store s) = Some t"
    and "je = cp_Epoch (st_justifiedCheckpoint (fc_store s))"
    and "ce = ToEpoch cfg (CurrentSlot cfg now (st_genesisTime (fc_store s)))"
    and "changed (set_best cfg je ce h) h (live m) (fc_nodes s)"
    and "justified_node cfg (fc_store s) = Some j"
  shows "\<exists>s'. store_head cfg env ctx s = Some (Inr (n_root (h ! ghost (\<lambda>c. unat (n_weight (h ! c))) cfg je ce h j)), s') \<and>
    fc_nodes s' = fc_nodes s \<and> st_headNode (fc_store s') = Some (ghost (\<lambda>c. unat (n_weight (h ! c))) cfg je ce h j)"
proof -
  let ?g = "ghost (\<lambda>c. unat (n_weight (h ! c))) cfg je ce h j"
  have j: "j \<in> live m"
    using assms(9,4,5) map_ptr_live(1) [OF assms(1)] tree_okD(3) [OF assms(1)]
    by (auto simp: justified_node_def Let_def split: if_splits)
  have g: "?g \<in> live m"
    by (rule subtree_live(1) [OF assms(1) j ghost_in_subtree])
  have len: "length (fc_nodes s) = length h" "j < length h" "?g < length h"
    using changed_length [OF assms(8)] liveD(1) [OF assms(1) j] liveD(1) [OF assms(1) g] by simp_all
  have nodes: "n_bestDescendant (fc_nodes s ! j) = best_ptr cfg je ce h j" "n_root (fc_nodes s ! ?g) = n_root (h ! ?g)"
      "viableForHead cfg (fc_nodes s ! ?g) x y = viableForHead cfg (h ! ?g) x y" for x y
    using changed_nth [OF assms(8) len(2)] changed_nth [OF assms(8) len(3)] j g by simp_all
  define best where "best = (if best_ptr cfg je ce h j = None then Some j else best_ptr cfg je ce h j)"
  have best: "best = Some ?g"
    using ghost_step(1) [of cfg je ce h j] by (auto simp: best_def best_ptr_def)
  have viable: "viableForHead cfg (h ! ?g) je ce" if "?g \<noteq> j"
  proof -
    have "viable_kids cfg je ce h j \<noteq> []"
      using that ghost_step(1) by metis
    then show ?thesis
      using ghost_viable viable_kids_viable by blast
  qed
  define s2 where "s2 = s\<lparr>fc_tick := Suc (Suc (fc_tick s))\<rparr>"
  have lead: "leadsToViableTip cfg (Some j) je ce s2 = Some (Inr (viable_tree cfg je ce h j), s2)"
    by (rule leadsToViableTip_run [OF assms(1) j _ j]) (use assms(8) in \<open>simp add: s2_def\<close>)
  have start: "head_start cfg (fc_store s) = returnS (Some j)"
    using assms(9) by (auto simp: justified_node_def head_start_def Let_def split: if_splits)
  have "head_from cfg env je (Some j) (s\<lparr>fc_tick := Suc (fc_tick s)\<rparr>) = bindS (leadsToViableTip cfg (Some j) je ce) (\<lambda>viable.
       bindS (modStore (\<lambda>st. if viable then st\<lparr>st_allTipsAreInvalid := False\<rparr> else st)) (\<lambda>_.
       bindS (modStore (\<lambda>st. st\<lparr>st_headNode := Some ?g\<rparr>)) (\<lambda>_.
       returnS (n_root (h ! ?g))))) s2"
    using len nodes best viable assms(3) assms(7) [symmetric]
    by (cases "best_ptr cfg je ce h j"; cases "?g = j") (simp_all add: head_from_def EpochsSinceGenesisS_run bindS_def best_def s2_def Let_def)
  moreover have "store_head cfg env ctx s = head_from cfg env je (Some j) (s\<lparr>fc_tick := Suc (fc_tick s)\<rparr>)"
    using assms(2,6) start by (simp add: store_head_def bindS_def getS_def returnS_def)
  ultimately show ?thesis
    using lead by (simp add: bindS_def modS_def returnS_def s2_def)
qed

end
