(* ===== verification/Fork_Choice_Safe.thy ===== *)
theory Fork_Choice_Safe
  imports Fork_Choice_Logic Fork_Choice_Tree
begin

text \<open>
  The invariant of the fork choice and the operations that keep the links of the tree. Every pointer of a node is in
  the heap, parents come before their children, and the blocks known by root form one tree. The recursions over the
  tree return with the fuel they are given, cancelled or not, and no pointer they follow is nil.
\<close>

section \<open>The invariant\<close>

definition heap_ok :: "Node list \<Rightarrow> bool" where
  "heap_ok h \<longleftrightarrow> (\<forall>a < length h. (\<forall>p. n_parent (h ! a) = Some p \<longrightarrow> p < a) \<and>
     (\<forall>c \<in> set (n_children (h ! a)). \<exists>d. c = Some d \<and> a < d \<and> d < length h) \<and>
     (\<forall>d. n_bestDescendant (h ! a) = Some d \<longrightarrow> d < length h))"

definition in_heap :: "Node list \<Rightarrow> ptr \<Rightarrow> bool" where
  "in_heap h p \<longleftrightarrow> (\<exists>a < length h. p = Some a)"

definition fc_ok :: "ForkChoice \<Rightarrow> bool" where
  "fc_ok s \<longleftrightarrow> heap_ok (fc_nodes s) \<and> finite (dom (st_nodeByRoot (fc_store s))) \<and>
     length (st_receivedBlocksLastEpoch (fc_store s)) = unat fp_SlotsPerEpoch \<and>
     (case st_treeRootNode (fc_store s) of None \<Rightarrow> st_nodeByRoot (fc_store s) = Map.empty \<and> st_headNode (fc_store s) = None
      | Some t \<Rightarrow> tree_ok (st_nodeByRoot (fc_store s)) (fc_nodes s) t \<and> in_heap (fc_nodes s) (st_headNode (fc_store s)) \<and>
          in_heap (fc_nodes s) (st_highestReceivedNode (fc_store s)))"

lemma heap_okD:
  assumes "heap_ok h" and "a < length h"
  shows "n_parent (h ! a) = Some p \<Longrightarrow> p < a" and "c \<in> set (n_children (h ! a)) \<Longrightarrow> \<exists>d. c = Some d \<and> a < d \<and> d < length h"
    and "n_bestDescendant (h ! a) = Some d \<Longrightarrow> d < length h"
  using assms unfolding heap_ok_def by blast+

text \<open>A step that keeps the links: roots, parents and children stay, best descendants stay in the heap.\<close>

definition soft :: "Node list \<Rightarrow> Node list \<Rightarrow> bool" where
  "soft h h' \<longleftrightarrow> length h' = length h \<and> heap_ok h' \<and>
     (\<forall>a < length h. n_root (h' ! a) = n_root (h ! a) \<and> n_parent (h' ! a) = n_parent (h ! a) \<and> n_children (h' ! a) = n_children (h ! a))"

definition touched :: "ForkChoice \<Rightarrow> ForkChoice \<Rightarrow> bool" where
  "touched s s' \<longleftrightarrow> (\<exists>h tk. s' = s\<lparr>fc_nodes := h, fc_tick := tk\<rparr> \<and> soft (fc_nodes s) h)"

lemma soft_refl: "heap_ok h \<Longrightarrow> soft h h"
  by (simp add: soft_def)

lemma soft_trans: "soft h h1 \<Longrightarrow> soft h1 h2 \<Longrightarrow> soft h h2"
  by (simp add: soft_def)

lemma softI:
  assumes "heap_ok h" and "length h' = length h"
    and "\<And>b. b < length h \<Longrightarrow> n_root (h' ! b) = n_root (h ! b) \<and> n_parent (h' ! b) = n_parent (h ! b) \<and> n_children (h' ! b) = n_children (h ! b)"
    and "\<And>b d. b < length h \<Longrightarrow> n_bestDescendant (h' ! b) = Some d \<Longrightarrow> d < length h"
  shows "soft h h'"
proof -
  have "heap_ok h'"
    unfolding heap_ok_def assms(2)
  proof (intro allI impI conjI ballI)
    fix a p c d
    assume a: "a < length h"
    note same = assms(3) [OF a]
    show "n_parent (h' ! a) = Some p \<Longrightarrow> p < a"
      using same heap_okD(1) [OF assms(1) a, of p] by simp
    show "c \<in> set (n_children (h' ! a)) \<Longrightarrow> \<exists>d. c = Some d \<and> a < d \<and> d < length h"
      using same heap_okD(2) [OF assms(1) a, of c] by simp
    show "n_bestDescendant (h' ! a) = Some d \<Longrightarrow> d < length h"
      by (rule assms(4) [OF a])
  qed
  then show ?thesis
    using assms(2,3) by (simp add: soft_def)
qed

lemma soft_update:
  assumes "heap_ok h" and "a < length h" and "n_root nd = n_root (h ! a)" and "n_parent nd = n_parent (h ! a)" and "n_children nd = n_children (h ! a)"
    and "\<And>d. n_bestDescendant nd = Some d \<Longrightarrow> d < length h"
  shows "soft h (h[a := nd])"
proof (rule softI [OF assms(1)])
  fix b d
  assume b: "b < length h"
  show "n_root (h[a := nd] ! b) = n_root (h ! b) \<and> n_parent (h[a := nd] ! b) = n_parent (h ! b) \<and> n_children (h[a := nd] ! b) = n_children (h ! b)"
    using assms(2-5) by (cases "b = a") simp_all
  show "n_bestDescendant (h[a := nd] ! b) = Some d \<Longrightarrow> d < length h"
    using assms(2,6) heap_okD(3) [OF assms(1) b] by (cases "b = a") simp_all
qed simp

lemma touched_refl: "heap_ok (fc_nodes s) \<Longrightarrow> touched s s"
  unfolding touched_def by (intro exI [of _ "fc_nodes s"] exI [of _ "fc_tick s"]) (simp add: soft_refl)

lemma touched_trans: "touched s s1 \<Longrightarrow> touched s1 s2 \<Longrightarrow> touched s s2"
  unfolding touched_def using soft_trans by fastforce

lemma touchedD:
  assumes "touched s s'"
  shows "fc_store s' = fc_store s" "length (fc_nodes s') = length (fc_nodes s)" "heap_ok (fc_nodes s')"
    "a < length (fc_nodes s) \<Longrightarrow> n_children (fc_nodes s' ! a) = n_children (fc_nodes s ! a)"
    "a < length (fc_nodes s) \<Longrightarrow> n_parent (fc_nodes s' ! a) = n_parent (fc_nodes s ! a)"
  using assms by (auto simp: touched_def soft_def)

lemma touched_tick: "touched s s' \<Longrightarrow> touched s (s'\<lparr>fc_tick := tk\<rparr>)"
  unfolding touched_def by fastforce

lemma touched_node:
  assumes "touched s s'" and "a < length (fc_nodes s')" and "n_root nd = n_root (fc_nodes s' ! a)" and "n_parent nd = n_parent (fc_nodes s' ! a)"
    and "n_children nd = n_children (fc_nodes s' ! a)" and "\<And>d. n_bestDescendant nd = Some d \<Longrightarrow> d < length (fc_nodes s')"
  shows "touched s (s'\<lparr>fc_nodes := (fc_nodes s')[a := nd]\<rparr>)"
proof -
  have "soft (fc_nodes s') ((fc_nodes s')[a := nd])"
    by (rule soft_update) (use assms touchedD(3) in auto)
  then have "touched s' (s'\<lparr>fc_nodes := (fc_nodes s')[a := nd]\<rparr>)"
    unfolding touched_def by (intro exI [of _ "(fc_nodes s')[a := nd]"] exI [of _ "fc_tick s'"]) simp
  then show ?thesis
    by (rule touched_trans [OF assms(1)])
qed

lemma fc_ok_touched:
  assumes "fc_ok s" and "touched s s'"
  shows "fc_ok s'"
proof -
  obtain h tk where s': "s' = s\<lparr>fc_nodes := h, fc_tick := tk\<rparr>" "soft (fc_nodes s) h"
    using assms(2) by (auto simp: touched_def)
  have "tree_ok m h t" if "tree_ok m (fc_nodes s) t" for m t
    by (rule tree_ok_cong [OF that]) (use s'(2) in \<open>auto simp: soft_def\<close>)
  then show ?thesis
    using assms(1) s' by (auto simp: fc_ok_def soft_def in_heap_def split: option.splits)
qed

section \<open>Recursions over the tree\<close>

lemma touched_update:
  assumes "touched s s1" and "a < length (fc_nodes s)"
    and "\<And>nd. n_root (f nd) = n_root nd \<and> n_parent (f nd) = n_parent nd \<and> n_children (f nd) = n_children nd"
    and "\<And>nd d. n_bestDescendant (f nd) = Some d \<Longrightarrow> n_bestDescendant nd = Some d \<or> d < length (fc_nodes s)"
  shows "runs (update_node (Some a) f) s1 (\<lambda>_. touched s) E"
proof -
  have a: "a < length (fc_nodes s1)"
    using assms(1,2) touchedD(2) by simp
  have "d < length (fc_nodes s1)" if "n_bestDescendant (f (fc_nodes s1 ! a)) = Some d" for d
    using assms(4) [OF that] heap_okD(3) [OF touchedD(3) [OF assms(1)] a] touchedD(2) [OF assms(1)] by auto
  then have "touched s (s1\<lparr>fc_nodes := (fc_nodes s1)[a := f (fc_nodes s1 ! a)]\<rparr>)"
    by (intro touched_node [OF assms(1) a]) (use assms(3) in auto)
  then show ?thesis
    using a by (simp add: wp)
qed

lemma touched_ctx:
  assumes "touched s s1" and "\<And>s2. touched s s2 \<Longrightarrow> length (fc_nodes s2) = length (fc_nodes s) \<Longrightarrow> heap_ok (fc_nodes s2) \<Longrightarrow> runs m s2 Q (touched s)"
  shows "runs (bindS (ctxErr ctx) (\<lambda>_. m)) s1 Q (touched s)"
proof -
  let ?s2 = "s1\<lparr>fc_tick := Suc (fc_tick s1)\<rparr>"
  have "touched s ?s2"
    by (rule touched_tick [OF assms(1)])
  then show ?thesis
    using assms(2) [of ?s2] touchedD(2,3) [of s ?s2] by (simp add: wp)
qed

text \<open>A call on a later state, seen from the first one.\<close>

lemma touched_call:
  assumes "runs m s1 (\<lambda>_. touched s1) (touched s1)" and "touched s s1"
  shows "runs m s1 (\<lambda>_. touched s) (touched s)"
  by (rule runs_mono [OF assms(1)]) (use touched_trans [OF assms(2)] in auto)

lemma applyWeightChanges_safe:
  "heap_ok (fc_nodes s) \<Longrightarrow> a < length (fc_nodes s) \<Longrightarrow> length (fc_nodes s) \<le> k + a \<Longrightarrow>
   runs (applyWeightChanges ctx k (Some a)) s (\<lambda>_. touched s) (touched s)"
proof (induction k arbitrary: a s)
  case (Suc k)
  let ?step = "\<lambda>child childrenWeight. bindS (ctxErr ctx) (\<lambda>_. bindS (applyWeightChanges ctx k child) (\<lambda>_.
              bindS (load child) (\<lambda>c. returnS (childrenWeight + n_weight c))))"
  have loop: "runs (forS (n_children (fc_nodes s ! a)) ?step 0) s (\<lambda>_. touched s) (touched s)"
  proof (rule runs_forS)
    fix c w s1
    assume c: "c \<in> set (n_children (fc_nodes s ! a))" and s1: "touched s s1"
    obtain d where d: "c = Some d" "a < d" "d < length (fc_nodes s)"
      using heap_okD(2) [OF Suc.prems(1,2) c] by blast
    show "runs (?step c w) s1 (\<lambda>_. touched s) (touched s)"
    proof (rule touched_ctx [OF s1], rule runs_seq)
      fix s2
      assume s2: "touched s s2" "length (fc_nodes s2) = length (fc_nodes s)" "heap_ok (fc_nodes s2)"
      show "runs (applyWeightChanges ctx k c) s2 (\<lambda>_. touched s) (touched s)"
        unfolding d(1) by (rule touched_call [OF Suc.IH s2(1)]) (use s2 d Suc.prems(3) in simp_all)
      show "runs (bindS (load c) (\<lambda>c. returnS (w + n_weight c))) s3 (\<lambda>_. touched s) (touched s)" if "touched s s3" for s3
        using that touchedD(2) [OF that] d by (simp add: wp)
    qed
  qed (rule touched_refl [OF Suc.prems(1)])
  have upd: "runs (if n_root (fc_nodes s ! a) = ZeroHash then returnS () else update_node (Some a) (\<lambda>nd. nd\<lparr>n_weight := n_balance nd + w\<rparr>)) s1
      (\<lambda>_. touched s) (touched s)" if "touched s s1" for w s1
    using that by (auto simp: runs_return intro!: touched_update [OF that Suc.prems(2)])
  have "runs (bindS (forS (n_children (fc_nodes s ! a)) ?step 0) (\<lambda>w. if n_root (fc_nodes s ! a) = ZeroHash then returnS ()
       else update_node (Some a) (\<lambda>nd. nd\<lparr>n_weight := n_balance nd + w\<rparr>))) s (\<lambda>_. touched s) (touched s)"
    by (rule runs_seq [OF loop]) (rule upd)
  then show ?case
    using Suc.prems(2) by (simp only: applyWeightChanges.simps runs_bind [of "load _"] runs_load) blast
qed simp

lemma leadsToViableTip_safe:
  assumes "heap_ok (fc_nodes s)" and "a < length (fc_nodes s)" and "\<And>b. Q b s"
  shows "runs (leadsToViableTip cfg (Some a) je ce) s Q E"
  unfolding leadsToViableTip_def
  using assms heap_okD(3) [OF assms(1,2)] by (cases "n_bestDescendant (fc_nodes s ! a)") (auto simp: wp Let_def)

lemma best_step_safe:
  assumes "heap_ok (fc_nodes s)" and "c \<in> set cs" and "\<And>p. p \<in> set cs \<Longrightarrow> in_heap (fc_nodes s) p" and "best = None \<or> best \<in> set cs"
  shows "runs (best_step cfg je ce c best) s (\<lambda>best s'. s' = s \<and> (best = None \<or> best \<in> set cs)) E"
proof -
  obtain a where a: "c = Some a" "a < length (fc_nodes s)"
    using assms(2,3) by (auto simp: in_heap_def)
  have "in_heap (fc_nodes s) best" if "best \<noteq> None"
    using assms(3,4) that by blast
  then have "runs (if \<not> v then returnS best else if best = None then returnS c
     else bindS (load c) (\<lambda>c'. bindS (load best) (\<lambda>b.
       returnS (if n_weight c' > n_weight b \<or> (n_weight c' = n_weight b \<and> n_root c' > n_root b) then c else best)))) s
     (\<lambda>best s'. s' = s \<and> (best = None \<or> best \<in> set cs)) E" for v
    using assms(2,4) a by (auto simp: wp in_heap_def)
  then show ?thesis
    unfolding best_step_def runs_bind a(1) by (intro leadsToViableTip_safe [OF assms(1) a(2)]) blast
qed

lemma bestChild_safe:
  assumes "heap_ok (fc_nodes s)" and "a < length (fc_nodes s)"
  shows "runs (bestChild cfg (Some a) je ce) s (\<lambda>best s'. s' = s \<and> (best = None \<or> in_heap (fc_nodes s) best)) E"
proof -
  let ?cs = "n_children (fc_nodes s ! a)"
  have heap: "in_heap (fc_nodes s) p" if "p \<in> set ?cs" for p
    using heap_okD(2) [OF assms that] by (auto simp: in_heap_def)
  have "runs (forS ?cs (best_step cfg je ce) None) s (\<lambda>best s'. s' = s \<and> (best = None \<or> best \<in> set ?cs)) E"
    by (rule runs_forS) (use best_step_safe [OF assms(1) _ heap] in auto)
  then have "runs (forS ?cs (best_step cfg je ce) None) s (\<lambda>best s'. s' = s \<and> (best = None \<or> in_heap (fc_nodes s) best)) E"
    by (rule runs_mono) (use heap in auto)
  then show ?thesis
    using assms(2) by (simp add: bestChild_def runs_bind runs_load)
qed

lemma updateBestDescendant_safe:
  "heap_ok (fc_nodes s) \<Longrightarrow> a < length (fc_nodes s) \<Longrightarrow> length (fc_nodes s) \<le> k + a \<Longrightarrow>
   runs (updateBestDescendant cfg ctx k (Some a) je fe ce) s (\<lambda>_. touched s) (touched s)"
proof (induction k arbitrary: a s)
  case (Suc k)
  let ?cs = "n_children (fc_nodes s ! a)"
  let ?step = "\<lambda>child _. if child = None then failS (Err ''could not update best descendant: invalid nil or unknown node'')
              else updateBestDescendant cfg ctx k child je fe ce"
  have loop: "runs (forS ?cs ?step ()) s1 (\<lambda>_. touched s) (touched s)" if "touched s s1" for s1
  proof (rule runs_forS)
    fix c u s2
    assume c: "c \<in> set ?cs" and s2: "touched s s2"
    obtain d where d: "c = Some d" "a < d" "d < length (fc_nodes s)"
      using heap_okD(2) [OF Suc.prems(1,2) c] by blast
    show "runs (?step c u) s2 (\<lambda>_. touched s) (touched s)"
      unfolding d(1) using touched_call [OF Suc.IH s2, of d] touchedD(2,3) [OF s2] d Suc.prems(3) by simp
  qed (rule that)
  have set: "runs (if best = None then update_node (Some a) (\<lambda>nd. nd\<lparr>n_bestDescendant := None\<rparr>)
          else bindS (load best) (\<lambda>b.
            update_node (Some a) (\<lambda>nd. nd\<lparr>n_bestDescendant := (if n_bestDescendant b = None then best else n_bestDescendant b)\<rparr>))) s1
       (\<lambda>_. touched s) (touched s)" if "touched s s1" "best = None \<or> in_heap (fc_nodes s1) best" for s1 best
  proof (cases best)
    case None
    then show ?thesis
      by (auto intro!: touched_update [OF that(1) Suc.prems(2)])
  next
    case (Some d)
    then have d: "d < length (fc_nodes s1)" "d < length (fc_nodes s)"
      using that touchedD(2) by (auto simp: in_heap_def)
    have "e < length (fc_nodes s)" if "n_bestDescendant (fc_nodes s1 ! d) = Some e" for e
      using heap_okD(3) [OF touchedD(3) [OF \<open>touched s s1\<close>] d(1) that] touchedD(2) [OF \<open>touched s s1\<close>] by simp
    then have "runs (update_node (Some a) (\<lambda>nd. nd\<lparr>n_bestDescendant := (if n_bestDescendant (fc_nodes s1 ! d) = None then best
         else n_bestDescendant (fc_nodes s1 ! d))\<rparr>)) s1 (\<lambda>_. touched s) (touched s)"
      by (intro touched_update [OF that(1) Suc.prems(2)]) (use Some d in \<open>auto split: if_splits\<close>)
    then show ?thesis
      using d Some by (simp only: runs_if runs_bind runs_load) auto
  qed
  have best: "runs (bestChild cfg (Some a) je ce) s1 (\<lambda>best s2. touched s s2 \<and> (best = None \<or> in_heap (fc_nodes s2) best)) (touched s)" if "touched s s1" for s1
    by (rule runs_mono [OF bestChild_safe]) (use that touchedD(2,3) [OF that] Suc.prems(2) in auto)
  show ?case
    unfolding updateBestDescendant.simps
  proof (rule touched_ctx [OF touched_refl [OF Suc.prems(1)]])
    fix s2
    assume s2: "touched s s2" "length (fc_nodes s2) = length (fc_nodes s)" "heap_ok (fc_nodes s2)"
    have cs: "n_children (fc_nodes s2 ! a) = ?cs"
      by (rule touchedD(4) [OF s2(1) Suc.prems(2)])
    have "runs (bindS (forS ?cs ?step ()) (\<lambda>_. bindS (bestChild cfg (Some a) je ce) (\<lambda>best.
          if best = None then update_node (Some a) (\<lambda>nd. nd\<lparr>n_bestDescendant := None\<rparr>)
          else bindS (load best) (\<lambda>b.
            update_node (Some a) (\<lambda>nd. nd\<lparr>n_bestDescendant := (if n_bestDescendant b = None then best else n_bestDescendant b)\<rparr>)))))
        s2 (\<lambda>_. touched s) (touched s)"
      by (intro runs_seq [OF loop [OF s2(1)]] runs_seq [OF best]) (use set in auto)
    moreover have "runs (update_node (Some a) (\<lambda>nd. nd\<lparr>n_bestDescendant := None\<rparr>)) s2 (\<lambda>_. touched s) (touched s)"
      by (rule touched_update [OF s2(1) Suc.prems(2)]) auto
    ultimately show "runs (bindS (load (Some a)) (\<lambda>nd. if n_children nd = [] then update_node (Some a) (\<lambda>nd. nd\<lparr>n_bestDescendant := None\<rparr>)
       else bindS (forS (n_children nd) ?step ()) (\<lambda>_. bindS (bestChild cfg (Some a) je ce) (\<lambda>best.
          if best = None then update_node (Some a) (\<lambda>nd. nd\<lparr>n_bestDescendant := None\<rparr>)
          else bindS (load best) (\<lambda>b.
            update_node (Some a) (\<lambda>nd. nd\<lparr>n_bestDescendant := (if n_bestDescendant b = None then best else n_bestDescendant b)\<rparr>))))))
        s2 (\<lambda>_. touched s) (touched s)"
      using cs Suc.prems(2) s2(2) by (simp only: runs_bind [of "load _"] runs_load) auto
  qed
qed simp

lemma setNodeAndParentValidated_safe:
  "heap_ok (fc_nodes s) \<Longrightarrow> a < length (fc_nodes s) \<Longrightarrow> a < k \<Longrightarrow>
   runs (setNodeAndParentValidated ctx k (Some a)) s (\<lambda>_. touched s) (touched s)"
proof (induction k arbitrary: a s)
  case (Suc k)
  show ?case
    unfolding setNodeAndParentValidated.simps
  proof (rule touched_ctx [OF touched_refl [OF Suc.prems(1)]])
    fix s2
    assume s2: "touched s s2" "length (fc_nodes s2) = length (fc_nodes s)" "heap_ok (fc_nodes s2)"
    let ?p = "n_parent (fc_nodes s2 ! a)"
    have "runs (if ?p \<noteq> None then setNodeAndParentValidated ctx k ?p else returnS ()) s2 (\<lambda>_. touched s) (touched s)"
    proof (cases ?p)
      case (Some q)
      then have "q < a"
        using heap_okD(1) [OF s2(3)] Suc.prems(2) s2(2) by simp
      then show ?thesis
        using touched_call [OF Suc.IH s2(1), of q] s2 Suc.prems Some by simp
    qed (use s2(1) in \<open>simp add: wp\<close>)
    then have "runs (bindS (if ?p \<noteq> None then setNodeAndParentValidated ctx k ?p else returnS ()) (\<lambda>_.
        update_node (Some a) (\<lambda>nd. nd\<lparr>n_optimistic := False\<rparr>))) s2 (\<lambda>_. touched s) (touched s)"
      by (rule runs_seq) (auto intro!: touched_update [OF _ Suc.prems(2)])
    then show "runs (bindS (load (Some a)) (\<lambda>nd. if \<not> n_optimistic nd then returnS ()
        else bindS (if n_parent nd \<noteq> None then setNodeAndParentValidated ctx k (n_parent nd) else returnS ()) (\<lambda>_.
       update_node (Some a) (\<lambda>nd. nd\<lparr>n_optimistic := False\<rparr>)))) s2 (\<lambda>_. touched s) (touched s)"
      using s2 Suc.prems(2) by (simp only: runs_bind [of "load _"] runs_load) (auto simp: runs_return)
  qed
qed simp

section \<open>Collecting nodes\<close>

text \<open>Only the tick of the context and the clock moved.\<close>

definition ticked :: "ForkChoice \<Rightarrow> ForkChoice \<Rightarrow> bool" where
  "ticked s s' \<longleftrightarrow> (\<exists>tk. s' = s\<lparr>fc_tick := tk\<rparr>)"

lemma ticked_refl [simp]: "ticked s s"
  unfolding ticked_def by (intro exI [of _ "fc_tick s"]) simp

lemma ticked_tick: "ticked s s' \<Longrightarrow> ticked s (s'\<lparr>fc_tick := tk\<rparr>)"
  unfolding ticked_def by fastforce

lemma ticked_trans: "ticked s s1 \<Longrightarrow> ticked s1 s2 \<Longrightarrow> ticked s s2"
  unfolding ticked_def by fastforce

lemma tickedD: "ticked s s' \<Longrightarrow> fc_nodes s' = fc_nodes s \<and> fc_store s' = fc_store s"
  by (auto simp: ticked_def)

lemma ticked_ctx:
  assumes "ticked s s1" and "\<And>s2. ticked s s2 \<Longrightarrow> runs m s2 Q (ticked s)"
  shows "runs (bindS (ctxErr ctx) (\<lambda>_. m)) s1 Q (ticked s)"
  using assms ticked_tick [OF assms(1)] by (simp add: wp)

lemma heap_children: "heap_ok h \<Longrightarrow> a < length h \<Longrightarrow> n_children (h ! a) = map Some (kids h a)"
proof -
  assume "heap_ok h" "a < length h"
  then have all: "p \<noteq> None \<and> a < the p \<and> the p < length h" if "p \<in> set (n_children (h ! a))" for p
    using heap_okD(2) [OF _ _ that] by fastforce
  then have "filter (\<lambda>p. p \<noteq> None \<and> a < the p \<and> the p < length h) (n_children (h ! a)) = n_children (h ! a)"
    by simp
  then have "kids h a = map the (n_children (h ! a))"
    by (simp only: kids_def)
  then show ?thesis
    using all by (auto intro!: map_idI [symmetric])
qed

text \<open>The subtree with the descendants first, and the part of it outside the subtree of a node.\<close>

function post :: "Node list \<Rightarrow> nat \<Rightarrow> nat list" where
  "post h a = concat (map (post h) (kids h a)) @ [a]"
  by pat_completeness auto
termination
  by (relation "measure (\<lambda>(h, a). length h - a)") (auto dest: kids_bounds)

function outside :: "Node list \<Rightarrow> nat \<Rightarrow> nat \<Rightarrow> nat list" where
  "outside h f a = (if a = f then [] else concat (map (outside h f) (kids h a)) @ [a])"
  by pat_completeness auto
termination
  by (relation "measure (\<lambda>(h, f, a). length h - a)") (auto dest: kids_bounds)

declare post.simps [simp del] outside.simps [simp del]

lemma set_post: "set (post h a) = set (subtree h a)"
proof (induction "length h - a" arbitrary: a rule: less_induct)
  case less
  have "set (post h c) = set (subtree h c)" if "c \<in> set (kids h a)" for c
    by (rule less.hyps) (use kids_bounds [OF that] in linarith)
  then show ?case
    unfolding set_subtree [of h a] by (subst post.simps) auto
qed

lemma runs_collect:
  assumes "\<And>c nodes s1. c \<in> set cs \<Longrightarrow> ticked s s1 \<Longrightarrow> runs (f (Some c) nodes) s1 (\<lambda>r s2. ticked s s2 \<and> r = nodes @ map Some (g c)) (ticked s)"
  shows "ticked s s1 \<Longrightarrow> runs (forS (map Some cs) f nodes) s1 (\<lambda>r s2. ticked s s2 \<and> r = nodes @ map Some (concat (map g cs))) (ticked s)"
  using assms
proof (induction cs arbitrary: nodes s1)
  case (Cons c cs)
  have "runs (f (Some c) nodes) s1 (\<lambda>r s2. ticked s s2 \<and> r = nodes @ map Some (g c)) (ticked s)"
    using Cons.prems by simp
  then show ?case
    unfolding list.map forS.simps
  proof (rule runs_seq)
    fix r s2
    assume r: "ticked s s2 \<and> r = nodes @ map Some (g c)"
    have "runs (forS (map Some cs) f r) s2 (\<lambda>r' s2. ticked s s2 \<and> r' = r @ map Some (concat (map g cs))) (ticked s)"
      by (rule Cons.IH) (use Cons.prems(2) r in auto)
    then show "runs (forS (map Some cs) f r) s2 (\<lambda>r s2. ticked s s2 \<and> r = nodes @ map Some (concat (g c # map g cs))) (ticked s)"
      using r by simp
  qed
qed (simp add: wp)

lemma subtreeNodes_safe:
  "heap_ok (fc_nodes s) \<Longrightarrow> a < length (fc_nodes s) \<Longrightarrow> length (fc_nodes s) \<le> k + a \<Longrightarrow>
   runs (subtreeNodes ctx k (Some a) nodes) s (\<lambda>r s'. ticked s s' \<and> r = nodes @ map Some (post (fc_nodes s) a)) (ticked s)"
proof (induction k arbitrary: a nodes s)
  case (Suc k)
  let ?h = "fc_nodes s"
  have "runs (subtreeNodes ctx k (Some c) nodes) s1 (\<lambda>r s2. ticked s s2 \<and> r = nodes @ map Some (post ?h c)) (ticked s)"
    if "c \<in> set (kids ?h a)" "ticked s s1" for c nodes s1
  proof -
    have "runs (subtreeNodes ctx k (Some c) nodes) s1 (\<lambda>r s2. ticked s1 s2 \<and> r = nodes @ map Some (post (fc_nodes s1) c)) (ticked s1)"
      by (rule Suc.IH) (use kids_bounds [OF that(1)] tickedD [OF that(2)] Suc.prems in simp_all)
    then show ?thesis
      by (rule runs_mono) (use ticked_trans [OF that(2)] tickedD [OF that(2)] in auto)
  qed
  then have loop: "runs (forS (map Some (kids ?h a)) (\<lambda>child nodes. subtreeNodes ctx k child nodes) nodes) s1
      (\<lambda>r s2. ticked s s2 \<and> r = nodes @ map Some (concat (map (post ?h) (kids ?h a)))) (ticked s)" if "ticked s s1" for s1
    using runs_collect [of "kids ?h a" s "\<lambda>child nodes. subtreeNodes ctx k child nodes" "post ?h" s1 nodes] that by blast
  show ?case
    unfolding subtreeNodes.simps
  proof (rule ticked_ctx [OF ticked_refl])
    fix s2
    assume s2: "ticked s s2"
    have "runs (bindS (forS (map Some (kids ?h a)) (\<lambda>child nodes. subtreeNodes ctx k child nodes) nodes) (\<lambda>nodes. returnS (nodes @ [Some a]))) s2
        (\<lambda>r s'. ticked s s' \<and> r = nodes @ map Some (post ?h a)) (ticked s)"
      by (rule runs_seq [OF loop [OF s2]]) (auto simp: runs_return post.simps [of ?h a])
    then show "runs (bindS (load (Some a)) (\<lambda>nd. bindS (forS (n_children nd) (\<lambda>child nodes. subtreeNodes ctx k child nodes) nodes) (\<lambda>nodes.
        returnS (nodes @ [Some a])))) s2 (\<lambda>r s'. ticked s s' \<and> r = nodes @ map Some (post ?h a)) (ticked s)"
      using Suc.prems(2) tickedD [OF s2] heap_children [OF Suc.prems(1,2)] by (simp only: runs_bind [of "load _"] runs_load) auto
  qed
qed simp

lemma prunableNodes_safe:
  "heap_ok (fc_nodes s) \<Longrightarrow> a < length (fc_nodes s) \<Longrightarrow> length (fc_nodes s) \<le> k + a \<Longrightarrow>
   runs (prunableNodes ctx k (Some a) (Some f) nodes) s (\<lambda>r s'. ticked s s' \<and> r = nodes @ map Some (outside (fc_nodes s) f a)) (ticked s)"
proof (induction k arbitrary: a nodes s)
  case (Suc k)
  let ?h = "fc_nodes s"
  have "runs (prunableNodes ctx k (Some c) (Some f) nodes) s1 (\<lambda>r s2. ticked s s2 \<and> r = nodes @ map Some (outside ?h f c)) (ticked s)"
    if "c \<in> set (kids ?h a)" "ticked s s1" for c nodes s1
  proof -
    have "runs (prunableNodes ctx k (Some c) (Some f) nodes) s1 (\<lambda>r s2. ticked s1 s2 \<and> r = nodes @ map Some (outside (fc_nodes s1) f c)) (ticked s1)"
      by (rule Suc.IH) (use kids_bounds [OF that(1)] tickedD [OF that(2)] Suc.prems in simp_all)
    then show ?thesis
      by (rule runs_mono) (use ticked_trans [OF that(2)] tickedD [OF that(2)] in auto)
  qed
  then have loop: "runs (forS (map Some (kids ?h a)) (\<lambda>child nodes. prunableNodes ctx k child (Some f) nodes) nodes) s1
      (\<lambda>r s2. ticked s s2 \<and> r = nodes @ map Some (concat (map (outside ?h f) (kids ?h a)))) (ticked s)" if "ticked s s1" for s1
    using runs_collect [of "kids ?h a" s "\<lambda>child nodes. prunableNodes ctx k child (Some f) nodes" "outside ?h f" s1 nodes] that by blast
  show ?case
    unfolding prunableNodes.simps
  proof (rule ticked_ctx [OF ticked_refl])
    fix s2
    assume s2: "ticked s s2"
    have "runs (bindS (forS (map Some (kids ?h a)) (\<lambda>child nodes. prunableNodes ctx k child (Some f) nodes) nodes) (\<lambda>nodes. returnS (nodes @ [Some a]))) s2
        (\<lambda>r s'. ticked s s' \<and> r = nodes @ map Some (outside ?h f a)) (ticked s)" if "a \<noteq> f"
      by (rule runs_seq [OF loop [OF s2]]) (auto simp: runs_return outside.simps [of ?h f a] that)
    then show "runs (if Some a = Some f then returnS nodes else bindS (load (Some a)) (\<lambda>nd.
        bindS (forS (n_children nd) (\<lambda>child nodes. prunableNodes ctx k child (Some f) nodes) nodes) (\<lambda>nodes.
        returnS (nodes @ [Some a])))) s2 (\<lambda>r s'. ticked s s' \<and> r = nodes @ map Some (outside ?h f a)) (ticked s)"
      using Suc.prems(2) tickedD [OF s2] heap_children [OF Suc.prems(1,2)] s2 outside.simps [of ?h f a]
      by (cases "a = f") (simp add: runs_return, simp only: runs_if runs_bind [of "load _"] runs_load, auto)
  qed
qed simp

end
