(* ===== verification/Fork_Choice_Votes.thy ===== *)
theory Fork_Choice_Votes
  imports Fork_Choice_Tree
begin

text \<open>
  The accounting of votes. Between two runs the balance of a node is the sum of the balances of the validators whose
  current vote is for the block, slashed validators excluded, and the proposer boost given to it. \<open>updateBalances\<close>
  moves every vote to its next root with its new balance; together with the weights and the best descendants this makes
  \<open>Head\<close> the LMD GHOST rule over the latest votes, stated in unbounded integers.
\<close>

section \<open>Sums of votes\<close>

text \<open>What validator \<open>i\<close> contributes to the block with root \<open>r\<close>, by its current or by its next vote.\<close>

definition contrib :: "Store \<Rightarrow> (Vote \<Rightarrow> bytes) \<Rightarrow> Vote list \<Rightarrow> u64 list \<Rightarrow> bytes \<Rightarrow> nat \<Rightarrow> nat" where
  "contrib st sel votes bal r i = (if \<not> is_slashed st i \<and> sel (votes ! i) = r then unat (balance_at bal i) else 0)"

definition vote_sum :: "Store \<Rightarrow> (Vote \<Rightarrow> bytes) \<Rightarrow> Vote list \<Rightarrow> u64 list \<Rightarrow> bytes \<Rightarrow> nat" where
  "vote_sum st sel votes bal r = (\<Sum>i < length votes. contrib st sel votes bal r i)"

definition stake :: "u64 list \<Rightarrow> nat" where
  "stake bal = sum_list (map unat bal)"

text \<open>The boost that the balances contain.\<close>

definition boost_at :: "Store \<Rightarrow> bytes \<Rightarrow> nat" where
  "boost_at st r = (if st_previousProposerBoostRoot st = r then unat (st_previousProposerBoostScore st) else 0)"

definition accounted :: "ForkChoice \<Rightarrow> bool" where
  "accounted s \<longleftrightarrow> (\<forall>a \<in> live (st_nodeByRoot (fc_store s)). unat (n_balance (fc_nodes s ! a)) =
     vote_sum (fc_store s) v_currentRoot (fc_votes s) (fc_balances s) (n_root (fc_nodes s ! a)) + boost_at (fc_store s) (n_root (fc_nodes s ! a)))"

lemma balance_at_Cons [simp]: "balance_at (b # bal) 0 = b" "balance_at (b # bal) (Suc i) = balance_at bal i"
  by (auto simp: balance_at_def)

lemma sum_balance_at: "(\<Sum>i < n. unat (balance_at bal i)) \<le> stake bal"
proof (induction bal arbitrary: n)
  case Nil
  then show ?case
    by (simp add: balance_at_def stake_def)
next
  case (Cons b bal)
  show ?case
  proof (cases n)
    case (Suc k)
    have "(\<Sum>i < n. unat (balance_at (b # bal) i)) = unat b + (\<Sum>i < k. unat (balance_at bal i))"
      unfolding Suc by (simp add: sum.lessThan_Suc_shift del: sum.lessThan_Suc)
    then show ?thesis
      using Cons.IH [of k] by (simp add: stake_def)
  qed (simp add: stake_def)
qed

lemma contrib_le: "contrib st sel votes bal r i \<le> unat (balance_at bal i)"
  by (simp add: contrib_def)

lemma sum_contrib_le:
  assumes "finite I"
  shows "(\<Sum>i \<in> I. contrib st sel votes bal r i) \<le> stake bal"
proof -
  obtain n where n: "I \<subseteq> {..<n}"
    using assms unfolding finite_nat_set_iff_bounded by auto
  have "(\<Sum>i \<in> I. contrib st sel votes bal r i) \<le> (\<Sum>i \<in> I. unat (balance_at bal i))"
    by (rule sum_mono) (rule contrib_le)
  also have "\<dots> \<le> (\<Sum>i < n. unat (balance_at bal i))"
    by (rule sum_mono2) (use n in auto)
  finally show ?thesis
    using sum_balance_at [of bal n] by linarith
qed

section \<open>Changing balances\<close>

definition bump :: "(bytes \<rightharpoonup> ptr) \<Rightarrow> (u64 \<Rightarrow> u64) \<Rightarrow> bytes \<Rightarrow> Node list \<Rightarrow> Node list" where
  "bump m f r h = (case map_ptr m r of None \<Rightarrow> h | Some a \<Rightarrow> h[a := (h ! a)\<lparr>n_balance := f (n_balance (h ! a))\<rparr>])"

text \<open>Two heaps that differ in balances only.\<close>

definition same_but_balance :: "Node list \<Rightarrow> Node list \<Rightarrow> bool" where
  "same_but_balance h h' \<longleftrightarrow> length h' = length h \<and> (\<forall>b < length h. h' ! b = (h ! b)\<lparr>n_balance := n_balance (h' ! b)\<rparr>)"

lemma same_but_balance_refl [simp]: "same_but_balance h h"
  by (simp add: same_but_balance_def)

lemma same_but_balance_trans: "same_but_balance h h1 \<Longrightarrow> same_but_balance h1 h2 \<Longrightarrow> same_but_balance h h2"
  unfolding same_but_balance_def by (metis Node.surjective Node.update_convs(12))

lemma same_but_balance_update: "same_but_balance h (h[a := (h ! a)\<lparr>n_balance := x\<rparr>])"
proof -
  have "h[a := (h ! a)\<lparr>n_balance := x\<rparr>] ! b = (h ! b)\<lparr>n_balance := n_balance (h[a := (h ! a)\<lparr>n_balance := x\<rparr>] ! b)\<rparr>"
    if "b < length h" for b
    using that by (cases "a = b") simp_all
  then show ?thesis
    by (simp add: same_but_balance_def)
qed

lemma same_but_balance_bump: "same_but_balance h (bump m f r h)"
  by (simp add: bump_def same_but_balance_update split: option.splits)

lemma same_but_balance_bump2 [intro]: "same_but_balance h0 h \<Longrightarrow> same_but_balance h0 (bump m f r h)"
  using same_but_balance_trans same_but_balance_bump by blast

lemma same_but_balance_fields:
  assumes "same_but_balance h h'" and "b < length h"
  shows "n_root (h' ! b) = n_root (h ! b)" "n_parent (h' ! b) = n_parent (h ! b)" "n_children (h' ! b) = n_children (h ! b)"
    "n_slot (h' ! b) = n_slot (h ! b)" "n_weight (h' ! b) = n_weight (h ! b)" "n_bestDescendant (h' ! b) = n_bestDescendant (h ! b)"
    "n_justifiedEpoch (h' ! b) = n_justifiedEpoch (h ! b)" "n_unrealizedJustifiedEpoch (h' ! b) = n_unrealizedJustifiedEpoch (h ! b)"
proof -
  have "h' ! b = (h ! b)\<lparr>n_balance := n_balance (h' ! b)\<rparr>"
    using assms by (simp add: same_but_balance_def)
  then obtain x where "h' ! b = (h ! b)\<lparr>n_balance := x\<rparr>"
    by blast
  then show "n_root (h' ! b) = n_root (h ! b)" "n_parent (h' ! b) = n_parent (h ! b)" "n_children (h' ! b) = n_children (h ! b)"
    "n_slot (h' ! b) = n_slot (h ! b)" "n_weight (h' ! b) = n_weight (h ! b)" "n_bestDescendant (h' ! b) = n_bestDescendant (h ! b)"
    "n_justifiedEpoch (h' ! b) = n_justifiedEpoch (h ! b)" "n_unrealizedJustifiedEpoch (h' ! b) = n_unrealizedJustifiedEpoch (h ! b)"
    by simp_all
qed

lemma same_but_balance_length: "same_but_balance h h' \<Longrightarrow> length h' = length h"
  by (simp add: same_but_balance_def)

lemma tree_ok_balance:
  assumes "tree_ok m h t" and "same_but_balance h h'"
  shows "tree_ok m h' t"
  by (rule tree_ok_cong [OF assms(1)]) (simp_all add: same_but_balance_fields [OF assms(2)] same_but_balance_length [OF assms(2)])

lemma bump_balance:
  assumes "tree_ok m h t" and "a \<in> live m"
  shows "n_balance (bump m f r h ! a) = (if n_root (h ! a) = r then f (n_balance (h ! a)) else n_balance (h ! a))"
proof (cases "map_ptr m r")
  case None
  then have "n_root (h ! a) \<noteq> r"
    using liveD(2) [OF assms] by (auto simp: map_ptr_def)
  then show ?thesis
    using None by (simp add: bump_def)
next
  case (Some b)
  then have b: "b \<in> live m" "n_root (h ! b) = r"
    using map_ptr_live(1) [OF assms(1)] by auto
  then have "a = b \<longleftrightarrow> n_root (h ! a) = r"
    using live_root_inj [OF assms b(1)] by auto
  then show ?thesis
    using Some liveD(1) [OF assms] by (auto simp: bump_def nth_list_update)
qed

lemma known_root:
  assumes "tree_ok m h t" and "m r = Some p"
  obtains a where "p = Some a" "a < length h" "a \<in> live m" "n_root (h ! a) = r" "r \<noteq> ZeroHash"
proof -
  obtain a where a: "a < length h" "p = Some a" "n_root (h ! a) = r"
    using tree_okD(1) [OF assms] by blast
  moreover have "r \<noteq> ZeroHash"
    using tree_okD(2) [OF assms(1)] assms(2) by auto
  moreover have "a \<in> live m"
    using assms(2) a(2) by (auto simp: live_def)
  ultimately show ?thesis
    using that by blast
qed

lemma add_vote_run:
  assumes "tree_ok (st_nodeByRoot (fc_store s)) (fc_nodes s) t"
  shows "add_vote r x s = Some (Inr (), s\<lparr>fc_nodes := bump (st_nodeByRoot (fc_store s)) (\<lambda>b. b + x) r (fc_nodes s)\<rparr>)"
proof (cases "st_nodeByRoot (fc_store s) r")
  case None
  then show ?thesis
    by (simp add: add_vote_def bindS_def getS_def returnS_def bump_def map_ptr_def)
next
  case (Some p)
  obtain a where a: "p = Some a" "a < length (fc_nodes s)" "r \<noteq> ZeroHash"
    using known_root [OF assms Some] by blast
  then show ?thesis
    using Some by (simp add: add_vote_def bindS_def getS_def returnS_def bump_def map_ptr_def)
qed

lemma sub_vote_run:
  assumes "tree_ok (st_nodeByRoot (fc_store s)) (fc_nodes s) t"
  shows "sub_vote r x s = Some (Inr (), s\<lparr>fc_nodes := bump (st_nodeByRoot (fc_store s)) (\<lambda>b. if b < x then 0 else b - x) r (fc_nodes s)\<rparr>)"
proof (cases "st_nodeByRoot (fc_store s) r")
  case None
  then show ?thesis
    by (simp add: sub_vote_def bindS_def getS_def returnS_def bump_def map_ptr_def)
next
  case (Some p)
  obtain a where a: "p = Some a" "a < length (fc_nodes s)" "r \<noteq> ZeroHash"
    using known_root [OF assms Some] by blast
  then show ?thesis
    using Some by (simp add: sub_vote_def bindS_def getS_def returnS_def bump_def map_ptr_def)
qed

section \<open>Moving the votes\<close>

definition rotated :: "Store \<Rightarrow> nat \<Rightarrow> Vote \<Rightarrow> Vote" where
  "rotated st j v = (if is_slashed st j \<or> (v_currentRoot v = ZeroHash \<and> v_nextRoot v = ZeroHash) then v else v\<lparr>v_currentRoot := v_nextRoot v\<rparr>)"

text \<open>The balance of a block when the first \<open>i\<close> votes have moved.\<close>

definition partly_moved :: "ForkChoice \<Rightarrow> u64 list \<Rightarrow> nat \<Rightarrow> bytes \<Rightarrow> nat" where
  "partly_moved s new i r =
     (\<Sum>j < i. contrib (fc_store s) v_nextRoot (fc_votes s) new r j) +
     (\<Sum>j \<in> {i..<length (fc_votes s)}. contrib (fc_store s) v_currentRoot (fc_votes s) (fc_balances s) r j) +
     boost_at (fc_store s) r"

definition moving :: "ForkChoice \<Rightarrow> u64 list \<Rightarrow> nat \<Rightarrow> ForkChoice \<Rightarrow> bool" where
  "moving s0 new i s \<longleftrightarrow> (\<exists>vs h. s = s0\<lparr>fc_votes := vs, fc_nodes := h\<rparr> \<and> same_but_balance (fc_nodes s0) h \<and>
     length vs = length (fc_votes s0) \<and>
     (\<forall>j < length vs. vs ! j = (if j < i then rotated (fc_store s0) j (fc_votes s0 ! j) else fc_votes s0 ! j)) \<and>
     (\<forall>a \<in> live (st_nodeByRoot (fc_store s0)). unat (n_balance (h ! a)) = partly_moved s0 new i (n_root (fc_nodes s0 ! a))))"

lemma partly_moved_step:
  assumes "i < length (fc_votes s)"
  shows "partly_moved s new (Suc i) r + contrib (fc_store s) v_currentRoot (fc_votes s) (fc_balances s) r i =
    partly_moved s new i r + contrib (fc_store s) v_nextRoot (fc_votes s) new r i"
proof -
  have "{i..<length (fc_votes s)} = insert i {Suc i..<length (fc_votes s)}"
    using assms by auto
  then show ?thesis
    by (simp add: partly_moved_def)
qed

lemma partly_moved_bound:
  "partly_moved s new i r \<le> stake new + stake (fc_balances s) + unat (st_previousProposerBoostScore (fc_store s))"
proof -
  have "(\<Sum>j < i. contrib (fc_store s) v_nextRoot (fc_votes s) new r j) \<le> stake new"
    by (rule sum_contrib_le) simp
  moreover have "(\<Sum>j \<in> {i..<length (fc_votes s)}. contrib (fc_store s) v_currentRoot (fc_votes s) (fc_balances s) r j) \<le> stake (fc_balances s)"
    by (rule sum_contrib_le) simp
  moreover have "boost_at (fc_store s) r \<le> unat (st_previousProposerBoostScore (fc_store s))"
    by (simp add: boost_at_def)
  ultimately show ?thesis
    by (simp add: partly_moved_def)
qed

lemma partly_moved_ge:
  assumes "i < length (fc_votes s)"
  shows "contrib (fc_store s) v_currentRoot (fc_votes s) (fc_balances s) r i \<le> partly_moved s new i r"
proof -
  have "contrib (fc_store s) v_currentRoot (fc_votes s) (fc_balances s) r i \<le>
      (\<Sum>j \<in> {i..<length (fc_votes s)}. contrib (fc_store s) v_currentRoot (fc_votes s) (fc_balances s) r j)"
    by (rule member_le_sum) (use assms in auto)
  then show ?thesis
    by (simp add: partly_moved_def)
qed

lemma partly_moved_add_bound:
  "partly_moved s new i r + contrib (fc_store s) v_nextRoot (fc_votes s) new r i \<le>
    stake new + stake (fc_balances s) + unat (st_previousProposerBoostScore (fc_store s))"
proof -
  have "(\<Sum>j < Suc i. contrib (fc_store s) v_nextRoot (fc_votes s) new r j) \<le> stake new"
    by (rule sum_contrib_le) simp
  moreover have "(\<Sum>j \<in> {i..<length (fc_votes s)}. contrib (fc_store s) v_currentRoot (fc_votes s) (fc_balances s) r j) \<le> stake (fc_balances s)"
    by (rule sum_contrib_le) simp
  moreover have "boost_at (fc_store s) r \<le> unat (st_previousProposerBoostScore (fc_store s))"
    by (simp add: boost_at_def)
  ultimately show ?thesis
    by (simp add: partly_moved_def)
qed

text \<open>The balances of the live nodes after one vote has moved.\<close>

lemma moved_balance:
  assumes "tree_ok m h t" and "a \<in> live m" and "r = n_root (h ! a)"
    and "unat (n_balance (h ! a)) = x" and "x + (if nxt = r then unat new else 0) < 18446744073709551616"
    and "(if cur = r then unat old else 0) \<le> x" and "y + (if cur = r then unat old else 0) = x + (if nxt = r then unat new else 0)"
  shows "unat (n_balance (bump m (\<lambda>b. if b < old then 0 else b - old) cur (bump m (\<lambda>b. b + new) nxt h) ! a)) = y"
proof -
  let ?h1 = "bump m (\<lambda>b. b + new) nxt h"
  have ok: "tree_ok m ?h1 t"
    by (rule tree_ok_balance [OF assms(1) same_but_balance_bump])
  have root: "n_root (?h1 ! a) = r"
    using same_but_balance_fields(1) [OF same_but_balance_bump liveD(1) [OF assms(1,2)]] assms(3) by simp
  have b1: "unat (n_balance (?h1 ! a)) = x + (if nxt = r then unat new else 0)"
    using bump_balance [OF assms(1,2), of "\<lambda>b. b + new" nxt] assms(3-5) by (auto simp: unat_add_u64)
  show ?thesis
  proof (cases "cur = r")
    case True
    then have "\<not> n_balance (?h1 ! a) < old"
      using b1 assms(6) by (simp add: unat_less_u64)
    then have "unat (n_balance (?h1 ! a) - old) = unat (n_balance (?h1 ! a)) - unat old"
      by (simp add: unat_sub_u64 not_less)
    then show ?thesis
      using bump_balance [OF ok assms(2), of "\<lambda>b. if b < old then 0 else b - old" cur] root True b1 assms(7) \<open>\<not> n_balance (?h1 ! a) < old\<close>
      by simp
  next
    case False
    then show ?thesis
      using bump_balance [OF ok assms(2), of "\<lambda>b. if b < old then 0 else b - old" cur] root b1 assms(7) by simp
  qed
qed

lemma moving_next:
  assumes "moving s0 new i s" and "i < length (fc_votes s0)" and "same_but_balance (fc_nodes s0) h"
    and "\<And>a. a \<in> live (st_nodeByRoot (fc_store s0)) \<Longrightarrow> unat (n_balance (h ! a)) = partly_moved s0 new (Suc i) (n_root (fc_nodes s0 ! a))"
    and "v = rotated (fc_store s0) i (fc_votes s0 ! i)"
  shows "moving s0 new (Suc i) (s\<lparr>fc_nodes := h, fc_votes := (fc_votes s)[i := v]\<rparr>)"
proof -
  obtain vs h0 where s: "s = s0\<lparr>fc_votes := vs, fc_nodes := h0\<rparr>" "length vs = length (fc_votes s0)"
      "\<forall>j < length vs. vs ! j = (if j < i then rotated (fc_store s0) j (fc_votes s0 ! j) else fc_votes s0 ! j)"
    using assms(1) by (auto simp: moving_def)
  have "(vs[i := v]) ! j = (if j < Suc i then rotated (fc_store s0) j (fc_votes s0 ! j) else fc_votes s0 ! j)" if "j < length vs" for j
    using s(3) that assms(5) by (auto simp: nth_list_update less_Suc_eq)
  then show ?thesis
    unfolding moving_def using s(1,2) assms(3,4) by (intro exI [of _ "vs[i := v]"] exI [of _ h]) simp
qed

lemma balance_step_run:
  assumes "moving s0 new i s" and "i < length (fc_votes s0)" and "tree_ok (st_nodeByRoot (fc_store s0)) (fc_nodes s0) t"
    and "stake new + stake (fc_balances s0) + unat (st_previousProposerBoostScore (fc_store s0)) < 18446744073709551616"
  shows "\<exists>s'. balance_step new i () s = Some (Inr (), s') \<and> moving s0 new (Suc i) s'"
proof -
  let ?st = "fc_store s0" and ?v = "fc_votes s0 ! i" and ?m = "st_nodeByRoot (fc_store s0)"
  let ?old = "balance_at (fc_balances s0) i" and ?new = "balance_at new i"
  obtain vs h where s: "s = s0\<lparr>fc_votes := vs, fc_nodes := h\<rparr>" "same_but_balance (fc_nodes s0) h" "length vs = length (fc_votes s0)"
      "vs ! i = ?v" and bal: "\<And>a. a \<in> live ?m \<Longrightarrow> unat (n_balance (h ! a)) = partly_moved s0 new i (n_root (fc_nodes s0 ! a))"
    using assms(1,2) by (auto simp: moving_def)
  have ok: "tree_ok ?m h t"
    by (rule tree_ok_balance [OF assms(3) s(2)])
  have root: "n_root (h ! a) = n_root (fc_nodes s0 ! a)" "n_root (h ! a) \<noteq> ZeroHash" if "a \<in> live ?m" for a
    using same_but_balance_fields(1) [OF s(2)] liveD(1) [OF assms(3) that] liveD(3) [OF ok that] by simp_all
  have "vs[i := ?v] = vs"
    using s(4) by (metis list_update_id)
  then have same: "s\<lparr>fc_nodes := h, fc_votes := (fc_votes s)[i := ?v]\<rparr> = s"
    using s(1) by simp
  show ?thesis
  proof (cases "is_slashed ?st i \<or> (v_currentRoot ?v = ZeroHash \<and> v_nextRoot ?v = ZeroHash)")
    case True
    have "contrib ?st v_currentRoot (fc_votes s0) (fc_balances s0) (n_root (fc_nodes s0 ! a)) i =
        contrib ?st v_nextRoot (fc_votes s0) new (n_root (fc_nodes s0 ! a)) i" if "a \<in> live ?m" for a
      using True root [OF that] by (auto simp: contrib_def)
    then have "unat (n_balance (h ! a)) = partly_moved s0 new (Suc i) (n_root (fc_nodes s0 ! a))" if "a \<in> live ?m" for a
      using partly_moved_step [OF assms(2), of new "n_root (fc_nodes s0 ! a)"] bal [OF that] that by simp
    then have "moving s0 new (Suc i) s"
      using moving_next [OF assms(1,2) s(2), of ?v] True same by (simp add: rotated_def)
    moreover have "balance_step new i () s = Some (Inr (), s)"
      using True s by (auto simp: balance_step_def bindS_def getS_def returnS_def Let_def)
    ultimately show ?thesis
      by blast
  next
    case False
    then have con: "contrib ?st v_currentRoot (fc_votes s0) (fc_balances s0) r i = (if v_currentRoot ?v = r then unat ?old else 0)"
        "contrib ?st v_nextRoot (fc_votes s0) new r i = (if v_nextRoot ?v = r then unat ?new else 0)" for r
      by (simp_all add: contrib_def)
    have rot: "rotated ?st i ?v = ?v\<lparr>v_currentRoot := v_nextRoot ?v\<rparr>"
      using False by (simp add: rotated_def)
    define h' where "h' = (if v_currentRoot ?v \<noteq> v_nextRoot ?v \<or> ?old \<noteq> ?new
      then bump ?m (\<lambda>b. if b < ?old then 0 else b - ?old) (v_currentRoot ?v) (bump ?m (\<lambda>b. b + ?new) (v_nextRoot ?v) h) else h)"
    have fields: "fc_nodes s = h" "fc_store s = ?st" "fc_votes s = vs" "fc_balances s = fc_balances s0"
      using s(1) by simp_all
    have add: "add_vote r x s = Some (Inr (), s\<lparr>fc_nodes := bump ?m (\<lambda>b. b + x) r h\<rparr>)" for r x
      using add_vote_run [of s t r x] ok fields by simp
    have sub: "sub_vote r' x' (s\<lparr>fc_nodes := bump ?m (\<lambda>b. b + x) r h\<rparr>) =
        Some (Inr (), s\<lparr>fc_nodes := bump ?m (\<lambda>b. if b < x' then 0 else b - x') r' (bump ?m (\<lambda>b. b + x) r h)\<rparr>)" for r r' x x'
      using sub_vote_run [of "s\<lparr>fc_nodes := bump ?m (\<lambda>b. b + x) r h\<rparr>" t r' x'] tree_ok_balance [OF ok same_but_balance_bump] fields by simp
    have "balance_step new i () s = Some (Inr (), s\<lparr>fc_nodes := h', fc_votes := (fc_votes s)[i := ?v\<lparr>v_currentRoot := v_nextRoot ?v\<rparr>]\<rparr>)"
      using False add sub fields s(4) by (auto simp: balance_step_def bindS_def getS_def returnS_def modS_def Let_def h'_def)
    moreover have "same_but_balance (fc_nodes s0) h'"
      unfolding h'_def using s(2) by auto
    moreover have "unat (n_balance (h' ! a)) = partly_moved s0 new (Suc i) (n_root (fc_nodes s0 ! a))" if a: "a \<in> live ?m" for a
    proof (cases "v_currentRoot ?v \<noteq> v_nextRoot ?v \<or> ?old \<noteq> ?new")
      case True
      let ?r = "n_root (fc_nodes s0 ! a)"
      have "unat (n_balance (bump ?m (\<lambda>b. if b < ?old then 0 else b - ?old) (v_currentRoot ?v) (bump ?m (\<lambda>b. b + ?new) (v_nextRoot ?v) h) ! a)) =
          partly_moved s0 new (Suc i) ?r"
        by (rule moved_balance [OF ok a root(1) [OF a, symmetric] bal [OF a]])
          (use partly_moved_add_bound [of s0 new i ?r] partly_moved_ge [OF assms(2), of ?r new] partly_moved_step [OF assms(2), of new ?r] assms(4)
            in \<open>simp_all only: con\<close>)
      then show ?thesis
        using True by (simp add: h'_def)
    next
      case False
      then have "v_currentRoot ?v = v_nextRoot ?v" "?old = ?new"
        by simp_all
      then show ?thesis
        using partly_moved_step [OF assms(2), of new "n_root (fc_nodes s0 ! a)"] bal [OF a] by (simp add: h'_def con cong: if_cong)
    qed
    ultimately show ?thesis
      using moving_next [OF assms(1,2), of h'] rot by auto
  qed
qed

lemma forS_upt:
  assumes "\<And>i s. lo \<le> i \<Longrightarrow> i < n \<Longrightarrow> I i s \<Longrightarrow> \<exists>s'. f i () s = Some (Inr (), s') \<and> I (Suc i) s'" and "I lo s" and "lo \<le> n"
  shows "\<exists>s'. forS [lo..<n] f () s = Some (Inr (), s') \<and> I n s'"
  using assms
proof (induction "n - lo" arbitrary: lo s)
  case 0
  then show ?case
    by (auto simp: returnS_def)
next
  case (Suc d)
  then have lt: "lo < n"
    by linarith
  then obtain s1 where s1: "f lo () s = Some (Inr (), s1)" "I (Suc lo) s1"
    using Suc.prems(1) [of lo s] Suc.prems(2) by blast
  have "\<exists>s'. forS [Suc lo..<n] f () s1 = Some (Inr (), s') \<and> I n s'"
    by (rule Suc.hyps(1)) (use Suc lt s1 in auto)
  then show ?case
    using s1 lt by (auto simp: upt_conv_Cons bindS_def)
qed

text \<open>
  After \<open>updateBalances\<close> the balance of a block is the sum of the justified balances of the validators whose latest vote
  is for it, and the boost; the accounting holds again.
\<close>

lemma updateBalances_run:
  assumes "tree_ok (st_nodeByRoot (fc_store s)) (fc_nodes s) t" and "accounted s"
    and "stake (fc_justifiedBalances s) + stake (fc_balances s) + unat (st_previousProposerBoostScore (fc_store s)) < 18446744073709551616"
  shows "\<exists>h vs. updateBalances s = Some (Inr (), s\<lparr>fc_nodes := h, fc_votes := vs, fc_balances := fc_justifiedBalances s\<rparr>) \<and>
    same_but_balance (fc_nodes s) h \<and> length vs = length (fc_votes s) \<and>
    (\<forall>j < length vs. vs ! j = rotated (fc_store s) j (fc_votes s ! j)) \<and>
    (\<forall>a \<in> live (st_nodeByRoot (fc_store s)). unat (n_balance (h ! a)) =
       vote_sum (fc_store s) v_nextRoot (fc_votes s) (fc_justifiedBalances s) (n_root (h ! a)) + boost_at (fc_store s) (n_root (h ! a)))"
proof -
  let ?n = "length (fc_votes s)" and ?new = "fc_justifiedBalances s"
  have start: "partly_moved s ?new 0 r = vote_sum (fc_store s) v_currentRoot (fc_votes s) (fc_balances s) r + boost_at (fc_store s) r" for r
    by (simp add: partly_moved_def vote_sum_def atLeast0LessThan)
  have "moving s ?new 0 s"
    unfolding moving_def using assms(2) start by (intro exI [of _ "fc_votes s"] exI [of _ "fc_nodes s"]) (auto simp: accounted_def)
  moreover have "\<exists>s''. balance_step ?new i () s' = Some (Inr (), s'') \<and> moving s ?new (Suc i) s''"
    if "0 \<le> i" "i < ?n" "moving s ?new i s'" for i s'
    by (rule balance_step_run [OF that(3,2) assms(1)]) (use assms(3) in simp)
  ultimately obtain s1 where s1: "forS [0..<?n] (balance_step ?new) () s = Some (Inr (), s1)" "moving s ?new ?n s1"
    using forS_upt [of 0 ?n "moving s ?new" "balance_step ?new" s] by blast
  obtain vs h where 2: "s1 = s\<lparr>fc_votes := vs, fc_nodes := h\<rparr>" "same_but_balance (fc_nodes s) h" "length vs = ?n"
      "\<forall>j < length vs. vs ! j = rotated (fc_store s) j (fc_votes s ! j)"
      "\<forall>a \<in> live (st_nodeByRoot (fc_store s)). unat (n_balance (h ! a)) = partly_moved s ?new ?n (n_root (fc_nodes s ! a))"
    using s1(2) unfolding moving_def by (metis (no_types, lifting))
  have fin: "partly_moved s ?new ?n r = vote_sum (fc_store s) v_nextRoot (fc_votes s) ?new r + boost_at (fc_store s) r" for r
    by (simp add: partly_moved_def vote_sum_def)
  have "n_root (h ! a) = n_root (fc_nodes s ! a)" if "a \<in> live (st_nodeByRoot (fc_store s))" for a
    using same_but_balance_fields(1) [OF 2(2) liveD(1) [OF assms(1) that]] .
  then have "\<forall>a \<in> live (st_nodeByRoot (fc_store s)). unat (n_balance (h ! a)) =
       vote_sum (fc_store s) v_nextRoot (fc_votes s) ?new (n_root (h ! a)) + boost_at (fc_store s) (n_root (h ! a))"
    using 2(5) fin by simp
  moreover have "updateBalances s = Some (Inr (), s\<lparr>fc_nodes := h, fc_votes := vs, fc_balances := ?new\<rparr>)"
    using s1(1) 2(1) by (simp add: updateBalances_def bindS_def getS_def modS_def)
  ultimately show ?thesis
    using 2(2-4) by blast
qed

section \<open>Proposer boost\<close>

text \<open>The score of the boosted block, if it is known.\<close>

definition boost_score :: "config \<Rightarrow> Store \<Rightarrow> u64" where
  "boost_score cfg st = (if map_ptr (st_nodeByRoot st) (st_proposerBoostRoot st) = None then 0
     else st_committeeWeight st * ProposerScoreBoost (raw cfg) div 100)"

abbreviation boosted :: "config \<Rightarrow> Store \<Rightarrow> Store" where
  "boosted cfg st \<equiv> st\<lparr>st_previousProposerBoostRoot := st_proposerBoostRoot st, st_previousProposerBoostScore := boost_score cfg st\<rparr>"

lemma update_bump:
  assumes "tree_ok (st_nodeByRoot (fc_store s)) (fc_nodes s) t" and "map_ptr (st_nodeByRoot (fc_store s)) r = Some a"
  shows "update_node (Some a) (\<lambda>nd. nd\<lparr>n_balance := f (n_balance nd)\<rparr>) s =
    Some (Inr (), s\<lparr>fc_nodes := bump (st_nodeByRoot (fc_store s)) f r (fc_nodes s)\<rparr>)"
  using map_ptr_live(1) [OF assms] liveD(1) [OF assms(1), of a] assms(2) by (simp add: bump_def)

lemma applyProposerBoostScore_heap:
  assumes "tree_ok (st_nodeByRoot (fc_store s)) (fc_nodes s) t"
  shows "applyProposerBoostScore cfg s = Some (Inr (), s\<lparr>fc_store := boosted cfg (fc_store s), fc_nodes :=
    bump (st_nodeByRoot (fc_store s)) (\<lambda>b. b + boost_score cfg (fc_store s)) (st_proposerBoostRoot (fc_store s))
      (bump (st_nodeByRoot (fc_store s)) (\<lambda>b. if b < st_previousProposerBoostScore (fc_store s) then 0 else b - st_previousProposerBoostScore (fc_store s))
        (st_previousProposerBoostRoot (fc_store s)) (fc_nodes s))\<rparr>)"
proof -
  let ?st = "fc_store s" and ?m = "st_nodeByRoot (fc_store s)"
  let ?sub = "\<lambda>b. if b < st_previousProposerBoostScore ?st then 0 else b - st_previousProposerBoostScore ?st"
  define h1 where "h1 = bump ?m ?sub (st_previousProposerBoostRoot ?st) (fc_nodes s)"
  have zero: "map_ptr ?m ZeroHash = None"
    using tree_okD(2) [OF assms] by (simp add: map_ptr_def)
  have 1: "(if st_previousProposerBoostRoot ?st \<noteq> ZeroHash
            then let previousNode = map_ptr ?m (st_previousProposerBoostRoot ?st)
                 in if previousNode = None then returnS ()
                    else update_node previousNode (\<lambda>nd. nd\<lparr>n_balance :=
                      (if n_balance nd < st_previousProposerBoostScore ?st then 0 else n_balance nd - st_previousProposerBoostScore ?st)\<rparr>)
            else returnS ()) s = Some (Inr (), s\<lparr>fc_nodes := h1\<rparr>)"
    using zero update_bump [OF assms, of "st_previousProposerBoostRoot ?st" _ ?sub]
    by (cases "map_ptr ?m (st_previousProposerBoostRoot ?st)") (auto simp: h1_def returnS_def bump_def Let_def)
  have ok1: "tree_ok ?m h1 t"
    unfolding h1_def by (rule tree_ok_balance [OF assms same_but_balance_bump])
  let ?s1 = "s\<lparr>fc_nodes := h1\<rparr>"
  have 2: "(if st_proposerBoostRoot ?st \<noteq> ZeroHash
            then let currentNode = map_ptr ?m (st_proposerBoostRoot ?st)
                 in if currentNode = None then returnS 0
                    else let proposerScore = st_committeeWeight ?st * ProposerScoreBoost (raw cfg) div 100
                         in bindS (update_node currentNode (\<lambda>nd. nd\<lparr>n_balance := n_balance nd + proposerScore\<rparr>)) (\<lambda>_. returnS proposerScore)
            else returnS 0) ?s1 =
      Some (Inr (boost_score cfg ?st), s\<lparr>fc_nodes := bump ?m (\<lambda>b. b + boost_score cfg ?st) (st_proposerBoostRoot ?st) h1\<rparr>)"
    using zero update_bump [of ?s1 t "st_proposerBoostRoot ?st" _ "\<lambda>b. b + boost_score cfg ?st"] ok1
    by (cases "map_ptr ?m (st_proposerBoostRoot ?st)") (auto simp: returnS_def bump_def Let_def boost_score_def bindS_def)
  show ?thesis
    unfolding applyProposerBoostScore_def
    using 1 2 by (simp add: bindS_def getS_def returnS_def modS_def h1_def)
qed

lemma boost_balance:
  assumes "tree_ok m h t" and "m = st_nodeByRoot st" and "a \<in> live m" and "r = n_root (h ! a)"
    and "unat (n_balance (h ! a)) = x + boost_at st r" and "x + unat (boost_score cfg st) < 18446744073709551616"
  shows "unat (n_balance (bump m (\<lambda>b. b + boost_score cfg st) (st_proposerBoostRoot st)
      (bump m (\<lambda>b. if b < st_previousProposerBoostScore st then 0 else b - st_previousProposerBoostScore st) (st_previousProposerBoostRoot st) h) ! a)) =
    x + boost_at (boosted cfg st) r"
proof -
  let ?sub = "\<lambda>b. if b < st_previousProposerBoostScore st then 0 else b - st_previousProposerBoostScore st"
  let ?h1 = "bump m ?sub (st_previousProposerBoostRoot st) h"
  have ok: "tree_ok m ?h1 t"
    by (rule tree_ok_balance [OF assms(1) same_but_balance_bump])
  have root: "n_root (?h1 ! a) = r"
    using same_but_balance_fields(1) [OF same_but_balance_bump liveD(1) [OF assms(1,3)]] assms(4) by simp
  have "unat (n_balance (?h1 ! a)) = x"
  proof (cases "st_previousProposerBoostRoot st = r")
    case True
    then have le: "st_previousProposerBoostScore st \<le> n_balance (h ! a)"
      using assms(5) by (simp add: boost_at_def unat_le_u64)
    then have "\<not> n_balance (h ! a) < st_previousProposerBoostScore st"
      by (simp add: not_less)
    then show ?thesis
      using bump_balance [OF assms(1,3), of ?sub "st_previousProposerBoostRoot st"] True assms(4,5) le
      by (simp add: boost_at_def unat_sub_u64)
  next
    case False
    then show ?thesis
      using bump_balance [OF assms(1,3), of ?sub "st_previousProposerBoostRoot st"] assms(4,5) by (auto simp: boost_at_def)
  qed
  then show ?thesis
    using bump_balance [OF ok assms(3), of "\<lambda>b. b + boost_score cfg st" "st_proposerBoostRoot st"] root assms(6)
    by (auto simp: boost_at_def unat_add_u64)
qed

section \<open>Weights as sums\<close>

lemma subtree_parent:
  assumes "tree_ok m h t" and "a \<in> live m" and "b \<in> set (subtree h a)" and "b \<noteq> a"
  shows "\<exists>p \<in> set (subtree h a). n_parent (h ! b) = Some p \<and> p < b"
  using assms(2-4)
proof (induction "length h - a" arbitrary: a rule: less_induct)
  case less
  obtain c where c: "c \<in> set (kids h a)" "b \<in> set (subtree h c)"
    using less.prems(2,3) set_subtree [of h a] by auto
  have kid: "c \<in> live m" "n_parent (h ! c) = Some a" "a < c" "c < length h"
    using kidsD(2) [OF assms(1) less.prems(1) c(1)] kids_bounds [OF c(1)] by auto
  show ?case
  proof (cases "b = c")
    case True
    then show ?thesis
      using kid subtree_self [of a h] by blast
  next
    case False
    have "length h - c < length h - a"
      using kid by linarith
    then obtain p where "p \<in> set (subtree h c)" "n_parent (h ! b) = Some p \<and> p < b"
      using less.hyps [of c] kid(1) c(2) False by blast
    then show ?thesis
      using c(1) set_subtree [of h a] by blast
  qed
qed

lemma subtree_disjoint:
  assumes "tree_ok m h t" and "a \<in> live m" and "c \<in> set (kids h a)" and "d \<in> set (kids h a)" and "c \<noteq> d"
  shows "b \<in> set (subtree h c) \<Longrightarrow> b \<notin> set (subtree h d)"
proof (induction b rule: less_induct)
  case (less b)
  have c: "c \<in> live m" "n_parent (h ! c) = Some a" "a < c" and d: "d \<in> live m" "n_parent (h ! d) = Some a" "a < d"
    using kidsD(2) [OF assms(1,2)] assms(3,4) by auto
  show ?case
  proof
    assume b: "b \<in> set (subtree h d)"
    consider "b = c" | "b = d" | "b \<noteq> c" "b \<noteq> d"
      by blast
    then show False
    proof cases
      case 1
      then obtain p where "p \<in> set (subtree h d)" "n_parent (h ! c) = Some p"
        using subtree_parent [OF assms(1) d(1) b] assms(5) by blast
      then show False
        using c(2) d(3) subtree_live(2) [OF assms(1) d(1), of p] by simp
    next
      case 2
      then obtain p where "p \<in> set (subtree h c)" "n_parent (h ! d) = Some p"
        using subtree_parent [OF assms(1) c(1) less.prems] assms(5) by blast
      then show False
        using d(2) c(3) subtree_live(2) [OF assms(1) c(1), of p] by simp
    next
      case 3
      obtain p q where "p \<in> set (subtree h c)" "n_parent (h ! b) = Some p" "p < b" "q \<in> set (subtree h d)" "n_parent (h ! b) = Some q"
        using subtree_parent [OF assms(1) c(1) less.prems 3(1)] subtree_parent [OF assms(1) d(1) b 3(2)] by blast
      then show False
        using less.IH [of p] by simp
    qed
  qed
qed

lemma distinct_concat_map:
  assumes "distinct cs" and "\<And>c. c \<in> set cs \<Longrightarrow> distinct (f c)"
    and "\<And>c d. c \<in> set cs \<Longrightarrow> d \<in> set cs \<Longrightarrow> c \<noteq> d \<Longrightarrow> set (f c) \<inter> set (f d) = {}"
  shows "distinct (concat (map f cs))"
  using assms by (induction cs) auto

lemma subtree_distinct:
  assumes "tree_ok m h t" and "a \<in> live m"
  shows "distinct (subtree h a)"
  using assms(2)
proof (induction "length h - a" arbitrary: a rule: less_induct)
  case less
  have "distinct (concat (map (subtree h) (kids h a)))"
  proof (rule distinct_concat_map)
    show "distinct (kids h a)"
      by (rule kidsD(3) [OF assms(1) less.prems])
    show "distinct (subtree h c)" if "c \<in> set (kids h a)" for c
      by (rule less.hyps) (use kids_bounds [OF that] kidsD(2) [OF assms(1) less.prems that] in auto)
    show "set (subtree h c) \<inter> set (subtree h d) = {}" if "c \<in> set (kids h a)" "d \<in> set (kids h a)" "c \<noteq> d" for c d
      using subtree_disjoint [OF assms(1) less.prems that] by blast
  qed
  moreover have "a \<notin> set (subtree h c)" if "c \<in> set (kids h a)" for c
    using subtree_live(2) [OF assms(1), of c a] kidsD(2) [OF assms(1) less.prems that] by auto
  ultimately show ?case
    by (subst subtree.simps) auto
qed

lemma sum_list_concat_map:
  "sum_list (map g (concat (map f cs))) = sum_list (map (\<lambda>c. sum_list (map g (f c))) cs)"
  for g :: "'a \<Rightarrow> nat"
  by (induction cs) auto

lemma weight_of_sum:
  "sum_list (map (\<lambda>b. unat (n_balance (h ! b))) (subtree h a)) < 18446744073709551616 \<Longrightarrow>
   unat (weight_of h a) = sum_list (map (\<lambda>b. unat (n_balance (h ! b))) (subtree h a))"
proof (induction "length h - a" arbitrary: a rule: less_induct)
  case less
  let ?f = "\<lambda>b. unat (n_balance (h ! b))"
  have split: "sum_list (map ?f (subtree h a)) = ?f a + sum_list (map (\<lambda>c. sum_list (map ?f (subtree h c))) (kids h a))"
    by (subst subtree.simps) (simp add: sum_list_concat_map)
  have "unat (sum_list (map (weight_of h) cs)) = sum_list (map (\<lambda>c. sum_list (map ?f (subtree h c))) cs)"
    if "set cs \<subseteq> set (kids h a)" "sum_list (map (\<lambda>c. sum_list (map ?f (subtree h c))) cs) < 18446744073709551616" for cs
    using that
  proof (induction cs)
    case (Cons c cs)
    have "length h - c < length h - a"
      using kids_bounds [of c h a] Cons.prems(1) by auto
    then have "unat (weight_of h c) = sum_list (map ?f (subtree h c))"
      using less.hyps [of c] Cons.prems(2) by simp
    then show ?case
      using Cons by (simp add: unat_add_u64)
  qed simp
  then have "unat (sum_list (map (weight_of h) (kids h a))) = sum_list (map (\<lambda>c. sum_list (map ?f (subtree h c))) (kids h a))"
    using less.prems split by simp
  then show ?case
    using less.prems split by (subst weight_of.simps) (simp add: unat_add_u64)
qed

end
