(* ===== verification/Fork_Choice_Prune.thy ===== *)
theory Fork_Choice_Prune
  imports Fork_Choice_Safe Fork_Choice_Votes
begin

text \<open>
  Pruning and removing blocks. The plan of a prune names every node outside the finalized subtree and the children of
  the finalized node that stay; applying it leaves one tree with the finalized block as its root. Removing a block takes
  its subtree out and leaves the rest of the tree.
\<close>

section \<open>The nodes outside a subtree\<close>

lemma set_outside:
  assumes "tree_ok m h t" and "f \<in> live m"
  shows "a \<in> live m \<Longrightarrow> a = f \<or> a \<notin> set (subtree h f) \<Longrightarrow> set (outside h f a) = set (subtree h a) - set (subtree h f)"
proof (induction "length h - a" arbitrary: a rule: less_induct)
  case less
  show ?case
  proof (cases "a = f")
    case False
    have "set (outside h f c) = set (subtree h c) - set (subtree h f)" if "c \<in> set (kids h a)" for c
    proof (rule less.hyps)
      have c: "c \<in> live m" "n_parent (h ! c) = Some a"
        using kidsD(2) [OF assms(1) less.prems(1) that] by auto
      then show "c \<in> live m" "c = f \<or> c \<notin> set (subtree h f)"
        using subtree_parent [OF assms, of c] less.prems(2) False by auto
    qed (use kids_bounds [OF that] in linarith)
    then show ?thesis
      unfolding set_subtree [of h a] using False less.prems(2) by (subst outside.simps) auto
  qed (simp add: outside.simps)
qed

section \<open>Removing nodes\<close>

text \<open>A tree from which the nodes \<open>X\<close> have been removed, with root \<open>f\<close>.\<close>

lemma live_minus:
  assumes "tree_ok m h t" and "X \<subseteq> live m" and "m' = (\<lambda>r. if r \<in> (\<lambda>a. n_root (h ! a)) ` X then None else m r)"
  shows "live m' = live m - X"
proof -
  have "m' r = Some (Some a) \<longleftrightarrow> m r = Some (Some a) \<and> a \<notin> X" for r a
  proof (cases "m r = Some (Some a)")
    case True
    then have a: "n_root (h ! a) = r" "a \<in> live m"
      using tree_okD(1) [OF assms(1) True] by (auto simp: live_def)
    have "b = a" if "b \<in> X" "n_root (h ! b) = r" for b
      by (rule live_root_inj [OF assms(1)]) (use that a assms(2) in auto)
    then have "r \<in> (\<lambda>a. n_root (h ! a)) ` X \<longleftrightarrow> a \<in> X"
      using a(1) by blast
    then show ?thesis
      using True assms(3) by simp
  qed (simp add: assms(3))
  then show ?thesis
    by (auto simp: live_def)
qed

lemma tree_ok_minus:
  assumes ok: "tree_ok m h t" and X: "X \<subseteq> live m" and m': "m' = (\<lambda>r. if r \<in> (\<lambda>a. n_root (h ! a)) ` X then None else m r)"
    and f: "f \<in> live m - X" "n_parent (h' ! f) = None" and len: "length h' = length h"
    and root: "\<And>b. b < length h \<Longrightarrow> n_root (h' ! b) = n_root (h ! b)"
    and kids: "\<And>a. a \<in> live m - X \<Longrightarrow> distinct (n_children (h' ! a))"
      "\<And>a p. a \<in> live m - X \<Longrightarrow> p \<in> set (n_children (h' ! a)) \<Longrightarrow> p \<in> set (n_children (h ! a)) \<and> p \<notin> Some ` X \<and> p \<noteq> Some f"
    and par: "\<And>a. a \<in> live m - X \<Longrightarrow> a \<noteq> f \<Longrightarrow> n_parent (h' ! a) = n_parent (h ! a) \<and> (\<exists>b \<in> live m - X. n_parent (h ! a) = Some b \<and> Some a \<in> set (n_children (h' ! b)))"
  shows "tree_ok m' h' f"
proof -
  have live': "live m' = live m - X"
    by (rule live_minus [OF ok X m'])
  have "\<exists>a < length h'. p = Some a \<and> n_root (h' ! a) = r" if "m' r = Some p" for r p
    using tree_okD(1) [OF ok, of r p] that root len by (auto simp: m' split: if_splits)
  moreover have "m' ZeroHash = None"
    using tree_okD(2) [OF ok] by (simp add: m')
  moreover have "\<exists>c. p = Some c \<and> a < c \<and> c \<in> live m - X \<and> n_parent (h' ! c) = Some a" if "a \<in> live m - X" "p \<in> set (n_children (h' ! a))" for a p
  proof -
    have p: "p \<in> set (n_children (h ! a))" "p \<notin> Some ` X" "p \<noteq> Some f" "a \<in> live m"
      using kids(2) [OF that] that(1) by auto
    obtain c where c: "p = Some c" "a < c" "c \<in> live m" "n_parent (h ! c) = Some a"
      using tree_okD(6) [OF ok p(4,1)] by blast
    then have "c \<in> live m - X" "c \<noteq> f"
      using p(2,3) by auto
    then show ?thesis
      using c par by auto
  qed
  moreover have "\<exists>b \<in> live m - X. n_parent (h' ! a) = Some b \<and> Some a \<in> set (n_children (h' ! b))" if "a \<in> live m - X" "a \<noteq> f" for a
    using par [OF that] by auto
  ultimately show ?thesis
    unfolding tree_ok_def live' using f kids(1) by blast
qed

section \<open>Preparing a prune\<close>

lemma fc_ok_tree:
  assumes "fc_ok s"
  shows "st_treeRootNode (fc_store s) = Some t \<Longrightarrow> tree_ok (st_nodeByRoot (fc_store s)) (fc_nodes s) t"
    and "st_treeRootNode (fc_store s) = None \<Longrightarrow> st_nodeByRoot (fc_store s) = Map.empty"
    and "heap_ok (fc_nodes s)" and "finite (dom (st_nodeByRoot (fc_store s)))"
  using assms by (simp_all add: fc_ok_def)

lemma fc_ok_cong: "fc_nodes s' = fc_nodes s \<Longrightarrow> fc_store s' = fc_store s \<Longrightarrow> fc_ok s' = fc_ok s"
  by (simp only: fc_ok_def)

lemma fc_ok_ticked: "fc_ok s \<Longrightarrow> ticked s s' \<Longrightarrow> fc_ok s'"
  using fc_ok_cong tickedD by blast

lemma fc_ok_known:
  assumes "fc_ok s" and "map_ptr (st_nodeByRoot (fc_store s)) r = Some a"
  obtains t where "st_treeRootNode (fc_store s) = Some t" "tree_ok (st_nodeByRoot (fc_store s)) (fc_nodes s) t"
    "a \<in> live (st_nodeByRoot (fc_store s))" "n_root (fc_nodes s ! a) = r" "a < length (fc_nodes s)"
proof (cases "st_treeRootNode (fc_store s)")
  case None
  then show ?thesis
    using fc_ok_tree(2) [OF assms(1)] assms(2) by (simp add: map_ptr_def)
next
  case (Some t)
  note ok = fc_ok_tree(1) [OF assms(1) Some]
  show ?thesis
    using that [OF Some ok] map_ptr_live(1) [OF ok assms(2)] liveD(1) [OF ok, of a] by blast
qed

lemma finalized_node_safe:
  assumes "fc_ok s"
  shows "runs (finalized_node cfg cp) s (\<lambda>n s'. s' = s \<and> (\<exists>t f. st_treeRootNode (fc_store s) = Some t \<and> n = Some f \<and> f \<in> live (st_nodeByRoot (fc_store s)))) (\<lambda>s'. s' = s)"
proof (cases "map_ptr (st_nodeByRoot (fc_store s)) (cp_Root cp)")
  case (Some a)
  then show ?thesis
    using fc_ok_known [OF assms Some] by (auto simp: finalized_node_def wp Let_def)
next
  case None
  show ?thesis
  proof (cases "st_treeRootNode (fc_store s)")
    case (Some t)
    have "t \<in> live (st_nodeByRoot (fc_store s))" "t < length (fc_nodes s)"
      using tree_okD(3) [OF fc_ok_tree(1) [OF assms Some]] liveD(1) [OF fc_ok_tree(1) [OF assms Some]] by auto
    then show ?thesis
      using None Some by (auto simp: finalized_node_def wp Let_def)
  qed (use None in \<open>auto simp: finalized_node_def wp Let_def\<close>)
qed

lemma prune_children_safe:
  assumes "heap_ok (fc_nodes s)" and "B = (\<lambda>c. n_slot fin \<noteq> mx \<and> n_slot (fc_nodes s ! c) \<le> mx)"
  shows "ticked s s1 \<Longrightarrow> (\<And>c. c \<in> set ks \<Longrightarrow> c < length (fc_nodes s)) \<Longrightarrow>
    runs (forS (map Some ks) (prune_child ctx fin mx) plan) s1 (\<lambda>p s2. ticked s s2 \<and>
      p = plan\<lparr>pp_removed := pp_removed plan @ map Some (concat (map (post (fc_nodes s)) (filter B ks))),
               pp_children := pp_children plan @ map Some (filter (\<lambda>c. \<not> B c) ks)\<rparr>) (ticked s)"
proof (induction ks arbitrary: plan s1)
  case (Cons c ks)
  let ?h = "fc_nodes s"
  define plan' where "plan' = (if B c then plan\<lparr>pp_removed := pp_removed plan @ map Some (post ?h c)\<rparr> else plan\<lparr>pp_children := pp_children plan @ [Some c]\<rparr>)"
  have "runs (prune_child ctx fin mx (Some c) plan) s1 (\<lambda>p s2. ticked s s2 \<and> p = plan') (ticked s)"
    unfolding prune_child_def
  proof (rule ticked_ctx [OF Cons.prems(1)])
    fix s2
    assume s2: "ticked s s2"
    have "runs (subtreeNodes ctx (Suc (length (fc_nodes s2))) (Some c) (pp_removed plan)) s2
        (\<lambda>r s'. ticked s2 s' \<and> r = pp_removed plan @ map Some (post (fc_nodes s2) c)) (ticked s2)"
      by (rule subtreeNodes_safe) (use assms(1) tickedD [OF s2] Cons.prems(2) [of c] in auto)
    then have sub: "runs (subtreeNodes ctx (Suc (length ?h)) (Some c) (pp_removed plan)) s2
        (\<lambda>r s'. ticked s s' \<and> r = pp_removed plan @ map Some (post ?h c)) (ticked s)"
      using tickedD [OF s2] by (auto elim!: runs_mono intro: ticked_trans [OF s2])
    show "runs (bindS (if n_slot fin \<noteq> mx \<and> Some c \<noteq> None then bindS (load (Some c)) (\<lambda>c. returnS (n_slot c \<le> mx)) else returnS False) (\<lambda>incompatible.
     if incompatible
     then bindS (wrapS ''could not prune incompatible finalized child'' (withFuel (\<lambda>k. subtreeNodes ctx k (Some c) (pp_removed plan)))) (\<lambda>removed.
            returnS (plan\<lparr>pp_removed := removed\<rparr>))
     else returnS (plan\<lparr>pp_children := pp_children plan @ [Some c]\<rparr>))) s2 (\<lambda>p s2. ticked s s2 \<and> p = plan') (ticked s)"
    proof (cases "B c")
      case True
      have "runs (subtreeNodes ctx (Suc (length ?h)) (Some c) (pp_removed plan)) s2 (\<lambda>x s'. ticked s s' \<and> plan\<lparr>pp_removed := x\<rparr> = plan') (ticked s)"
        by (rule runs_mono [OF sub]) (use True in \<open>auto simp: plan'_def\<close>)
      then show ?thesis
        using True Cons.prems(2) [of c] tickedD [OF s2] by (simp add: assms(2) wp)
    next
      case False
      then show ?thesis
        using Cons.prems(2) [of c] tickedD [OF s2] s2 by (auto simp: assms(2) wp plan'_def)
    qed
  qed
  then show ?case
    unfolding list.map forS.simps
  proof (rule runs_seq)
    fix p s2
    assume p: "ticked s s2 \<and> p = plan'"
    have "runs (forS (map Some ks) (prune_child ctx fin mx) plan') s2 (\<lambda>p s2. ticked s s2 \<and>
      p = plan'\<lparr>pp_removed := pp_removed plan' @ map Some (concat (map (post ?h) (filter B ks))),
               pp_children := pp_children plan' @ map Some (filter (\<lambda>c. \<not> B c) ks)\<rparr>) (ticked s)"
      by (rule Cons.IH) (use p Cons.prems(2) in auto)
    then show "runs (forS (map Some ks) (prune_child ctx fin mx) p) s2 (\<lambda>p s2. ticked s s2 \<and>
      p = plan\<lparr>pp_removed := pp_removed plan @ map Some (concat (map (post ?h) (filter B (c # ks)))),
               pp_children := pp_children plan @ map Some (filter (\<lambda>c. \<not> B c) (c # ks))\<rparr>) (ticked s)"
      unfolding conjunct2 [OF p] by (rule runs_mono) (auto simp: plan'_def)
  qed
qed (simp add: wp)

text \<open>A plan that keeps the finalized node and the subtrees of some of its children, and removes the rest of the tree.\<close>

definition kept_nodes :: "Node list \<Rightarrow> nat \<Rightarrow> nat list \<Rightarrow> nat set" where
  "kept_nodes h f ks = insert f (\<Union>c \<in> set ks. set (subtree h c))"

definition good_plan :: "(bytes \<rightharpoonup> ptr) \<Rightarrow> Node list \<Rightarrow> pruningPlan \<Rightarrow> bool" where
  "good_plan m h plan \<longleftrightarrow> (\<exists>f ks xs. pp_finalized plan = Some f \<and> f \<in> live m \<and> pp_children plan = map Some ks \<and> distinct ks \<and>
     set ks \<subseteq> set (kids h f) \<and> pp_removed plan = map Some xs \<and> set xs = live m - kept_nodes h f ks)"

lemma plan_nodes:
  assumes "tree_ok m h t" and "f \<in> live m"
  shows "(live m - set (subtree h f)) \<union> (\<Union>c \<in> set (filter B (kids h f)). set (subtree h c)) = live m - kept_nodes h f (filter (\<lambda>c. \<not> B c) (kids h f))"
proof -
  have sub: "set (subtree h c) \<subseteq> live m" "f \<notin> set (subtree h c)" if "c \<in> set (kids h f)" for c
    using kidsD(2) [OF assms that] subtree_live [OF assms(1), of c] by fastforce+
  have dis: "x \<notin> set (subtree h d)" if "x \<in> set (subtree h c)" "c \<in> set (kids h f)" "d \<in> set (kids h f)" "B c" "\<not> B d" for x c d
    using subtree_disjoint [OF assms that(2,3) _ that(1)] that(4,5) by blast
  show ?thesis
    unfolding set_subtree [of h f] kept_nodes_def using sub dis assms(2) by auto
qed

lemma EpochStart_no_panic: "EpochStart cfg e \<noteq> Inl (Panic x)"
  by (auto simp: EpochStart_def Slot_SafeMul_def Mul64_def Let_def split: prod.splits if_splits)

lemma plan_safe:
  assumes "fc_ok s" and "st_treeRootNode (fc_store s) = Some t" and "f \<in> live (st_nodeByRoot (fc_store s))" and "ticked s s1"
  shows "runs (bindS (load (Some f)) (\<lambda>fin.
     bindS (if n_parent fin \<noteq> None then withFuel (\<lambda>k. prunableNodes ctx k (Some t) (Some f) []) else returnS []) (\<lambda>removed.
     forS (n_children fin) (prune_child ctx fin mx) \<lparr>pp_finalized = Some f, pp_removed = removed, pp_children = []\<rparr>))) s1
      (\<lambda>plan s'. ticked s s' \<and> good_plan (st_nodeByRoot (fc_store s)) (fc_nodes s) plan) (ticked s)"
proof -
  let ?m = "st_nodeByRoot (fc_store s)" and ?h = "fc_nodes s"
  note ok = fc_ok_tree(1) [OF assms(1,2)] and heap = fc_ok_tree(3) [OF assms(1)]
  have f: "f < length ?h"
    by (rule liveD(1) [OF ok assms(3)])
  let ?fin = "?h ! f"
  let ?B = "\<lambda>c. n_slot ?fin \<noteq> mx \<and> n_slot (?h ! c) \<le> mx"
  have removed: "runs (if n_parent ?fin \<noteq> None then withFuel (\<lambda>k. prunableNodes ctx k (Some t) (Some f) []) else returnS []) s1
      (\<lambda>r s2. ticked s s2 \<and> (\<exists>xs. r = map Some xs \<and> set xs = live ?m - set (subtree ?h f))) (ticked s)"
  proof (cases "n_parent ?fin")
    case None
    then have "f = t"
      using tree_okD(7) [OF ok assms(3)] by auto
    then show ?thesis
      using None assms(4) subtree_root [OF ok] by (simp add: wp)
  next
    case (Some p)
    have t: "t \<in> live ?m" "f \<in> set (subtree ?h t)"
      using tree_okD(3) [OF ok] subtree_root [OF ok] assms(3) by auto
    have "t = f \<or> t \<notin> set (subtree ?h f)"
      using subtree_live(2) [OF ok assms(3), of t] subtree_live(2) [OF ok t] by auto
    then have xs: "set (outside ?h f t) = live ?m - set (subtree ?h f)"
      using set_outside [OF ok assms(3) t(1)] subtree_root [OF ok] by simp
    have "runs (prunableNodes ctx (Suc (length (fc_nodes s1))) (Some t) (Some f) []) s1
        (\<lambda>r s'. ticked s1 s' \<and> r = [] @ map Some (outside (fc_nodes s1) f t)) (ticked s1)"
      by (rule prunableNodes_safe) (use heap tickedD [OF assms(4)] liveD(1) [OF ok t(1)] in auto)
    then have "runs (prunableNodes ctx (Suc (length (fc_nodes s1))) (Some t) (Some f) []) s1
        (\<lambda>r s2. ticked s s2 \<and> (\<exists>xs. r = map Some xs \<and> set xs = live ?m - set (subtree ?h f))) (ticked s)"
      by (rule runs_mono) (use xs tickedD [OF assms(4)] ticked_trans [OF assms(4)] in auto)
    then show ?thesis
      using Some by (simp add: runs_withFuel)
  qed
  have "runs (bindS (if n_parent ?fin \<noteq> None then withFuel (\<lambda>k. prunableNodes ctx k (Some t) (Some f) []) else returnS []) (\<lambda>removed.
     forS (map Some (kids ?h f)) (prune_child ctx ?fin mx) \<lparr>pp_finalized = Some f, pp_removed = removed, pp_children = []\<rparr>)) s1
      (\<lambda>plan s'. ticked s s' \<and> good_plan ?m ?h plan) (ticked s)"
  proof (rule runs_seq [OF removed])
    fix r s2
    assume "ticked s s2 \<and> (\<exists>xs. r = map Some xs \<and> set xs = live ?m - set (subtree ?h f))"
    then obtain xs where s2: "ticked s s2" and xs: "r = map Some xs" "set xs = live ?m - set (subtree ?h f)"
      by blast
    have "runs (forS (map Some (kids ?h f)) (prune_child ctx ?fin mx) \<lparr>pp_finalized = Some f, pp_removed = r, pp_children = []\<rparr>) s2
      (\<lambda>p s2. ticked s s2 \<and> p = \<lparr>pp_finalized = Some f, pp_removed = r, pp_children = []\<rparr>\<lparr>
         pp_removed := r @ map Some (concat (map (post ?h) (filter ?B (kids ?h f)))), pp_children := [] @ map Some (filter (\<lambda>c. \<not> ?B c) (kids ?h f))\<rparr>) (ticked s)"
      using prune_children_safe [where fin = ?fin and mx = mx and ctx = ctx, OF heap refl s2, of "kids ?h f" "\<lparr>pp_finalized = Some f, pp_removed = r, pp_children = []\<rparr>"] kids_bounds [of _ ?h f]
      by simp
    moreover have "good_plan ?m ?h \<lparr>pp_finalized = Some f, pp_removed = map Some (xs @ concat (map (post ?h) (filter ?B (kids ?h f)))),
        pp_children = map Some (filter (\<lambda>c. \<not> ?B c) (kids ?h f))\<rparr>"
      unfolding good_plan_def
      by (intro exI [of _ f] exI [of _ "filter (\<lambda>c. \<not> ?B c) (kids ?h f)"] exI [of _ "xs @ concat (map (post ?h) (filter ?B (kids ?h f)))"])
        (use assms(3) kidsD(3) [OF ok assms(3)] plan_nodes [OF ok assms(3), of ?B] xs(2) set_post in auto)
    ultimately show "runs (forS (map Some (kids ?h f)) (prune_child ctx ?fin mx) \<lparr>pp_finalized = Some f, pp_removed = r, pp_children = []\<rparr>) s2
      (\<lambda>plan s'. ticked s s' \<and> good_plan ?m ?h plan) (ticked s)"
      by (elim runs_mono) (use xs(1) in auto)
  qed
  then show ?thesis
    using f heap_children [OF heap f] tickedD [OF assms(4)] by (simp only: runs_bind [of "load _"] runs_load) auto
qed

lemma preparePrune_safe:
  assumes "fc_ok s"
  shows "runs (preparePrune cfg ctx cp) s (\<lambda>plan s'. ticked s s' \<and> good_plan (st_nodeByRoot (fc_store s)) (fc_nodes s) plan) (ticked s)"
  unfolding preparePrune_def
proof (rule ticked_ctx [OF ticked_refl])
  fix s2
  assume s2: "ticked s s2"
  have ok2: "fc_ok s2"
    by (rule fc_ok_ticked [OF assms s2])
  have "runs (finalized_node cfg cp) s2 (\<lambda>n s3. s3 = s2 \<and> (\<exists>t f. st_treeRootNode (fc_store s) = Some t \<and> n = Some f \<and> f \<in> live (st_nodeByRoot (fc_store s)))) (ticked s)"
    by (rule runs_mono [OF finalized_node_safe [OF ok2]]) (use tickedD [OF s2] s2 in auto)
  then show "runs (bindS (finalized_node cfg cp) (\<lambda>finalizedNode.
     bindS (wrapS ''could not compute epoch start'' (liftS (EpochStart cfg (cp_Epoch cp)))) (\<lambda>checkpointMaxSlot.
     bindS getStore (\<lambda>st.
     bindS (load finalizedNode) (\<lambda>fin.
     bindS (if n_parent fin \<noteq> None then withFuel (\<lambda>k. prunableNodes ctx k (st_treeRootNode st) finalizedNode []) else returnS []) (\<lambda>removed.
     forS (n_children fin) (prune_child ctx fin checkpointMaxSlot)
       \<lparr>pp_finalized = finalizedNode, pp_removed = removed, pp_children = []\<rparr>)))))) s2
      (\<lambda>plan s'. ticked s s' \<and> good_plan (st_nodeByRoot (fc_store s)) (fc_nodes s) plan) (ticked s)"
  proof (rule runs_seq)
    fix n s3
    assume "s3 = s2 \<and> (\<exists>t f. st_treeRootNode (fc_store s) = Some t \<and> n = Some f \<and> f \<in> live (st_nodeByRoot (fc_store s)))"
    then obtain t f where 3: "s3 = s2" "st_treeRootNode (fc_store s) = Some t" "n = Some f" "f \<in> live (st_nodeByRoot (fc_store s))"
      by blast
    show "runs (bindS (wrapS ''could not compute epoch start'' (liftS (EpochStart cfg (cp_Epoch cp)))) (\<lambda>checkpointMaxSlot.
     bindS getStore (\<lambda>st.
     bindS (load n) (\<lambda>fin.
     bindS (if n_parent fin \<noteq> None then withFuel (\<lambda>k. prunableNodes ctx k (st_treeRootNode st) n []) else returnS []) (\<lambda>removed.
     forS (n_children fin) (prune_child ctx fin checkpointMaxSlot)
       \<lparr>pp_finalized = n, pp_removed = removed, pp_children = []\<rparr>))))) s3
      (\<lambda>plan s'. ticked s s' \<and> good_plan (st_nodeByRoot (fc_store s)) (fc_nodes s) plan) (ticked s)"
      unfolding 3(1,3) by (rule runs_lift_seq(2) [where E = "ticked s", OF EpochStart_no_panic _ s2]) (use plan_safe [OF assms 3(2,4) s2] tickedD [OF s2] 3(2) in \<open>simp only: runs_getStore\<close>)
  qed
qed

section \<open>Applying a prune\<close>

definition drop_kids :: "nat set \<Rightarrow> Node list \<Rightarrow> Node list" where
  "drop_kids X h = map (\<lambda>b. if b \<in> X then (h ! b)\<lparr>n_children := []\<rparr> else h ! b) [0..<length h]"

definition forget :: "bytes set \<Rightarrow> (bytes \<rightharpoonup> ptr) \<Rightarrow> bytes \<rightharpoonup> ptr" where
  "forget R m = (\<lambda>r. if r \<in> R then None else m r)"

lemma drop_kids_length [simp]: "length (drop_kids X h) = length h"
  by (simp add: drop_kids_def)

lemma drop_kids_nth: "b < length h \<Longrightarrow> drop_kids X h ! b = (if b \<in> X then (h ! b)\<lparr>n_children := []\<rparr> else h ! b)"
  by (simp add: drop_kids_def)

lemma drop_kids_insert:
  assumes "x < length h"
  shows "drop_kids X (h[x := (h ! x)\<lparr>n_children := []\<rparr>]) = drop_kids (insert x X) h"
proof (rule nth_equalityI)
  fix b
  assume "b < length (drop_kids X (h[x := (h ! x)\<lparr>n_children := []\<rparr>]))"
  then show "drop_kids X (h[x := (h ! x)\<lparr>n_children := []\<rparr>]) ! b = drop_kids (insert x X) h ! b"
    using assms by (cases "b = x") (simp_all add: drop_kids_nth)
qed simp

lemma prune_loop:
  "(\<And>x. x \<in> set xs \<Longrightarrow> x < length (fc_nodes s)) \<Longrightarrow>
   runs (forS (map Some xs) prune_step ()) s (\<lambda>_ s'. \<exists>pl. s' = s\<lparr>fc_nodes := drop_kids (set xs) (fc_nodes s),
      fc_store := (fc_store s)\<lparr>st_nodeByRoot := forget ((\<lambda>a. n_root (fc_nodes s ! a)) ` set xs) (st_nodeByRoot (fc_store s)), st_nodeByPayload := pl\<rparr>\<rparr>) E"
proof (induction xs arbitrary: s)
  case Nil
  have "drop_kids {} h = h" for h
    by (rule nth_equalityI) (simp_all add: drop_kids_nth)
  then show ?case
    by (auto simp: wp forget_def intro!: exI [of _ "st_nodeByPayload (fc_store s)"])
next
  case (Cons x xs)
  let ?h = "fc_nodes s" and ?st = "fc_store s"
  have x: "x < length ?h"
    using Cons.prems by simp
  define s1 where "s1 = s\<lparr>fc_nodes := ?h[x := (?h ! x)\<lparr>n_children := []\<rparr>], fc_store := ?st\<lparr>st_nodeByRoot := (st_nodeByRoot ?st)(n_root (?h ! x) := None),
      st_nodeByPayload := (st_nodeByPayload ?st)(n_payloadHash (?h ! x) := None)\<rparr>\<rparr>"
  have root: "n_root (fc_nodes s1 ! a) = n_root (?h ! a)" for a
    using x by (cases "a = x") (simp_all add: s1_def)
  have step: "runs (prune_step (Some x) ()) s (\<lambda>_ s'. s' = s1) E"
    using x by (simp add: prune_step_def wp s1_def)
  have "runs (forS (map Some xs) prune_step ()) s1 (\<lambda>_ s'. \<exists>pl. s' = s1\<lparr>fc_nodes := drop_kids (set xs) (fc_nodes s1),
      fc_store := (fc_store s1)\<lparr>st_nodeByRoot := forget ((\<lambda>a. n_root (fc_nodes s1 ! a)) ` set xs) (st_nodeByRoot (fc_store s1)), st_nodeByPayload := pl\<rparr>\<rparr>) E"
    by (rule Cons.IH) (use Cons.prems in \<open>simp add: s1_def\<close>)
  then have "runs (forS (map Some xs) prune_step ()) s1 (\<lambda>_ s'. \<exists>pl. s' = s\<lparr>fc_nodes := drop_kids (set (x # xs)) ?h,
      fc_store := ?st\<lparr>st_nodeByRoot := forget ((\<lambda>a. n_root (?h ! a)) ` set (x # xs)) (st_nodeByRoot ?st), st_nodeByPayload := pl\<rparr>\<rparr>) E"
  proof (rule runs_mono)
    have m: "forget ((\<lambda>a. n_root (?h ! a)) ` set xs) ((st_nodeByRoot ?st)(n_root (?h ! x) := None)) = forget ((\<lambda>a. n_root (?h ! a)) ` set (x # xs)) (st_nodeByRoot ?st)"
      by (auto simp: forget_def fun_eq_iff)
    have h: "drop_kids (set xs) (fc_nodes s1) = drop_kids (set (x # xs)) ?h"
      using drop_kids_insert [OF x] by (simp add: s1_def)
    show "\<exists>pl. s' = s\<lparr>fc_nodes := drop_kids (set (x # xs)) ?h,
      fc_store := ?st\<lparr>st_nodeByRoot := forget ((\<lambda>a. n_root (?h ! a)) ` set (x # xs)) (st_nodeByRoot ?st), st_nodeByPayload := pl\<rparr>\<rparr>"
      if "\<exists>pl. s' = s1\<lparr>fc_nodes := drop_kids (set xs) (fc_nodes s1),
      fc_store := (fc_store s1)\<lparr>st_nodeByRoot := forget ((\<lambda>a. n_root (fc_nodes s1 ! a)) ` set xs) (st_nodeByRoot (fc_store s1)), st_nodeByPayload := pl\<rparr>\<rparr>" for s'
      using that unfolding root h by (auto simp: s1_def m simp del: list.set image_insert)
  qed
  then show ?case
    unfolding list.map forS.simps by (intro runs_seq [OF step]) simp
qed

definition rooted :: "nat \<Rightarrow> nat list \<Rightarrow> Node list \<Rightarrow> Node list" where
  "rooted f ks h = h[f := (h ! f)\<lparr>n_parent := None, n_children := map Some ks\<rparr>]"

lemma rooted_nth: "rooted f ks h ! b = (if b = f \<and> f < length h then (h ! f)\<lparr>n_parent := None, n_children := map Some ks\<rparr> else h ! b)"
  by (cases "f < length h") (auto simp: rooted_def nth_list_update list_update_beyond not_less)

lemma rooted_length [simp]: "length (rooted f ks h) = length h"
  by (simp add: rooted_def)

lemma kept_nodesD:
  assumes "tree_ok m h t" and "f \<in> live m" and "set ks \<subseteq> set (kids h f)"
  shows "kept_nodes h f ks \<subseteq> live m" and "a \<in> kept_nodes h f ks \<Longrightarrow> a \<noteq> f \<Longrightarrow> c \<in> set (kids h a) \<Longrightarrow> c \<in> kept_nodes h f ks \<and> c \<noteq> f"
    and "a \<in> kept_nodes h f ks \<Longrightarrow> a \<noteq> f \<Longrightarrow> \<exists>p \<in> kept_nodes h f ks. n_parent (h ! a) = Some p \<and> (p = f \<longrightarrow> a \<in> set ks)"
proof -
  have sub: "c \<in> live m" "set (subtree h c) \<subseteq> live m" "f \<notin> set (subtree h c)" "n_parent (h ! c) = Some f" "f < c" if "c \<in> set ks" for c
    using kidsD(2) [OF assms(1,2), of c] subtree_live [OF assms(1), of c] assms(3) that by fastforce+
  show "kept_nodes h f ks \<subseteq> live m"
    using sub(2) assms(2) by (auto simp: kept_nodes_def)
  show "c \<in> kept_nodes h f ks \<and> c \<noteq> f" if a: "a \<in> kept_nodes h f ks" "a \<noteq> f" and c: "c \<in> set (kids h a)"
  proof -
    obtain d where d: "d \<in> set ks" "a \<in> set (subtree h d)"
      using a by (auto simp: kept_nodes_def)
    then have "c \<in> set (subtree h d)"
      using subtree_kid [OF d(2) c] by blast
    then show ?thesis
      using d sub(3) by (auto simp: kept_nodes_def)
  qed
  show "\<exists>p \<in> kept_nodes h f ks. n_parent (h ! a) = Some p \<and> (p = f \<longrightarrow> a \<in> set ks)" if a: "a \<in> kept_nodes h f ks" "a \<noteq> f"
  proof -
    obtain d where d: "d \<in> set ks" "a \<in> set (subtree h d)"
      using a by (auto simp: kept_nodes_def)
    show ?thesis
    proof (cases "a = d")
      case True
      then show ?thesis
        using sub(4) [OF d(1)] d(1) by (auto simp: kept_nodes_def)
    next
      case False
      obtain p where p: "p \<in> set (subtree h d)" "n_parent (h ! a) = Some p"
        using subtree_parent [OF assms(1) sub(1) [OF d(1)] d(2) False] by blast
      then have "p \<noteq> f" "p \<in> kept_nodes h f ks"
        using sub(3) [OF d(1)] d(1) by (auto simp: kept_nodes_def)
      then show ?thesis
        using p(2) by blast
    qed
  qed
qed

lemma tree_ok_pruned:
  assumes ok: "tree_ok m h t" and f: "f \<in> live m" and ks: "distinct ks" "set ks \<subseteq> set (kids h f)" and X: "X = live m - kept_nodes h f ks"
  shows "tree_ok (forget ((\<lambda>a. n_root (h ! a)) ` X) m) (rooted f ks (drop_kids X h)) f"
proof (rule tree_ok_minus [OF ok])
  note kept = kept_nodesD [OF ok f ks(2)]
  let ?h = "rooted f ks (drop_kids X h)"
  have keep: "live m - X = kept_nodes h f ks"
    using kept(1) X by blast
  have fl: "f < length h" and fX: "f \<notin> X"
    using liveD(1) [OF ok f] X by (auto simp: kept_nodes_def)
  have nth: "?h ! a = (if a = f then (h ! f)\<lparr>n_parent := None, n_children := map Some ks\<rparr> else h ! a)" if "a \<in> live m - X" for a
    using liveD(1) [OF ok, of a] that fl fX by (auto simp: rooted_nth drop_kids_nth)
  show "X \<subseteq> live m" "forget ((\<lambda>a. n_root (h ! a)) ` X) m = (\<lambda>r. if r \<in> (\<lambda>a. n_root (h ! a)) ` X then None else m r)"
    using X by (auto simp: forget_def)
  show "f \<in> live m - X"
    using f fX by simp
  then show "n_parent (?h ! f) = None"
    using nth by simp
  show "length ?h = length h"
    by simp
  show "n_root (?h ! b) = n_root (h ! b)" if "b < length h" for b
    using that fl by (simp add: rooted_nth drop_kids_nth)
  show "distinct (n_children (?h ! a))" if "a \<in> live m - X" for a
    using nth [OF that] ks(1) tree_okD(5) [OF ok, of a] that by (simp add: distinct_map)
  show "p \<in> set (n_children (h ! a)) \<and> p \<notin> Some ` X \<and> p \<noteq> Some f" if a: "a \<in> live m - X" and p: "p \<in> set (n_children (?h ! a))" for a p
  proof (cases "a = f")
    case True
    then obtain c where c: "p = Some c" "c \<in> set ks"
      using p nth [OF a] by auto
    then have "c \<in> set (kids h f)" "c \<in> kept_nodes h f ks"
      using ks(2) subtree_self [of c h] unfolding kept_nodes_def by blast+
    then show ?thesis
      using c True children_kids [OF ok f] kidsD(2) [OF ok f, of c] X by auto
  next
    case False
    then have "p \<in> set (n_children (h ! a))"
      using p nth [OF a] by simp
    moreover obtain c where c: "p = Some c" "c \<in> set (kids h a)"
      using calculation a children_kids [OF ok, of a] by auto
    ultimately show ?thesis
      using kept(2) [of a c] False a keep X by auto
  qed
  show "n_parent (?h ! a) = n_parent (h ! a) \<and> (\<exists>b \<in> live m - X. n_parent (h ! a) = Some b \<and> Some a \<in> set (n_children (?h ! b)))"
    if a: "a \<in> live m - X" "a \<noteq> f" for a
  proof -
    obtain p where p: "p \<in> live m - X" "n_parent (h ! a) = Some p" "p = f \<longrightarrow> a \<in> set ks"
      using kept(3) [of a] a keep by blast
    have "a \<noteq> t"
      using p(2) tree_okD(4) [OF ok] by auto
    then have "Some a \<in> set (n_children (h ! p))"
      using tree_okD(7) [OF ok, of a] a p(2) by auto
    then have "Some a \<in> set (n_children (?h ! p))"
      using nth [OF p(1)] p(3) by auto
    then show ?thesis
      using p nth [OF a(1)] a(2) by auto
  qed
qed

lemma heap_ok_pruned:
  assumes "heap_ok h" and "set ks \<subseteq> set (kids h f)"
  shows "heap_ok (rooted f ks (drop_kids X h))"
  unfolding heap_ok_def
proof (intro allI impI conjI ballI)
  fix a p c d
  let ?h = "rooted f ks (drop_kids X h)"
  assume "a < length ?h"
  then have a: "a < length h" and nth: "?h ! a = (if a = f then (drop_kids X h ! f)\<lparr>n_parent := None, n_children := map Some ks\<rparr> else drop_kids X h ! a)"
    by (simp_all add: rooted_nth)
  show "p < a" if "n_parent (?h ! a) = Some p"
    using that heap_okD(1) [OF assms(1) a, of p] a by (auto simp: nth drop_kids_nth split: if_splits)
  show "\<exists>d. c = Some d \<and> a < d \<and> d < length ?h" if "c \<in> set (n_children (?h ! a))"
    using that heap_okD(2) [OF assms(1) a, of c] kids_bounds [of _ h f] assms(2) a by (auto simp: nth drop_kids_nth split: if_splits)
  show "d < length ?h" if "n_bestDescendant (?h ! a) = Some d"
    using that heap_okD(3) [OF assms(1) a, of d] a by (auto simp: nth drop_kids_nth split: if_splits)
qed

text \<open>Blocks may have been forgotten; the votes and the balances of the others are the same.\<close>

definition kept :: "ForkChoice \<Rightarrow> ForkChoice \<Rightarrow> bool" where
  "kept s s' \<longleftrightarrow> fc_votes s' = fc_votes s \<and> fc_balances s' = fc_balances s \<and>
     st_slashedIndices (fc_store s') = st_slashedIndices (fc_store s) \<and> st_genesisTime (fc_store s') = st_genesisTime (fc_store s) \<and>
     st_previousProposerBoostRoot (fc_store s') = st_previousProposerBoostRoot (fc_store s) \<and>
     st_previousProposerBoostScore (fc_store s') = st_previousProposerBoostScore (fc_store s) \<and>
     (st_treeRootNode (fc_store s) \<noteq> None \<longrightarrow> st_treeRootNode (fc_store s') \<noteq> None) \<and>
     live (st_nodeByRoot (fc_store s')) \<subseteq> live (st_nodeByRoot (fc_store s)) \<and>
     (\<forall>a \<in> live (st_nodeByRoot (fc_store s')). n_root (fc_nodes s' ! a) = n_root (fc_nodes s ! a) \<and> n_balance (fc_nodes s' ! a) = n_balance (fc_nodes s ! a))"

lemma kept_trans: "kept s s1 \<Longrightarrow> kept s1 s2 \<Longrightarrow> kept s s2"
  unfolding kept_def by auto

lemma accounted_kept:
  assumes "accounted s" and "kept s s'"
  shows "accounted s'"
proof -
  have "is_slashed (fc_store s') = is_slashed (fc_store s)" "boost_at (fc_store s') = boost_at (fc_store s)"
    using assms(2) by (simp_all add: kept_def is_slashed_def boost_at_def fun_eq_iff)
  then have "vote_sum (fc_store s') = vote_sum (fc_store s)" "boost_at (fc_store s') = boost_at (fc_store s)"
    by (simp_all add: vote_sum_def contrib_def fun_eq_iff)
  then show ?thesis
    using assms unfolding accounted_def kept_def by (metis subsetD)
qed

lemma applyPrune_safe:
  assumes "fc_ok s" and "good_plan (st_nodeByRoot (fc_store s)) (fc_nodes s) plan"
  shows "runs (applyPrune plan) s (\<lambda>_ s'. fc_ok s' \<and> kept s s' \<and> st_treeRootNode (fc_store s') = pp_finalized plan) E"
proof -
  let ?m = "st_nodeByRoot (fc_store s)" and ?h = "fc_nodes s" and ?st = "fc_store s"
  obtain f ks xs where plan: "pp_finalized plan = Some f" "f \<in> live ?m" "pp_children plan = map Some ks" "distinct ks"
      "set ks \<subseteq> set (kids ?h f)" "pp_removed plan = map Some xs" and xs: "set xs = live ?m - kept_nodes ?h f ks"
    using assms(2) unfolding good_plan_def by blast
  obtain t where t: "st_treeRootNode ?st = Some t"
    using fc_ok_tree(2) [OF assms(1)] plan(2) by (cases "st_treeRootNode ?st") (auto simp: live_def)
  note ok = fc_ok_tree(1) [OF assms(1) t] and heap = fc_ok_tree(3) [OF assms(1)]
  let ?X = "set xs" and ?m' = "forget ((\<lambda>a. n_root (?h ! a)) ` set xs) ?m"
  let ?h' = "rooted f ks (drop_kids ?X ?h)"
  have f: "f < length ?h" "f \<notin> ?X"
    using liveD(1) [OF ok plan(2)] xs by (auto simp: kept_nodes_def)
  have live': "live ?m' = live ?m - ?X"
    by (rule live_minus [OF ok]) (use xs in \<open>auto simp: forget_def\<close>)
  have "dom ?m' \<subseteq> dom ?m"
    by (auto simp: forget_def split: if_splits)
  then have fin: "finite (dom ?m')"
    using fc_ok_tree(4) [OF assms(1)] finite_subset by blast
  have after: "fc_ok s' \<and> kept s s' \<and> st_treeRootNode (fc_store s') = Some f"
    if s': "s' = s\<lparr>fc_nodes := ?h', fc_store := ?st\<lparr>st_nodeByRoot := ?m', st_nodeByPayload := pl, st_treeRootNode := Some f, st_finalizedPayloadBlockHash := y\<rparr>\<rparr>" for s' pl y
  proof (intro conjI)
    show "fc_ok s'"
      using assms(1) tree_ok_pruned [OF ok plan(2,4,5) xs] heap_ok_pruned [OF heap plan(5), of ?X] fin t by (simp add: fc_ok_def s' in_heap_def)
    have "n_root (?h' ! a) = n_root (?h ! a) \<and> n_balance (?h' ! a) = n_balance (?h ! a)" if "a \<in> live ?m" for a
      using liveD(1) [OF ok that] f by (auto simp: rooted_nth drop_kids_nth)
    then show "kept s s'"
      unfolding kept_def s' using live' by auto
  qed (simp add: s')
  have "runs (forS (map Some xs) prune_step ()) s (\<lambda>_ s'. \<exists>pl. s' = s\<lparr>fc_nodes := drop_kids ?X ?h, fc_store := ?st\<lparr>st_nodeByRoot := ?m', st_nodeByPayload := pl\<rparr>\<rparr>) E"
    by (rule prune_loop) (use xs liveD(1) [OF ok] in blast)
  then show ?thesis
    unfolding applyPrune_def plan(1,3,6)
  proof (rule runs_seq)
    fix u s1
    assume "\<exists>pl. s1 = s\<lparr>fc_nodes := drop_kids ?X ?h, fc_store := ?st\<lparr>st_nodeByRoot := ?m', st_nodeByPayload := pl\<rparr>\<rparr>"
    then obtain pl where s1: "s1 = s\<lparr>fc_nodes := drop_kids ?X ?h, fc_store := ?st\<lparr>st_nodeByRoot := ?m', st_nodeByPayload := pl\<rparr>\<rparr>"
      by blast
    show "runs (bindS (update_node (Some f) (\<lambda>nd. nd\<lparr>n_parent := None, n_children := map Some ks\<rparr>)) (\<lambda>_.
        bindS (load (Some f)) (\<lambda>fin. modStore (\<lambda>st. st\<lparr>st_treeRootNode := Some f, st_finalizedPayloadBlockHash := n_payloadHash fin\<rparr>)))) s1
        (\<lambda>_ s'. fc_ok s' \<and> kept s s' \<and> st_treeRootNode (fc_store s') = Some f) E"
      using f(1) by (simp add: wp s1) (use after [where pl = pl and y = "n_payloadHash (?h ! f)", OF refl] in \<open>simp add: rooted_def drop_kids_nth comp_def f\<close>)
  qed
qed

end
