(* ===== verification/Fork_Choice_Head.thy ===== *)
theory Fork_Choice_Head
  imports Fork_Choice_Votes
begin

text \<open>
  The head of the fork choice. \<open>lmd_weight\<close> is the specified weight of a block, a sum of the latest votes over its
  subtree in unbounded integers; \<open>Head\<close> returns the block the GHOST rule over these weights selects.
\<close>

section \<open>Bounds on sums over distinct blocks\<close>

lemma sum_one_hit:
  assumes "finite B" and "inj_on f B"
  shows "(\<Sum>b \<in> B. if P \<and> c = f b then x else 0) \<le> (x :: nat)"
proof (cases "\<exists>b \<in> B. P \<and> c = f b")
  case True
  then obtain d where d: "d \<in> B" "c = f d"
    by blast
  have "(\<Sum>b \<in> B. if P \<and> c = f b then x else 0) \<le> (\<Sum>b \<in> B. if b = d then x else 0)"
    by (rule sum_mono) (use assms(2) d in \<open>auto simp: inj_on_def\<close>)
  also have "\<dots> = x"
    using d assms(1) by simp
  finally show ?thesis .
next
  case False
  then have "(\<Sum>b \<in> B. if P \<and> c = f b then x else 0) = 0"
    by (intro sum.neutral) auto
  then show ?thesis
    by linarith
qed

lemma vote_sum_total:
  assumes "finite B" and "inj_on f B"
  shows "(\<Sum>b \<in> B. vote_sum st sel votes bal (f b)) \<le> stake bal"
proof -
  have "(\<Sum>b \<in> B. vote_sum st sel votes bal (f b)) = (\<Sum>i < length votes. \<Sum>b \<in> B. contrib st sel votes bal (f b) i)"
    unfolding vote_sum_def by (rule sum.swap)
  also have "\<dots> \<le> (\<Sum>i < length votes. unat (balance_at bal i))"
    by (rule sum_mono) (use sum_one_hit [OF assms] in \<open>simp add: contrib_def\<close>)
  finally show ?thesis
    using sum_balance_at [of bal "length votes"] by linarith
qed

section \<open>The specified weight\<close>

text \<open>The latest votes for the block and its descendants, and the boost of the proposer.\<close>

definition block_votes :: "config \<Rightarrow> ForkChoice \<Rightarrow> bytes \<Rightarrow> nat" where
  "block_votes cfg s r = vote_sum (fc_store s) v_nextRoot (fc_votes s) (fc_justifiedBalances s) r +
     (if st_proposerBoostRoot (fc_store s) = r then unat (boost_score cfg (fc_store s)) else 0)"

definition lmd_weight :: "config \<Rightarrow> ForkChoice \<Rightarrow> nat \<Rightarrow> nat" where
  "lmd_weight cfg s a = sum_list (map (\<lambda>b. block_votes cfg s (n_root (fc_nodes s ! b))) (subtree (fc_nodes s) a))"

lemma lmd_weight_bound:
  assumes "tree_ok (st_nodeByRoot (fc_store s)) (fc_nodes s) t" and "a \<in> live (st_nodeByRoot (fc_store s))"
  shows "lmd_weight cfg s a \<le> stake (fc_justifiedBalances s) + unat (boost_score cfg (fc_store s))"
proof -
  let ?S = "set (subtree (fc_nodes s) a)" and ?r = "\<lambda>b. n_root (fc_nodes s ! b)"
  have inj: "inj_on ?r ?S"
    using live_root_inj [OF assms(1)] subtree_live(1) [OF assms] by (auto simp: inj_on_def)
  have "lmd_weight cfg s a = (\<Sum>b \<in> ?S. block_votes cfg s (?r b))"
    unfolding lmd_weight_def by (rule sum_list_distinct_conv_sum_set [OF subtree_distinct [OF assms]])
  also have "\<dots> = (\<Sum>b \<in> ?S. vote_sum (fc_store s) v_nextRoot (fc_votes s) (fc_justifiedBalances s) (?r b)) +
     (\<Sum>b \<in> ?S. if st_proposerBoostRoot (fc_store s) = ?r b then unat (boost_score cfg (fc_store s)) else 0)"
    unfolding block_votes_def by (rule sum.distrib)
  also have "\<dots> \<le> stake (fc_justifiedBalances s) + unat (boost_score cfg (fc_store s))"
    using vote_sum_total [OF _ inj] sum_one_hit [OF _ inj, of True] by (intro add_mono) simp_all
  finally show ?thesis .
qed

section \<open>The rule depends on the tree only\<close>

lemma viable_tree_cong:
  assumes "length h' = length h" and "\<And>b. b < length h \<Longrightarrow> n_children (h' ! b) = n_children (h ! b)"
    and "\<And>b. b < length h \<Longrightarrow> viableForHead cfg (h' ! b) je ce = viableForHead cfg (h ! b) je ce" and "a < length h"
  shows "viable_tree cfg je ce h' a = viable_tree cfg je ce h a"
  using assms(4)
proof (induction "length h - a" arbitrary: a rule: less_induct)
  case less
  have k: "kids h' a = kids h a"
    using kids_cong assms(1,2) less.prems by blast
  have "viable_tree cfg je ce h' c = viable_tree cfg je ce h c" if "c \<in> set (kids h a)" for c
    by (rule less.hyps) (use kids_bounds [OF that] in linarith)+
  then show ?case
    using assms(3) [OF less.prems]
    by (simp add: viable_tree.simps [of cfg je ce h' a] viable_tree.simps [of cfg je ce h a] k cong: list_ex_cong)
qed

lemma fold_heavier_cong:
  "(\<And>x. x \<in> set cs \<union> set_option best \<Longrightarrow> key x = key' x) \<Longrightarrow> fold (heavier key) cs best = fold (heavier key') cs best"
proof (induction cs arbitrary: best)
  case (Cons c cs)
  have "heavier key c best = heavier key' c best" "set_option (heavier key c best) \<subseteq> insert c (set_option best)"
    using Cons.prems by (auto simp: heavier_def split: option.splits)
  then show ?case
    using Cons.IH [of "heavier key' c best"] Cons.prems by fastforce
qed simp

lemma ghost_cong:
  assumes "length h' = length h" and "\<And>b. b < length h \<Longrightarrow> n_children (h' ! b) = n_children (h ! b)"
    and "\<And>b. b < length h \<Longrightarrow> viableForHead cfg (h' ! b) je ce = viableForHead cfg (h ! b) je ce"
    and "\<And>b. b < length h \<Longrightarrow> n_root (h' ! b) = n_root (h ! b)"
    and "tree_ok m h t" and "\<And>b. b \<in> live m \<Longrightarrow> w' b = w b" and "a \<in> live m"
  shows "ghost w' cfg je ce h' a = ghost w cfg je ce h a"
  using assms(7)
proof (induction "length h - a" arbitrary: a rule: less_induct)
  case less
  have a: "a < length h"
    by (rule liveD(1) [OF assms(5) less.prems])
  have "viable_tree cfg je ce h' c = viable_tree cfg je ce h c" if "c \<in> set (kids h a)" for c
    by (rule viable_tree_cong [OF assms(1-3)]) (use kids_bounds [OF that] in auto)
  then have v: "viable_kids cfg je ce h' a = viable_kids cfg je ce h a"
    using kids_cong [OF assms(1)] assms(2) [OF a] by (simp add: viable_kids_def cong: filter_cong)
  have kid: "c \<in> live m" "length h - c < length h - a" "c < length h" if "c \<in> set (viable_kids cfg je ce h a)" for c
    using kids_bounds [of c h a] kidsD(2) [OF assms(5) less.prems, of c] that by (auto simp: viable_kids_def)
  have hv: "heaviest (\<lambda>c. (w' c, n_root (h' ! c))) (viable_kids cfg je ce h a) = heaviest (\<lambda>c. (w c, n_root (h ! c))) (viable_kids cfg je ce h a)"
    unfolding heaviest_def by (rule fold_heavier_cong) (use kid assms(4,6) in auto)
  show ?case
  proof (cases "heaviest (\<lambda>c. (w c, n_root (h ! c))) (viable_kids cfg je ce h a)")
    case (Some c)
    then have "c \<in> set (viable_kids cfg je ce h a)"
      using heaviest_max by blast
    then show ?thesis
      using less.hyps [of c] kid Some hv v by (simp add: ghost.simps [of _ _ _ _ _ a])
  qed (use hv v in \<open>simp add: ghost.simps [of _ _ _ _ _ a]\<close>)
qed

section \<open>From votes to weights\<close>

text \<open>Two heaps with the same tree and the same blocks; balances, weights and best descendants may differ.\<close>

definition same_tree :: "Node list \<Rightarrow> Node list \<Rightarrow> bool" where
  "same_tree h h' \<longleftrightarrow> length h' = length h \<and> (\<forall>b < length h. n_root (h' ! b) = n_root (h ! b) \<and> n_parent (h' ! b) = n_parent (h ! b) \<and>
     n_children (h' ! b) = n_children (h ! b) \<and> n_slot (h' ! b) = n_slot (h ! b) \<and> n_justifiedEpoch (h' ! b) = n_justifiedEpoch (h ! b) \<and>
     n_unrealizedJustifiedEpoch (h' ! b) = n_unrealizedJustifiedEpoch (h ! b))"

lemma same_tree_trans: "same_tree h h1 \<Longrightarrow> same_tree h1 h2 \<Longrightarrow> same_tree h h2"
  by (simp add: same_tree_def)

lemma same_treeD:
  assumes "same_tree h h'"
  shows "length h' = length h" and "b < length h \<Longrightarrow> n_root (h' ! b) = n_root (h ! b)"
    and "b < length h \<Longrightarrow> n_children (h' ! b) = n_children (h ! b)"
    and "b < length h \<Longrightarrow> viableForHead cfg (h' ! b) je ce = viableForHead cfg (h ! b) je ce"
    and "tree_ok m h t \<Longrightarrow> tree_ok m h' t"
  using assms tree_ok_cong [of m h t h'] by (auto simp: same_tree_def viableForHead_def)

lemma same_tree_balance: "same_but_balance h h' \<Longrightarrow> same_tree h h'"
  using same_but_balance_fields [of h h'] by (simp add: same_tree_def same_but_balance_length)

lemma same_tree_changed:
  assumes "changed f h S h'" and "f = set_weight h0 \<or> f = set_best cfg je ce h0"
  shows "same_tree h h'"
  using assms by (auto simp: same_tree_def changed_def set_weight_def set_best_def)

lemma vote_sum_rotated:
  assumes "length vs = length votes" and "\<forall>j < length vs. vs ! j = rotated st j (votes ! j)"
  shows "vote_sum st v_currentRoot vs bal r = vote_sum st v_nextRoot votes bal r"
proof -
  have "contrib st v_currentRoot vs bal r i = contrib st v_nextRoot votes bal r i" if "i < length votes" for i
    using assms that by (auto simp: contrib_def rotated_def)
  then show ?thesis
    using assms(1) by (auto simp: vote_sum_def intro!: sum.cong)
qed

text \<open>What the first three steps of \<open>Head\<close> do to the state.\<close>

abbreviation weighed :: "config \<Rightarrow> ForkChoice \<Rightarrow> Vote list \<Rightarrow> Node list \<Rightarrow> nat \<Rightarrow> ForkChoice" where
  "weighed cfg s vs h tk \<equiv> s\<lparr>fc_store := boosted cfg (fc_store s), fc_nodes := h, fc_votes := vs, fc_balances := fc_justifiedBalances s, fc_tick := tk\<rparr>"

lemma weigh_run:
  assumes ok: "tree_ok (st_nodeByRoot (fc_store s)) (fc_nodes s) t" and acc: "accounted s" and "\<And>x. \<not> ctx x"
    and b1: "stake (fc_justifiedBalances s) + stake (fc_balances s) + unat (st_previousProposerBoostScore (fc_store s)) < 18446744073709551616"
    and b2: "stake (fc_justifiedBalances s) + unat (boost_score cfg (fc_store s)) < 18446744073709551616"
  obtains s1 vs h2 h3 tk where "updateBalances s = Some (Inr (), s1)"
    and "applyProposerBoostScore cfg s1 = Some (Inr (), weighed cfg s vs h2 (fc_tick s))"
    and "applyWeightChanges ctx (Suc (length h2)) (Some t) (weighed cfg s vs h2 (fc_tick s)) = Some (Inr (), weighed cfg s vs h3 tk)"
    and "same_tree (fc_nodes s) h3"
    and "\<And>a. a \<in> live (st_nodeByRoot (fc_store s)) \<Longrightarrow> unat (n_weight (h3 ! a)) = lmd_weight cfg s a"
    and "accounted (weighed cfg s vs h3 tk)"
proof -
  let ?st = "fc_store s" and ?m = "st_nodeByRoot (fc_store s)" and ?h = "fc_nodes s" and ?new = "fc_justifiedBalances s"
  obtain h1 vs where u: "updateBalances s = Some (Inr (), s\<lparr>fc_nodes := h1, fc_votes := vs, fc_balances := ?new\<rparr>)" "same_but_balance ?h h1"
      "length vs = length (fc_votes s)" "\<forall>j < length vs. vs ! j = rotated ?st j (fc_votes s ! j)"
      "\<forall>a \<in> live ?m. unat (n_balance (h1 ! a)) = vote_sum ?st v_nextRoot (fc_votes s) ?new (n_root (h1 ! a)) + boost_at ?st (n_root (h1 ! a))"
    using updateBalances_run [OF ok acc b1] by blast
  define s1 where "s1 = s\<lparr>fc_nodes := h1, fc_votes := vs, fc_balances := ?new\<rparr>"
  have ok1: "tree_ok ?m h1 t"
    by (rule tree_ok_balance [OF ok u(2)])
  define h2 where "h2 = bump ?m (\<lambda>b. b + boost_score cfg ?st) (st_proposerBoostRoot ?st)
      (bump ?m (\<lambda>b. if b < st_previousProposerBoostScore ?st then 0 else b - st_previousProposerBoostScore ?st) (st_previousProposerBoostRoot ?st) h1)"
  have p: "applyProposerBoostScore cfg s1 = Some (Inr (), weighed cfg s vs h2 (fc_tick s))"
    using applyProposerBoostScore_heap [of s1 t cfg] ok1 by (simp add: s1_def h2_def cong: if_cong)
  have sb: "same_but_balance h1 h2"
    unfolding h2_def by (intro same_but_balance_bump2) simp
  have ok2: "tree_ok ?m h2 t"
    by (rule tree_ok_balance [OF ok1 sb])
  have same2: "same_tree ?h h2"
    using same_tree_trans same_tree_balance u(2) sb by blast
  have root: "n_root (h2 ! a) = n_root (?h ! a)" "n_root (h1 ! a) = n_root (?h ! a)" if "a \<in> live ?m" for a
    using same_treeD(2) [OF same2] same_treeD(2) [OF same_tree_balance [OF u(2)]] liveD(1) [OF ok that] by simp_all
  have votes: "vote_sum ?st v_nextRoot (fc_votes s) ?new r \<le> stake ?new" for r
    unfolding vote_sum_def by (rule sum_contrib_le) simp
  have bal: "unat (n_balance (h2 ! a)) = block_votes cfg s (n_root (?h ! a))" if "a \<in> live ?m" for a
    using boost_balance [OF ok1 refl that refl, of "vote_sum ?st v_nextRoot (fc_votes s) ?new (n_root (h1 ! a))" cfg] u(5) that
      votes [of "n_root (h1 ! a)"] b2 root(2) [OF that]
    by (simp add: h2_def block_votes_def boost_at_def)
  have start: "changed (set_weight h2) h2 {} (fc_nodes (weighed cfg s vs h2 (fc_tick s)))" and le: "length h2 \<le> Suc (length h2) + t"
    by (simp_all add: changed_def)
  obtain h3 tk where w0: "applyWeightChanges ctx (Suc (length h2)) (Some t) (weighed cfg s vs h2 (fc_tick s)) =
        Some (Inr (), (weighed cfg s vs h2 (fc_tick s))\<lparr>fc_nodes := h3, fc_tick := tk\<rparr>)" "changed (set_weight h2) h2 ({} \<union> set (subtree h2 t)) h3"
    using applyWeightChanges_run [where ctx = ctx, OF ok2 assms(3) tree_okD(3) [OF ok2] le start] by blast
  then have w: "applyWeightChanges ctx (Suc (length h2)) (Some t) (weighed cfg s vs h2 (fc_tick s)) = Some (Inr (), weighed cfg s vs h3 tk)"
      "changed (set_weight h2) h2 (live ?m) h3"
    using subtree_root [OF ok2] by (simp_all del: applyWeightChanges.simps)
  have st: "subtree h2 a = subtree ?h a" if "a \<in> live ?m" for a
    by (rule subtree_cong [OF same_treeD(1,3) [OF same2] liveD(1) [OF ok that]])
  have "sum_list (map (\<lambda>b. unat (n_balance (h2 ! b))) (subtree h2 a)) = lmd_weight cfg s a" if "a \<in> live ?m" for a
    unfolding st [OF that] lmd_weight_def using bal subtree_live(1) [OF ok that] by (auto intro!: arg_cong [of _ _ sum_list])
  then have "unat (n_weight (h3 ! a)) = lmd_weight cfg s a" if "a \<in> live ?m" for a
    using weight_of_sum [of h2 a] lmd_weight_bound [OF ok that, of cfg] b2 changed_nth [OF w(2)] liveD(1) [OF ok2 that] that by simp
  moreover have "accounted (weighed cfg s vs h3 tk)"
    using bal changed_nth [OF w(2)] liveD(1) [OF ok2] root vote_sum_rotated [OF u(3,4)]
    by (simp add: accounted_def block_votes_def boost_at_def vote_sum_def contrib_def is_slashed_def)
  moreover have "same_tree ?h h3"
    using same_tree_trans [OF same2] same_tree_changed [OF w(2)] by blast
  ultimately show thesis
    using that u(1) p w(1) s1_def by blast
qed

section \<open>From weights to the head\<close>

lemma accounted_cong:
  assumes "accounted s" and "tree_ok (st_nodeByRoot (fc_store s)) (fc_nodes s) t" and "fc_store s' = fc_store s" and "fc_votes s' = fc_votes s"
    and "fc_balances s' = fc_balances s" and "changed (set_best cfg je ce h0) (fc_nodes s) S (fc_nodes s')"
  shows "accounted s'"
  using assms(1,3-5) changed_nth [OF assms(6)] liveD(1) [OF assms(2)] by (auto simp: accounted_def set_best_def)

lemma Head_after_slot:
  assumes new: "NewSlot cfg env ctx bal (CurrentSlot cfg now (st_genesisTime (fc_store s))) (s\<lparr>fc_tick := Suc (fc_tick s)\<rparr>) = Some (Inr (), s1)"
    and gen: "st_genesisTime (fc_store s1) = st_genesisTime (fc_store s)" and root: "st_treeRootNode (fc_store s1) = Some t"
    and ok: "tree_ok (st_nodeByRoot (fc_store s1)) (fc_nodes s1) t" and acc: "accounted s1"
    and live_ctx: "\<And>x. \<not> ctx x" and clock: "\<And>x. env_now env x = now"
    and b1: "stake (fc_justifiedBalances s1) + stake (fc_balances s1) + unat (st_previousProposerBoostScore (fc_store s1)) < 18446744073709551616"
    and b2: "stake (fc_justifiedBalances s1) + unat (boost_score cfg (fc_store s1)) < 18446744073709551616"
    and j: "justified_node cfg (fc_store s1) = Some j"
    and je: "je = cp_Epoch (st_justifiedCheckpoint (fc_store s1))" and ce: "ce = ToEpoch cfg (CurrentSlot cfg now (st_genesisTime (fc_store s)))"
  shows "\<exists>s'. Head cfg env ctx bal s = Some (Inr (n_root (fc_nodes s1 ! ghost (lmd_weight cfg s1) cfg je ce (fc_nodes s1) j)), s') \<and>
    same_tree (fc_nodes s1) (fc_nodes s') \<and>
    (\<exists>s4. accounted s4 \<and> store_head cfg env ctx s4 = Some (Inr (n_root (fc_nodes s1 ! ghost (lmd_weight cfg s1) cfg je ce (fc_nodes s1) j)), s'))"
proof -
  let ?m = "st_nodeByRoot (fc_store s1)" and ?h = "fc_nodes s1"
  obtain s2 vs h2 h3 tk where w: "updateBalances s1 = Some (Inr (), s2)"
      "applyProposerBoostScore cfg s2 = Some (Inr (), weighed cfg s1 vs h2 (fc_tick s1))"
      "applyWeightChanges ctx (Suc (length h2)) (Some t) (weighed cfg s1 vs h2 (fc_tick s1)) = Some (Inr (), weighed cfg s1 vs h3 tk)"
      and same: "same_tree ?h h3" and weight: "\<And>a. a \<in> live ?m \<Longrightarrow> unat (n_weight (h3 ! a)) = lmd_weight cfg s1 a"
      and acc3: "accounted (weighed cfg s1 vs h3 tk)"
    using weigh_run [where ctx = ctx and cfg = cfg, OF ok acc live_ctx b1 b2] by metis
  have ok3: "tree_ok ?m h3 t"
    by (rule same_treeD(5) [OF same ok])
  have start: "changed (set_best cfg je ce h3) h3 {} (fc_nodes (weighed cfg s1 vs h3 tk))" and le: "length h3 \<le> Suc (length h3) + t"
    by (simp_all add: changed_def)
  obtain h4 tk4 where u: "updateBestDescendant cfg ctx (Suc (length h3)) (Some t) je (cp_Epoch (st_finalizedCheckpoint (fc_store s1))) ce (weighed cfg s1 vs h3 tk) =
        Some (Inr (), (weighed cfg s1 vs h3 tk)\<lparr>fc_nodes := h4, fc_tick := tk4\<rparr>)" "changed (set_best cfg je ce h3) h3 ({} \<union> set (subtree h3 t)) h4"
    using updateBestDescendant_run [where ctx = ctx, OF ok3 live_ctx tree_okD(3) [OF ok3] le start] by blast
  define s4 where "s4 = (weighed cfg s1 vs h3 tk)\<lparr>fc_nodes := h4, fc_tick := tk4\<rparr>"
  have ch4: "changed (set_best cfg je ce h3) h3 (live ?m) (fc_nodes s4)"
    using u(2) subtree_root [OF ok3] by (simp add: s4_def)
  have store4: "st_nodeByRoot (fc_store s4) = ?m" "st_treeRootNode (fc_store s4) = Some t" "je = cp_Epoch (st_justifiedCheckpoint (fc_store s4))"
      "ce = ToEpoch cfg (CurrentSlot cfg now (st_genesisTime (fc_store s4)))" "justified_node cfg (fc_store s4) = Some j"
    using root j je ce gen by (simp_all add: s4_def justified_node_def Let_def cong: if_cong)
  obtain s' where hd: "store_head cfg env ctx s4 = Some (Inr (n_root (h3 ! ghost (\<lambda>c. unat (n_weight (h3 ! c))) cfg je ce h3 j)), s')" "fc_nodes s' = fc_nodes s4"
    using store_head_run [where ctx = ctx and env = env, OF ok3 live_ctx clock store4(1-4) ch4 store4(5)] by blast
  have jl: "j \<in> live ?m"
    using j map_ptr_live(1) [OF ok] tree_okD(3) [OF ok] root by (auto simp: justified_node_def Let_def split: if_splits)
  have g: "ghost (\<lambda>c. unat (n_weight (h3 ! c))) cfg je ce h3 j = ghost (lmd_weight cfg s1) cfg je ce ?h j"
    by (rule ghost_cong [OF same_treeD(1,3,4,2) [OF same] ok weight jl])
  have "ghost (lmd_weight cfg s1) cfg je ce ?h j < length ?h"
    by (rule liveD(1) [OF ok subtree_live(1) [OF ok jl ghost_in_subtree]])
  then have r: "n_root (h3 ! ghost (\<lambda>c. unat (n_weight (h3 ! c))) cfg je ce h3 j) = n_root (?h ! ghost (lmd_weight cfg s1) cfg je ce ?h j)"
    using same_treeD(2) [OF same] g by simp
  have "Head cfg env ctx bal s = Some (Inr (n_root (?h ! ghost (lmd_weight cfg s1) cfg je ce ?h j)), s')"
    using new w u(1) hd(1) r root clock unfolding Head_def
    by (simp add: bindS_def wrapS_def withFuel_def getS_def CurrentSlotS_def timeNow_def returnS_def s4_def je ce
        del: applyWeightChanges.simps updateBestDescendant.simps)
  moreover have "same_tree ?h (fc_nodes s')"
    using same_tree_trans [OF same] same_tree_changed [OF ch4] hd(2) by metis
  moreover have "accounted s4"
    by (rule accounted_cong [OF acc3, of t]) (use ok3 ch4 in \<open>simp_all add: s4_def\<close>)
  moreover have "store_head cfg env ctx s4 = Some (Inr (n_root (?h ! ghost (lmd_weight cfg s1) cfg je ce ?h j)), s')"
    using hd(1) r by simp
  ultimately show ?thesis
    by blast
qed

end
