(* ===== verification/Fork_Choice_Invariant.thy ===== *)
theory Fork_Choice_Invariant
  imports Fork_Choice_Prune Fork_Choice_Head
begin

text \<open>
  The operations of the interface keep the invariant. The order in which Go ranges over a map is any enumeration of its
  keys, and the handler of the balances may fail but does not panic. A new slot and an update of the checkpoints are
  atomic: when they fail, the tree, the checkpoints and the votes are as before.
\<close>

section \<open>Steps that keep the links\<close>

definition env_ok :: "'e env_scheme \<Rightarrow> bool" where
  "env_ok env \<longleftrightarrow> (\<forall>tk D. finite D \<longrightarrow> set (env_order env tk D) = D)"

definition bal_ok :: "balances_by_root \<Rightarrow> bool" where
  "bal_ok bal \<longleftrightarrow> (\<forall>cp e. bal cp \<noteq> Inl (Panic e))"

definition light :: "ForkChoice \<Rightarrow> ForkChoice \<Rightarrow> bool" where
  "light s s' \<longleftrightarrow> soft (fc_nodes s) (fc_nodes s') \<and> st_nodeByRoot (fc_store s') = st_nodeByRoot (fc_store s) \<and>
     st_treeRootNode (fc_store s') = st_treeRootNode (fc_store s) \<and> st_headNode (fc_store s') = st_headNode (fc_store s) \<and>
     st_highestReceivedNode (fc_store s') = st_highestReceivedNode (fc_store s) \<and>
     st_receivedBlocksLastEpoch (fc_store s') = st_receivedBlocksLastEpoch (fc_store s)"

lemma light_trans: "light s s1 \<Longrightarrow> light s1 s2 \<Longrightarrow> light s s2"
  unfolding light_def using soft_trans by metis

lemma fc_ok_light:
  assumes "fc_ok s" and "light s s'"
  shows "fc_ok s'"
proof -
  have "tree_ok m (fc_nodes s') t" if "tree_ok m (fc_nodes s) t" for m t
    by (rule tree_ok_cong [OF that]) (use assms(2) in \<open>auto simp: light_def soft_def\<close>)
  then show ?thesis
    using assms by (auto simp: fc_ok_def light_def soft_def in_heap_def split: option.splits)
qed

lemma good_plan_soft:
  assumes "good_plan m h plan" and "soft h h'" and "\<And>a. a \<in> live m \<Longrightarrow> a < length h"
  shows "good_plan m h' plan"
proof -
  have k: "kids h' a = kids h a" if "a < length h" for a
    by (rule kids_cong) (use that assms(2) in \<open>simp_all add: soft_def\<close>)
  have s: "subtree h' a = subtree h a" if "a < length h" for a
    by (rule subtree_cong) (use that assms(2) in \<open>auto simp: soft_def\<close>)
  obtain f ks xs where p: "pp_finalized plan = Some f" "f \<in> live m" "pp_children plan = map Some ks" "distinct ks"
      "set ks \<subseteq> set (kids h f)" "pp_removed plan = map Some xs" "set xs = live m - kept_nodes h f ks"
    using assms(1) unfolding good_plan_def by blast
  have "subtree h' c = subtree h c" if "c \<in> set ks" for c
    using s kids_bounds [of c h f] p(5) that by blast
  then have "kept_nodes h' f ks = kept_nodes h f ks"
    by (simp add: kept_nodes_def)
  then show ?thesis
    unfolding good_plan_def using p k [OF assms(3) [OF p(2)]] by metis
qed

text \<open>Light steps that keep the votes and the balances.\<close>

definition calm :: "ForkChoice \<Rightarrow> ForkChoice \<Rightarrow> bool" where
  "calm s s' \<longleftrightarrow> light s s' \<and> kept s s'"

lemma calm_trans: "calm s s1 \<Longrightarrow> calm s1 s2 \<Longrightarrow> calm s s2"
  unfolding calm_def using light_trans kept_trans by blast

lemma calm_store:
  assumes "heap_ok (fc_nodes s)" and "fc_nodes s' = fc_nodes s" and "fc_votes s' = fc_votes s" and "fc_balances s' = fc_balances s"
    and "st_nodeByRoot (fc_store s') = st_nodeByRoot (fc_store s)" "st_treeRootNode (fc_store s') = st_treeRootNode (fc_store s)"
      "st_headNode (fc_store s') = st_headNode (fc_store s)" "st_highestReceivedNode (fc_store s') = st_highestReceivedNode (fc_store s)"
      "st_receivedBlocksLastEpoch (fc_store s') = st_receivedBlocksLastEpoch (fc_store s)" "st_slashedIndices (fc_store s') = st_slashedIndices (fc_store s)"
      "st_genesisTime (fc_store s') = st_genesisTime (fc_store s)" "st_previousProposerBoostRoot (fc_store s') = st_previousProposerBoostRoot (fc_store s)"
      "st_previousProposerBoostScore (fc_store s') = st_previousProposerBoostScore (fc_store s)"
  shows "calm s s'"
  using assms soft_refl by (simp add: calm_def light_def kept_def)

lemma calm_ticked: "heap_ok (fc_nodes s) \<Longrightarrow> ticked s s' \<Longrightarrow> calm s s'"
  by (rule calm_store) (auto simp: ticked_def)

lemma calm_node:
  assumes "heap_ok (fc_nodes s)" and "a < length (fc_nodes s)" and "n_root nd = n_root (fc_nodes s ! a)" and "n_parent nd = n_parent (fc_nodes s ! a)"
    and "n_children nd = n_children (fc_nodes s ! a)" and "n_bestDescendant nd = n_bestDescendant (fc_nodes s ! a)" and "n_balance nd = n_balance (fc_nodes s ! a)"
  shows "calm s (s\<lparr>fc_nodes := (fc_nodes s)[a := nd]\<rparr>)"
proof -
  have "soft (fc_nodes s) ((fc_nodes s)[a := nd])"
    by (rule soft_update) (use assms heap_okD(3) [OF assms(1,2)] in auto)
  moreover have "n_root ((fc_nodes s)[a := nd] ! b) = n_root (fc_nodes s ! b) \<and> n_balance ((fc_nodes s)[a := nd] ! b) = n_balance (fc_nodes s ! b)" for b
    using assms(2,3,7) by (cases "b = a") simp_all
  ultimately show ?thesis
    by (simp add: calm_def light_def kept_def)
qed

lemma fc_ok_calm: "fc_ok s \<Longrightarrow> calm s s' \<Longrightarrow> fc_ok s'"
  using fc_ok_light by (auto simp: calm_def)

lemma fc_ok_calmD:
  assumes "fc_ok s" and "calm s s'"
  shows "heap_ok (fc_nodes s')" "st_nodeByRoot (fc_store s') = st_nodeByRoot (fc_store s)" "length (fc_nodes s') = length (fc_nodes s)"
  using assms by (auto simp: calm_def light_def soft_def)

lemma kept_slot: "kept s (s'\<lparr>fc_lastProcessedEpoch := p, fc_pendingEpoch := q\<rparr>) = kept s s'"
  by (simp add: kept_def)

lemma fc_ok_live: "fc_ok s \<Longrightarrow> a \<in> live (st_nodeByRoot (fc_store s)) \<Longrightarrow> a < length (fc_nodes s)"
  using liveD(1) [OF fc_ok_tree(1)] fc_ok_tree(2) [of s] by (cases "st_treeRootNode (fc_store s)") (auto simp: live_def)

section \<open>A new slot\<close>

lemma dom_known:
  assumes "fc_ok s" and "r \<in> dom (st_nodeByRoot (fc_store s))"
  obtains a where "map_ptr (st_nodeByRoot (fc_store s)) r = Some a" "a < length (fc_nodes s)"
proof -
  obtain p where p: "st_nodeByRoot (fc_store s) r = Some p"
    using assms(2) by blast
  then obtain t where "st_treeRootNode (fc_store s) = Some t"
    using fc_ok_tree(2) [OF assms(1)] by fastforce
  then obtain a where "a < length (fc_nodes s)" "p = Some a"
    using tree_okD(1) [OF fc_ok_tree(1) [OF assms(1)] p] by blast
  then show thesis
    using that p by (simp add: map_ptr_def)
qed

lemma expireProposerBoost_safe:
  assumes "fc_ok s"
  shows "runs (expireProposerBoost slot) s (\<lambda>_ s'. \<exists>b. s' = s\<lparr>fc_store := (fc_store s)\<lparr>st_proposerBoostRoot := b\<rparr>\<rparr>) E"
proof -
  have same: "s = s\<lparr>fc_store := (fc_store s)\<lparr>st_proposerBoostRoot := st_proposerBoostRoot (fc_store s)\<rparr>\<rparr>"
    by simp
  have set: "fc_store_update (\<lambda>st. st\<lparr>st_proposerBoostRoot := ZeroHash\<rparr>) s = s\<lparr>fc_store := (fc_store s)\<lparr>st_proposerBoostRoot := ZeroHash\<rparr>\<rparr>"
    by simp
  show ?thesis
  proof (cases "map_ptr (st_nodeByRoot (fc_store s)) (st_proposerBoostRoot (fc_store s))")
    case None
    then show ?thesis
      unfolding expireProposerBoost_def by (simp add: wp Let_def) (metis set)
  next
    case (Some a)
    then have "a < length (fc_nodes s)"
      using fc_ok_known [OF assms Some] by blast
    then show ?thesis
      unfolding expireProposerBoost_def using Some by (simp add: wp Let_def) (metis same set)
  qed
qed

text \<open>A loop over all known nodes.\<close>

lemma roots_loop:
  assumes "fc_ok s" and "env_ok env" and "I acc s1"
    and "\<And>r a acc s1. map_ptr (st_nodeByRoot (fc_store s)) r = Some a \<Longrightarrow> a < length (fc_nodes s) \<Longrightarrow> I acc s1 \<Longrightarrow> runs (f r acc) s1 I E"
  shows "runs (forS (env_order env tk (dom (st_nodeByRoot (fc_store s)))) f acc) s1 I E"
proof (rule runs_forS [where I = I, OF assms(3)])
  fix r acc s1
  assume r: "r \<in> set (env_order env tk (dom (st_nodeByRoot (fc_store s))))" and I: "I acc s1"
  then have "r \<in> dom (st_nodeByRoot (fc_store s))"
    using assms(2) fc_ok_tree(4) [OF assms(1)] by (simp add: env_ok_def)
  then obtain a where "map_ptr (st_nodeByRoot (fc_store s)) r = Some a" "a < length (fc_nodes s)"
    using dom_known [OF assms(1)] by blast
  then show "runs (f r acc) s1 I E"
    using assms(4) I by blast
qed

lemma unrealizedCheckpointsBefore_safe:
  assumes "fc_ok s" and "env_ok env"
  shows "runs (unrealizedCheckpointsBefore cfg env epoch) s (\<lambda>_. ticked s) (ticked s)"
  unfolding unrealizedCheckpointsBefore_def runs_getStore runs_bind [of "rangeMap _ _"] runs_rangeMap
  by (rule roots_loop [where I = "\<lambda>_. ticked s", OF assms ticked_tick [OF ticked_refl]]) (auto simp: wp tickedD split: prod.splits)

lemma UpdateJustifiedCheckpoint_safe:
  assumes "bal_ok bal" and "heap_ok (fc_nodes s)"
  shows "runs (UpdateJustifiedCheckpoint cfg bal (Some jc)) s (\<lambda>_ s'. calm s s' \<and> fc_nodes s' = fc_nodes s) (\<lambda>s'. s' = s)"
proof -
  have "bal jc \<noteq> Inl (Panic e)" for e
    using assms(1) by (simp add: bal_ok_def)
  then show ?thesis
    using assms(2) unfolding UpdateJustifiedCheckpoint_def updateJustifiedBalances_def
    by (auto simp: wp calm_store split: sum.splits fail.splits option.splits)
qed

lemma realize_loop:
  assumes "fc_ok s" and "env_ok env" and "calm s s1"
  shows "runs (forS (env_order env tk (dom (st_nodeByRoot (fc_store s)))) (realize_step cfg epoch) ()) s1 (\<lambda>_. calm s) E"
proof (rule roots_loop [where I = "\<lambda>_. calm s", OF assms])
  fix r a acc s1
  assume a: "map_ptr (st_nodeByRoot (fc_store s)) r = Some a" "a < length (fc_nodes s)" and s1: "calm s s1"
  note h = fc_ok_calmD [OF assms(1) s1]
  have "calm s1 (s1\<lparr>fc_nodes := (fc_nodes s1)[a := if ToEpoch cfg (n_slot (fc_nodes s1 ! a)) < epoch
      then (fc_nodes s1 ! a)\<lparr>n_justifiedEpoch := n_unrealizedJustifiedEpoch (fc_nodes s1 ! a), n_finalizedEpoch := n_unrealizedFinalizedEpoch (fc_nodes s1 ! a)\<rparr>
      else fc_nodes s1 ! a]\<rparr>)"
    by (rule calm_node) (use h a in auto)
  then have "calm s (s1\<lparr>fc_nodes := (fc_nodes s1)[a := if ToEpoch cfg (n_slot (fc_nodes s1 ! a)) < epoch
      then (fc_nodes s1 ! a)\<lparr>n_justifiedEpoch := n_unrealizedJustifiedEpoch (fc_nodes s1 ! a), n_finalizedEpoch := n_unrealizedFinalizedEpoch (fc_nodes s1 ! a)\<rparr>
      else fc_nodes s1 ! a]\<rparr>)"
    by (rule calm_trans [OF s1])
  then show "runs (realize_step cfg epoch r acc) s1 (\<lambda>_. calm s) E"
    unfolding realize_step_def runs_getStore runs_update_node using a h by auto
qed

lemma updateUnrealizedCheckpoints_safe:
  assumes "fc_ok s" and "env_ok env" and "bal_ok bal"
  shows "runs (updateUnrealizedCheckpoints cfg env bal epoch) s (\<lambda>_. calm s) (ticked s)"
  unfolding updateUnrealizedCheckpoints_def
proof (rule runs_seq [OF unrealizedCheckpointsBefore_safe [OF assms(1,2)]])
  fix x :: "Checkpoint \<times> Checkpoint" and s1
  assume s1: "ticked s s1"
  obtain jc fc where x: "x = (jc, fc)"
    by fastforce
  have ok1: "fc_ok s1" and st1: "fc_store s1 = fc_store s" "fc_nodes s1 = fc_nodes s"
    using fc_ok_ticked [OF assms(1) s1] tickedD [OF s1] by simp_all
  have c1: "calm s s1"
    by (rule calm_ticked [OF fc_ok_tree(3) [OF assms(1)] s1])
  have "runs (if cp_Epoch jc > cp_Epoch (st_justifiedCheckpoint (fc_store s1)) then UpdateJustifiedCheckpoint cfg bal (Some jc) else returnS ()) s1
      (\<lambda>_ s2. calm s s2 \<and> fc_nodes s2 = fc_nodes s) (ticked s)"
    using c1 st1 s1 UpdateJustifiedCheckpoint_safe [OF assms(3) fc_ok_tree(3) [OF ok1], of cfg jc] calm_trans [OF c1]
    by (auto simp: runs_return elim!: runs_mono)
  then have "runs (bindS (if cp_Epoch jc > cp_Epoch (st_justifiedCheckpoint (fc_store s1)) then UpdateJustifiedCheckpoint cfg bal (Some jc) else returnS ()) (\<lambda>_.
     bindS (modStore (\<lambda>st. st\<lparr>st_finalizedCheckpoint := fc\<rparr>)) (\<lambda>_.
     bindS (rangeMap env (st_nodeByRoot (fc_store s1))) (\<lambda>roots.
     forS roots (realize_step cfg epoch) ())))) s1 (\<lambda>_. calm s) (ticked s)"
  proof (rule runs_seq)
    fix u s2
    assume s2: "calm s s2 \<and> fc_nodes s2 = fc_nodes s"
    define s3 where "s3 = (fc_store_update (\<lambda>st. st\<lparr>st_finalizedCheckpoint := fc\<rparr>) s2)\<lparr>fc_tick := Suc (fc_tick s2)\<rparr>"
    have "calm s2 s3"
      by (rule calm_store) (use s2 fc_ok_tree(3) [OF assms(1)] in \<open>simp_all add: s3_def\<close>)
    then have "calm s s3"
      using s2 calm_trans by blast
    then have "runs (forS (env_order env (fc_tick s2) (dom (st_nodeByRoot (fc_store s)))) (realize_step cfg epoch) ()) s3 (\<lambda>_. calm s) (ticked s)"
      by (rule realize_loop [OF assms(1,2)])
    then show "runs (bindS (modStore (\<lambda>st. st\<lparr>st_finalizedCheckpoint := fc\<rparr>)) (\<lambda>_.
     bindS (rangeMap env (st_nodeByRoot (fc_store s1))) (\<lambda>roots.
     forS roots (realize_step cfg epoch) ()))) s2 (\<lambda>_. calm s) (ticked s)"
      using st1 by (simp add: runs_bind runs_mod runs_rangeMap s3_def)
  qed
  then show "runs (case x of (jc, fc) \<Rightarrow> bindS getStore (\<lambda>st.
     bindS (if cp_Epoch jc > cp_Epoch (st_justifiedCheckpoint st) then UpdateJustifiedCheckpoint cfg bal (Some jc) else returnS ()) (\<lambda>_.
     bindS (modStore (\<lambda>st. st\<lparr>st_finalizedCheckpoint := fc\<rparr>)) (\<lambda>_.
     bindS (rangeMap env (st_nodeByRoot st)) (\<lambda>roots.
     forS roots (realize_step cfg epoch) ()))))) s1 (\<lambda>_. calm s) (ticked s)"
    unfolding x prod.case runs_getStore .
qed

text \<open>A state after a failed new slot: only the boost, the pending epoch and the tick may differ.\<close>

definition slot_pending :: "ForkChoice \<Rightarrow> ForkChoice \<Rightarrow> bool" where
  "slot_pending s s' \<longleftrightarrow> (\<exists>b p tk. s' = s\<lparr>fc_store := (fc_store s)\<lparr>st_proposerBoostRoot := b\<rparr>, fc_pendingEpoch := p, fc_tick := tk\<rparr>)"

lemma slot_pending_calm:
  assumes "fc_ok s" and "slot_pending s s'"
  shows "calm s s'" "fc_ok s'"
proof -
  show "calm s s'"
    by (rule calm_store [OF fc_ok_tree(3) [OF assms(1)]]) (use assms(2) in \<open>auto simp: slot_pending_def\<close>)
  then show "fc_ok s'"
    by (rule fc_ok_calm [OF assms(1)])
qed

lemma slot_pending_ticked: "slot_pending s s1 \<Longrightarrow> ticked s1 s2 \<Longrightarrow> slot_pending s s2"
  unfolding slot_pending_def ticked_def by fastforce

lemma NewSlot_safe:
  assumes "fc_ok s" and "env_ok env" and "bal_ok bal"
  shows "runs (NewSlot cfg env ctx bal slot) s (\<lambda>_ s'. fc_ok s' \<and> kept s s') (slot_pending s)"
  unfolding NewSlot_def
proof (rule runs_seq [OF expireProposerBoost_safe [OF assms(1)]])
  fix u s1
  assume "\<exists>b. s1 = s\<lparr>fc_store := (fc_store s)\<lparr>st_proposerBoostRoot := b\<rparr>\<rparr>"
  then obtain b where eq1: "s1 = s\<lparr>fc_store := (fc_store s)\<lparr>st_proposerBoostRoot := b\<rparr>\<rparr>"
    by blast
  then have s1: "slot_pending s s1"
    unfolding slot_pending_def by (intro exI [of _ b] exI [of _ "fc_pendingEpoch s"] exI [of _ "fc_tick s"]) simp
  define e where "e = ToEpoch cfg slot"
  define p where "p = (case fc_pendingEpoch s1 of None \<Rightarrow> e | Some p \<Rightarrow> if e > p then e else p)"
  define s2 where "s2 = s1\<lparr>fc_pendingEpoch := Some p\<rparr>"
  have s2: "slot_pending s s2"
    unfolding slot_pending_def by (intro exI [of _ b] exI [of _ "Some p"] exI [of _ "fc_tick s"]) (simp add: s2_def eq1)
  note ok2 = slot_pending_calm [OF assms(1) s2]
  have rest: "runs (bindS (unrealizedCheckpointsBefore cfg env p) (\<lambda>(_, finalized).
      bindS (preparePrune cfg ctx finalized) (\<lambda>plan.
      bindS (wrapS ''could not update unrealized checkpoints'' (updateUnrealizedCheckpoints cfg env bal p)) (\<lambda>_.
      bindS (applyPrune plan) (\<lambda>_.
      modS (\<lambda>s. s\<lparr>fc_lastProcessedEpoch := p, fc_pendingEpoch := None\<rparr>)))))) s2 (\<lambda>_ s'. fc_ok s' \<and> kept s s') (slot_pending s)"
  proof (rule runs_seq [OF runs_mono [OF unrealizedCheckpointsBefore_safe [OF ok2(2) assms(2)]]])
    fix x :: "Checkpoint \<times> Checkpoint" and s3
    assume s3: "ticked s2 s3"
    obtain j f where x: "x = (j, f)"
      by fastforce
    have p3: "slot_pending s s3"
      by (rule slot_pending_ticked [OF s2 s3])
    note ok3 = slot_pending_calm [OF assms(1) p3]
    have "runs (bindS (preparePrune cfg ctx f) (\<lambda>plan.
      bindS (wrapS ''could not update unrealized checkpoints'' (updateUnrealizedCheckpoints cfg env bal p)) (\<lambda>_.
      bindS (applyPrune plan) (\<lambda>_.
      modS (\<lambda>s. s\<lparr>fc_lastProcessedEpoch := p, fc_pendingEpoch := None\<rparr>))))) s3 (\<lambda>_ s'. fc_ok s' \<and> kept s s') (slot_pending s)"
    proof (rule runs_seq [OF runs_mono [OF preparePrune_safe [OF ok3(2)]]])
      fix plan s4
      assume 4: "ticked s3 s4 \<and> good_plan (st_nodeByRoot (fc_store s3)) (fc_nodes s3) plan"
      have p4: "slot_pending s s4"
        using slot_pending_ticked [OF p3] 4 by blast
      note ok4 = slot_pending_calm [OF assms(1) p4]
      have gp4: "good_plan (st_nodeByRoot (fc_store s4)) (fc_nodes s4) plan"
        using 4 tickedD [of s3 s4] by simp
      show "runs (bindS (wrapS ''could not update unrealized checkpoints'' (updateUnrealizedCheckpoints cfg env bal p)) (\<lambda>_.
        bindS (applyPrune plan) (\<lambda>_. modS (\<lambda>s. s\<lparr>fc_lastProcessedEpoch := p, fc_pendingEpoch := None\<rparr>)))) s4 (\<lambda>_ s'. fc_ok s' \<and> kept s s') (slot_pending s)"
        unfolding runs_bind runs_wrap
      proof (rule runs_mono [OF updateUnrealizedCheckpoints_safe [OF ok4(2) assms(2,3)]])
        fix u s5
        assume c5: "calm s4 s5"
        have ok5: "fc_ok s5"
          by (rule fc_ok_calm [OF ok4(2) c5])
        have "a < length (fc_nodes s4)" if "a \<in> live (st_nodeByRoot (fc_store s4))" for a
          by (rule fc_ok_live [OF ok4(2) that])
        then have "good_plan (st_nodeByRoot (fc_store s5)) (fc_nodes s5) plan"
          using good_plan_soft [OF gp4, of "fc_nodes s5"] c5 by (simp add: calm_def light_def)
        then have "runs (applyPrune plan) s5 (\<lambda>_ s'. fc_ok s' \<and> kept s5 s' \<and> st_treeRootNode (fc_store s') = pp_finalized plan) (slot_pending s)"
          by (rule applyPrune_safe [OF ok5])
        moreover have "kept s s5"
          using ok4(1) c5 kept_trans by (auto simp: calm_def)
        ultimately show "runs (applyPrune plan) s5 (\<lambda>_ s'. runs (modS (\<lambda>s. s\<lparr>fc_lastProcessedEpoch := p, fc_pendingEpoch := None\<rparr>)) s'
            (\<lambda>_ s'. fc_ok s' \<and> kept s s') (slot_pending s)) (slot_pending s)"
          by (elim runs_mono) (auto simp: runs_mod fc_ok_cong [of "_\<lparr>fc_lastProcessedEpoch := p, fc_pendingEpoch := None\<rparr>"] kept_slot intro: kept_trans)
      qed (use slot_pending_ticked [OF p4] in blast)
    qed (use slot_pending_ticked [OF p3] in auto)
    then show "runs (case x of (_, finalized) \<Rightarrow> bindS (preparePrune cfg ctx finalized) (\<lambda>plan.
      bindS (wrapS ''could not update unrealized checkpoints'' (updateUnrealizedCheckpoints cfg env bal p)) (\<lambda>_.
      bindS (applyPrune plan) (\<lambda>_.
      modS (\<lambda>s. s\<lparr>fc_lastProcessedEpoch := p, fc_pendingEpoch := None\<rparr>))))) s3 (\<lambda>_ s'. fc_ok s' \<and> kept s s') (slot_pending s)"
      unfolding x prod.case .
  qed (use slot_pending_ticked [OF s2] in auto)
  have "fc_ok s1 \<and> kept s s1" "fc_ok s2 \<and> kept s s2"
    using slot_pending_calm [OF assms(1) s1] ok2 by (auto simp: calm_def)
  then show "runs (bindS getS (\<lambda>s. let epoch = ToEpoch cfg slot
     in if epoch \<le> fc_lastProcessedEpoch s then returnS ()
        else let pending = (case fc_pendingEpoch s of None \<Rightarrow> epoch | Some p \<Rightarrow> if epoch > p then epoch else p)
             in bindS (modS (\<lambda>s. s\<lparr>fc_pendingEpoch := Some pending\<rparr>)) (\<lambda>_.
                if epoch < pending then returnS ()
                else bindS (unrealizedCheckpointsBefore cfg env pending) (\<lambda>(_, finalized).
                  bindS (preparePrune cfg ctx finalized) (\<lambda>plan.
                  bindS (wrapS ''could not update unrealized checkpoints'' (updateUnrealizedCheckpoints cfg env bal pending)) (\<lambda>_.
                  bindS (applyPrune plan) (\<lambda>_.
                  modS (\<lambda>s. s\<lparr>fc_lastProcessedEpoch := pending, fc_pendingEpoch := None\<rparr>)))))))) s1
      (\<lambda>_ s'. fc_ok s' \<and> kept s s') (slot_pending s)"
    using rest unfolding runs_bind [of getS] runs_get Let_def e_def [symmetric] p_def [symmetric]
    by (simp add: runs_return runs_bind [of "modS _"] runs_mod s2_def [symmetric])
qed

section \<open>The head\<close>

lemma kept_refl [simp]: "kept s s"
  by (simp add: kept_def)

lemma store_head_kept: "store_head cfg env ctx s = Some (r, s') \<Longrightarrow> kept s s'"
  unfolding store_head_def head_start_def head_from_def leadsToViableTip_def EpochsSinceGenesisS_def
  by (auto simp: bindS_def returnS_def failS_def getS_def modS_def load_def ctxErr_def timeNow_def Let_def kept_def
      split: option.splits sum.splits if_splits prod.splits)

end
