(* ===== verification/Fork_Choice_Claims.thy ===== *)
theory Fork_Choice_Claims
  imports Fork_Choice_Invariant
begin

text \<open>
  What the fork choice guarantees: the head is the LMD GHOST rule over the latest votes, and a failed step leaves the
  store as it was.
\<close>

section \<open>An example store\<close>

text \<open>An example: a root block with two children, and three validators of which two vote for the second child.\<close>

definition ex_root :: "u8 \<Rightarrow> bytes" where
  "ex_root x = replicate 32 x"

definition ex_node :: "u8 \<Rightarrow> ptr \<Rightarrow> ptr list \<Rightarrow> Node" where
  "ex_node x parent children = (new_Node \<lparr>rb_Root = ex_root x, rb_Slot = 0, rb_ParentRoot = ZeroHash, rb_BlockHash = Inr ZeroHash\<rparr> ZeroHash parent 0 0 0)
     \<lparr>n_children := children\<rparr>"

definition ex_vote :: "u8 \<Rightarrow> Vote" where
  "ex_vote x = \<lparr>v_currentRoot = ZeroHash, v_nextRoot = ex_root x, v_nextEpoch = 1\<rparr>"

definition ex_store :: ForkChoice where
  "ex_store = New\<lparr>fc_store := (fc_store New)\<lparr>st_treeRootNode := Some 0, st_headNode := Some 0, st_highestReceivedNode := Some 0,
       st_nodeByRoot := [ex_root 1 \<mapsto> Some 0, ex_root 2 \<mapsto> Some 1, ex_root 3 \<mapsto> Some 2]\<rparr>,
     fc_votes := [ex_vote 2, ex_vote 3, ex_vote 3], fc_justifiedBalances := [32, 32, 32],
     fc_nodes := [ex_node 1 None [Some 1, Some 2], ex_node 2 (Some 0) [], ex_node 3 (Some 0) []]\<rparr>"

definition ex_env :: env where
  "ex_env = \<lparr>env_now = (\<lambda>_. 0), env_order = (\<lambda>_ D. sorted_list_of_set D)\<rparr>"

lemma ex_root_eq [simp]: "ex_root x = ex_root y \<longleftrightarrow> x = y" "ex_root x = ZeroHash \<longleftrightarrow> x = 0" "ZeroHash = ex_root x \<longleftrightarrow> x = 0"
  by (auto simp: ex_root_def ZeroHash_def)

lemma ex_live: "live (st_nodeByRoot (fc_store ex_store)) = {0, 1, 2}"
proof
  let ?m = "st_nodeByRoot (fc_store ex_store)"
  show "live ?m \<subseteq> {0, 1, 2}"
    by (auto simp: live_def ex_store_def split: if_splits)
  have "?m (ex_root 1) = Some (Some 0)" "?m (ex_root 2) = Some (Some 1)" "?m (ex_root 3) = Some (Some 2)"
    by (simp_all add: ex_store_def)
  then show "{0, 1, 2} \<subseteq> live ?m"
    unfolding live_def by blast
qed

lemma ex_env_ok: "env_ok ex_env"
  by (simp add: env_ok_def ex_env_def)

lemma ex_tree: "tree_ok (st_nodeByRoot (fc_store ex_store)) (fc_nodes ex_store) 0"
  unfolding tree_ok_def ex_live by (auto simp: ex_store_def ex_node_def new_Node_def split: if_splits)

lemma ex_heap: "heap_ok (fc_nodes ex_store)"
  by (auto simp: heap_ok_def ex_store_def ex_node_def new_Node_def less_Suc_eq numeral_2_eq_2)

lemma ex_ok: "fc_ok ex_store"
  using ex_tree ex_heap by (auto simp: fc_ok_def in_heap_def ex_store_def New_def Let_def)

lemma ex_accounted: "accounted ex_store"
  unfolding accounted_def ex_live
  by (auto simp: ex_store_def ex_node_def new_Node_def vote_sum_def contrib_def ex_vote_def boost_at_def New_def Let_def lessThan_Suc numeral_3_eq_3)

section \<open>A new slot\<close>

text \<open>C2: Processing a new slot is atomic. On a well-formed store, for every context, clock and order of ranging over maps,
  and a handler of balances that may fail, \<open>NewSlot\<close> returns and does not panic, and the store it leaves is well formed. When
  it succeeds, the votes, the balances of the nodes and the boost they account for are as before. When it fails at any of its
  steps (a cancelled context, an unknown finalized block, no balances), only the expired boost root and the epoch to be
  retried differ: blocks, checkpoints and votes are as before.\<close>

theorem NewSlot_atomic:
  assumes "fc_ok s" and "env_ok env" and "bal_ok bal"
  shows "\<exists>r s'. NewSlot cfg env ctx bal slot s = Some (r, s') \<and> fc_ok s' \<and> (case r of Inr _ \<Rightarrow> kept s s'
     | Inl (Err _) \<Rightarrow> \<exists>b p tk. s' = s\<lparr>fc_store := (fc_store s)\<lparr>st_proposerBoostRoot := b\<rparr>, fc_pendingEpoch := p, fc_tick := tk\<rparr>
     | Inl (Panic _) \<Rightarrow> False)"
  by (rule runsD [OF NewSlot_safe [OF assms, of cfg ctx slot]])
    (auto simp: slot_pending_calm [OF assms(1)] simp flip: slot_pending_def)

theorem NewSlot_atomic_witness:
  "\<exists>r s'. NewSlot mainnet ex_env (\<lambda>_. True) (\<lambda>_. Inl (Err ''no balances'')) 128 ex_store = Some (r, s') \<and> fc_ok s' \<and> (case r of Inr _ \<Rightarrow> kept ex_store s'
     | Inl (Err _) \<Rightarrow> \<exists>b p tk. s' = ex_store\<lparr>fc_store := (fc_store ex_store)\<lparr>st_proposerBoostRoot := b\<rparr>, fc_pendingEpoch := p, fc_tick := tk\<rparr>
     | Inl (Panic _) \<Rightarrow> False)"
  by (rule NewSlot_atomic [OF ex_ok ex_env_ok]) (simp add: bal_ok_def)

section \<open>The head is LMD GHOST\<close>

text \<open>C1: \<open>Head\<close> is LMD GHOST. On a well-formed store whose node balances account for the votes, with a context that is
  not cancelled and a clock that does not move during the call, let \<open>s1\<close> be the state after the new slot has been
  processed. Then \<open>Head\<close> returns the root of the block that the GHOST rule selects from the justified block: at each
  block it moves to the child with the greatest weight among those that lead to a viable leaf, ties broken by the greater
  root. The weight of a block is the sum, in unbounded integers, of the new justified balances of the unslashed
  validators whose latest vote is for the block or a descendant, and of the proposer boost there. The store still
  accounts for the votes afterwards.\<close>

theorem Head_is_ghost:
  assumes "fc_ok s" and "accounted s" and "env_ok env" and "bal_ok bal" and "\<And>x. \<not> ctx x" and "\<And>x. env_now env x = now"
    and "slot = CurrentSlot cfg now (st_genesisTime (fc_store s))"
    and "NewSlot cfg env ctx bal slot (s\<lparr>fc_tick := Suc (fc_tick s)\<rparr>) = Some (Inr (), s1)"
    and "stake (fc_justifiedBalances s1) + stake (fc_balances s1) + unat (st_previousProposerBoostScore (fc_store s1)) < 2 ^ 64"
    and "stake (fc_justifiedBalances s1) + unat (boost_score cfg (fc_store s1)) < 2 ^ 64"
    and "justified_node cfg (fc_store s1) = Some j"
  shows "\<exists>s'. Head cfg env ctx bal s = Some (Inr (n_root (fc_nodes s1 !
      ghost (lmd_weight cfg s1) cfg (cp_Epoch (st_justifiedCheckpoint (fc_store s1))) (ToEpoch cfg slot) (fc_nodes s1) j)), s') \<and> accounted s'"
proof -
  let ?t = "s\<lparr>fc_tick := Suc (fc_tick s)\<rparr>"
  have t: "fc_ok ?t" "accounted ?t"
    using assms(1,2) fc_ok_cong [of ?t s] by (simp_all add: accounted_def)
  have s1: "fc_ok s1" "kept ?t s1"
    using runs_result(1) [OF NewSlot_safe [OF t(1) assms(3,4)] assms(8)] by auto
  have acc: "accounted s1" and gen: "st_genesisTime (fc_store s1) = st_genesisTime (fc_store s)"
    using accounted_kept [OF t(2) s1(2)] s1(2) by (simp_all add: kept_def)
  obtain root where root: "st_treeRootNode (fc_store s1) = Some root"
    using assms(11) fc_ok_tree(2) [OF s1(1)] by (cases "st_treeRootNode (fc_store s1)") (auto simp: justified_node_def map_ptr_def Let_def split: if_splits)
  have "\<exists>s'. Head cfg env ctx bal s = Some (Inr (n_root (fc_nodes s1 !
      ghost (lmd_weight cfg s1) cfg (cp_Epoch (st_justifiedCheckpoint (fc_store s1))) (ToEpoch cfg slot) (fc_nodes s1) j)), s') \<and>
      same_tree (fc_nodes s1) (fc_nodes s') \<and> (\<exists>s4. accounted s4 \<and> store_head cfg env ctx s4 = Some (Inr (n_root (fc_nodes s1 !
      ghost (lmd_weight cfg s1) cfg (cp_Epoch (st_justifiedCheckpoint (fc_store s1))) (ToEpoch cfg slot) (fc_nodes s1) j)), s'))"
    by (rule Head_after_slot [OF _ gen root fc_ok_tree(1) [OF s1(1) root] acc])
      (use assms in simp_all)
  then show ?thesis
    using accounted_kept store_head_kept by blast
qed

lemma ex_new_slot:
  "NewSlot mainnet ex_env (\<lambda>_. False) bal 0 (ex_store\<lparr>fc_tick := Suc (fc_tick ex_store)\<rparr>) = Some (Inr (), ex_store\<lparr>fc_tick := Suc (fc_tick ex_store)\<rparr>)"
  by (simp add: NewSlot_def expireProposerBoost_def bindS_def getS_def modS_def returnS_def map_ptr_def Let_def ex_store_def New_def ToEpoch_def)

lemma ex_kids: "kids (fc_nodes ex_store) 0 = [1, 2]" "kids (fc_nodes ex_store) 1 = []" "kids (fc_nodes ex_store) 2 = []"
  by (simp_all add: kids_def ex_store_def ex_node_def new_Node_def)

lemma ex_fields: "fc_votes ex_store = [ex_vote 2, ex_vote 3, ex_vote 3]" "fc_justifiedBalances ex_store = [32, 32, 32]" "fc_balances ex_store = []"
  "n_root (fc_nodes ex_store ! 1) = ex_root 2" "n_root (fc_nodes ex_store ! 2) = ex_root 3" "st_slashedIndices (fc_store ex_store) = Map.empty"
  "st_proposerBoostRoot (fc_store ex_store) = ZeroHash" "st_previousProposerBoostScore (fc_store ex_store) = 0"
  "st_treeRootNode (fc_store ex_store) = Some 0" "st_justifiedCheckpoint (fc_store ex_store) = \<lparr>cp_Epoch = 0, cp_Root = ZeroHash\<rparr>"
  "st_nodeByRoot (fc_store ex_store) ZeroHash = None" "st_genesisTime (fc_store ex_store) = 0"
  by (simp_all add: ex_store_def ex_node_def new_Node_def New_def Let_def)

lemma ex_boost: "boost_score mainnet (fc_store ex_store) = 0"
  by (simp add: boost_score_def map_ptr_def ex_fields)

lemma ex_votes: "block_votes mainnet (ex_store\<lparr>fc_tick := tk\<rparr>) (ex_root 2) = 32" "block_votes mainnet (ex_store\<lparr>fc_tick := tk\<rparr>) (ex_root 3) = 64"
  by (simp_all add: block_votes_def vote_sum_def contrib_def is_slashed_def balance_at_def ex_fields ex_vote_def lessThan_Suc)

lemma ex_weights: "lmd_weight mainnet (ex_store\<lparr>fc_tick := tk\<rparr>) 1 = 32" "lmd_weight mainnet (ex_store\<lparr>fc_tick := tk\<rparr>) 2 = 64"
proof -
  have "subtree (fc_nodes ex_store) 1 = [1]" "subtree (fc_nodes ex_store) 2 = [2]"
    by (subst subtree.simps; simp only: ex_kids list.map concat.simps)+
  then show "lmd_weight mainnet (ex_store\<lparr>fc_tick := tk\<rparr>) 1 = 32" "lmd_weight mainnet (ex_store\<lparr>fc_tick := tk\<rparr>) 2 = 64"
    using ex_votes [of tk] ex_fields(4,5) by (simp_all add: lmd_weight_def)
qed

lemma ex_ghost: "ghost (lmd_weight mainnet (ex_store\<lparr>fc_tick := tk\<rparr>)) mainnet 0 0 (fc_nodes ex_store) 0 = 2"
proof -
  have "viable_kids mainnet 0 0 (fc_nodes ex_store) 0 = [1, 2]" "viable_kids mainnet 0 0 (fc_nodes ex_store) 2 = []"
    by (simp_all add: viable_kids_def ex_kids viable_tree.simps [of _ _ _ _ 1] viable_tree.simps [of _ _ _ _ 2] viableForHead_def del: One_nat_def)
  then show ?thesis
    by (simp add: ghost.simps [of _ _ _ _ _ 0] ghost.simps [of _ _ _ _ _ 2] heaviest_def heavier_def ex_weights del: One_nat_def)
qed

theorem Head_is_ghost_witness:
  "\<exists>s'. Head mainnet ex_env (\<lambda>_. False) (\<lambda>_. Inr None) ex_store = Some (Inr (ex_root 3), s') \<and> accounted s'"
proof -
  let ?s1 = "ex_store\<lparr>fc_tick := Suc (fc_tick ex_store)\<rparr>"
  have "\<exists>s'. Head mainnet ex_env (\<lambda>_. False) (\<lambda>_. Inr None) ex_store = Some (Inr (n_root (fc_nodes ?s1 !
      ghost (lmd_weight mainnet ?s1) mainnet (cp_Epoch (st_justifiedCheckpoint (fc_store ?s1))) (ToEpoch mainnet 0) (fc_nodes ?s1) 0)), s') \<and> accounted s'"
    by (rule Head_is_ghost [where bal = "\<lambda>_. Inr None" and now = 0, OF ex_ok ex_accounted ex_env_ok _ _ _ _ ex_new_slot])
      (simp_all add: bal_ok_def ex_env_def CurrentSlot_def ex_fields ex_boost stake_def justified_node_def map_ptr_def mainnetBeaconConfig_def Let_def)
  then show ?thesis
    by (simp add: ex_fields ToEpoch_def ex_ghost)
qed

end
