(* ===== verification/Spec2Isabelle.thy ===== *)
theory Spec2Isabelle
  imports Committees Validator_Lifecycle Merkle_Proof Sparse_Trie State_Roots Epoch_Transition Slasher_Wrap Fork_Choice_Claims
begin

text \<open>
  A verification development for qrysm, the proof-of-stake consensus client of the QRL network (Go sources under
  \<open>src/\<close>). It models the deterministic core of the beacon node: the arithmetic and encodings every part relies on, the
  beacon state and the end-of-epoch transition, committee selection with its caches, Merkle trees and state roots, the
  attester slasher, and the fork choice.

  \<^bold>\<open>How the code is modelled.\<close> A \<open>uint64\<close> is a 64-bit word, so that every addition and product wraps where Go's does, and
  a byte slice is a list of 8-bit words. A function that may fail returns \<open>fail + 'a\<close>: \<open>Err\<close> is a returned error, \<open>Panic\<close>
  a panic (an index out of range, a nil pointer, a checked operation that overflows). Structs are records, maps are
  partial functions, package variables and caches are passed as state. A loop over a slice is a fold that stops at the
  first failure (\<open>foldR\<close>); a loop with another measure is a \<open>function\<close> with its termination proof; a loop that may run
  forever is a \<open>partial_function (option)\<close>, and the theorems about it show that it returns (or that it does not). Code
  that is not under \<open>src/\<close> is an argument: SHA-256 (\<open>hash\<close>), the vectorised hashing library (\<open>vec\<close>), the LRU and FIFO
  stores of the caches, the 4-bit vector of the bitfield library (\<open>bv4\<close>), the slasher database and the handler that reads
  the balances of a checkpoint. What is assumed of them is written as hypotheses, which the witnesses discharge for
  concrete functions.

  \<^bold>\<open>Foundations.\<close>
  \<^item> \<open>Qrysm_Prelude\<close>: words, failures, folds and slices.
  \<^item> \<open>Math_Helper\<close> (\<open>math/math_helper.go\<close>): checked arithmetic and the cached Newton square root.
  \<^item> \<open>Primitives_Types\<close> (\<open>consensus-types/primitives\<close>): slots, epochs and validator indices with their panics.
  \<^item> \<open>Beacon_Config\<close>, \<open>Valid_Config\<close> (\<open>config/params\<close>, \<open>config/fieldparams\<close>): the configuration, \<open>Validate\<close>, and the
    type \<open>config\<close> of the configurations it accepts, which every later theory takes.
  \<^item> \<open>Slot_Time\<close> (\<open>time/slots\<close>) and \<open>Bytes_Util\<close> (\<open>encoding/bytesutil\<close>): conversions and their round trips.
  \<^item> \<open>Slice_Utils\<close> (\<open>container/slice\<close>): set operations on slices.

  \<^bold>\<open>State and epoch transition.\<close>
  \<^item> \<open>Beacon_State\<close> (\<open>beacon-chain/state/state-native\<close>): the state with its getters and setters. The locale
    \<open>indexed_field\<close> has the laws of a field read and written by index and is interpreted for the six fields.
  \<^item> \<open>Shuffle\<close> (\<open>core/helpers/shuffle.go\<close>): swap-or-not. The locale \<open>involutive_rounds\<close> gives permutation and round
    trip; the in-place, buffered shuffle of a list is shown equal to the single-index function (C3 to C5).
  \<^item> \<open>Core_Helpers\<close>, \<open>Committees\<close> (\<open>core/helpers\<close>, \<open>cache/committee.go\<close>): active sets, seeds, proposer sampling,
    committees and their cache: partition, size bound, transparency of the caches, return of the sampling loop (C6 to C11).
  \<^item> \<open>Validator_Lifecycle\<close> (\<open>core/validators\<close>, \<open>core/epoch\<close>): exits, slashings, registry updates (C12 to C14).
  \<^item> \<open>Epoch_Processing\<close>, \<open>Justification\<close>, \<open>Altair_Epoch\<close>, \<open>Sync_Committee\<close> and \<open>Epoch_Transition\<close> (\<open>core/epoch\<close>,
    \<open>core/epoch/precompute\<close>, \<open>core/altair\<close>): every step of \<open>ProcessEpoch\<close> and their composition. \<open>state_ok\<close> is the
    well-formedness of a state; from such a state no step panics (C15). Justification refines the specification's
    formulas in unbounded integers and finality is monotone and live (C16 to C18); slashing penalties, effective
    balances, total balance, sync committees (C19 to C23).

  \<^bold>\<open>Merkle trees.\<close>
  \<^item> \<open>Merkle_Tree\<close>: the reference tree \<open>mroot\<close> over a list of leaves padded with zero subtrees, in the locale \<open>merkle\<close>.
  \<^item> \<open>Ssz_Merkle\<close>, \<open>Merkle_Proof\<close> (\<open>encoding/ssz\<close>, \<open>crypto/hash/htr\<close>), \<open>Sparse_Trie\<close> (\<open>container/trie\<close>),
    \<open>Trie_Layers\<close>, \<open>State_Roots\<close> (\<open>state/stateutil\<close>): each algorithm computes the reference root or level, proofs
    verify, incremental recomputation equals recomputation from scratch, parallel hashing equals sequential hashing.

  \<^bold>\<open>Slasher.\<close>
  \<^item> \<open>Attestation_Data\<close>, \<open>Slasher_Spans\<close>, \<open>Slasher_Detect\<close> (\<open>beacon-chain/slasher\<close>): attestations, the min and max span
    chunks and the detection loop over the database interface.
  \<^item> \<open>Slasher_Surround\<close>: the spans are minima and maxima over the recorded votes, and the detector reports a slashing
    exactly when a surround vote exists, while the current epoch is below the history length.
  \<^item> \<open>Slasher_Wrap\<close>: beyond it the next chunk is computed from a wrapped index; a surround vote is then missed, and an
    update of the max spans may never return.

  \<^bold>\<open>Fork choice\<close> (\<open>beacon-chain/forkchoice/doubly-linked-tree\<close>).
  \<^item> \<open>Fork_Choice\<close>, \<open>Fork_Choice_Api\<close>: nodes live in a list that only grows, a pointer is \<open>None\<close> or a position in it, and
    every operation is a program of type \<open>'a prog\<close>, a function from the state to \<open>None\<close> (out of fuel) or a result and a new
    state. Time, cancellation of the context and the order in which Go ranges over a map are read at successive ticks
    from arguments, so that a theorem that holds for all of them covers every interruption. A recursion over the tree
    gets as fuel the number of nodes plus one; a parent is always older than its children, so this is enough.
  \<^item> \<open>Fork_Choice_Logic\<close>: the predicate \<open>runs\<close> (a program returns, does not panic, and satisfies a postcondition for
    results and one for errors) with one equation per statement.
  \<^item> \<open>Fork_Choice_Tree\<close>: the invariant \<open>tree_ok\<close>, the reference weight \<open>weight_of\<close>, the filtered tree \<open>viable_tree\<close> and the
    GHOST rule \<open>ghost\<close>; the recursions compute them. \<open>Fork_Choice_Votes\<close>: the balance of a node is the sum of the votes for
    it and the boost (\<open>accounted\<close>), through \<open>updateBalances\<close> and \<open>applyProposerBoostScore\<close>.
  \<^item> \<open>Fork_Choice_Safe\<close>, \<open>Fork_Choice_Prune\<close>: no recursion follows a nil pointer or runs out of fuel; the plan of a prune
    removes exactly the nodes outside the finalized subtree and leaves a tree.
  \<^item> \<open>Fork_Choice_Head\<close>: \<open>Head\<close> returns the block that the GHOST rule selects over the sums of the latest votes.
  \<^item> \<open>Fork_Choice_Invariant\<close>: the operations keep the invariant \<open>fc_ok\<close>. \<open>Fork_Choice_Claims\<close>: the head is LMD GHOST (C1),
    and a new slot is atomic (C2).

  \<^bold>\<open>Not modelled.\<close> Networking, sync, databases, RPC and APIs, the validator client's keys and duties, command line and
  monitoring are I/O around this core. Block processing, signatures and the execution engine call external
  libraries (ML-DSA-87, the engine API) and the generated protobuf types. Goroutines and mutexes are not modelled: a
  call under a lock is one step, and where code hands work to goroutines (\<open>VectorizedSha256\<close>, the caches' asynchronous
  fill) the order of completion is an argument or the fill is a step of its own. Aliasing of slices is not modelled;
  slices are values. Metrics, logs and traces are left out.
\<close>

end
